(* ===== verification/Prelude.thy ===== *)
theory Prelude
  imports Main "HOL-Library.Word" "HOL-Library.Code_Target_Nat"
begin

text \<open>
  Shared vocabulary of the development: the outcome of code that can abort the process
  (\<open>LOG(FATAL)\<close>, a failed \<open>CHECK\<close>, an out-of-range access, a stale pointer, \<open>exit\<close>),
  sequencing of such code, machine integer abbreviations, and the index-based string
  primitives of \<open>std::string\<close> and \<open>std::string_view\<close> that the sources use
  (\<open>find_first_of\<close>, \<open>find\<close>, \<open>rfind\<close>, \<open>substr\<close>, \<open>starts_with\<close>), with the lemmas that let
  the component proofs work on lists instead of indices.
\<close>

section \<open>Outcomes\<close>

datatype fault =
    CheckFailed string      \<comment> \<open>a \<open>CHECK_*\<close> that does not hold\<close>
  | FatalLog string         \<comment> \<open>\<open>LOG(FATAL)\<close>\<close>
  | OutOfBounds             \<comment> \<open>an index outside a vector or view\<close>
  | DanglingPointer         \<comment> \<open>an access through a pointer to a deleted object\<close>
  | NullPointer
  | ProcessExit int         \<comment> \<open>\<open>exit(code)\<close>\<close>
  | Undefined string        \<comment> \<open>behaviour the language leaves undefined\<close>
  | StdException string     \<comment> \<open>an exception nobody catches\<close>
  | OutOfFuel               \<comment> \<open>a loop bound of the model was reached\<close>

type_synonym 'a result = "fault + 'a"

definition bind_r :: "'a result \<Rightarrow> ('a \<Rightarrow> 'b result) \<Rightarrow> 'b result" where
  "bind_r m f = (case m of Inl e \<Rightarrow> Inl e | Inr x \<Rightarrow> f x)"

definition check_r :: "bool \<Rightarrow> string \<Rightarrow> unit result" where
  "check_r b msg = (if b then Inr () else Inl (CheckFailed msg))"

named_theorems result_simps \<open>unfolding of outcomes\<close>
named_theorems result_iff \<open>when a sequence of outcomes succeeds\<close>

lemma bind_r_simps [simp, result_simps]:
  "bind_r (Inl e) f = Inl e"
  "bind_r (Inr x) f = f x"
  by (simp_all add: bind_r_def)

lemma bind_r_cong [fundef_cong]:
  "m = m' \<Longrightarrow> (\<And>x. m' = Inr x \<Longrightarrow> f x = f' x) \<Longrightarrow> bind_r m f = bind_r m' f'"
  by (cases m') simp_all

lemma bind_r_eq_Inr [result_iff]: "bind_r m f = Inr y \<longleftrightarrow> (\<exists>x. m = Inr x \<and> f x = Inr y)"
  by (cases m) auto

lemma bind_r_eq_Inl [result_iff]:
  "bind_r m f = Inl e \<longleftrightarrow> m = Inl e \<or> (\<exists>x. m = Inr x \<and> f x = Inl e)"
  by (cases m) auto

lemma check_r_simps [simp, result_simps]:
  "check_r True msg = Inr ()" "check_r False msg = Inl (CheckFailed msg)"
  by (simp_all add: check_r_def)

lemma check_r_eq_Inr [result_iff]: "check_r b msg = Inr u \<longleftrightarrow> b"
  by (simp add: check_r_def)

definition succeeds :: "'a result \<Rightarrow> bool" where
  "succeeds m = (case m of Inl _ \<Rightarrow> False | Inr _ \<Rightarrow> True)"

lemma succeeds_iff: "succeeds m \<longleftrightarrow> (\<exists>x. m = Inr x)"
  by (cases m) (auto simp: succeeds_def)

section \<open>Machine integers\<close>

type_synonym u8 = "8 word"
type_synonym u16 = "16 word"
type_synonym u32 = "32 word"
type_synonym u64 = "64 word"

lemma unat_bounds:
  "unat (w8 :: u8) < 256" "unat (w16 :: u16) < 65536" "unat (w32 :: u32) < 4294967296"
  using unsigned_less [of w8] unsigned_less [of w16] unsigned_less [of w32] by simp_all

text \<open>Bytes are \<open>char\<close> values; a payload is a \<^typ>\<open>string\<close>.\<close>

abbreviation byte_val :: "char \<Rightarrow> nat" where
  "byte_val c \<equiv> of_char c"

section \<open>Searching and slicing strings\<close>

text \<open>Position of the first element satisfying \<open>P\<close>; \<^const>\<open>None\<close> stands for \<open>npos\<close>.\<close>

fun find_idx :: "('a \<Rightarrow> bool) \<Rightarrow> 'a list \<Rightarrow> nat option" where
  "find_idx P [] = None"
| "find_idx P (x # xs) = (if P x then Some 0 else map_option Suc (find_idx P xs))"

text \<open>\<open>s.find_first_of(set, base)\<close>.\<close>

definition find_from :: "('a \<Rightarrow> bool) \<Rightarrow> nat \<Rightarrow> 'a list \<Rightarrow> nat option" where
  "find_from P base s = map_option ((+) base) (find_idx P (drop base s))"

text \<open>\<open>s.substr(pos, n)\<close> for \<open>pos \<le> s.size()\<close>.\<close>

definition substr :: "'a list \<Rightarrow> nat \<Rightarrow> nat \<Rightarrow> 'a list" where
  "substr s pos n = take n (drop pos s)"

text \<open>\<open>s.find(sub, base)\<close>, the first occurrence of a substring at or after \<open>base\<close>.\<close>

definition starts_with :: "'a list \<Rightarrow> 'a list \<Rightarrow> bool" where
  "starts_with s p = (take (length p) s = p)"

fun find_sub_idx :: "'a list \<Rightarrow> 'a list \<Rightarrow> nat option" where
  "find_sub_idx sub [] = (if sub = [] then Some 0 else None)"
| "find_sub_idx sub (x # xs) =
     (if starts_with (x # xs) sub then Some 0 else map_option Suc (find_sub_idx sub xs))"

definition find_sub :: "'a list \<Rightarrow> 'a list \<Rightarrow> nat \<Rightarrow> nat option" where
  "find_sub s sub base = map_option ((+) base) (find_sub_idx sub (drop base s))"

text \<open>\<open>s.rfind(sub)\<close> and \<open>s.rfind(c)\<close>, the last occurrence.\<close>

fun rfind_sub :: "'a list \<Rightarrow> 'a list \<Rightarrow> nat option" where
  "rfind_sub [] sub = (if sub = [] then Some 0 else None)"
| "rfind_sub (x # xs) sub =
     (case rfind_sub xs sub of
        Some i \<Rightarrow> Some (Suc i)
      | None \<Rightarrow> if starts_with (x # xs) sub then Some 0 else None)"

fun rfind_idx :: "('a \<Rightarrow> bool) \<Rightarrow> 'a list \<Rightarrow> nat option" where
  "rfind_idx P [] = None"
| "rfind_idx P (x # xs) =
     (case rfind_idx P xs of Some i \<Rightarrow> Some (Suc i) | None \<Rightarrow> if P x then Some 0 else None)"

lemma find_idx_None: "find_idx P xs = None \<longleftrightarrow> (\<forall>x \<in> set xs. \<not> P x)"
  by (induction xs) auto

lemma find_idx_SomeD:
  "find_idx P xs = Some i \<Longrightarrow> i < length xs \<and> P (xs ! i) \<and> (\<forall>x \<in> set (take i xs). \<not> P x)"
proof (induction xs arbitrary: i)
  case (Cons x xs)
  then show ?case by (cases "P x") auto
qed simp

lemma find_idx_append:
  "find_idx P (xs @ ys) =
     (case find_idx P xs of Some i \<Rightarrow> Some i | None \<Rightarrow> map_option ((+) (length xs)) (find_idx P ys))"
proof (induction xs)
  case (Cons x xs)
  then show ?case
    by (cases "find_idx P xs"; cases "find_idx P ys") auto
qed (simp add: option.map_ident_strong)

lemma find_idx_stop: "\<forall>x \<in> set xs. \<not> P x \<Longrightarrow> P y \<Longrightarrow> find_idx P (xs @ y # ys) = Some (length xs)"
  by (induction xs) auto

lemma find_from_SomeD: "find_from P b xs = Some i \<Longrightarrow> b \<le> i \<and> i < length xs \<and> P (xs ! i)"
  by (auto simp: find_from_def dest!: find_idx_SomeD)

lemma rfind_idx_None: "rfind_idx P xs = None \<longleftrightarrow> (\<forall>x \<in> set xs. \<not> P x)"
  by (induction xs) (auto split: option.splits)

lemma rfind_idx_SomeD:
  "rfind_idx P xs = Some i \<Longrightarrow> i < length xs \<and> P (xs ! i) \<and> (\<forall>x \<in> set (drop (Suc i) xs). \<not> P x)"
proof (induction xs arbitrary: i)
  case (Cons x xs)
  show ?case
  proof (cases "rfind_idx P xs")
    case None
    with Cons.prems show ?thesis by (auto split: if_splits simp: rfind_idx_None)
  next
    case (Some j)
    with Cons show ?thesis by auto
  qed
qed simp

lemma rfind_idx_stop:
  assumes "\<forall>x \<in> set ys. \<not> P x" "P y"
  shows "rfind_idx P (xs @ y # ys) = Some (length xs)"
proof -
  from assms(1) have "rfind_idx P ys = None" by (simp add: rfind_idx_None)
  with assms(2) show ?thesis by (induction xs) auto
qed

lemma starts_with_append [simp]: "starts_with (p @ s) p"
  by (simp add: starts_with_def)

lemma starts_withE:
  assumes "starts_with s p"
  obtains r where "s = p @ r"
  using assms by (metis append_take_drop_id starts_with_def)

lemma starts_with_iff: "starts_with s p \<longleftrightarrow> (\<exists>r. s = p @ r)"
  by (auto elim: starts_withE)

lemma drop_starts_with: "starts_with s p \<Longrightarrow> s = p @ drop (length p) s"
  by (auto elim!: starts_withE)

lemma starts_with_length: "starts_with s p \<Longrightarrow> length p \<le> length s"
  by (auto elim!: starts_withE)

lemma find_sub_idx_SomeD: "find_sub_idx sub xs = Some i \<Longrightarrow> i + length sub \<le> length xs \<and> starts_with (drop i xs) sub"
proof (induction xs arbitrary: i)
  case Nil
  then show ?case by (auto split: if_splits simp: starts_with_def)
next
  case (Cons x xs)
  then show ?case
    by (auto split: if_splits dest: starts_with_length)
qed

lemma find_sub_SomeD:
  "find_sub s sub base = Some pos \<Longrightarrow> sub \<noteq> [] \<Longrightarrow> base \<le> pos \<and> pos + length sub \<le> length s \<and> starts_with (drop pos s) sub"
  by (cases "base \<le> length s") (auto simp: find_sub_def add.commute dest!: find_sub_idx_SomeD)

end
