(* ===== verification/Byte_Queue.thy ===== *)
theory Byte_Queue
  imports Prelude
begin

text \<open>
  The interface between the scatter/gather buffer of \<open>adb/types.h\<close> and its client, the
  local socket: a queue of bytes that grows by whole blocks at the back and shrinks by an
  arbitrary number of bytes at the front. The client never looks at the blocks. What it
  relies on is stated once here, and its data-integrity argument (every byte handed to
  the queue leaves it exactly once and in order) is proved once for every implementation.
\<close>

datatype 'b queue_event = Push 'b | Flush nat

locale byte_queue =
  fixes empty :: "'q"
    and append :: "'q \<Rightarrow> 'b \<Rightarrow> 'q"
    and drop_front :: "'q \<Rightarrow> nat \<Rightarrow> 'q result"
    and size_of :: "'q \<Rightarrow> nat"
    and content :: "'q \<Rightarrow> string"
    and bytes :: "'b \<Rightarrow> string"
    and invar :: "'q \<Rightarrow> bool"
    and valid_block :: "'b \<Rightarrow> bool"
    and max_drop :: nat
  assumes invar_empty: "invar empty"
    and content_empty: "content empty = []"
    and invar_append: "invar q \<Longrightarrow> valid_block b \<Longrightarrow> invar (append q b)"
    and content_append: "invar q \<Longrightarrow> valid_block b \<Longrightarrow> content (append q b) = content q @ bytes b"
    and size_content: "invar q \<Longrightarrow> size_of q = length (content q)"
    and drop_front_spec: "invar q \<Longrightarrow> n \<le> size_of q \<Longrightarrow> n < max_drop \<Longrightarrow>
           \<exists>q'. drop_front q n = Inr q' \<and> invar q' \<and> content q' = drop n (content q)"
begin

text \<open>
  A schedule of blocks arriving and partial writes draining the queue. The writer is told
  how many bytes the descriptor took; it may never take more than are queued. The second
  component accumulates the bytes that have left.
\<close>

fun run_queue :: "'q \<times> string \<Rightarrow> 'b queue_event list \<Rightarrow> ('q \<times> string) result" where
  "run_queue (q, out) [] = Inr (q, out)"
| "run_queue (q, out) (Push b # es) = run_queue (append q b, out) es"
| "run_queue (q, out) (Flush n # es) =
     bind_r (drop_front q n) (\<lambda>q'. run_queue (q', out @ take n (content q)) es)"

fun pushed :: "'b queue_event list \<Rightarrow> string" where
  "pushed [] = []"
| "pushed (Push b # es) = bytes b @ pushed es"
| "pushed (Flush n # es) = pushed es"

fun schedule_ok :: "nat \<Rightarrow> 'b queue_event list \<Rightarrow> bool" where
  "schedule_ok k [] = True"
| "schedule_ok k (Push b # es) = (valid_block b \<and> schedule_ok (k + length (bytes b)) es)"
| "schedule_ok k (Flush n # es) = (n \<le> k \<and> n < max_drop \<and> schedule_ok (k - n) es)"

lemma run_queue_integrity:
  "invar q \<Longrightarrow> schedule_ok (size_of q) es \<Longrightarrow>
     \<exists>q' out'. run_queue (q, out) es = Inr (q', out') \<and> invar q' \<and>
       out' @ content q' = out @ content q @ pushed es"
proof (induction es arbitrary: q out)
  case Nil
  then show ?case by simp
next
  case (Cons e es)
  show ?case
  proof (cases e)
    case (Push b)
    with Cons.prems have v: "invar (append q b)" "content (append q b) = content q @ bytes b"
      by (simp_all add: invar_append content_append)
    with Push Cons.prems have "schedule_ok (size_of (append q b)) es"
      by (simp add: size_content)
    from Cons.IH [OF v(1) this, of out] Push v(2) show ?thesis by auto
  next
    case (Flush n)
    with Cons.prems obtain q' where
      q': "drop_front q n = Inr q'" "invar q'" "content q' = drop n (content q)"
      using drop_front_spec by fastforce
    with Flush Cons.prems have "schedule_ok (size_of q') es"
      by (simp add: size_content)
    from Cons.IH [OF q'(2) this, of "out @ take n (content q)"] q' Flush show ?thesis
      by auto
  qed
qed

lemma run_queue_prefix:
  assumes "schedule_ok 0 es"
  shows "\<exists>q' out'. run_queue (empty, []) es = Inr (q', out') \<and> out' @ content q' = pushed es"
  using run_queue_integrity [of empty es "[]"] assms
  by (auto simp: invar_empty content_empty size_content)

end

end
