(* ===== verification/IOVec.thy ===== *)
theory IOVec
  imports Byte_Queue
begin

text \<open>
  \<open>adb/types.h\<close> and \<open>adb/types.cpp\<close>: \<open>Block\<close>, a heap buffer with a capacity and a size,
  and \<open>IOVector\<close>, a chain of blocks whose first \<open>start_index_\<close> entries and the first
  \<open>begin_offset_\<close> bytes after them have been consumed. A moved-from block is the empty
  block. The contents of a freshly allocated buffer are indeterminate: operations that
  allocate take them as an argument (\<open>junk\<close>). Lengths are \<open>size_t\<close> and are modelled as
  natural numbers; the invariant shows that the subtractions never go below zero. The
  counter \<open>dropped\<close> of \<open>drop_front\<close> is a 32-bit \<open>unsigned\<close> and wraps.
\<close>

section \<open>Block\<close>

record block =
  buf :: string       \<comment> \<open>\<open>data_\<close>, of length \<open>capacity_\<close>\<close>
  bsize :: nat        \<comment> \<open>\<open>size_\<close>\<close>

definition Block_empty :: block where
  "Block_empty = \<lparr>buf = [], bsize = 0\<rparr>"

definition Block_capacity :: "block \<Rightarrow> nat" where
  "Block_capacity b = length (buf b)"

definition Block_data :: "block \<Rightarrow> string" where
  "Block_data b = take (bsize b) (buf b)"

definition Block_allocate :: "(nat \<Rightarrow> char) \<Rightarrow> nat \<Rightarrow> block" where
  "Block_allocate junk n = \<lparr>buf = map junk [0..<n], bsize = n\<rparr>"

definition Block_of :: "string \<Rightarrow> block" where
  "Block_of s = \<lparr>buf = s, bsize = length s\<rparr>"

definition Block_resize :: "(nat \<Rightarrow> char) \<Rightarrow> block \<Rightarrow> nat \<Rightarrow> block result" where
  "Block_resize junk b n =
     (if buf b = [] then Inr (Block_allocate junk n)
      else bind_r (check_r (Block_capacity b \<ge> n) ''capacity_ >= new_size'')
        (\<lambda>_. Inr (b\<lparr>bsize := n\<rparr>)))"

definition block_wf :: "block \<Rightarrow> bool" where
  "block_wf b \<longleftrightarrow> bsize b \<le> length (buf b)"

lemma Block_empty_simps [simp]: "buf Block_empty = []" "bsize Block_empty = 0" "block_wf Block_empty"
  "Block_data Block_empty = []"
  by (simp_all add: Block_empty_def block_wf_def Block_data_def)

lemma Block_of_simps [simp]: "bsize (Block_of s) = length s" "block_wf (Block_of s)"
  "Block_data (Block_of s) = s" "buf (Block_of s) = s"
  by (simp_all add: Block_of_def block_wf_def Block_data_def)

lemma length_Block_data [simp]: "block_wf b \<Longrightarrow> length (Block_data b) = bsize b"
  by (simp add: block_wf_def Block_data_def)

section \<open>IOVector\<close>

record iovector =
  chain_length :: nat
  begin_offset :: nat
  start_index :: nat
  chain :: "block list"

definition IOVector_empty :: iovector where
  "IOVector_empty = \<lparr>chain_length = 0, begin_offset = 0, start_index = 0, chain = []\<rparr>"

definition IOVector_size :: "iovector \<Rightarrow> nat" where
  "IOVector_size v = chain_length v - begin_offset v"

definition IOVector_append :: "iovector \<Rightarrow> block \<Rightarrow> iovector" where
  "IOVector_append v b =
     (if bsize b = 0 then v
      else v\<lparr>chain_length := chain_length v + bsize b, chain := chain v @ [b]\<rparr>)"

text \<open>\<open>clear\<close> empties the vector and hands the last block back for reuse.\<close>

definition IOVector_clear :: "iovector \<Rightarrow> block \<times> iovector" where
  "IOVector_clear v =
     (if chain v = [] then Block_empty else last (chain v), IOVector_empty)"

definition front_data :: "iovector \<Rightarrow> string option result" where
  "front_data v =
     (if chain v = [] then Inr None
      else if start_index v < length (chain v)
        then Inr (Some (drop (begin_offset v) (Block_data (chain v ! start_index v))))
      else Inl OutOfBounds)"

definition front_size :: "iovector \<Rightarrow> nat result" where
  "front_size v =
     (if chain v = [] then Inr 0
      else if start_index v < length (chain v)
        then Inr (bsize (chain v ! start_index v) - begin_offset v)
      else Inl OutOfBounds)"

definition trim_chain_front :: "iovector \<Rightarrow> iovector" where
  "trim_chain_front v =
     (if start_index v \<noteq> 0 then v\<lparr>chain := drop (start_index v) (chain v), start_index := 0\<rparr> else v)"

definition pop_front_block :: "iovector \<Rightarrow> iovector" where
  "pop_front_block v =
     (let b = chain v ! start_index v;
          v1 = v\<lparr>chain_length := chain_length v - bsize b, begin_offset := 0,
                 chain := (chain v)[start_index v := Block_empty],
                 start_index := Suc (start_index v)\<rparr>
      in if start_index v1 > max 4 (length (chain v1) div 2) then trim_chain_front v1 else v1)"

lemma pop_front_block_remaining [simp]:
  "start_index v < length (chain v) \<Longrightarrow>
   length (chain (pop_front_block v)) - start_index (pop_front_block v) =
     length (chain v) - Suc (start_index v)"
  by (auto simp: pop_front_block_def trim_chain_front_def Let_def)

function drop_front_loop :: "iovector \<Rightarrow> nat \<Rightarrow> nat \<Rightarrow> iovector result" where
  "drop_front_loop v len dropped =
     (if dropped < len then
        if start_index v < length (chain v) then
          let next = bsize (chain v ! start_index v) - begin_offset v
          in if dropped + next \<le> len
             then drop_front_loop (pop_front_block v) len ((dropped + next) mod 2 ^ 32)
             else Inr (v\<lparr>begin_offset := begin_offset v + (len - dropped)\<rparr>)
        else Inl OutOfBounds
      else Inr v)"
  by pat_completeness auto
termination
  by (relation "measure (\<lambda>(v, _, _). length (chain v) - start_index v)") auto

declare drop_front_loop.simps [simp del]

definition IOVector_drop_front :: "iovector \<Rightarrow> nat \<Rightarrow> iovector result" where
  "IOVector_drop_front v len =
     (if len = 0 then Inr v
      else if len = IOVector_size v then Inr (snd (IOVector_clear v))
      else bind_r (check_r (len < IOVector_size v) ''len < size()'')
        (\<lambda>_. drop_front_loop v len 0))"

text \<open>
  The first loop of \<open>take_front\<close>: blocks that go over as a whole. Its state is this
  vector, the result vector and the number of bytes still to take.
\<close>

function take_front_loop :: "iovector \<Rightarrow> iovector \<Rightarrow> nat \<Rightarrow> (iovector \<times> iovector \<times> nat) result" where
  "take_front_loop v res len =
     (if start_index v < length (chain v) then
        let b = chain v ! start_index v
        in if bsize b - begin_offset v \<le> len then
             take_front_loop
               (v\<lparr>chain_length := chain_length v - bsize b,
                  begin_offset := 0,
                  chain := (if bsize b > begin_offset v
                            then (chain v)[start_index v := Block_empty] else chain v),
                  start_index := Suc (start_index v)\<rparr>)
               (if bsize b > begin_offset v
                then (let r = IOVector_append res b
                      in if begin_offset v \<noteq> 0 then r\<lparr>begin_offset := begin_offset v\<rparr> else r)
                else res)
               (len - (bsize b - begin_offset v))
           else Inr (v, res, len)
      else Inl OutOfBounds)"
  by pat_completeness auto
termination
  by (relation "measure (\<lambda>(v, _, _). length (chain v) - start_index v)")
     (auto simp: Let_def)

declare take_front_loop.simps [simp del]

text \<open>The block that is split between the two vectors.\<close>

definition take_front_split ::
    "(nat \<Rightarrow> char) \<Rightarrow> iovector \<Rightarrow> iovector \<Rightarrow> nat \<Rightarrow> (iovector \<times> iovector) result" where
  "take_front_split junk v res len =
     (if len > 0 then
        let b = chain v ! start_index v
        in if begin_offset v \<noteq> 0 \<or> len < bsize b div 2 then
             Inr (IOVector_append res (Block_of (substr (Block_data b) (begin_offset v) len)),
                  v\<lparr>begin_offset := begin_offset v + len\<rparr>)
           else
             bind_r (check_r (begin_offset v = 0) ''begin_offset_ == 0'') (\<lambda>_.
             let tl_block = Block_of (drop len (Block_data b))
             in bind_r (Block_resize junk b len) (\<lambda>hd_block.
                Inr (IOVector_append res hd_block,
                     v\<lparr>chain_length := chain_length v - bsize b + bsize tl_block,
                       chain := (chain v)[start_index v := tl_block]\<rparr>)))
      else Inr (res, v))"

text \<open>Returns the taken bytes as a vector of their own, and what is left.\<close>

definition take_front :: "(nat \<Rightarrow> char) \<Rightarrow> iovector \<Rightarrow> nat \<Rightarrow> (iovector \<times> iovector) result" where
  "take_front junk v len =
     (if len = 0 then Inr (IOVector_empty, v)
      else if len = IOVector_size v then Inr (v, snd (IOVector_clear v))
      else bind_r (check_r (IOVector_size v \<ge> len) ''size() >= len'') (\<lambda>_.
        bind_r (take_front_loop v IOVector_empty len) (\<lambda>(v', res, len').
          take_front_split junk v' res len')))"

definition trim_front :: "(nat \<Rightarrow> char) \<Rightarrow> iovector \<Rightarrow> iovector result" where
  "trim_front junk v =
     (if (begin_offset v = 0 \<and> start_index v = 0) \<or> chain v = [] then Inr v
      else if \<not> start_index v < length (chain v) then Inl OutOfBounds
      else
        let b = chain v ! start_index v
        in bind_r
             (if begin_offset v = bsize b
              then Inr (v\<lparr>start_index := Suc (start_index v)\<rparr>)
              else
                let moved = b\<lparr>buf := drop (begin_offset v) (Block_data b) @
                                   drop (bsize b - begin_offset v) (buf b)\<rparr>
                in bind_r (Block_resize junk moved (bsize b - begin_offset v))
                     (\<lambda>b'. Inr (v\<lparr>chain := (chain v)[start_index v := b']\<rparr>)))
             (\<lambda>v'. Inr (trim_chain_front
                (v'\<lparr>chain_length := chain_length v' - begin_offset v', begin_offset := 0\<rparr>))))"

text \<open>\<open>iterate_blocks\<close> calls back once per remaining block; the model returns the slices.\<close>

definition iterate_blocks :: "iovector \<Rightarrow> string list result" where
  "iterate_blocks v =
     (if IOVector_size v = 0 then Inr []
      else case drop (start_index v) (chain v) of
        [] \<Rightarrow> Inr []
      | b # bs \<Rightarrow>
          bind_r (check_r (bsize b \<ge> begin_offset v) ''block.size() >= begin_offset_'')
            (\<lambda>_. Inr (drop (begin_offset v) (Block_data b) # map Block_data bs)))"

definition iovecs :: "iovector \<Rightarrow> string list result" where
  "iovecs v = iterate_blocks v"

definition memcpy_at :: "string \<Rightarrow> nat \<Rightarrow> string \<Rightarrow> string result" where
  "memcpy_at dst off src =
     (if off + length src \<le> length dst
      then Inr (take off dst @ src @ drop (off + length src) dst) else Inl OutOfBounds)"

fun copy_slices :: "string \<Rightarrow> nat \<Rightarrow> string list \<Rightarrow> string result" where
  "copy_slices dst off [] = Inr dst"
| "copy_slices dst off (d # ds) = bind_r (memcpy_at dst off d) (\<lambda>dst'. copy_slices dst' (off + length d) ds)"

definition coalesce :: "(nat \<Rightarrow> char) \<Rightarrow> iovector \<Rightarrow> block result" where
  "coalesce junk v =
     (if IOVector_size v = 0 then Inr Block_empty
      else bind_r (Block_resize junk Block_empty (IOVector_size v)) (\<lambda>r.
        bind_r (iterate_blocks v) (\<lambda>slices.
          bind_r (copy_slices (buf r) 0 slices) (\<lambda>d. Inr (r\<lparr>buf := d\<rparr>)))))"

text \<open>
  The destructive \<open>coalesce() &&\<close>: returns the bytes as one block, reusing an existing
  block where it can, and what is left of the vector.
\<close>

definition coalesce_rvalue :: "(nat \<Rightarrow> char) \<Rightarrow> iovector \<Rightarrow> (block \<times> iovector) result" where
  "coalesce_rvalue junk v =
     (if IOVector_size v = 0 then Inr (Block_empty, v)
      else if \<not> start_index v < length (chain v) then Inl OutOfBounds
      else
        let b = chain v ! start_index v; off = begin_offset v
        in if off = bsize b \<and> length (chain v) = start_index v + 2 then
             Inr (last (chain v),
                  v\<lparr>chain_length := chain_length v - bsize (last (chain v)), chain := butlast (chain v)\<rparr>)
           else if length (chain v) = start_index v + 1 then
             bind_r
               (if off \<noteq> 0
                then Block_resize junk
                       (b\<lparr>buf := drop off (Block_data b) @ drop (bsize b - off) (buf b)\<rparr>) (bsize b - off)
                else Inr b)
               (\<lambda>res. Inr (res, v\<lparr>chain_length := chain_length v - bsize b, begin_offset := 0,
                                   chain := butlast (chain v)\<rparr>))
           else if Block_capacity b \<ge> IOVector_size v then
             let moved = drop off (Block_data b) @ drop (bsize b - off) (buf b);
                 rest = map Block_data (drop (Suc (start_index v)) (chain v))
             in bind_r (copy_slices moved (bsize b - off) rest) (\<lambda>d.
                bind_r (Block_resize junk (b\<lparr>buf := d\<rparr>) (bsize b - off + length (concat rest))) (\<lambda>res.
                Inr (res, v\<lparr>chain_length := chain_length v - bsize b, begin_offset := 0,
                           chain := (chain v)[start_index v := Block_empty],
                           start_index := Suc (start_index v)\<rparr>)))
           else bind_r (coalesce junk v) (\<lambda>res. Inr (res, v)))"

section \<open>Invariant and contents\<close>

abbreviation live :: "iovector \<Rightarrow> block list" where
  "live v \<equiv> drop (start_index v) (chain v)"

definition iov_wf :: "iovector \<Rightarrow> bool" where
  "iov_wf v \<longleftrightarrow>
     start_index v \<le> length (chain v) \<and>
     (\<forall>b \<in> set (chain v). block_wf b) \<and>
     chain_length v = sum_list (map bsize (live v)) \<and>
     begin_offset v \<le> (case live v of [] \<Rightarrow> 0 | b # _ \<Rightarrow> bsize b)"

definition iov_content :: "iovector \<Rightarrow> string" where
  "iov_content v = drop (begin_offset v) (concat (map Block_data (live v)))"

lemma length_concat_data:
  "\<forall>b \<in> set bs. block_wf b \<Longrightarrow> length (concat (map Block_data bs)) = sum_list (map bsize bs)"
  by (induction bs) auto

lemma iov_size_content: "iov_wf v \<Longrightarrow> IOVector_size v = length (iov_content v)"
proof -
  assume wf: "iov_wf v"
  then have "\<forall>b \<in> set (live v). block_wf b"
    by (auto simp: iov_wf_def dest: in_set_dropD)
  with wf show ?thesis
    by (simp add: IOVector_size_def iov_content_def iov_wf_def length_concat_data)
qed

lemma IOVector_empty_simps [simp]:
  "iov_wf IOVector_empty" "iov_content IOVector_empty = []" "IOVector_size IOVector_empty = 0"
  "chain IOVector_empty = []" "start_index IOVector_empty = 0" "begin_offset IOVector_empty = 0"
  by (simp_all add: iov_wf_def iov_content_def IOVector_empty_def IOVector_size_def)

lemma live_Cons:
  "start_index v < length (chain v) \<Longrightarrow> live v = chain v ! start_index v # drop (Suc (start_index v)) (chain v)"
  by (simp add: Cons_nth_drop_Suc)

lemma iov_wfD:
  assumes "iov_wf v" "start_index v < length (chain v)"
  shows "block_wf (chain v ! start_index v)" "begin_offset v \<le> bsize (chain v ! start_index v)"
    "chain_length v = bsize (chain v ! start_index v) + sum_list (map bsize (drop (Suc (start_index v)) (chain v)))"
  using assms by (auto simp: iov_wf_def live_Cons)

lemma iov_content_Cons:
  assumes "iov_wf v" "start_index v < length (chain v)"
  shows "iov_content v = drop (begin_offset v) (Block_data (chain v ! start_index v)) @
           concat (map Block_data (drop (Suc (start_index v)) (chain v)))"
  using iov_wfD [OF assms] by (simp add: iov_content_def live_Cons [OF assms(2)])

lemma iov_nonempty_live: "iov_wf v \<Longrightarrow> 0 < length (iov_content v) \<Longrightarrow> start_index v < length (chain v)"
  by (rule ccontr) (auto simp: iov_wf_def iov_content_def)

lemma IOVector_append_correct:
  assumes "iov_wf v" "block_wf b"
  shows "iov_wf (IOVector_append v b)" "iov_content (IOVector_append v b) = iov_content v @ Block_data b"
proof -
  have off: "begin_offset v \<le> length (concat (map Block_data (live v)))"
  proof -
    have "\<forall>b \<in> set (live v). block_wf b" using assms(1) by (auto simp: iov_wf_def dest: in_set_dropD)
    then show ?thesis using assms(1)
      by (cases "live v") (auto simp: iov_wf_def)
  qed
  show "iov_wf (IOVector_append v b)"
    using assms by (auto simp: iov_wf_def IOVector_append_def split: list.splits)
  show "iov_content (IOVector_append v b) = iov_content v @ Block_data b"
    using assms off by (auto simp: iov_content_def IOVector_append_def iov_wf_def Block_data_def)
qed

lemma trim_chain_front_correct:
  assumes "iov_wf v"
  shows "iov_wf (trim_chain_front v)" "iov_content (trim_chain_front v) = iov_content v"
  using assms by (auto simp: iov_wf_def iov_content_def trim_chain_front_def dest: in_set_dropD)

lemma pop_front_block_correct:
  assumes "iov_wf v" "start_index v < length (chain v)"
  shows "iov_wf (pop_front_block v)"
    "iov_content (pop_front_block v) = concat (map Block_data (drop (Suc (start_index v)) (chain v)))"
proof -
  define v1 where "v1 = v\<lparr>chain_length := chain_length v - bsize (chain v ! start_index v),
    begin_offset := 0, chain := (chain v)[start_index v := Block_empty],
    start_index := Suc (start_index v)\<rparr>"
  have wf1: "iov_wf v1"
    using assms iov_wfD [OF assms]
    by (auto simp: v1_def iov_wf_def set_update_subset_insert [THEN subsetD] split: list.splits
        dest!: set_update_subset_insert [THEN subsetD])
  have c1: "iov_content v1 = concat (map Block_data (drop (Suc (start_index v)) (chain v)))"
    by (simp add: v1_def iov_content_def)
  have "pop_front_block v = (if start_index v1 > max 4 (length (chain v1) div 2) then trim_chain_front v1 else v1)"
    by (simp add: pop_front_block_def v1_def Let_def)
  then show "iov_wf (pop_front_block v)"
    "iov_content (pop_front_block v) = concat (map Block_data (drop (Suc (start_index v)) (chain v)))"
    using wf1 c1 trim_chain_front_correct [OF wf1] by simp_all
qed

lemma drop_front_loop_correct:
  assumes "iov_wf v" "dropped \<le> len" "len - dropped < IOVector_size v" "len < 2 ^ 32"
  shows "\<exists>v'. drop_front_loop v len dropped = Inr v' \<and> iov_wf v' \<and>
           iov_content v' = drop (len - dropped) (iov_content v)"
  using assms
proof (induction v len dropped rule: drop_front_loop.induct)
  case (1 v len dropped)
  show ?case
  proof (cases "dropped < len")
    case False
    with "1.prems" show ?thesis by (simp add: drop_front_loop.simps [of v len len])
  next
    case True
    let ?b = "chain v ! start_index v"
    let ?next = "bsize ?b - begin_offset v"
    let ?rest = "concat (map Block_data (drop (Suc (start_index v)) (chain v)))"
    have st: "start_index v < length (chain v)"
      using "1.prems" True by (auto simp: iov_size_content intro: iov_nonempty_live)
    note wfd = iov_wfD [OF "1.prems"(1) st]
    have c: "iov_content v = drop (begin_offset v) (Block_data ?b) @ ?rest"
      by (rule iov_content_Cons [OF "1.prems"(1) st])
    have ln: "length (drop (begin_offset v) (Block_data ?b)) = ?next"
      using wfd by simp
    show ?thesis
    proof (cases "dropped + ?next \<le> len")
      case True
      have m: "(dropped + ?next) mod 2 ^ 32 = dropped + ?next"
        using True "1.prems"(4) by simp
      note pc = pop_front_block_correct [OF "1.prems"(1) st]
      have lt: "len - (dropped + ?next) < IOVector_size (pop_front_block v)"
        using "1.prems"(3) True \<open>dropped < len\<close> c ln pc(2)
        by (simp add: iov_size_content "1.prems"(1) pc(1))
      from "1.IH" [OF \<open>dropped < len\<close> st refl True pc(1)] lt True m "1.prems"(4)
      have "\<exists>v'. drop_front_loop (pop_front_block v) len (dropped + ?next) = Inr v' \<and> iov_wf v' \<and>
          iov_content v' = drop (len - (dropped + ?next)) (iov_content (pop_front_block v))"
        by simp
      moreover have "drop (len - dropped) (iov_content v) = drop (len - (dropped + ?next)) ?rest"
        using c ln True by simp
      ultimately show ?thesis
        using \<open>dropped < len\<close> st True m pc(2)
        by (simp add: drop_front_loop.simps [of v len dropped] Let_def)
    next
      case False
      let ?v = "v\<lparr>begin_offset := begin_offset v + (len - dropped)\<rparr>"
      have "iov_wf ?v"
        using "1.prems"(1) False \<open>dropped < len\<close> wfd by (simp add: iov_wf_def live_Cons [OF st])
      moreover have "iov_content ?v = drop (len - dropped) (iov_content v)"
        by (simp add: iov_content_def add.commute)
      moreover have "drop_front_loop v len dropped = Inr ?v"
        by (simp only: drop_front_loop.simps [of v len dropped] Let_def \<open>dropped < len\<close> st False if_True if_False)
      ultimately show ?thesis by blast
    qed
  qed
qed

lemma IOVector_drop_front_correct:
  assumes "iov_wf v" "n \<le> IOVector_size v" "n < 2 ^ 32"
  shows "\<exists>v'. IOVector_drop_front v n = Inr v' \<and> iov_wf v' \<and> iov_content v' = drop n (iov_content v)"
proof -
  consider "n = 0" | "n \<noteq> 0" "n = IOVector_size v" | "n \<noteq> 0" "n < IOVector_size v"
    using assms(2) by linarith
  then show ?thesis
  proof cases
    case 1
    with assms(1) show ?thesis by (simp add: IOVector_drop_front_def)
  next
    case 2
    with assms(1) show ?thesis
      by (simp add: IOVector_drop_front_def IOVector_clear_def iov_size_content)
  next
    case 3
    with drop_front_loop_correct [OF assms(1), of 0 n] assms(3) show ?thesis
      by (simp add: IOVector_drop_front_def)
  qed
qed

text \<open>
  The vector provides the queue the sockets rely on. One \<open>drop_front\<close> may drop fewer than
  $2^{32}$ bytes, the range of its loop counter.
\<close>

definition drop_limit :: nat where
  "drop_limit = 2 ^ 32"

interpretation iov: byte_queue IOVector_empty IOVector_append IOVector_drop_front IOVector_size
  iov_content Block_data iov_wf block_wf drop_limit
  by unfold_locales
     (auto simp: IOVector_append_correct iov_size_content drop_limit_def intro: IOVector_drop_front_correct)

section \<open>Splitting, trimming and flattening\<close>

lemma take_front_append_correct:
  assumes "iov_wf res" "block_wf b" "off \<noteq> 0 \<longrightarrow> res = IOVector_empty" "off < bsize b"
  defines "r \<equiv> IOVector_append res b"
  defines "r' \<equiv> (if off \<noteq> 0 then r\<lparr>begin_offset := off\<rparr> else r)"
  shows "iov_wf r'" "iov_content r' = iov_content res @ drop off (Block_data b)"
proof -
  have r: "iov_wf r" "iov_content r = iov_content res @ Block_data b"
    using assms IOVector_append_correct by (simp_all add: r_def)
  have "iov_wf r' \<and> iov_content r' = iov_content res @ drop off (Block_data b)"
  proof (cases "off = 0")
    case False
    then have res: "res = IOVector_empty" using assms(3) by simp
    then have rr: "r = \<lparr>chain_length = bsize b, begin_offset = 0, start_index = 0, chain = [b]\<rparr>"
      using assms(4) by (simp add: r_def IOVector_append_def IOVector_empty_def)
    show ?thesis
      using False assms(2,4) res by (simp add: r'_def rr iov_wf_def iov_content_def)
  qed (use r in \<open>simp add: r'_def\<close>)
  then show "iov_wf r'" "iov_content r' = iov_content res @ drop off (Block_data b)" by simp_all
qed

lemma take_front_loop_correct:
  assumes "iov_wf v" "iov_wf res" "len < IOVector_size v" "begin_offset v \<noteq> 0 \<longrightarrow> res = IOVector_empty"
  shows "\<exists>v' res' len'. take_front_loop v res len = Inr (v', res', len') \<and> iov_wf v' \<and> iov_wf res' \<and>
     iov_content res' @ take len' (iov_content v') = iov_content res @ take len (iov_content v) \<and>
     drop len' (iov_content v') = drop len (iov_content v) \<and>
     start_index v' < length (chain v') \<and>
     len' < bsize (chain v' ! start_index v') - begin_offset v'"
  using assms
proof (induction v res len rule: take_front_loop.induct)
  case (1 v res len)
  let ?b = "chain v ! start_index v"
  let ?next = "bsize ?b - begin_offset v"
  let ?rest = "concat (map Block_data (drop (Suc (start_index v)) (chain v)))"
  have st: "start_index v < length (chain v)"
    using "1.prems" by (auto simp: iov_size_content intro: iov_nonempty_live)
  note wfd = iov_wfD [OF "1.prems"(1) st]
  have c: "iov_content v = drop (begin_offset v) (Block_data ?b) @ ?rest"
    by (rule iov_content_Cons [OF "1.prems"(1) st])
  have ln: "length (drop (begin_offset v) (Block_data ?b)) = ?next" using wfd by simp
  show ?case
  proof (cases "?next \<le> len")
    case False
    then show ?thesis
      using st "1.prems" by (simp add: take_front_loop.simps [of v res len] Let_def)
  next
    case True
    define v1 where "v1 = v\<lparr>chain_length := chain_length v - bsize ?b, begin_offset := 0,
      chain := (if bsize ?b > begin_offset v then (chain v)[start_index v := Block_empty] else chain v),
      start_index := Suc (start_index v)\<rparr>"
    define r1 where "r1 = (if bsize ?b > begin_offset v
      then (let r = IOVector_append res ?b in if begin_offset v \<noteq> 0 then r\<lparr>begin_offset := begin_offset v\<rparr> else r)
      else res)"
    have wf1: "iov_wf v1"
      using "1.prems"(1) wfd st
      by (auto simp: v1_def iov_wf_def split: list.splits dest!: set_update_subset_insert [THEN subsetD])
    have c1: "iov_content v1 = ?rest" by (simp add: v1_def iov_content_def)
    have r1: "iov_wf r1" "iov_content r1 = iov_content res @ drop (begin_offset v) (Block_data ?b)"
      using take_front_append_correct [OF "1.prems"(2) wfd(1) "1.prems"(4)] "1.prems"(2) ln
      by (simp_all add: r1_def Let_def)
    have lt: "len - ?next < IOVector_size v1"
      using "1.prems"(1,3) True c ln c1 by (simp add: iov_size_content wf1)
    have step: "take_front_loop v res len = take_front_loop v1 r1 (len - ?next)"
      using st True by (simp add: take_front_loop.simps [of v res len] Let_def v1_def r1_def)
    have IH: "\<exists>v' res' len'. take_front_loop v1 r1 (len - ?next) = Inr (v', res', len') \<and> iov_wf v' \<and> iov_wf res' \<and>
       iov_content res' @ take len' (iov_content v') = iov_content r1 @ take (len - ?next) (iov_content v1) \<and>
       drop len' (iov_content v') = drop (len - ?next) (iov_content v1) \<and>
       start_index v' < length (chain v') \<and> len' < bsize (chain v' ! start_index v') - begin_offset v'"
      unfolding v1_def r1_def
      by (rule "1.IH" [OF st refl True])
         (use wf1 r1 lt in \<open>simp_all add: v1_def [symmetric] r1_def [symmetric]\<close>, simp_all add: v1_def)
    have e: "iov_content r1 @ take (len - ?next) (iov_content v1) = iov_content res @ take len (iov_content v)"
      "drop (len - ?next) (iov_content v1) = drop len (iov_content v)"
      using True c c1 r1(2) ln by simp_all
    show ?thesis using IH unfolding step e .
  qed
qed

lemma drop_list_update_same: "n < length xs \<Longrightarrow> drop n (xs[n := y]) = y # drop (Suc n) xs"
  by (metis Cons_nth_drop_Suc drop_update_cancel length_list_update lessI nth_list_update_eq)

lemma take_front_split_correct:
  assumes "iov_wf v" "iov_wf res" "start_index v < length (chain v)"
    "len < bsize (chain v ! start_index v) - begin_offset v"
  shows "\<exists>res' v'. take_front_split junk v res len = Inr (res', v') \<and> iov_wf res' \<and> iov_wf v' \<and>
     iov_content res' = iov_content res @ take len (iov_content v) \<and> iov_content v' = drop len (iov_content v)"
proof -
  let ?b = "chain v ! start_index v"
  note wfd = iov_wfD [OF assms(1,3)]
  have c: "iov_content v = drop (begin_offset v) (Block_data ?b) @
      concat (map Block_data (drop (Suc (start_index v)) (chain v)))"
    by (rule iov_content_Cons [OF assms(1,3)])
  have tk: "take len (iov_content v) = substr (Block_data ?b) (begin_offset v) len"
    using c wfd assms(4) by (simp add: substr_def)
  consider "len = 0" | "0 < len" "begin_offset v \<noteq> 0 \<or> len < bsize ?b div 2"
    | "0 < len" "begin_offset v = 0" "\<not> len < bsize ?b div 2" by blast
  then show ?thesis
  proof cases
    case 1
    with assms show ?thesis by (simp add: take_front_split_def)
  next
    case 2
    let ?v = "v\<lparr>begin_offset := begin_offset v + len\<rparr>"
    have "iov_wf ?v" using assms(1,4) wfd by (simp add: iov_wf_def live_Cons [OF assms(3)])
    moreover have "iov_content ?v = drop len (iov_content v)" by (simp add: iov_content_def add.commute)
    ultimately show ?thesis
      using 2 IOVector_append_correct [OF assms(2)] by (simp add: take_front_split_def Let_def tk)
  next
    case 3
    let ?t = "Block_of (drop len (Block_data ?b))"
    let ?h = "?b\<lparr>bsize := len\<rparr>"
    let ?v = "v\<lparr>chain_length := chain_length v - bsize ?b + bsize ?t, chain := (chain v)[start_index v := ?t]\<rparr>"
    have rs: "Block_resize junk ?b len = Inr ?h"
      using assms(4) wfd(1) 3 by (auto simp: Block_resize_def block_wf_def Block_capacity_def)
    have h: "block_wf ?h" "Block_data ?h = take len (Block_data ?b)"
      using assms(4) wfd(1) by (auto simp: block_wf_def Block_data_def min_def)
    have "iov_wf ?v"
      using assms(1,3,4) wfd 3
      by (auto simp: iov_wf_def drop_list_update_same live_Cons [OF assms(3)]
          dest!: set_update_subset_insert [THEN subsetD])
    moreover have "iov_content ?v = drop len (iov_content v)"
      using c 3 assms(3,4) wfd by (simp add: iov_content_def drop_list_update_same)
    ultimately show ?thesis
      using 3 rs h IOVector_append_correct [OF assms(2) h(1)]
      by (simp add: take_front_split_def Let_def tk substr_def)
  qed
qed

text \<open>
  \<open>take_front(len)\<close> splits the queued bytes at \<open>len\<close>: the returned vector holds the first
  \<open>len\<close> bytes, the receiver keeps the rest, and both are well formed.
\<close>

lemma take_front_correct:
  assumes "iov_wf v" "len \<le> IOVector_size v"
  shows "\<exists>res v'. take_front junk v len = Inr (res, v') \<and> iov_wf res \<and> iov_wf v' \<and>
     iov_content res = take len (iov_content v) \<and> iov_content v' = drop len (iov_content v)"
proof -
  consider "len = 0" | "len \<noteq> 0" "len = IOVector_size v" | "len \<noteq> 0" "len < IOVector_size v"
    using assms(2) by linarith
  then show ?thesis
  proof cases
    case 3
    from take_front_loop_correct [OF assms(1) IOVector_empty_simps(1) 3(2)] obtain v1 r1 l1 where
      l: "take_front_loop v IOVector_empty len = Inr (v1, r1, l1)" "iov_wf v1" "iov_wf r1"
        "iov_content r1 @ take l1 (iov_content v1) = take len (iov_content v)"
        "drop l1 (iov_content v1) = drop len (iov_content v)"
        "start_index v1 < length (chain v1)" "l1 < bsize (chain v1 ! start_index v1) - begin_offset v1"
      by auto
    from take_front_split_correct [OF l(2,3,6,7), of junk] l 3 show ?thesis
      by (auto simp: take_front_def)
  qed (use assms in \<open>auto simp: take_front_def IOVector_clear_def iov_size_content\<close>)
qed

lemma copy_slices_correct:
  "off + length (concat ds) \<le> length dst \<Longrightarrow>
     copy_slices dst off ds = Inr (take off dst @ concat ds @ drop (off + length (concat ds)) dst)"
proof (induction ds arbitrary: dst off)
  case Nil
  then show ?case by simp
next
  case (Cons d ds)
  let ?dst = "take off dst @ d @ drop (off + length d) dst"
  have m: "memcpy_at dst off d = Inr ?dst" using Cons.prems by (simp add: memcpy_at_def)
  have "off + length d + length (concat ds) \<le> length ?dst" using Cons.prems by simp
  moreover have "off \<le> length dst" using Cons.prems by simp
  ultimately show ?case
    using Cons.IH [of "off + length d" ?dst] by (simp add: m ac_simps)
qed

lemma iterate_blocks_correct:
  assumes "iov_wf v"
  shows "\<exists>ss. iterate_blocks v = Inr ss \<and> concat ss = iov_content v"
proof (cases "IOVector_size v = 0")
  case True
  with assms show ?thesis by (simp add: iterate_blocks_def iov_size_content)
next
  case False
  then have st: "start_index v < length (chain v)"
    using assms by (auto simp: iov_size_content intro: iov_nonempty_live)
  show ?thesis
    using False iov_wfD [OF assms st] iov_content_Cons [OF assms st]
    by (simp add: iterate_blocks_def live_Cons [OF st])
qed

lemma coalesce_correct:
  assumes "iov_wf v"
  shows "\<exists>b. coalesce junk v = Inr b \<and> block_wf b \<and> Block_data b = iov_content v"
proof (cases "IOVector_size v = 0")
  case True
  with assms show ?thesis by (simp add: coalesce_def iov_size_content)
next
  case False
  from iterate_blocks_correct [OF assms] obtain ss where
    ss: "iterate_blocks v = Inr ss" "concat ss = iov_content v" by blast
  have l: "length (concat ss) = IOVector_size v" using assms ss(2) by (simp add: iov_size_content)
  define r where "r = Block_allocate junk (IOVector_size v)"
  have r: "length (buf r) = IOVector_size v" "bsize r = IOVector_size v" by (simp_all add: r_def Block_allocate_def)
  have "copy_slices (buf r) 0 ss = Inr (concat ss)"
    using copy_slices_correct [of 0 ss "buf r"] l r by simp
  then show ?thesis
    using False ss l r
    by (simp add: coalesce_def Block_resize_def r_def [symmetric] block_wf_def Block_data_def)
qed

lemma shift_front_correct:
  assumes "block_wf b" "off < bsize b"
  shows "\<exists>b'. Block_resize junk (b\<lparr>buf := drop off (Block_data b) @ drop (bsize b - off) (buf b)\<rparr>)
      (bsize b - off) = Inr b' \<and> block_wf b' \<and> Block_data b' = drop off (Block_data b) \<and> bsize b' = bsize b - off"
proof -
  have "buf b \<noteq> []" "bsize b \<le> length (buf b)" "bsize b - off \<le> length (buf b)"
    using assms by (auto simp: block_wf_def)
  with assms(2) show ?thesis
    by (auto simp: Block_resize_def Block_capacity_def Block_data_def block_wf_def)
qed

lemma trim_front_correct:
  assumes "iov_wf v" "start_index v < length (chain v) \<or> chain v = []"
  shows "\<exists>v'. trim_front junk v = Inr v' \<and> iov_wf v' \<and> iov_content v' = iov_content v \<and>
     start_index v' = 0 \<and> begin_offset v' = 0"
proof (cases "(begin_offset v = 0 \<and> start_index v = 0) \<or> chain v = []")
  case True
  with assms(1) show ?thesis by (auto simp: trim_front_def iov_wf_def)
next
  case False
  have st: "start_index v < length (chain v)"
    using assms(2) False by simp
  let ?b = "chain v ! start_index v"
  let ?off = "begin_offset v"
  let ?n = "bsize ?b - ?off"
  let ?mv = "?b\<lparr>buf := drop ?off (Block_data ?b) @ drop ?n (buf ?b)\<rparr>"
  note wfd = iov_wfD [OF assms(1) st]
  have wfb: "\<forall>b \<in> set (chain v). block_wf b" using assms(1) by (simp add: iov_wf_def)
  show ?thesis
  proof (cases "?off = bsize ?b")
    case True
    define v1 where "v1 = v\<lparr>start_index := Suc (start_index v), chain_length := chain_length v - ?off, begin_offset := 0\<rparr>"
    have v1: "iov_wf v1" "iov_content v1 = iov_content v" "start_index v1 \<noteq> 0"
      using st True wfd wfb iov_content_Cons [OF assms(1) st]
      by (auto simp: v1_def iov_wf_def iov_content_def split: list.splits)
    have "trim_front junk v = Inr (trim_chain_front v1)"
      unfolding trim_front_def if_not_P [OF False] using st True by (simp add: v1_def)
    with v1 trim_chain_front_correct [OF v1(1)] show ?thesis
      by (auto simp: trim_chain_front_def v1_def)
  next
    case False': False
    have n: "?off < bsize ?b" using False' wfd by simp
    from shift_front_correct [OF wfd(1) n, of junk] obtain b' where
      rs: "Block_resize junk ?mv ?n = Inr b'" and
      b': "block_wf b'" "Block_data b' = drop ?off (Block_data ?b)" "bsize b' = ?n" by blast
    define v1 where "v1 = v\<lparr>chain := (chain v)[start_index v := b'], chain_length := chain_length v - ?off, begin_offset := 0\<rparr>"
    have v1: "iov_wf v1" "iov_content v1 = iov_content v"
      using st wfd wfb b' n iov_content_Cons [OF assms(1) st]
      by (auto simp: v1_def iov_wf_def iov_content_def drop_list_update_same
          dest!: set_update_subset_insert [THEN subsetD])
    have "trim_front junk v = Inr (trim_chain_front v1)"
      unfolding trim_front_def if_not_P [OF False] using st False' rs by (simp add: v1_def Let_def)
    with v1 trim_chain_front_correct [OF v1(1)] show ?thesis
      by (auto simp: trim_chain_front_def v1_def)
  qed
qed

lemma coalesce_rvalue_in_place:
  assumes "iov_wf v" and st: "start_index v < length (chain v)"
    and cap: "Block_capacity (chain v ! start_index v) \<ge> IOVector_size v" and ne: "IOVector_size v \<noteq> 0"
  defines "b \<equiv> chain v ! start_index v"
  defines "rest \<equiv> map Block_data (drop (Suc (start_index v)) (chain v))"
  defines "moved \<equiv> drop (begin_offset v) (Block_data b) @ drop (bsize b - begin_offset v) (buf b)"
  shows "\<exists>d res. copy_slices moved (bsize b - begin_offset v) rest = Inr d \<and>
     Block_resize junk (b\<lparr>buf := d\<rparr>) (bsize b - begin_offset v + length (concat rest)) = Inr res \<and>
     block_wf res \<and> Block_data res = iov_content v"
proof -
  note wfd = iov_wfD [OF assms(1) st, folded b_def]
  have c: "iov_content v = drop (begin_offset v) (Block_data b) @ concat rest"
    using iov_content_Cons [OF assms(1) st] by (simp add: b_def rest_def)
  have sz: "bsize b - begin_offset v + length (concat rest) = IOVector_size v"
    using iov_size_content [OF assms(1)] c wfd by simp
  have lm: "length moved = length (buf b)" using wfd by (simp add: moved_def block_wf_def)
  have cap': "IOVector_size v \<le> length (buf b)" using cap by (simp add: Block_capacity_def b_def)
  have "copy_slices moved (bsize b - begin_offset v) rest =
      Inr (take (bsize b - begin_offset v) moved @ concat rest @ drop (IOVector_size v) moved)"
    using copy_slices_correct [of "bsize b - begin_offset v" rest moved] sz lm cap' by simp
  moreover have "take (bsize b - begin_offset v) moved = drop (begin_offset v) (Block_data b)"
    using wfd by (simp add: moved_def)
  moreover have "length (iov_content v) = IOVector_size v" using iov_size_content [OF assms(1)] by simp
  ultimately show ?thesis
    using sz cap' lm ne c [symmetric]
    by (auto simp: Block_resize_def Block_capacity_def Block_data_def block_wf_def simp flip: append_assoc)
qed

text \<open>The two branches of \<open>coalesce() &&\<close> that pop the last block off the chain.\<close>

lemma coalesce_rvalue_pop_second:
  assumes "iov_wf v" "IOVector_size v \<noteq> 0" and st: "start_index v < length (chain v)"
    and two: "begin_offset v = bsize (chain v ! start_index v)" "length (chain v) = start_index v + 2"
  shows "\<exists>b v'. coalesce_rvalue junk v = Inr (b, v') \<and> block_wf b \<and> Block_data b = iov_content v \<and> iov_wf v'"
proof -
  have dl: "drop (Suc (start_index v)) (chain v) = [chain v ! Suc (start_index v)]"
    using two Cons_nth_drop_Suc [of "Suc (start_index v)" "chain v"] by simp
  have lb: "last (chain v) = chain v ! Suc (start_index v)"
    "drop (start_index v) (butlast (chain v)) = [chain v ! start_index v]"
    using two st by (simp_all add: last_conv_nth butlast_conv_take drop_take live_Cons) (metis last_conv_nth list.size(3) nat.simps(3) diff_Suc_1)
  have "\<forall>b \<in> set (chain v). block_wf b" using assms(1) by (simp add: iov_wf_def)
  with dl lb st assms(2) two iov_wfD [OF assms(1) st] iov_content_Cons [OF assms(1) st] show ?thesis
    by (auto simp: coalesce_rvalue_def Let_def iov_wf_def dest: in_set_butlastD)
qed

lemma coalesce_rvalue_pop_only:
  assumes "iov_wf v" "IOVector_size v \<noteq> 0" and one: "length (chain v) = start_index v + 1"
  shows "\<exists>b v'. coalesce_rvalue junk v = Inr (b, v') \<and> block_wf b \<and> Block_data b = iov_content v \<and>
     iov_wf v' \<and> chain v' = butlast (chain v) \<and> start_index v' = start_index v"
proof -
  let ?b = "chain v ! start_index v"
  have st: "start_index v < length (chain v)" using one by simp
  note wfd = iov_wfD [OF assms(1) st] and ct = iov_content_Cons [OF assms(1) st]
  have dl: "drop (Suc (start_index v)) (chain v) = []" using one by simp
  have wfb: "\<forall>b \<in> set (butlast (chain v)). block_wf b"
    using assms(1) by (auto simp: iov_wf_def dest: in_set_butlastD)
  have off: "begin_offset v < bsize ?b"
    using assms(2) wfd ct dl iov_size_content [OF assms(1)] by auto
  show ?thesis
    using shift_front_correct [OF wfd(1) off, of junk] one assms(2) st wfd ct wfb dl
    by (cases "begin_offset v = 0")
       (auto simp: coalesce_rvalue_def Let_def iov_wf_def)
qed

section \<open>Properties\<close>



text \<open>
  The destructive \<open>coalesce() &&\<close> never faults on a well-formed vector; the block it returns
  holds exactly the queued bytes, whichever of the five branches produced it, and the vector it
  leaves behind satisfies the invariant again.
\<close>

lemma coalesce_rvalue_flattens:
  assumes "iov_wf v"
  shows "\<exists>b v'. coalesce_rvalue junk v = Inr (b, v') \<and> block_wf b \<and> Block_data b = iov_content v \<and> iov_wf v'"
proof (cases "IOVector_size v = 0")
  case True
  with assms show ?thesis by (simp add: coalesce_rvalue_def iov_size_content)
next
  case False
  then have st: "start_index v < length (chain v)"
    using assms by (auto simp: iov_size_content intro: iov_nonempty_live)
  let ?b = "chain v ! start_index v"
  note wfd = iov_wfD [OF assms st]
  have wfb: "\<forall>b \<in> set (chain v). block_wf b" using assms by (simp add: iov_wf_def)
  consider (two) "begin_offset v = bsize ?b" "length (chain v) = start_index v + 2"
    | (one) "length (chain v) = start_index v + 1"
    | (reuse) "\<not> (begin_offset v = bsize ?b \<and> length (chain v) = start_index v + 2)"
        "length (chain v) \<noteq> start_index v + 1" "Block_capacity ?b \<ge> IOVector_size v"
    | (copy) "\<not> (begin_offset v = bsize ?b \<and> length (chain v) = start_index v + 2)"
        "length (chain v) \<noteq> start_index v + 1" "\<not> Block_capacity ?b \<ge> IOVector_size v" by blast
  then show ?thesis
  proof cases
    case two
    then show ?thesis using coalesce_rvalue_pop_second [OF assms False st] by blast
  next
    case one
    then show ?thesis using coalesce_rvalue_pop_only [OF assms False] by blast
  next
    case reuse
    let ?v = "v\<lparr>chain_length := chain_length v - bsize ?b, begin_offset := 0,
        chain := (chain v)[start_index v := Block_empty], start_index := Suc (start_index v)\<rparr>"
    have "iov_wf ?v" using wfd wfb st
      by (auto simp: iov_wf_def split: list.splits dest!: set_update_subset_insert [THEN subsetD])
    then show ?thesis
      using coalesce_rvalue_in_place [OF assms st reuse(3) False, of junk] reuse False st
      by (auto simp: coalesce_rvalue_def Let_def)
  next
    case copy
    then show ?thesis using coalesce_correct [OF assms, of junk] assms False st
      by (auto simp: coalesce_rvalue_def Let_def)
  qed
qed

definition example_vector :: iovector where
  "example_vector = IOVector_append (IOVector_append IOVector_empty (Block_of ''abcd'')) (Block_of ''ef'')"

lemma example_vector_wf: "iov_wf example_vector" "iov_content example_vector = ''abcdef''"
  "IOVector_size example_vector = 6"
  by (simp_all add: example_vector_def iov_wf_def iov_content_def IOVector_append_def IOVector_empty_def
      IOVector_size_def Block_of_def Block_data_def block_wf_def)

text \<open>
  C38: the state left behind is not one every accessor accepts. When the only live block is not the
  first of the chain, \<open>coalesce() &&\<close> pops it and leaves the start index equal to a nonzero chain
  length, so \<open>front_size()\<close> and \<open>trim_front()\<close>, which only test the chain for emptiness, index one
  past its end.
\<close>

theorem coalesce_rvalue_breaks_front:
  assumes "iov_wf v" "IOVector_size v \<noteq> 0" "length (chain v) = start_index v + 1" "start_index v \<noteq> 0"
  shows "\<exists>b v'. coalesce_rvalue junk v = Inr (b, v') \<and> front_size v' = Inl OutOfBounds \<and>
     trim_front junk v' = Inl OutOfBounds"
proof -
  obtain b v' where v': "coalesce_rvalue junk v = Inr (b, v')"
    "chain v' = butlast (chain v)" "start_index v' = start_index v"
    using coalesce_rvalue_pop_only [OF assms(1-3), of junk] by blast
  have "length (chain v') = start_index v'" "chain v' \<noteq> []"
    using v' assms(3,4) by (simp_all add: length_0_conv [symmetric] del: length_0_conv)
  with v' assms(4) show ?thesis by (simp add: front_size_def trim_front_def)
qed

theorem coalesce_rvalue_breaks_front_witness:
  "\<exists>v1 b v'. IOVector_drop_front example_vector 4 = Inr v1 \<and>
     coalesce_rvalue (\<lambda>_. CHR 0x00) v1 = Inr (b, v') \<and> front_size v' = Inl OutOfBounds"
proof -
  let ?v = "example_vector\<lparr>chain_length := 2, chain := [Block_empty, Block_of ''ef''], start_index := 1\<rparr>"
  have d: "IOVector_drop_front example_vector 4 = Inr ?v"
    by (simp add: example_vector_def IOVector_drop_front_def drop_front_loop.simps front_size_def
        pop_front_block_def IOVector_append_def IOVector_empty_def IOVector_size_def Block_of_def)
  have w: "iov_wf ?v" "IOVector_size ?v \<noteq> 0" "length (chain ?v) = start_index ?v + 1" "start_index ?v \<noteq> 0"
    by (simp_all add: iov_wf_def IOVector_size_def example_vector_def IOVector_append_def IOVector_empty_def
        Block_of_def block_wf_def Block_empty_def)
  from coalesce_rvalue_breaks_front [OF w, of "\<lambda>_. CHR 0x00"] d show ?thesis by blast
qed

end
