(* ===== verification/Strings_Base.thy ===== *)
theory Strings_Base
  imports Prelude
begin

text \<open>
  The string functions of \<open>system/libbase\<close> (\<open>strings.cpp\<close>, \<open>strings.h\<close>, \<open>parseint.h\<close>) and of
  \<open>adb/adb_utils\<close> that the rest of the program is written with: \<open>Split\<close>, \<open>Tokenize\<close>, \<open>Join\<close>,
  \<open>Trim\<close>, the prefix and suffix tests, \<open>StringReplace\<close>, \<open>escape_arg\<close>, decimal and hexadecimal
  number parsing and printing. The loops over positions are modelled as such and proved equal
  to list recursions, from which the round trips follow.
\<close>

section \<open>Definitions\<close>

subsection \<open>Splitting and joining\<close>

function split_loop :: "string \<Rightarrow> string \<Rightarrow> nat \<Rightarrow> string list" where
  "split_loop s delimiters base =
     (case find_from (\<lambda>c. c \<in> set delimiters) base s of
        None \<Rightarrow> [drop base s]
      | Some found \<Rightarrow> substr s base (found - base) # split_loop s delimiters (found + 1))"
  by pat_completeness auto
termination
  by (relation "measure (\<lambda>(s, _, base). length s - base)") (auto dest: find_from_SomeD)

declare split_loop.simps [simp del]

definition Split :: "string \<Rightarrow> string \<Rightarrow> string list result" where
  "Split s delimiters =
     bind_r (check_r (length delimiters \<noteq> 0) ''delimiters.size() != 0'') (\<lambda>_. Inr (split_loop s delimiters 0))"

function tokenize_loop :: "string \<Rightarrow> string \<Rightarrow> nat \<Rightarrow> string list" where
  "tokenize_loop s delimiters end_pos =
     (case find_from (\<lambda>c. c \<notin> set delimiters) end_pos s of
        None \<Rightarrow> []
      | Some base \<Rightarrow>
          (case find_from (\<lambda>c. c \<in> set delimiters) base s of
             None \<Rightarrow> [drop base s]
           | Some e \<Rightarrow> substr s base (e - base) # tokenize_loop s delimiters e))"
  by pat_completeness auto
termination
proof (relation "measure (\<lambda>(s, _, e). length s - e)")
  fix s delimiters :: string and end_pos base e :: nat
  assume b: "find_from (\<lambda>c. c \<notin> set delimiters) end_pos s = Some base"
    and e: "find_from (\<lambda>c. c \<in> set delimiters) base s = Some e"
  have "e \<noteq> base" using find_from_SomeD [OF b] find_from_SomeD [OF e] by auto
  then show "((s, delimiters, e), s, delimiters, end_pos) \<in> measure (\<lambda>(s, _, e). length s - e)"
    using find_from_SomeD [OF b] find_from_SomeD [OF e] by auto
qed simp

declare tokenize_loop.simps [simp del]

definition Tokenize :: "string \<Rightarrow> string \<Rightarrow> string list result" where
  "Tokenize s delimiters =
     bind_r (check_r (length delimiters \<noteq> 0) ''delimiters.size() != 0'') (\<lambda>_. Inr (tokenize_loop s delimiters 0))"

fun Join :: "string list \<Rightarrow> string \<Rightarrow> string" where
  "Join [] separator = []"
| "Join (x # xs) separator = x @ concat (map (\<lambda>y. separator @ y) xs)"

subsection \<open>Trimming, prefixes and suffixes\<close>

text \<open>\<open>isspace\<close> and \<open>tolower\<close> in the C locale.\<close>

definition isspace :: "char \<Rightarrow> bool" where
  "isspace c \<longleftrightarrow> c = CHR '' '' \<or> (9 \<le> byte_val c \<and> byte_val c \<le> 13)"

definition tolower :: "char \<Rightarrow> char" where
  "tolower c = (if 65 \<le> byte_val c \<and> byte_val c \<le> 90 then char_of (byte_val c + 32) else c)"

fun remove_suffix_while :: "('a \<Rightarrow> bool) \<Rightarrow> 'a list \<Rightarrow> 'a list" where
  "remove_suffix_while P [] = []"
| "remove_suffix_while P (x # xs) =
     (if remove_suffix_while P xs = [] \<and> P x then [] else x # remove_suffix_while P xs)"

definition Trim :: "string \<Rightarrow> string" where
  "Trim s = remove_suffix_while isspace (dropWhile isspace s)"

definition StartsWith :: "string \<Rightarrow> string \<Rightarrow> bool" where
  "StartsWith s prefix \<longleftrightarrow> substr s 0 (length prefix) = prefix"

definition EndsWith :: "string \<Rightarrow> string \<Rightarrow> bool" where
  "EndsWith s suffix \<longleftrightarrow>
     length s \<ge> length suffix \<and> substr s (length s - length suffix) (length suffix) = suffix"

text \<open>The view after the call and whether the prefix was there.\<close>

definition ConsumePrefix :: "string \<Rightarrow> string \<Rightarrow> bool \<times> string" where
  "ConsumePrefix s prefix = (if \<not> StartsWith s prefix then (False, s) else (True, drop (length prefix) s))"

definition ConsumeSuffix :: "string \<Rightarrow> string \<Rightarrow> bool \<times> string" where
  "ConsumeSuffix s suffix =
     (if \<not> EndsWith s suffix then (False, s) else (True, take (length s - length suffix) s))"

definition StripTrailingNulls :: "string \<Rightarrow> string" where
  "StripTrailingNulls s = take (length s - length (takeWhile (\<lambda>c. c = CHR 0x00) (rev s))) s"

subsection \<open>Replacement and quoting\<close>

text \<open>The \<open>do \<dots> while (all)\<close> loop; \<open>result\<close> is what has been appended so far.\<close>

function replace_loop :: "string \<Rightarrow> string \<Rightarrow> string \<Rightarrow> bool \<Rightarrow> nat \<Rightarrow> string" where
  "replace_loop s from to all start_pos =
     (case find_sub s from start_pos of
        None \<Rightarrow> drop start_pos s
      | Some pos \<Rightarrow>
          substr s start_pos (pos - start_pos) @ to @
          (if all \<and> from \<noteq> []
           then replace_loop s from to all (pos + length from)
           else drop (pos + length from) s))"
  by pat_completeness auto
termination
  by (relation "measure (\<lambda>(s, _, _, _, start_pos). length s - start_pos)")
     (auto dest!: find_sub_SomeD simp flip: length_greater_0_conv)

declare replace_loop.simps [simp del]

definition StringReplace :: "string \<Rightarrow> string \<Rightarrow> string \<Rightarrow> bool \<Rightarrow> string" where
  "StringReplace s from to all = (if from = [] then s else replace_loop s from to all 0)"

function escape_loop :: "string \<Rightarrow> nat \<Rightarrow> string" where
  "escape_loop s base =
     (case find_from (\<lambda>c. c = CHR 0x27) base s of
        None \<Rightarrow> drop base s
      | Some found \<Rightarrow>
          substr s base (found - base) @ [CHR 0x27, CHR 0x5C, CHR 0x27, CHR 0x27] @ escape_loop s (found + 1))"
  by pat_completeness auto
termination
  by (relation "measure (\<lambda>(s, base). length s - base)") (auto dest: find_from_SomeD)

declare escape_loop.simps [simp del]

definition escape_arg :: "string \<Rightarrow> string" where
  "escape_arg s = CHR 0x27 # escape_loop s 0 @ [CHR 0x27]"

subsection \<open>Numbers\<close>

definition c_str :: "string \<Rightarrow> string" where
  "c_str s = takeWhile (\<lambda>c. c \<noteq> CHR 0x00) s"

definition digit_val :: "char \<Rightarrow> nat option" where
  "digit_val c =
     (let n = byte_val c
      in if 48 \<le> n \<and> n \<le> 57 then Some (n - 48)
         else if 97 \<le> n \<and> n \<le> 102 then Some (n - 87)
         else if 65 \<le> n \<and> n \<le> 70 then Some (n - 55)
         else None)"

definition is_digit :: "nat \<Rightarrow> char \<Rightarrow> bool" where
  "is_digit base c = (case digit_val c of None \<Rightarrow> False | Some d \<Rightarrow> d < base)"

definition digits_value :: "nat \<Rightarrow> string \<Rightarrow> nat" where
  "digits_value base s = foldl (\<lambda>acc c. acc * base + (case digit_val c of None \<Rightarrow> 0 | Some d \<Rightarrow> d)) 0 s"

definition digit_char :: "nat \<Rightarrow> char" where
  "digit_char d = (if d < 10 then char_of (48 + d) else char_of (87 + d))"

text \<open>Printing in a base (\<open>%d\<close> of a nonnegative number, \<open>%x\<close>), and \<open>%0<w>x\<close> as padding to a width.\<close>

function to_base :: "nat \<Rightarrow> nat \<Rightarrow> string" where
  "to_base b n = (if b < 2 \<or> n < b then [digit_char n] else to_base b (n div b) @ [digit_char (n mod b)])"
  by pat_completeness auto
termination
  by (relation "measure snd") (auto intro!: div_less_dividend)

declare to_base.simps [simp del]

abbreviation to_dec :: "nat \<Rightarrow> string" where
  "to_dec \<equiv> to_base 10"

definition pad0 :: "nat \<Rightarrow> string \<Rightarrow> string" where
  "pad0 w s = replicate (w - length s) (CHR ''0'') @ s"

definition to_dec_int :: "int \<Rightarrow> string" where
  "to_dec_int i = (if i < 0 then CHR ''-'' # to_dec (nat (- i)) else to_dec (nat i))"

text \<open>
  \<open>std::from_chars\<close> on an unsigned type with the given maximum: no blanks, no sign; a value out
  of range is an error. The result is the value and the unread rest.
\<close>

definition from_chars :: "nat \<Rightarrow> string \<Rightarrow> (nat \<times> string) option" where
  "from_chars max_value s =
     (let ds = takeWhile (is_digit 10) s
      in if ds = [] then None
         else if digits_value 10 ds > max_value then None
         else Some (digits_value 10 ds, drop (length ds) s))"

text \<open>\<open>ParseUint\<close> of \<open>adb_utils.h\<close>, without and with the \<open>remaining\<close> out-parameter.\<close>

definition ParseUint :: "nat \<Rightarrow> string \<Rightarrow> nat option" where
  "ParseUint max_value str =
     (case from_chars max_value str of
        None \<Rightarrow> None
      | Some (value, rest) \<Rightarrow> if rest \<noteq> [] then None else Some value)"

definition ParseUint_remaining :: "nat \<Rightarrow> string \<Rightarrow> (nat \<times> string) option" where
  "ParseUint_remaining max_value str = from_chars max_value str"

text \<open>
  \<open>strtoll\<close>/\<open>strtoull\<close> past the leading blanks, over unbounded integers: \<^const>\<open>None\<close> when nothing
  is converted, otherwise the value and the unread rest. The callers test the range.
\<close>

definition strto :: "nat \<Rightarrow> string \<Rightarrow> (int \<times> string) option" where
  "strto base s =
     (let (neg, t) = (case s of
            [] \<Rightarrow> (False, [])
          | c # cs \<Rightarrow> if c = CHR ''-'' then (True, cs) else if c = CHR ''+'' then (False, cs) else (False, s));
          t' = (if base = 16 \<and> (starts_with t ''0x'' \<or> starts_with t ''0X'') \<and>
                   (case drop 2 t of [] \<Rightarrow> False | c # _ \<Rightarrow> is_digit 16 c)
                then drop 2 t else t);
          ds = takeWhile (is_digit base) t'
      in if ds = [] then None
         else Some ((if neg then - int (digits_value base ds) else int (digits_value base ds)),
                    drop (length ds) t'))"

definition number_base :: "string \<Rightarrow> nat" where
  "number_base s = (if starts_with s ''0x'' \<or> starts_with s ''0X'' then 16 else 10)"

text \<open>\<open>ParseInt\<close> of \<open>parseint.h\<close>.\<close>

definition ParseInt :: "int \<Rightarrow> int \<Rightarrow> string \<Rightarrow> int option" where
  "ParseInt min_value max_value str =
     (let s = dropWhile isspace (c_str str)
      in case strto (number_base s) s of
           None \<Rightarrow> None
         | Some (result, rest) \<Rightarrow>
             if result < - (2 ^ 63) \<or> result > 2 ^ 63 - 1 then None
             else if rest \<noteq> [] then None
             else if result < min_value \<or> max_value < result then None
             else Some result)"

text \<open>\<open>ParseUint\<close> and \<open>ParseByteCount\<close> of \<open>parseint.h\<close>.\<close>

definition suffix_index :: "char \<Rightarrow> nat option" where
  "suffix_index c = find_idx (\<lambda>x. x = tolower c) ''bkmgtpe''"

definition base_ParseUint :: "nat \<Rightarrow> bool \<Rightarrow> string \<Rightarrow> nat option" where
  "base_ParseUint max_value allow_suffixes str =
     (let s = dropWhile isspace (c_str str)
      in if (case s of [] \<Rightarrow> False | c # _ \<Rightarrow> c = CHR ''-'') then None
         else case strto (number_base s) s of
           None \<Rightarrow> None
         | Some (result, rest) \<Rightarrow>
             if result > 2 ^ 64 - 1 then None
             else
               (case (case rest of
                        [] \<Rightarrow> Some (nat result)
                      | c # _ \<Rightarrow>
                          (case (if allow_suffixes then suffix_index c else None) of
                             None \<Rightarrow> None
                           | Some k \<Rightarrow>
                               if nat result * 2 ^ (10 * k) > 2 ^ 64 - 1 then None
                               else Some (nat result * 2 ^ (10 * k)))) of
                  None \<Rightarrow> None
                | Some r \<Rightarrow> if max_value < r then None else Some r))"

section \<open>Splitting and joining\<close>

text \<open>What \<open>Split\<close> computes, by recursion on the string.\<close>

fun split_ref :: "('a \<Rightarrow> bool) \<Rightarrow> 'a list \<Rightarrow> 'a list list" where
  "split_ref P [] = [[]]"
| "split_ref P (x # xs) =
     (if P x then [] # split_ref P xs
      else case split_ref P xs of [] \<Rightarrow> [[x]] | y # ys \<Rightarrow> (x # y) # ys)"

lemma split_ref_not_Nil [simp]: "split_ref P xs \<noteq> []"
  by (cases xs) (auto split: list.splits)

lemma split_ref_find:
  "split_ref P xs =
     (case find_idx P xs of None \<Rightarrow> [xs] | Some i \<Rightarrow> take i xs # split_ref P (drop (Suc i) xs))"
  by (induction xs) (auto split: option.splits list.splits)

lemma split_loop_eq: "base \<le> length s \<Longrightarrow> split_loop s d base = split_ref (\<lambda>c. c \<in> set d) (drop base s)"
proof (induction s d base rule: split_loop.induct)
  case (1 s d base)
  show ?case
  proof (cases "find_idx (\<lambda>c. c \<in> set d) (drop base s)")
    case None
    then show ?thesis
      by (subst split_loop.simps, subst split_ref_find) (simp add: find_from_def)
  next
    case (Some i)
    then have f: "find_from (\<lambda>c. c \<in> set d) base s = Some (base + i)" by (simp add: find_from_def)
    have "base + i + 1 \<le> length s" using find_from_SomeD [OF f] by simp
    from "1.IH" [OF f this] Some f show ?thesis
      by (subst split_loop.simps, subst split_ref_find) (simp add: substr_def add.commute)
  qed
qed

lemma Split_eq: "d \<noteq> [] \<Longrightarrow> Split s d = Inr (split_ref (\<lambda>c. c \<in> set d) s)"
  by (simp add: Split_def split_loop_eq)

lemma Join_split_ref: "Join (split_ref (\<lambda>x. x = c) s) [c] = s"
proof (induction s)
  case (Cons x xs)
  then show ?case
    by (cases "split_ref (\<lambda>x. x = c) xs") auto
qed simp

lemma split_ref_append_stop:
  "P d \<Longrightarrow> \<forall>x \<in> set xs. \<not> P x \<Longrightarrow> split_ref P (xs @ d # ys) = xs # split_ref P ys"
  by (induction xs) auto

lemma split_ref_no_delimiter: "\<forall>x \<in> set xs. \<not> P x \<Longrightarrow> split_ref P xs = [xs]"
  by (induction xs) auto

lemma split_ref_Join:
  "ps \<noteq> [] \<Longrightarrow> \<forall>p \<in> set ps. c \<notin> set p \<Longrightarrow> split_ref (\<lambda>x. x = c) (Join ps [c]) = ps"
proof (induction ps)
  case (Cons p ps)
  then have "\<forall>x \<in> set p. \<not> x = c" by auto
  with Cons show ?case
    by (cases ps) (simp_all add: split_ref_append_stop split_ref_no_delimiter)
qed simp

lemma split_ref_pieces: "p \<in> set (split_ref P s) \<Longrightarrow> \<forall>x \<in> set p. \<not> P x"
proof (induction s arbitrary: p)
  case (Cons x xs)
  then show ?case
    by (cases "split_ref P xs") (fastforce split: if_splits)+
qed simp

lemma tokenize_loop_eq:
  "e \<le> length s \<Longrightarrow>
     tokenize_loop s d e = filter (\<lambda>p. p \<noteq> []) (split_ref (\<lambda>c. c \<in> set d) (drop e s))"
  (is "_ \<Longrightarrow> _ = filter _ (split_ref ?P _)")
proof (induction s d e rule: tokenize_loop.induct)
  case (1 s d e)
  let ?P = "\<lambda>c. c \<in> set d"
  have skip: "filter (\<lambda>p. p \<noteq> []) (split_ref ?P (xs @ ys)) = filter (\<lambda>p. p \<noteq> []) (split_ref ?P ys)"
    if "\<forall>x \<in> set xs. ?P x" for xs ys
    using that by (induction xs) auto
  show ?case
  proof (cases "find_idx (\<lambda>c. \<not> ?P c) (drop e s)")
    case None
    then have "\<forall>x \<in> set (drop e s). ?P x" by (auto simp: find_idx_None)
    from skip [OF this, of "[]"] None show ?thesis
      by (subst tokenize_loop.simps) (simp add: find_from_def)
  next
    case (Some i)
    then have f: "find_from (\<lambda>c. \<not> ?P c) e s = Some (e + i)" by (simp add: find_from_def)
    have all: "\<forall>x \<in> set (take i (drop e s)). ?P x" using find_idx_SomeD [OF Some] by auto
    have len: "e + i < length s" "\<not> ?P (s ! (e + i))" using find_from_SomeD [OF f] by auto
    have sk: "filter (\<lambda>p. p \<noteq> []) (split_ref ?P (drop e s)) =
        filter (\<lambda>p. p \<noteq> []) (split_ref ?P (drop (e + i) s))"
      using skip [OF all, of "drop i (drop e s)"] by (simp only: append_take_drop_id) (simp add: add.commute)
    show ?thesis
    proof (cases "find_idx ?P (drop (e + i) s)")
      case None
      with f len sk show ?thesis
        by (subst tokenize_loop.simps, subst (asm) (2) split_ref_find) (simp add: find_from_def)
    next
      case (Some j)
      then have f2: "find_from ?P (e + i) s = Some (e + i + j)" by (simp add: find_from_def)
      then have j: "e + i + j < length s" "?P (s ! (e + i + j))" using find_from_SomeD by blast+
      have "j \<noteq> 0" using len j by (cases j) auto
      have ne: "take j (drop (e + i) s) \<noteq> []" using \<open>j \<noteq> 0\<close> len by simp
      have "split_ref ?P (drop (e + i) s) = take j (drop (e + i) s) # split_ref ?P (drop (Suc (e + i + j)) s)"
        using Some by (subst split_ref_find) (simp add: add.commute add.left_commute)
      moreover have "split_ref ?P (drop (e + i + j) s) = [] # split_ref ?P (drop (Suc (e + i + j)) s)"
        using j by (subst Cons_nth_drop_Suc [symmetric]) simp_all
      ultimately show ?thesis
        using "1.IH" [OF f f2] f f2 j sk ne by (subst tokenize_loop.simps) (simp add: substr_def)
    qed
  qed
qed

lemma Tokenize_eq: "d \<noteq> [] \<Longrightarrow> Tokenize s d = Inr (filter (\<lambda>p. p \<noteq> []) (split_ref (\<lambda>c. c \<in> set d) s))"
  by (simp add: Tokenize_def tokenize_loop_eq)

section \<open>Replacement and quoting\<close>

lemma find_idx_split:
  assumes "find_idx P xs = Some i"
  obtains ys y zs where "xs = ys @ y # zs" "length ys = i" "P y" "\<forall>x \<in> set ys. \<not> P x"
proof -
  have i: "i < length xs" "P (xs ! i)" "\<forall>x \<in> set (take i xs). \<not> P x" using find_idx_SomeD [OF assms] by auto
  show thesis by (rule that [OF id_take_nth_drop [OF i(1)]]) (use i in simp_all)
qed

lemma find_sub_idx_single: "find_sub_idx [f] xs = find_idx (\<lambda>c. c = f) xs"
  by (induction xs) (auto simp: starts_with_def)

lemma find_sub_single: "find_sub s [f] base = find_from (\<lambda>c. c = f) base s"
  by (simp add: find_sub_def find_from_def find_sub_idx_single)

lemma replace_single_loop:
  "base \<le> length s \<Longrightarrow>
     replace_loop s [f] to True base = concat (map (\<lambda>c. if c = f then to else [c]) (drop base s))"
proof (induction "length s - base" arbitrary: base rule: less_induct)
  case less
  have keep: "concat (map (\<lambda>c. if c = f then to else [c]) xs) = xs" if "\<forall>x \<in> set xs. x \<noteq> f" for xs
    using that by (induction xs) auto
  show ?case
  proof (cases "find_idx (\<lambda>c. c = f) (drop base s)")
    case None
    then have "\<forall>x \<in> set (drop base s). x \<noteq> f" by (simp add: find_idx_None)
    with None keep show ?thesis
      by (subst replace_loop.simps) (simp add: find_sub_single find_from_def)
  next
    case (Some i)
    then obtain ys zs where d: "drop base s = ys @ f # zs" and ys: "length ys = i" "\<forall>x \<in> set ys. x \<noteq> f"
      by (elim find_idx_split) auto
    have "drop (Suc i) (drop base s) = zs" using ys(1) by (simp add: d)
    then have z: "drop (base + i + 1) s = zs" by (simp add: add.commute)
    have l: "base + i + 1 \<le> length s" using arg_cong [OF d, of length] ys(1) by simp
    have "replace_loop s [f] to True (base + i + 1) = concat (map (\<lambda>c. if c = f then to else [c]) zs)"
      using less.hyps [of "base + i + 1"] l z by simp
    then show ?thesis
      using Some d ys keep [OF ys(2)]
      by (subst replace_loop.simps) (simp add: find_sub_single find_from_def substr_def)
  qed
qed

lemma escape_loop_replace: "base \<le> length s \<Longrightarrow>
    escape_loop s base = replace_loop s [CHR 0x27] [CHR 0x27, CHR 0x5C, CHR 0x27, CHR 0x27] True base"
proof (induction s base rule: escape_loop.induct)
  case (1 s base)
  show ?case
  proof (cases "find_from (\<lambda>c. c = CHR 0x27) base s")
    case None
    then show ?thesis
      by (subst escape_loop.simps, subst replace_loop.simps) (simp add: find_sub_single)
  next
    case (Some i)
    have "i + 1 \<le> length s" using find_from_SomeD [OF Some] by simp
    from "1.IH" [OF Some this] Some show ?thesis
      by (subst escape_loop.simps, subst replace_loop.simps) (simp add: find_sub_single)
  qed
qed

text \<open>
  How a POSIX shell reads one word made of single-quoted pieces and backslash-escaped
  characters; the flag says whether the reader is inside single quotes. Anything else
  outside quotes, and an unterminated quote, is no word of this form.
\<close>

fun sh_word :: "bool \<Rightarrow> string \<Rightarrow> string option" where
  "sh_word False [] = Some []"
| "sh_word True [] = None"
| "sh_word True (c # cs) =
     (if c = CHR 0x27 then sh_word False cs else map_option ((#) c) (sh_word True cs))"
| "sh_word False (c # cs) =
     (if c = CHR 0x27 then sh_word True cs
      else if c = CHR 0x5C then (case cs of [] \<Rightarrow> None | d # ds \<Rightarrow> map_option ((#) d) (sh_word False ds))
      else None)"

lemma sh_word_quoted:
  "sh_word True (concat (map (\<lambda>c. if c = CHR 0x27 then [CHR 0x27, CHR 0x5C, CHR 0x27, CHR 0x27] else [c]) s) @
     CHR 0x27 # r) = map_option ((@) s) (sh_word False r)"
proof (induction s)
  case (Cons c s)
  then show ?case by (cases "sh_word False r") auto
qed (simp add: option.map_ident_strong)

section \<open>Numbers\<close>

lemma char_of_val: "n < 256 \<Longrightarrow> byte_val (char_of n) = n"
  by (simp add: of_char_of)

lemma digit_val_digit_char: "d < 16 \<Longrightarrow> digit_val (digit_char d) = Some d"
  by (auto simp: digit_val_def digit_char_def of_char_of Let_def)

lemma is_digit_digit_char: "d < b \<Longrightarrow> b \<le> 16 \<Longrightarrow> is_digit b (digit_char d)"
  by (simp add: is_digit_def digit_val_digit_char)

lemma digits_value_snoc:
  "digits_value b (s @ [c]) = digits_value b s * b + (case digit_val c of None \<Rightarrow> 0 | Some d \<Rightarrow> d)"
  by (simp add: digits_value_def)

lemma to_base_digits: "2 \<le> b \<Longrightarrow> b \<le> 16 \<Longrightarrow> \<forall>c \<in> set (to_base b n). is_digit b c"
proof (induction b n rule: to_base.induct)
  case (1 b n)
  then show ?case
    by (subst to_base.simps) (auto simp: is_digit_digit_char)
qed

lemma digits_value_to_base: "2 \<le> b \<Longrightarrow> b \<le> 16 \<Longrightarrow> digits_value b (to_base b n) = n"
proof (induction b n rule: to_base.induct)
  case (1 b n)
  show ?case
  proof (cases "n < b")
    case True
    then show ?thesis using 1
      by (subst to_base.simps) (simp add: digits_value_def digit_val_digit_char)
  next
    case False
    with 1 have "n mod b < 16" 
      using mod_less_divisor [of b n] by linarith
    with False 1 show ?thesis
      by (subst to_base.simps) (simp add: digits_value_snoc digit_val_digit_char)
  qed
qed

lemma to_base_not_Nil [simp]: "to_base b n \<noteq> []"
  by (subst to_base.simps) simp

lemma takeWhile_digits:
  "2 \<le> b \<Longrightarrow> b \<le> 16 \<Longrightarrow> (case r of [] \<Rightarrow> True | c # _ \<Rightarrow> \<not> is_digit b c) \<Longrightarrow>
     takeWhile (is_digit b) (to_base b n @ r) = to_base b n"
  using to_base_digits [of b n] by (cases r) (auto simp: takeWhile_tail takeWhile_append2 takeWhile_eq_all_conv)

lemma takeWhile_digits_all: "2 \<le> b \<Longrightarrow> b \<le> 16 \<Longrightarrow> takeWhile (is_digit b) (to_base b n) = to_base b n"
  using takeWhile_digits [of b "[]" n] by simp

lemma from_chars_to_dec:
  "n \<le> m \<Longrightarrow> (case r of [] \<Rightarrow> True | c # _ \<Rightarrow> \<not> is_digit 10 c) \<Longrightarrow> from_chars m (to_dec n @ r) = Some (n, r)"
  by (simp add: from_chars_def takeWhile_digits digits_value_to_base Let_def)

lemma ParseUint_to_dec: "n \<le> m \<Longrightarrow> ParseUint m (to_dec n) = Some n"
  using from_chars_to_dec [of n m "[]"] by (simp add: ParseUint_def)

section \<open>Properties\<close>

text \<open>
  Splitting at one delimiter and joining with it again is the identity on every string, and
  joining pieces that do not contain the delimiter and splitting gives the pieces back.
\<close>

lemma Split_Join_roundtrip:
  "(\<exists>ps. Split s [c] = Inr ps \<and> Join ps [c] = s) \<and>
   (qs \<noteq> [] \<and> (\<forall>q \<in> set qs. c \<notin> set q) \<longrightarrow> Split (Join qs [c]) [c] = Inr qs)"
  by (simp add: Split_eq Join_split_ref split_ref_Join)

text \<open>
  C26: a shell that reads the result of \<open>escape_arg\<close> sees exactly one word, and the word is the
  argument, whatever bytes it contains; the scan-and-append loop is the same as replacing every
  quote with \<open>StringReplace\<close>.
\<close>

theorem escape_arg_shell_safe:
  "sh_word False (escape_arg s) = Some s \<and>
   escape_arg s = [CHR 0x27] @ StringReplace s [CHR 0x27] [CHR 0x27, CHR 0x5C, CHR 0x27, CHR 0x27] True @ [CHR 0x27]"
proof -
  have *: "escape_arg s = [CHR 0x27] @ StringReplace s [CHR 0x27] [CHR 0x27, CHR 0x5C, CHR 0x27, CHR 0x27] True @ [CHR 0x27]"
    by (simp add: escape_arg_def StringReplace_def escape_loop_replace)
  then show ?thesis
    using sh_word_quoted [of s "[]"] by (simp add: StringReplace_def replace_single_loop)
qed

end
