(* ===== verification/Net_Address.thy ===== *)
theory Net_Address
  imports Strings_Base
begin

text \<open>
  Device addresses: \<open>ParseNetAddress\<close> of \<open>system/libbase/parsenetaddress.cpp\<close>, the library's own
  \<open>DeviceAddress::parse\<close> and \<open>to_string\<close> (\<open>adb/lib/src/api/device_address.cpp\<close>), the address
  normalisation of \<open>client.cpp\<close>, and \<open>forward_targets_are_valid\<close> of \<open>adb/adb_utils.cpp\<close>.
\<close>

section \<open>ParseNetAddress\<close>

text \<open>
  \<open>sscanf(s, "%d", &port)\<close>: blanks are skipped, a sign is accepted, digits are read as far as
  they go. A value outside \<open>int\<close> is undefined.
\<close>

definition sscanf_d :: "string \<Rightarrow> int option result" where
  "sscanf_d str =
     (case strto 10 (dropWhile isspace (c_str str)) of
        None \<Rightarrow> Inr None
      | Some (v, _) \<Rightarrow>
          if - (2 ^ 31) \<le> v \<and> v < 2 ^ 31 then Inr (Some v) else Inl (Undefined ''sscanf %d out of range''))"

datatype net_address_error = BadIPv6 string | NoHost string | BadPort string string

record net_address =
  na_host :: string
  na_port :: int
  na_canonical :: string

text \<open>The part of the function that finds the host, the port text and the printing form.\<close>

definition net_address_parts :: "string \<Rightarrow> (net_address_error + (string \<times> string option \<times> bool)) result" where
  "net_address_parts address =
     (let colons = length (filter (\<lambda>c. c = CHR '':'') address);
          dots = length (filter (\<lambda>c. c = CHR ''.'') address)
      in if address \<noteq> [] \<and> hd address = CHR ''['' then
           (case (rfind_sub address '']:'', find_sub address '']:'' 0) of
              (Some r, Some f) \<Rightarrow> Inr (Inr (substr address 1 (f - 1), Some (drop (r + 2) address), True))
            | _ \<Rightarrow> Inr (Inl (BadIPv6 address)))
         else if dots = 0 \<and> 2 \<le> colons \<and> colons \<le> 7 then Inr (Inr (address, None, True))
         else if colons \<le> 1 then
           bind_r (Split address '':'') (\<lambda>pieces.
             (case pieces of
                [] \<Rightarrow> Inl OutOfBounds
              | p # ps \<Rightarrow> Inr (Inr (p, (case ps of [] \<Rightarrow> None | q # _ \<Rightarrow> Some q), False))))
         else Inr (Inr ([], None, True)))"

text \<open>\<open>port\<close> is the value of the in-out parameter on entry.\<close>

definition ParseNetAddress :: "string \<Rightarrow> int \<Rightarrow> (net_address_error + net_address) result" where
  "ParseNetAddress address port =
     bind_r (net_address_parts address) (\<lambda>parts.
       (case parts of
          Inl e \<Rightarrow> Inr (Inl e)
        | Inr (host, port_str, ipv6) \<Rightarrow>
            if host = [] then Inr (Inl (NoHost address))
            else
              let finish = (\<lambda>p. Inr (Inr \<lparr>na_host = host, na_port = p,
                    na_canonical =
                      (if ipv6 then ''['' @ c_str host @ '']:'' @ to_dec_int p
                       else c_str host @ '':'' @ to_dec_int p)\<rparr>))
              in (case port_str of
                    None \<Rightarrow> finish port
                  | Some ps \<Rightarrow>
                      bind_r (sscanf_d ps) (\<lambda>r.
                        (case r of
                           None \<Rightarrow> Inr (Inl (BadPort ps address))
                         | Some p \<Rightarrow>
                             if p \<le> 0 \<or> p > 65535 then Inr (Inl (BadPort ps address)) else finish p)))))"

section \<open>DeviceAddress\<close>

record device_address =
  host :: string
  port :: u16

definition trim_address :: "string \<Rightarrow> string" where
  "trim_address text =
     remove_suffix_while (\<lambda>c. c = CHR '' '' \<or> c = CHR 0x09 \<or> c = CHR 0x0D \<or> c = CHR 0x0A)
       (dropWhile (\<lambda>c. c = CHR '' '' \<or> c = CHR 0x09) text)"

definition parse_port :: "string \<Rightarrow> u16 option" where
  "parse_port s =
     (case from_chars (2 ^ 32 - 1) s of
        None \<Rightarrow> None
      | Some (value, rest) \<Rightarrow>
          if rest \<noteq> [] then None
          else if value = 0 \<or> value > 65535 then None
          else Some (of_nat value))"

definition DeviceAddress_parse :: "string \<Rightarrow> device_address option" where
  "DeviceAddress_parse text0 =
     (let text = trim_address text0
      in if text = [] then None
         else if hd text = CHR ''['' then
           (case find_idx (\<lambda>c. c = CHR '']'') text of
              None \<Rightarrow> None
            | Some close \<Rightarrow>
                if close = 1 then None
                else
                  let host_part = substr text 1 (close - 1); rest = drop (close + 1) text
                  in (case rest of
                        [] \<Rightarrow> Some \<lparr>host = host_part, port = 0\<rparr>
                      | c # rest' \<Rightarrow>
                          if c \<noteq> CHR '':'' then None
                          else map_option (\<lambda>p. \<lparr>host = host_part, port = p\<rparr>) (parse_port rest')))
         else
           (case rfind_idx (\<lambda>c. c = CHR '':'') text of
              None \<Rightarrow> Some \<lparr>host = text, port = 0\<rparr>
            | Some colon \<Rightarrow>
                let host_part = substr text 0 colon; port_part = drop (colon + 1) text
                in if host_part = [] \<or> port_part = [] then None
                   else map_option (\<lambda>p. \<lparr>host = host_part, port = p\<rparr>) (parse_port port_part)))"

definition DeviceAddress_to_string :: "device_address \<Rightarrow> u16 \<Rightarrow> string" where
  "DeviceAddress_to_string a default_port =
     (let effective = (if port a \<noteq> 0 then port a else default_port);
          needs_brackets = (CHR '':'' \<in> set (host a) \<and> hd (host a) \<noteq> CHR ''['')
      in (if needs_brackets then ''['' else []) @ host a @ (if needs_brackets then '']'' else []) @
         '':'' @ to_dec (unat effective))"

text \<open>\<open>normalize_address\<close> of \<open>client.cpp\<close>; the empty string stands for an address it cannot parse.\<close>

definition normalize_address :: "string \<Rightarrow> u16 \<Rightarrow> string" where
  "normalize_address text default_port =
     (case DeviceAddress_parse text of
        None \<Rightarrow> []
      | Some parsed \<Rightarrow> DeviceAddress_to_string parsed default_port)"

section \<open>Forward targets\<close>

definition forward_targets_are_valid :: "string \<Rightarrow> string \<Rightarrow> string + unit" where
  "forward_targets_are_valid source dest =
     (let port_of = (\<lambda>s. ParseInt (- (2 ^ 31)) (2 ^ 31 - 1) (drop 4 s))
      in if StartsWith source ''tcp:'' \<and> (case port_of source of None \<Rightarrow> True | Some p \<Rightarrow> p < 0)
         then Inl (''Invalid source port: '' @ [CHR 0x27] @ c_str (drop 4 source) @ [CHR 0x27])
         else if StartsWith dest ''tcp:'' \<and> (case port_of dest of None \<Rightarrow> True | Some p \<Rightarrow> p \<le> 0)
         then Inl (''Invalid destination port: '' @ [CHR 0x27] @ c_str (drop 4 dest) @ [CHR 0x27])
         else Inr ())"

section \<open>Lemmas\<close>

lemma remove_suffix_while_id: "xs \<noteq> [] \<Longrightarrow> \<not> P (last xs) \<Longrightarrow> remove_suffix_while P xs = xs"
  by (induction xs) (auto split: if_splits)

lemma to_dec_chars: "c \<in> set (to_dec n) \<Longrightarrow> 48 \<le> byte_val c \<and> byte_val c \<le> 57"
  using to_base_digits [of 10 n] by (fastforce simp: is_digit_def digit_val_def Let_def split: option.splits if_splits)

lemma to_dec_no_special [simp]:
  "CHR '':'' \<notin> set (to_dec n)" "CHR '']'' \<notin> set (to_dec n)" "CHR ''['' \<notin> set (to_dec n)"
  "CHR 0x00 \<notin> set (to_dec n)" "CHR ''.'' \<notin> set (to_dec n)"
  using to_dec_chars [of _ n] by fastforce+

lemma last_to_dec: "48 \<le> byte_val (last (to_dec n)) \<and> byte_val (last (to_dec n)) \<le> 57"
  by (rule to_dec_chars [OF last_in_set]) simp

lemma trim_address_dec:
  assumes "h \<noteq> []" "hd h \<noteq> CHR '' ''" "hd h \<noteq> CHR 0x09"
  shows "trim_address (h @ to_dec n) = h @ to_dec n"
proof -
  have "dropWhile (\<lambda>c. c = CHR '' '' \<or> c = CHR 0x09) (h @ to_dec n) = h @ to_dec n"
    using assms by (cases h) auto
  moreover have "last (h @ to_dec n) \<notin> {CHR '' '', CHR 0x09, CHR 0x0D, CHR 0x0A}"
    using last_to_dec [of n] by auto
  ultimately show ?thesis
    by (simp add: trim_address_def remove_suffix_while_id)
qed

lemma parse_port_to_dec: "p \<noteq> 0 \<Longrightarrow> parse_port (to_dec (unat p)) = Some p"
proof -
  assume "p \<noteq> 0"
  moreover have "unat p < 65536" by (rule unat_bounds)
  ultimately show ?thesis
    using from_chars_to_dec [of "unat p" "2 ^ 32 - 1" "[]"]
    by (simp add: parse_port_def unat_eq_zero)
qed

text \<open>
  Hosts whose printed form is unambiguous: not empty, no blank or bracket in front, and no
  closing bracket in a host that needs brackets.
\<close>

definition plain_host :: "string \<Rightarrow> bool" where
  "plain_host h \<longleftrightarrow> h \<noteq> [] \<and> hd h \<notin> {CHR '' '', CHR 0x09, CHR ''[''} \<and>
     (CHR '':'' \<in> set h \<longrightarrow> CHR '']'' \<notin> set h)"

lemma parse_to_string_plain:
  assumes "plain_host h" "CHR '':'' \<notin> set h" "p \<noteq> 0"
  shows "DeviceAddress_parse (h @ '':'' @ to_dec (unat p)) = Some \<lparr>host = h, port = p\<rparr>"
proof -
  let ?t = "h @ CHR '':'' # to_dec (unat p)"
  have t: "trim_address ?t = ?t"
    using trim_address_dec [of "h @ '':''" "unat p"] assms(1) by (cases h) (auto simp: plain_host_def)
  have "rfind_idx (\<lambda>c. c = CHR '':'') ?t = Some (length h)"
    by (rule rfind_idx_stop) (use to_dec_no_special(1) [of "unat p"] in auto)
  then show ?thesis
    using assms(1) by (auto simp: DeviceAddress_parse_def t Let_def substr_def plain_host_def
        parse_port_to_dec [OF assms(3)] hd_append)
qed

lemma parse_to_string_brackets:
  assumes "h \<noteq> []" "CHR '']'' \<notin> set h" "p \<noteq> 0"
  shows "DeviceAddress_parse (''['' @ h @ '']:'' @ to_dec (unat p)) = Some \<lparr>host = h, port = p\<rparr>"
proof -
  let ?t = "CHR ''['' # h @ CHR '']'' # CHR '':'' # to_dec (unat p)"
  have t: "trim_address ?t = ?t"
    using trim_address_dec [of "''['' @ h @ '']:''" "unat p"] by simp
  have "find_idx (\<lambda>c. c = CHR '']'') ((CHR ''['' # h) @ CHR '']'' # CHR '':'' # to_dec (unat p)) =
      Some (length (CHR ''['' # h))"
    by (rule find_idx_stop) (use assms(2) in auto)
  then show ?thesis
    using assms(1) by (auto simp: DeviceAddress_parse_def t Let_def substr_def parse_port_to_dec [OF assms(3)])
qed

lemma parse_to_string:
  assumes "plain_host (host a)" and p: "(if port a \<noteq> 0 then port a else d) \<noteq> 0" (is "?p \<noteq> 0")
  shows "DeviceAddress_parse (DeviceAddress_to_string a d) = Some (a\<lparr>port := ?p\<rparr>)"
proof -
  have a: "a\<lparr>port := ?p\<rparr> = \<lparr>host = host a, port = ?p\<rparr>" by (cases a) simp
  show ?thesis
  proof (cases "CHR '':'' \<in> set (host a)")
    case True
    with assms(1) have "CHR '']'' \<notin> set (host a)" "host a \<noteq> []" "hd (host a) \<noteq> CHR ''[''"
      by (auto simp: plain_host_def)
    with True show ?thesis
      using parse_to_string_brackets [OF _ _ p, of "host a"] by (simp only: a DeviceAddress_to_string_def Let_def) simp
  next
    case False
    then show ?thesis
      using parse_to_string_plain [OF assms(1) False p] by (simp only: a DeviceAddress_to_string_def Let_def) simp
  qed
qed

text \<open>Occurrences of the closing \<open>]:\<close>.\<close>

lemma find_close_append:
  "find_sub_idx '']:'' h = None \<Longrightarrow> find_sub_idx '']:'' (h @ '']:'' @ x) = Some (length h)"
proof (induction h)
  case Nil
  then show ?case by (simp add: starts_with_def)
next
  case (Cons a h)
  then show ?case by (cases h) (auto simp: starts_with_def split: if_splits)
qed

lemma find_sub_take: "find_sub_idx sub xs = Some f \<Longrightarrow> sub \<noteq> [] \<Longrightarrow> find_sub_idx sub (take f xs) = None"
proof (induction xs arbitrary: f)
  case (Cons x xs)
  show ?case
  proof (cases "starts_with (x # xs) sub")
    case True
    with Cons.prems show ?thesis by (auto split: if_splits)
  next
    case False
    with Cons obtain g where g: "f = Suc g" "find_sub_idx sub xs = Some g" by auto
    have "\<not> starts_with (x # take g xs) sub"
      using False by (metis append_Cons append_assoc append_take_drop_id starts_with_iff)
    with g Cons show ?thesis by simp
  qed
qed simp

lemma find_sub_no_char: "CHR '']'' \<notin> set h \<Longrightarrow> find_sub_idx '']:'' h = None"
  by (induction h) (auto simp: starts_with_def)

lemma rfind_close: "CHR '']'' \<notin> set x \<Longrightarrow> rfind_sub (h @ '']:'' @ x) '']:'' = Some (length h)"
proof -
  assume x: "CHR '']'' \<notin> set x"
  have "rfind_sub x '']:'' = None" using x by (induction x) (auto simp: starts_with_def)
  then show ?thesis by (induction h) (auto simp: starts_with_def)
qed

lemma c_str_id: "CHR 0x00 \<notin> set s \<Longrightarrow> c_str s = s"
  by (auto simp: c_str_def takeWhile_eq_all_conv)

lemma strto_to_dec: "strto 10 (to_dec n) = Some (int n, [])"
proof -
  obtain c cs where c: "to_dec n = c # cs" by (cases "to_dec n") auto
  have "48 \<le> byte_val c" using to_dec_chars [of c n] c by simp
  then have "c \<noteq> CHR ''-''" "c \<noteq> CHR ''+''" by auto
  then have "(case to_dec n of [] \<Rightarrow> (False, []) | c # cs \<Rightarrow> if c = CHR ''-'' then (True, cs)
        else if c = CHR ''+'' then (False, cs) else (False, to_dec n)) = (False, to_dec n)"
    by (simp add: c)
  then show ?thesis by (simp add: strto_def digits_value_to_base takeWhile_digits_all Let_def)
qed

lemma sscanf_d_to_dec: "n < 2 ^ 31 \<Longrightarrow> sscanf_d (to_dec n) = Inr (Some (int n))"
proof -
  assume n: "n < 2 ^ 31"
  obtain c cs where c: "to_dec n = c # cs" by (cases "to_dec n") auto
  have "\<not> isspace c" using to_dec_chars [of c n] c by (auto simp: isspace_def)
  then have "dropWhile isspace (to_dec n) = to_dec n" by (simp add: c)
  with n show ?thesis by (simp add: sscanf_d_def c_str_id strto_to_dec)
qed

definition canonical_of :: "string \<Rightarrow> nat \<Rightarrow> bool \<Rightarrow> net_address" where
  "canonical_of h n ipv6 = \<lparr>na_host = h, na_port = int n,
     na_canonical = (if ipv6 then ''['' @ h @ '']:'' @ to_dec n else h @ '':'' @ to_dec n)\<rparr>"

lemma ParseNetAddress_ipv6:
  assumes "h \<noteq> []" "CHR 0x00 \<notin> set h" "find_sub_idx '']:'' h = None" "0 < n" "n \<le> 65535"
  shows "ParseNetAddress (''['' @ h @ '']:'' @ to_dec n) p = Inr (Inr (canonical_of h n True))"
proof -
  have f: "find_sub (''['' @ h @ '']:'' @ to_dec n) '']:'' 0 = Some (Suc (length h))"
    using find_close_append [OF assms(3), of "to_dec n"] by (simp add: find_sub_def starts_with_def)
  have r: "rfind_sub (''['' @ h @ '']:'' @ to_dec n) '']:'' = Some (Suc (length h))"
    using rfind_close [of "to_dec n" "''['' @ h"] by simp
  have "net_address_parts (''['' @ h @ '']:'' @ to_dec n) = Inr (Inr (h, Some (to_dec n), True))"
    using f r by (simp add: net_address_parts_def Let_def substr_def)
  then show ?thesis
    using assms by (simp add: ParseNetAddress_def sscanf_d_to_dec c_str_id canonical_of_def to_dec_int_def)
qed

lemma ParseNetAddress_ipv4:
  assumes "h \<noteq> []" "CHR 0x00 \<notin> set h" "CHR '':'' \<notin> set h" "hd h \<noteq> CHR ''[''" "0 < n" "n \<le> 65535"
  shows "ParseNetAddress (h @ '':'' @ to_dec n) p = Inr (Inr (canonical_of h n False))"
proof -
  have sp: "Split (h @ '':'' @ to_dec n) '':'' = Inr [h, to_dec n]"
  proof -
    have "\<forall>x \<in> set h. \<not> x = CHR '':''" "\<forall>x \<in> set (to_dec n). \<not> x = CHR '':''"
      using assms(3) to_dec_no_special(1) [of n] by blast+
    then show ?thesis by (simp add: Split_eq split_ref_append_stop split_ref_no_delimiter)
  qed
  have no: "filter (\<lambda>c. c = CHR '':'') h = []" "filter (\<lambda>c. c = CHR '':'') (to_dec n) = []"
    using assms(3) to_dec_no_special(1) [of n] by (auto simp: filter_empty_conv)
  have "net_address_parts (h @ '':'' @ to_dec n) = Inr (Inr (h, Some (to_dec n), False))"
    using assms(1,4) sp by (simp add: net_address_parts_def Let_def no hd_append)
  then show ?thesis
    using assms by (simp add: ParseNetAddress_def sscanf_d_to_dec c_str_id canonical_of_def to_dec_int_def)
qed

text \<open>What a successful parse looks like.\<close>

lemma net_address_parts_host:
  assumes "net_address_parts address = Inr (Inr (h, ps, ipv6))" "h \<noteq> []"
    and "hd address = CHR ''['' \<or> CHR '']'' \<notin> set address"
  shows "set h \<subseteq> set address \<and>
     (if ipv6 then find_sub_idx '']:'' h = None else CHR '':'' \<notin> set h \<and> hd h \<noteq> CHR ''['')"
proof -
  consider (bracket) "address \<noteq> []" "hd address = CHR ''[''"
    | (raw) "address = [] \<or> hd address \<noteq> CHR ''[''" "ipv6" | (v4) "address = [] \<or> hd address \<noteq> CHR ''[''" "\<not> ipv6"
    by blast
  then show ?thesis
  proof cases
    case bracket
    with assms(1) obtain f where f: "find_sub address '']:'' 0 = Some f" "h = take (f - 1) (drop 1 address)" "ipv6"
      by (auto simp: net_address_parts_def substr_def Let_def split: option.splits prod.splits)
    obtain as where as: "address = CHR ''['' # as" using bracket by (cases address) auto
    from f(1) obtain g where g: "f = Suc g" "find_sub_idx '']:'' as = Some g"
      by (auto simp: find_sub_def as starts_with_def)
    have "find_sub_idx '']:'' (take g as) = None" by (rule find_sub_take [OF g(2)]) simp
    with f g as show ?thesis by (auto dest: in_set_takeD)
  next
    case raw
    with assms have "h = address" "CHR '']'' \<notin> set address"
      by (auto simp: net_address_parts_def Split_eq Let_def split: if_splits list.splits)
    with raw show ?thesis by (simp add: find_sub_no_char)
  next
    case v4
    with assms obtain qs where h: "split_ref (\<lambda>c. c = CHR '':'') address = h # qs"
      by (auto simp: net_address_parts_def Split_eq Let_def split: if_splits list.splits)
    have no: "CHR '':'' \<notin> set h" using split_ref_pieces [of h "\<lambda>c. c = CHR '':''" address] h by auto
    have "\<exists>r. address = h @ r"
      using arg_cong [OF h, of "\<lambda>ps. Join ps '':''"] by (simp add: Join_split_ref)
    with no v4 assms(2) show ?thesis by (auto simp: hd_append)
  qed
qed

section \<open>Properties\<close>



text \<open>
  The canonical address that \<open>ParseNetAddress\<close> produces is accepted again with the same host,
  port and canonical form, whatever default port the second call starts from.
\<close>

lemma ParseNetAddress_canonical:
  assumes "ParseNetAddress address port0 = Inr (Inr r)" "0 < port0" "port0 \<le> 65535"
    "CHR 0x00 \<notin> set address" "hd address = CHR ''['' \<or> CHR '']'' \<notin> set address"
  shows "ParseNetAddress (na_canonical r) p = Inr (Inr r)"
proof -
  obtain x where x: "net_address_parts address = Inr x"
    using assms(1) by (auto simp: ParseNetAddress_def bind_r_eq_Inr)
  then obtain h ps ipv6 where "x = Inr (h, ps, ipv6)"
    using assms(1) by (cases x) (auto simp: ParseNetAddress_def)
  with x have parts: "net_address_parts address = Inr (Inr (h, ps, ipv6))" by simp
  have h: "h \<noteq> []" using assms(1) parts by (auto simp: ParseNetAddress_def)
  note H = net_address_parts_host [OF parts h assms(5)]
  have nul: "CHR 0x00 \<notin> set h" using H assms(4) by blast
  obtain q where q: "0 < q" "q \<le> 65535" "r = \<lparr>na_host = h, na_port = q, na_canonical =
      (if ipv6 then ''['' @ c_str h @ '']:'' @ to_dec_int q else c_str h @ '':'' @ to_dec_int q)\<rparr>"
    using assms(1-3) parts h
    by (auto simp: ParseNetAddress_def bind_r_eq_Inr Let_def split: option.splits if_splits)
  then have "r = canonical_of h (nat q) ipv6"
    by (simp add: canonical_of_def to_dec_int_def c_str_id [OF nul])
  then show ?thesis
    using ParseNetAddress_ipv6 [OF h nul _, of "nat q" p] ParseNetAddress_ipv4 [OF h nul _ _, of "nat q" p] q H
    by (cases ipv6) (simp_all add: canonical_of_def)
qed

end
