(* ===== verification/Stream_Codec.thy ===== *)
theory Stream_Codec
  imports Prelude
begin

text \<open>
  The interface between the reader of a byte stream and the message formats that run over it.
  A source delivers bytes in whatever pieces the operating system returns; \<open>avail\<close> abstracts
  it to the bytes still to come. A format promises that its reader takes exactly one
  encoded message off the front. From that alone it follows, once for every format, that a
  whole conversation is read back message by message, however the bytes were cut up.
\<close>

locale stream_codec =
  fixes avail :: "'src \<Rightarrow> string"
    and enc :: "'m \<Rightarrow> string"
    and valid :: "'m \<Rightarrow> bool"
    and read :: "'src \<Rightarrow> ('m \<times> 'src) option"
  assumes read_enc: "valid m \<Longrightarrow> avail s = enc m @ rest \<Longrightarrow> \<exists>s'. read s = Some (m, s') \<and> avail s' = rest"
begin

fun read_n :: "nat \<Rightarrow> 'src \<Rightarrow> ('m list \<times> 'src) option" where
  "read_n 0 s = Some ([], s)"
| "read_n (Suc n) s =
     (case read s of
        None \<Rightarrow> None
      | Some (m, s') \<Rightarrow> (case read_n n s' of None \<Rightarrow> None | Some (ms, s'') \<Rightarrow> Some (m # ms, s'')))"

lemma read_n_enc:
  "\<forall>m \<in> set ms. valid m \<Longrightarrow> avail s = concat (map enc ms) @ rest \<Longrightarrow>
     \<exists>s'. read_n (length ms) s = Some (ms, s') \<and> avail s' = rest"
proof (induction ms arbitrary: s)
  case (Cons m ms)
  then obtain s1 where s1: "read s = Some (m, s1)" "avail s1 = concat (map enc ms) @ rest"
    using read_enc [of m s "concat (map enc ms) @ rest"] by auto
  with Cons.IH [OF _ s1(2)] Cons.prems show ?case by auto
qed simp

text \<open>A format that can be read back this way is a prefix code.\<close>

lemma enc_prefix_free:
  assumes "valid m" "valid m'" "avail s = enc m @ r" "avail s = enc m' @ r'"
  shows "m = m' \<and> r = r'"
proof -
  from read_enc [OF assms(1,3)] read_enc [OF assms(2,4)] show ?thesis by auto
qed

end

end
