(* ===== verification/Adb_Io.thy ===== *)
theory Adb_Io
  imports Strings_Base Stream_Codec
begin

text \<open>
  \<open>adb/adb_io.cpp\<close>: exact reads and writes on a descriptor, and the length-prefixed strings of
  the host protocol. The operating system is a script of what each \<open>adb_read\<close> and
  \<open>adb_write\<close> call returns; the code is the loop over it.
\<close>

section \<open>Descriptors as scripts\<close>

text \<open>
  Reads: a chunk of bytes that has arrived (one call returns at most the requested number of
  them, the rest stays), nothing yet (\<open>EAGAIN\<close>), an error, or end of file. An exhausted script is a closed peer.
\<close>

datatype read_event = Chunk string | Again | ReadError | Eof

datatype read_return = Got string | ReadAgain | ReadFailed | ReadClosed

fun adb_read :: "read_event list \<Rightarrow> nat \<Rightarrow> read_return \<times> read_event list" where
  "adb_read [] n = (ReadClosed, [])"
| "adb_read (Eof # es) n = (ReadClosed, Eof # es)"
| "adb_read (Again # es) n = (ReadAgain, es)"
| "adb_read (ReadError # es) n = (ReadFailed, es)"
| "adb_read (Chunk bs # es) n =
     (if bs = [] then (ReadClosed, es)
      else (Got (take n bs), if length bs \<le> n then es else Chunk (drop n bs) # es))"

text \<open>Writes: the number of bytes the call may take, a full buffer, or an error.\<close>

datatype write_event = Took nat | WouldBlock | WriteError

datatype write_outcome = Written | WriteFailed | StillWriting

section \<open>Exact reads and writes\<close>

function ReadFdExactly :: "read_event list \<Rightarrow> nat \<Rightarrow> string option \<times> read_event list" where
  "ReadFdExactly es len =
     (if len = 0 then (Some [], es)
      else case adb_read es len of
        (Got bs, es') \<Rightarrow>
          if bs = [] then (None, es')
          else (case ReadFdExactly es' (len - length bs) of
                  (None, es'') \<Rightarrow> (None, es'')
                | (Some rest, es'') \<Rightarrow> (Some (bs @ rest), es''))
      | (_, es') \<Rightarrow> (None, es'))"
  by pat_completeness auto
termination
  by (relation "measure snd") auto

declare ReadFdExactly.simps [simp del]

text \<open>
  \<open>WriteFdExactly\<close> retries a full buffer for ever, so the loop follows the script; a script that
  ends before the data is out leaves it \<^const>\<open>StillWriting\<close>. The second component is what
  the descriptor accepted.
\<close>

fun WriteFdExactly :: "write_event list \<Rightarrow> string \<Rightarrow> write_outcome \<times> string \<times> write_event list" where
  "WriteFdExactly es [] = (Written, [], es)"
| "WriteFdExactly [] (b # bs) = (StillWriting, [], [])"
| "WriteFdExactly (e # es) (b # bs) =
     (case e of
        WouldBlock \<Rightarrow> WriteFdExactly es (b # bs)
      | WriteError \<Rightarrow> (WriteFailed, [], es)
      | Took k \<Rightarrow>
          (case WriteFdExactly es (drop k (b # bs)) of
             (r, out, es') \<Rightarrow> (r, take k (b # bs) @ out, es')))"

section \<open>Protocol strings\<close>

definition MAX_PAYLOAD :: nat where
  "MAX_PAYLOAD = 1024 * 1024"

text \<open>The bytes \<open>SendProtocolString\<close> hands to \<open>WriteFdExactly\<close>; \<^const>\<open>None\<close> is \<open>EMSGSIZE\<close>.\<close>

definition protocol_string_bytes :: "string \<Rightarrow> string option" where
  "protocol_string_bytes s =
     (let len = length s mod 2 ^ 32
      in if len > MAX_PAYLOAD - 4 then None else Some (pad0 4 (to_base 16 len) @ s))"

definition SendProtocolString :: "write_event list \<Rightarrow> string \<Rightarrow> write_outcome \<times> string \<times> write_event list" where
  "SendProtocolString es s =
     (case protocol_string_bytes s of
        None \<Rightarrow> (WriteFailed, [], es)
      | Some str \<Rightarrow> WriteFdExactly es str)"

definition SendOkay :: "write_event list \<Rightarrow> write_outcome \<times> string \<times> write_event list" where
  "SendOkay es = WriteFdExactly es ''OKAY''"

definition SendFail :: "write_event list \<Rightarrow> string \<Rightarrow> write_outcome \<times> string \<times> write_event list" where
  "SendFail es reason =
     (case WriteFdExactly es ''FAIL'' of
        (Written, out, es') \<Rightarrow>
          (case SendProtocolString es' reason of (r, out', es'') \<Rightarrow> (r, out @ out', es''))
      | other \<Rightarrow> other)"

text \<open>\<open>strtoul(buf, nullptr, 16)\<close>: no digits is 0, a minus sign negates modulo $2^{64}$.\<close>

definition strtoul16 :: "string \<Rightarrow> nat" where
  "strtoul16 buf =
     (case strto 16 (dropWhile isspace (c_str buf)) of
        None \<Rightarrow> 0
      | Some (v, _) \<Rightarrow> nat (v mod 2 ^ 64))"

datatype protocol_error = NoStatusLength | NoStatusMessage

text \<open>The maximal size of a \<open>std::string\<close>.\<close>

definition string_max_size :: nat where
  "string_max_size = 2 ^ 63 - 1"

definition ReadProtocolString ::
    "read_event list \<Rightarrow> ((protocol_error + string) \<times> read_event list) result" where
  "ReadProtocolString es =
     (case ReadFdExactly es 4 of
        (None, es') \<Rightarrow> Inr (Inl NoStatusLength, es')
      | (Some buf, es') \<Rightarrow>
          let len = strtoul16 buf
          in if len > string_max_size then Inl (StdException ''std::length_error'')
             else (case ReadFdExactly es' len of
                     (None, es'') \<Rightarrow> Inr (Inl NoStatusMessage, es'')
                   | (Some s, es'') \<Rightarrow> Inr (Inr s, es'')))"

section \<open>Reading\<close>

text \<open>The bytes a script still delivers, before its first empty read, error or end of file.\<close>

fun avail_bytes :: "read_event list \<Rightarrow> string" where
  "avail_bytes [] = []"
| "avail_bytes (Chunk bs # es) = (if bs = [] then [] else bs @ avail_bytes es)"
| "avail_bytes (Again # es) = []"
| "avail_bytes (ReadError # es) = []"
| "avail_bytes (Eof # es) = []"

lemma adb_read_avail:
  assumes "0 < n"
  shows "case adb_read es n of
      (Got bs, es') \<Rightarrow> bs \<noteq> [] \<and> length bs \<le> n \<and> avail_bytes es = bs @ avail_bytes es'
    | (_, es') \<Rightarrow> avail_bytes es = []"
  using assms by (cases "(es, n)" rule: adb_read.cases) auto

lemma ReadFdExactly_avail:
  "if n \<le> length (avail_bytes es)
   then \<exists>es'. ReadFdExactly es n = (Some (take n (avail_bytes es)), es') \<and> avail_bytes es' = drop n (avail_bytes es)
   else fst (ReadFdExactly es n) = None"
proof (induction es n rule: ReadFdExactly.induct)
  case (1 es n)
  show ?case
  proof (cases "n = 0")
    case True
    then show ?thesis by (subst ReadFdExactly.simps, simp)+
  next
    case False
    then have r: "case adb_read es n of
        (Got bs, es') \<Rightarrow> bs \<noteq> [] \<and> length bs \<le> n \<and> avail_bytes es = bs @ avail_bytes es'
      | (_, es') \<Rightarrow> avail_bytes es = []" by (simp add: adb_read_avail)
    obtain x es1 where x: "adb_read es n = (x, es1)" by fastforce
    show ?thesis
    proof (cases x)
      case (Got bs)
      with r x have bs: "bs \<noteq> []" "length bs \<le> n" "avail_bytes es = bs @ avail_bytes es1" by auto
      have "ReadFdExactly es n = (case ReadFdExactly es1 (n - length bs) of
          (None, es'') \<Rightarrow> (None, es'') | (Some rest, es'') \<Rightarrow> (Some (bs @ rest), es''))"
        using False x Got bs(1) by (subst ReadFdExactly.simps) simp
      with "1.IH" [OF False x [symmetric] Got bs(1)] bs show ?thesis
        by (cases "n - length bs \<le> length (avail_bytes es1)")
           (auto split: prod.splits option.splits if_splits)
    qed (use False r x in \<open>(subst ReadFdExactly.simps, simp)+\<close>)
  qed
qed

lemma ReadFdExactly_Some:
  assumes "avail_bytes es = d @ rest"
  shows "\<exists>es'. ReadFdExactly es (length d) = (Some d, es') \<and> avail_bytes es' = rest"
  using ReadFdExactly_avail [of "length d" es] assms by simp

lemma ReadFdExactly_None: "length (avail_bytes es) < n \<Longrightarrow> fst (ReadFdExactly es n) = None"
  using ReadFdExactly_avail [of n es] by simp

section \<open>Writing\<close>

lemma WriteFdExactly_prefix:
  "WriteFdExactly es bs = (r, out, es') \<Longrightarrow> \<exists>rest. bs = out @ rest \<and> (r = Written \<longleftrightarrow> rest = [])"
proof (induction es bs arbitrary: r out rule: WriteFdExactly.induct)
  case (3 e es b bs)
  show ?case
  proof (cases e)
    case (Took k)
    with 3 show ?thesis
      by (auto split: prod.splits) (metis append_assoc append_take_drop_id)
  qed (use 3 in auto)
qed auto

fun accepted :: "write_event list \<Rightarrow> nat" where
  "accepted [] = 0"
| "accepted (Took k # es) = k + accepted es"
| "accepted (WouldBlock # es) = accepted es"
| "accepted (WriteError # es) = 0"

lemma WriteFdExactly_completes:
  "length bs \<le> accepted es \<Longrightarrow> \<exists>es'. WriteFdExactly es bs = (Written, bs, es')"
proof (induction es bs rule: WriteFdExactly.induct)
  case (3 e es b bs)
  show ?case
  proof (cases e)
    case (Took k)
    with 3 have "\<exists>es'. WriteFdExactly es (drop k (b # bs)) = (Written, drop k (b # bs), es')" by auto
    with Took show ?thesis by auto
  qed (use 3 in auto)
qed auto

section \<open>Protocol strings\<close>

lemma digits_value_pad0: "digits_value b (pad0 w s) = digits_value b s"
proof -
  have "digits_value b (replicate k (CHR ''0'') @ s) = digits_value b s" for k
    by (induction k) (simp_all add: digits_value_def digit_val_def)
  then show ?thesis by (simp add: pad0_def)
qed

lemma to_base16_length: "n < 16 ^ Suc k \<Longrightarrow> length (to_base 16 n) \<le> Suc k"
proof (induction k arbitrary: n)
  case 0
  then show ?case by (subst to_base.simps) simp
next
  case (Suc k)
  then have "n div 16 < 16 ^ Suc k" by (simp add: less_mult_imp_div_less mult.commute)
  from Suc.IH [OF this] show ?case by (subst to_base.simps) simp
qed

lemma hex_char: "is_digit 16 c \<Longrightarrow> \<not> isspace c \<and> c \<noteq> CHR 0x00 \<and> c \<noteq> CHR ''-'' \<and> c \<noteq> CHR ''+'' \<and> c \<noteq> CHR ''x'' \<and> c \<noteq> CHR ''X''"
  by (auto simp: is_digit_def digit_val_def isspace_def Let_def split: option.splits if_splits)

lemma strtoul16_digits:
  assumes "ds \<noteq> []" "\<forall>c \<in> set ds. is_digit 16 c" "digits_value 16 ds < 2 ^ 64"
  shows "strtoul16 ds = digits_value 16 ds"
proof -
  have c: "c_str ds = ds" using assms(2) hex_char by (auto simp: c_str_def takeWhile_eq_all_conv)
  obtain x xs where x: "ds = x # xs" using assms(1) by (cases ds) auto
  have hx: "\<not> isspace x" "x \<noteq> CHR ''-''" "x \<noteq> CHR ''+''" using hex_char [of x] assms(2) x by auto
  have "\<not> starts_with ds ''0x''" "\<not> starts_with ds ''0X''"
    using assms(2) hex_char x by (cases xs; fastforce simp: starts_with_def)+
  moreover have "takeWhile (is_digit 16) ds = ds" using assms(2) by (simp add: takeWhile_eq_all_conv)
  ultimately have "strto 16 ds = Some (int (digits_value 16 ds), [])"
    using hx x by (simp add: strto_def Let_def)
  moreover have "dropWhile isspace ds = ds" using hx x by simp
  ultimately show ?thesis using assms(3) by (simp add: strtoul16_def c zmod_int [symmetric])
qed

lemma to_base16_length_ge: "16 ^ k \<le> n \<Longrightarrow> Suc k \<le> length (to_base 16 n)"
proof (induction k arbitrary: n)
  case 0
  then show ?case by (simp add: Suc_le_eq)
next
  case (Suc k)
  then have "16 ^ k \<le> n div 16" by (simp add: less_eq_div_iff_mult_less_eq mult.commute)
  moreover have "16 \<le> n" using Suc.prems le_trans [of 16 "16 * 16 ^ k" n] by simp
  ultimately show ?case using Suc.IH [of "n div 16"] by (subst to_base.simps) simp
qed

lemma hex4:
  assumes "n < 65536"
  shows "length (pad0 4 (to_base 16 n)) = 4" "strtoul16 (pad0 4 (to_base 16 n)) = n"
proof -
  have l: "length (to_base 16 n) \<le> 4" using to_base16_length [of n 3] assms by simp
  then show "length (pad0 4 (to_base 16 n)) = 4" by (simp add: pad0_def)
  have "\<forall>c \<in> set (pad0 4 (to_base 16 n)). is_digit 16 c"
    using to_base_digits [of 16 n] by (auto simp: pad0_def is_digit_def digit_val_def)
  moreover have "digits_value 16 (pad0 4 (to_base 16 n)) = n"
    by (simp add: digits_value_pad0 digits_value_to_base)
  ultimately show "strtoul16 (pad0 4 (to_base 16 n)) = n"
    using strtoul16_digits [of "pad0 4 (to_base 16 n)"] assms by (simp add: pad0_def)
qed

lemma ReadProtocolString_bytes:
  assumes "n < 65536" "length d = n" "avail_bytes es = pad0 4 (to_base 16 n) @ d @ rest"
  shows "\<exists>es'. ReadProtocolString es = Inr (Inr d, es') \<and> avail_bytes es' = rest"
proof -
  obtain es1 where es1: "ReadFdExactly es 4 = (Some (pad0 4 (to_base 16 n)), es1)" "avail_bytes es1 = d @ rest"
    using ReadFdExactly_Some [OF assms(3)] hex4(1) [OF assms(1)] by auto
  obtain es2 where es2: "ReadFdExactly es1 n = (Some d, es2)" "avail_bytes es2 = rest"
    using ReadFdExactly_Some [OF es1(2)] assms(2) by auto
  show ?thesis
    using es1(1) es2 hex4(2) [OF assms(1)] assms(1) by (simp add: ReadProtocolString_def Let_def string_max_size_def)
qed

lemma protocol_string_bytes_short:
  "length s < 65536 \<Longrightarrow> protocol_string_bytes s = Some (pad0 4 (to_base 16 (length s)) @ s)"
  by (simp add: protocol_string_bytes_def MAX_PAYLOAD_def)

definition protocol_string_enc :: "string \<Rightarrow> string" where
  "protocol_string_enc s = (case protocol_string_bytes s of None \<Rightarrow> [] | Some b \<Rightarrow> b)"

definition protocol_string_read :: "read_event list \<Rightarrow> (string \<times> read_event list) option" where
  "protocol_string_read es =
     (case ReadProtocolString es of Inr (Inr s, es') \<Rightarrow> Some (s, es') | _ \<Rightarrow> None)"

interpretation pstr: stream_codec avail_bytes protocol_string_enc "\<lambda>s. length s < 65536" protocol_string_read
proof unfold_locales
  fix m es rest
  assume m: "length m < 65536" "avail_bytes es = protocol_string_enc m @ rest"
  then have "avail_bytes es = pad0 4 (to_base 16 (length m)) @ m @ rest"
    by (simp add: protocol_string_enc_def protocol_string_bytes_short)
  from ReadProtocolString_bytes [OF m(1) refl this]
  show "\<exists>es'. protocol_string_read es = Some (m, es') \<and> avail_bytes es' = rest"
    by (auto simp: protocol_string_read_def)
qed

section \<open>Properties\<close>

text \<open>
  C31: \<open>ReadFdExactly\<close> returns exactly the next bytes of the stream, however the descriptor cuts
  them into reads, and fails exactly when the stream ends first; \<open>WriteFdExactly\<close> only ever
  hands over a prefix of the data, reports success exactly when all of it went out, and does
  succeed when the descriptor accepts enough, across any number of full-buffer retries.
\<close>

theorem exact_io_correct:
  "(n \<le> length (avail_bytes es) \<longrightarrow>
      (\<exists>es'. ReadFdExactly es n = (Some (take n (avail_bytes es)), es') \<and> avail_bytes es' = drop n (avail_bytes es))) \<and>
   (length (avail_bytes es) < n \<longrightarrow> fst (ReadFdExactly es n) = None) \<and>
   (\<forall>r out ws'. WriteFdExactly ws bs = (r, out, ws') \<longrightarrow>
      (\<exists>rest. bs = out @ rest \<and> (r = Written \<longleftrightarrow> rest = []))) \<and>
   (length bs \<le> accepted ws \<longrightarrow> (\<exists>ws'. WriteFdExactly ws bs = (Written, bs, ws')))"
  using ReadFdExactly_avail [of n es] WriteFdExactly_prefix [of ws bs] WriteFdExactly_completes [of bs ws]
    ReadFdExactly_None [of es n]
  by auto

theorem exact_io_correct_witness:
  "(\<exists>es'. ReadFdExactly [Chunk ''OK'', Chunk ''AY0'', Eof] 4 = (Some ''OKAY'', es') \<and> avail_bytes es' = ''0'') \<and>
   fst (ReadFdExactly [Chunk ''OK'', Eof, Chunk ''AY''] 4) = None \<and>
   (\<exists>ws'. WriteFdExactly [Took 1, WouldBlock, Took 5] ''OKAY'' = (Written, ''OKAY'', ws'))"
  using exact_io_correct [of 4 "[Chunk ''OK'', Chunk ''AY0'', Eof]" "[Took 1, WouldBlock, Took 5]" "''OKAY''"]
    exact_io_correct [of 4 "[Chunk ''OK'', Eof, Chunk ''AY'']"]
  by simp

text \<open>
  C37: strings of at most 65535 bytes sent with \<open>SendProtocolString\<close> one after another are read
  back one by one with \<open>ReadProtocolString\<close>, however the stream is cut into reads, and the reader
  is left exactly behind the last of them.
\<close>

theorem protocol_strings_roundtrip:
  assumes "\<forall>s \<in> set ss. length s < 65536" "avail_bytes es = concat (map protocol_string_enc ss) @ rest"
  shows "\<exists>es'. pstr.read_n (length ss) es = Some (ss, es') \<and> avail_bytes es' = rest"
  using pstr.read_n_enc [OF assms] .

theorem protocol_strings_roundtrip_witness:
  "\<exists>es'. pstr.read_n 2 [Chunk ''0006devi'', Chunk ''ce0004h'', Chunk ''ostrest''] = Some ([''device'', ''host''], es') \<and>
     avail_bytes es' = ''rest''"
proof -
  have e: "protocol_string_enc ''device'' = ''0006device''" "protocol_string_enc ''host'' = ''0004host''"
    by code_simp+
  have "\<forall>s \<in> set [''device'', ''host'']. length s < 65536"
    "avail_bytes [Chunk ''0006devi'', Chunk ''ce0004h'', Chunk ''ostrest''] =
       concat (map protocol_string_enc [''device'', ''host'']) @ ''rest''"
    by (simp_all add: e)
  from protocol_strings_roundtrip [OF this] show ?thesis by (simp add: numeral_2_eq_2 del: pstr.read_n.simps)
qed

text \<open>
  C39: for the lengths between 65536 and the accepted maximum the prefix has five hexadecimal
  digits while the reader takes four: what \<open>SendProtocolString\<close> reports as sent is read back as a
  string that starts with the last digit of the length and stops after a sixteenth of the data.
\<close>

theorem long_protocol_string_garbled:
  assumes "65536 \<le> length s" "length s \<le> MAX_PAYLOAD - 4"
  shows "\<exists>b. protocol_string_bytes s = Some b \<and>
     (\<forall>es. avail_bytes es = b \<longrightarrow>
        (\<exists>es'. ReadProtocolString es =
           Inr (Inr (digit_char (length s mod 16) # take (length s div 16 - 1) s), es')))"
proof -
  let ?n = "length s"
  have n: "?n < 2 ^ 20" using assms(2) by (simp add: MAX_PAYLOAD_def)
  have m: "?n div 16 < 65536" "4096 \<le> ?n div 16" using n assms(1) by (simp_all add: less_mult_imp_div_less)
  have l4: "length (to_base 16 (?n div 16)) = 4"
    using to_base16_length [of "?n div 16" 3] to_base16_length_ge [of 3 "?n div 16"] m by simp
  have "to_base 16 ?n = to_base 16 (?n div 16) @ [digit_char (?n mod 16)]"
    using assms(1) by (subst to_base.simps) simp
  then have b: "protocol_string_bytes s = Some (to_base 16 (?n div 16) @ digit_char (?n mod 16) # s)"
    using assms n l4 by (simp add: protocol_string_bytes_def Let_def pad0_def)
  let ?d = "digit_char (?n mod 16) # take (?n div 16 - 1) s"
  have "length ?d = ?n div 16" using m by simp
  moreover have "pad0 4 (to_base 16 (?n div 16)) = to_base 16 (?n div 16)" by (simp add: pad0_def l4)
  ultimately show ?thesis
    using ReadProtocolString_bytes [OF m(1), of ?d _ "drop (?n div 16 - 1) s"] by (simp add: b) blast
qed

theorem long_protocol_string_garbled_witness:
  "\<exists>b. protocol_string_bytes (replicate 65536 (CHR ''a'')) = Some b \<and>
     (\<forall>es. avail_bytes es = b \<longrightarrow> (\<exists>s es'. ReadProtocolString es = Inr (Inr s, es') \<and> length s = 4096))"
  using long_protocol_string_garbled [of "replicate 65536 (CHR ''a'')"] by (fastforce simp: MAX_PAYLOAD_def)

text \<open>
  A peer that answers with a length field that \<open>strtoul\<close> reads as negative makes
  \<open>ReadProtocolString\<close> ask for more bytes than a string can hold: the exception ends the process.
\<close>

lemma negative_length_aborts:
  assumes "avail_bytes es = CHR ''-'' # ds @ rest" "length ds = 3" "\<forall>c \<in> set ds. is_digit 16 c"
    "digits_value 16 ds \<noteq> 0"
  shows "ReadProtocolString es = Inl (StdException ''std::length_error'')"
proof -
  obtain es1 where es1: "ReadFdExactly es 4 = (Some (CHR ''-'' # ds), es1)"
    using ReadFdExactly_Some [of es "CHR ''-'' # ds" rest] assms(1,2) by auto
  have c: "c_str (CHR ''-'' # ds) = CHR ''-'' # ds"
    using assms(3) hex_char by (auto simp: c_str_def takeWhile_eq_all_conv)
  obtain a b d where ds: "ds = [a, b, d]" using assms(2) by (auto simp: numeral_3_eq_3 length_Suc_conv)
  have "b \<noteq> CHR ''x''" "b \<noteq> CHR ''X''" using assms(3) ds hex_char by auto
  then have sto: "strto 16 (CHR ''-'' # ds) = Some (- int (digits_value 16 ds), [])"
    using assms(3) ds by (simp add: strto_def Let_def starts_with_def)
  have small: "digits_value 16 ds < 4096"
    using assms(3) ds by (auto simp: digits_value_def is_digit_def split: option.splits)
  have "strtoul16 (CHR ''-'' # ds) = nat ((- int (digits_value 16 ds)) mod 2 ^ 64)"
    by (simp add: strtoul16_def c isspace_def sto)
  also have "\<dots> = 2 ^ 64 - digits_value 16 ds"
    using assms(4) small by (simp add: zmod_zminus1_eq_if nat_diff_distrib')
  finally have v: "strtoul16 (CHR ''-'' # ds) = 2 ^ 64 - digits_value 16 ds" .
  have "string_max_size < 2 ^ 64 - digits_value 16 ds" using small by (simp add: string_max_size_def)
  with es1 show ?thesis by (simp only: ReadProtocolString_def v Let_def prod.case option.case if_True)
qed

end
