(* ===== verification/Packet.thy ===== *)
theory Packet
  imports Adb_Io
begin

text \<open>
  The wire format: \<open>amessage\<close> and \<open>apacket\<close> of \<open>adb/types.h\<close> with the protocol constants of
  \<open>adb/adb.h\<close>, the checksum of \<open>adb.cpp\<close>, what \<open>send_packet\<close> fills in, \<open>check_header\<close>, and
  \<open>FdConnection::Read\<close> and \<open>Write\<close> of \<open>transport.cpp\<close> on a plain descriptor. The header is the
  in-memory structure, six 32-bit little-endian words.
\<close>

unbundle bit_operations_syntax

section \<open>Definitions\<close>

record amessage =
  command :: u32
  arg0 :: u32
  arg1 :: u32
  data_length :: u32
  data_check :: u32
  magic :: u32

record apacket =
  msg :: amessage
  payload :: string

definition A_SYNC :: u32 where "A_SYNC = 0x434e5953"
definition A_CNXN :: u32 where "A_CNXN = 0x4e584e43"
definition A_OPEN :: u32 where "A_OPEN = 0x4e45504f"
definition A_OKAY :: u32 where "A_OKAY = 0x59414b4f"
definition A_CLSE :: u32 where "A_CLSE = 0x45534c43"
definition A_WRTE :: u32 where "A_WRTE = 0x45545257"
definition A_AUTH :: u32 where "A_AUTH = 0x48545541"
definition A_STLS :: u32 where "A_STLS = 0x534C5453"

definition A_VERSION_MIN :: u32 where "A_VERSION_MIN = 0x01000000"
definition A_VERSION_SKIP_CHECKSUM :: u32 where "A_VERSION_SKIP_CHECKSUM = 0x01000001"
definition A_VERSION :: u32 where "A_VERSION = 0x01000001"
definition A_STLS_VERSION :: u32 where "A_STLS_VERSION = 0x01000000"

lemmas command_defs = A_SYNC_def A_CNXN_def A_OPEN_def A_OKAY_def A_CLSE_def A_WRTE_def A_AUTH_def A_STLS_def

lemmas version_defs = A_VERSION_MIN_def A_VERSION_SKIP_CHECKSUM_def A_VERSION_def A_STLS_VERSION_def

definition MAX_PAYLOAD_V1 :: nat where "MAX_PAYLOAD_V1 = 4 * 1024"
definition INITIAL_DELAYED_ACK_BYTES :: nat where "INITIAL_DELAYED_ACK_BYTES = 1 * 1024 * 1024"

subsection \<open>Little-endian words\<close>

definition le32 :: "u32 \<Rightarrow> string" where
  "le32 w = map (\<lambda>i. char_of (unat w div 256 ^ i mod 256)) [0, 1, 2, 3]"

fun le_value :: "string \<Rightarrow> nat" where
  "le_value [] = 0"
| "le_value (c # cs) = byte_val c + 256 * le_value cs"

definition le32_decode :: "string \<Rightarrow> u32" where
  "le32_decode s = of_nat (le_value s)"

subsection \<open>Packets\<close>

definition amessage_size :: nat where
  "amessage_size = 24"

definition amessage_bytes :: "amessage \<Rightarrow> string" where
  "amessage_bytes m =
     le32 (command m) @ le32 (arg0 m) @ le32 (arg1 m) @ le32 (data_length m) @ le32 (data_check m) @ le32 (magic m)"

definition amessage_of_bytes :: "string \<Rightarrow> amessage" where
  "amessage_of_bytes s =
     (let word = (\<lambda>i. le32_decode (take 4 (drop (4 * i) s)))
      in \<lparr>command = word 0, arg0 = word 1, arg1 = word 2, data_length = word 3, data_check = word 4, magic = word 5\<rparr>)"

text \<open>The checksum loop indexes the payload up to \<open>data_length\<close>.\<close>

definition calculate_apacket_checksum :: "apacket \<Rightarrow> u32 result" where
  "calculate_apacket_checksum p =
     (let n = unat (data_length (msg p))
      in if n \<le> length (payload p)
         then Inr (foldl (\<lambda>sum c. sum + of_nat (byte_val c)) 0 (take n (payload p)))
         else Inl OutOfBounds)"

text \<open>The fields \<open>send_packet\<close> fills in before the packet is queued.\<close>

definition prepare_packet :: "int \<Rightarrow> apacket \<Rightarrow> apacket result" where
  "prepare_packet version p =
     (let p1 = p\<lparr>msg := (msg p)\<lparr>magic := command (msg p) XOR 0xffffffff\<rparr>\<rparr>
      in if version \<ge> uint A_VERSION_SKIP_CHECKSUM
         then Inr (p1\<lparr>msg := (msg p1)\<lparr>data_check := 0\<rparr>\<rparr>)
         else bind_r (calculate_apacket_checksum p1)
                (\<lambda>c. Inr (p1\<lparr>msg := (msg p1)\<lparr>data_check := c\<rparr>\<rparr>)))"

definition check_header :: "apacket \<Rightarrow> nat \<Rightarrow> bool" where
  "check_header p max_payload \<longleftrightarrow>
     \<not> (magic (msg p) \<noteq> (command (msg p) XOR 0xffffffff)) \<and> \<not> (unat (data_length (msg p)) > max_payload)"

subsection \<open>FdConnection\<close>

text \<open>The bytes \<open>FdConnection::Write\<close> sends: the header, then \<open>data_length\<close> bytes of the payload.\<close>

definition FdConnection_bytes :: "apacket \<Rightarrow> string result" where
  "FdConnection_bytes p =
     (let n = unat (data_length (msg p))
      in if n \<le> length (payload p) then Inr (amessage_bytes (msg p) @ take n (payload p)) else Inl OutOfBounds)"

definition FdConnection_Write ::
    "write_event list \<Rightarrow> apacket \<Rightarrow> (bool \<times> string \<times> write_event list) result" where
  "FdConnection_Write ws p =
     (case WriteFdExactly ws (amessage_bytes (msg p)) of
        (Written, out, ws') \<Rightarrow>
          if data_length (msg p) = 0 then Inr (True, out, ws')
          else if unat (data_length (msg p)) \<le> length (payload p) then
            (case WriteFdExactly ws' (take (unat (data_length (msg p))) (payload p)) of
               (r, out', ws'') \<Rightarrow> Inr (r = Written, out @ out', ws''))
          else Inl OutOfBounds
      | (_, out, ws') \<Rightarrow> Inr (False, out, ws'))"

definition FdConnection_Read :: "read_event list \<Rightarrow> (apacket \<times> read_event list) option" where
  "FdConnection_Read es =
     (case ReadFdExactly es amessage_size of
        (None, _) \<Rightarrow> None
      | (Some h, es') \<Rightarrow>
          let m = amessage_of_bytes h
          in if unat (data_length m) > MAX_PAYLOAD then None
             else (case ReadFdExactly es' (unat (data_length m)) of
                     (None, _) \<Rightarrow> None
                   | (Some d, es'') \<Rightarrow> Some (\<lparr>msg = m, payload = d\<rparr>, es'')))"

section \<open>The header\<close>

lemma le32_length [simp]: "length (le32 w) = 4"
  by (simp add: le32_def)

lemma le_value_digits: "le_value (map (\<lambda>i. char_of (n div 256 ^ i mod 256)) [0..<k]) = n mod 256 ^ k"
proof (induction k arbitrary: n)
  case (Suc k)
  have "map (\<lambda>i. char_of (n div 256 ^ i mod 256)) [0..<Suc k] =
      char_of (n mod 256) # map (\<lambda>i. char_of (n div 256 div 256 ^ i mod 256)) [0..<k]"
    by (simp add: upt_conv_Cons map_Suc_upt [symmetric] div_mult2_eq comp_def del: upt_Suc)
  with Suc.IH [of "n div 256"] show ?case
    by (simp add: of_char_of mod_mult2_eq)
qed simp

lemma le_value_le32: "le_value (le32 w) = unat w"
  using le_value_digits [of "unat w" 4] unat_bounds(3) [of w]
  by (simp add: le32_def upt_rec)

lemma le32_decode_le32 [simp]: "le32_decode (le32 w) = w"
  by (simp add: le32_decode_def le_value_le32)

lemma amessage_bytes_length [simp]: "length (amessage_bytes m) = amessage_size"
  by (simp add: amessage_bytes_def amessage_size_def)

lemma amessage_of_bytes_roundtrip [simp]: "amessage_of_bytes (amessage_bytes m) = m"
  by (cases m) (simp add: amessage_of_bytes_def amessage_bytes_def Let_def)

section \<open>Connections\<close>

text \<open>The packets the connection carries faithfully.\<close>

definition packet_ok :: "apacket \<Rightarrow> bool" where
  "packet_ok p \<longleftrightarrow> unat (data_length (msg p)) = length (payload p) \<and> length (payload p) \<le> MAX_PAYLOAD"

definition packet_enc :: "apacket \<Rightarrow> string" where
  "packet_enc p = (case FdConnection_bytes p of Inl _ \<Rightarrow> [] | Inr b \<Rightarrow> b)"

lemma packet_enc_ok: "packet_ok p \<Longrightarrow> packet_enc p = amessage_bytes (msg p) @ payload p"
  by (simp add: packet_enc_def FdConnection_bytes_def packet_ok_def)

lemma FdConnection_Read_enc:
  assumes "packet_ok p" "avail_bytes es = packet_enc p @ rest"
  shows "\<exists>es'. FdConnection_Read es = Some (p, es') \<and> avail_bytes es' = rest"
proof -
  have "avail_bytes es = amessage_bytes (msg p) @ payload p @ rest"
    using assms by (simp add: packet_enc_ok)
  then obtain es1 where es1: "ReadFdExactly es amessage_size = (Some (amessage_bytes (msg p)), es1)"
      "avail_bytes es1 = payload p @ rest"
    using ReadFdExactly_Some [of es "amessage_bytes (msg p)"] by auto
  obtain es2 where "ReadFdExactly es1 (length (payload p)) = (Some (payload p), es2)" "avail_bytes es2 = rest"
    using ReadFdExactly_Some [OF es1(2)] by auto
  with es1 assms(1) show ?thesis
    by (simp add: FdConnection_Read_def packet_ok_def Let_def)
qed

interpretation conn: stream_codec avail_bytes packet_enc packet_ok FdConnection_Read
  by unfold_locales (rule FdConnection_Read_enc)

lemma FdConnection_Write_sends:
  assumes "packet_ok p" "FdConnection_Write ws p = Inr (ok, out, ws')"
  shows "\<exists>rest. packet_enc p = out @ rest \<and> (ok \<longleftrightarrow> rest = [])"
proof -
  obtain r o1 w1 where w1: "WriteFdExactly ws (amessage_bytes (msg p)) = (r, o1, w1)" by (metis prod_cases3)
  obtain r2 o2 w2 where w2: "WriteFdExactly w1 (payload p) = (r2, o2, w2)" by (metis prod_cases3)
  from WriteFdExactly_prefix [OF w1] obtain t1 where
    t1: "amessage_bytes (msg p) = o1 @ t1" "r = Written \<longleftrightarrow> t1 = []" by blast
  from WriteFdExactly_prefix [OF w2] obtain t2 where
    t2: "payload p = o2 @ t2" "r2 = Written \<longleftrightarrow> t2 = []" by blast
  have z: "data_length (msg p) = 0 \<longleftrightarrow> payload p = []"
    using assms(1) by (metis packet_ok_def length_0_conv unat_eq_zero)
  show ?thesis
  proof (cases "r = Written")
    case True
    with assms w1 w2 t1 t2 z show ?thesis
      by (auto simp: FdConnection_Write_def packet_enc_ok packet_ok_def split: if_splits)
  next
    case False
    with assms w1 t1 show ?thesis
      by (cases r) (auto simp: FdConnection_Write_def packet_enc_ok)
  qed
qed

section \<open>Prepared packets\<close>

lemma prepare_packet_ok:
  assumes "packet_ok p"
  shows "\<exists>q. prepare_packet v p = Inr q \<and> packet_ok q \<and> payload q = payload p \<and>
     check_header q (length (payload p)) \<and>
     command (msg q) = command (msg p) \<and> arg0 (msg q) = arg0 (msg p) \<and> arg1 (msg q) = arg1 (msg p) \<and>
     data_length (msg q) = data_length (msg p)"
  using assms
  by (auto simp: prepare_packet_def calculate_apacket_checksum_def packet_ok_def check_header_def Let_def)

lemma checksum_sum: "foldl (\<lambda>sum c. sum + of_nat (byte_val c)) a s = (a :: u32) + of_nat (sum_list (map byte_val s))"
  by (induction s arbitrary: a) (simp_all add: add.assoc)

lemma byte_val_le: "byte_val c \<le> (255 :: nat)"
  using nat_of_char_less_256 [of c] by linarith

lemma byte_sum_le: "sum_list (map byte_val s) \<le> 255 * length s"
  by (induction s) (auto intro: add_mono byte_val_le)

section \<open>Properties\<close>

text \<open>
  C11: any sequence of packets whose length field matches a payload of at most \<open>MAX_PAYLOAD\<close> bytes,
  written one after another, is read back by \<open>FdConnection::Read\<close> packet by packet, header and
  payload unchanged, for every way the stream may be cut into reads; each \<open>Write\<close> puts out a
  prefix of its packet's bytes and reports success exactly when all of them are out.
\<close>

theorem packet_stream_roundtrip:
  assumes "\<forall>p \<in> set ps. packet_ok p"
  shows "(\<forall>es rest. avail_bytes es = concat (map packet_enc ps) @ rest \<longrightarrow>
       (\<exists>es'. conn.read_n (length ps) es = Some (ps, es') \<and> avail_bytes es' = rest)) \<and>
     (\<forall>p \<in> set ps. \<forall>ws ok out ws'. FdConnection_Write ws p = Inr (ok, out, ws') \<longrightarrow>
       (\<exists>rest. packet_enc p = out @ rest \<and> (ok \<longleftrightarrow> rest = [])))"
  using assms conn.read_n_enc [OF assms] FdConnection_Write_sends by blast

definition sample_packet :: apacket where
  "sample_packet = \<lparr>msg = \<lparr>command = A_WRTE, arg0 = 1, arg1 = 2, data_length = 3, data_check = 0,
     magic = A_WRTE XOR 0xffffffff\<rparr>, payload = ''abc''\<rparr>"

theorem packet_stream_roundtrip_witness:
  "\<exists>es'. conn.read_n 1 [Chunk (take 5 (packet_enc sample_packet)), Chunk (drop 5 (packet_enc sample_packet))] =
     Some ([sample_packet], es')"
proof -
  have ok: "packet_ok sample_packet" by (simp add: packet_ok_def sample_packet_def MAX_PAYLOAD_def)
  have len: "length (packet_enc sample_packet) = 27"
    by (simp add: packet_enc_ok [OF ok] amessage_size_def) (simp add: sample_packet_def)
  let ?es = "[Chunk (take 5 (packet_enc sample_packet)), Chunk (drop 5 (packet_enc sample_packet))]"
  have "take 5 (packet_enc sample_packet) \<noteq> []" "drop 5 (packet_enc sample_packet) \<noteq> []"
    using len by (auto simp flip: length_0_conv simp del: length_0_conv)
  then have av: "avail_bytes ?es = concat (map packet_enc [sample_packet]) @ []" by simp
  have "\<forall>p \<in> set [sample_packet]. packet_ok p" using ok by simp
  from packet_stream_roundtrip [OF this, THEN conjunct1, THEN spec, THEN spec, THEN mp, OF av]
  obtain es' where "conn.read_n (length [sample_packet]) ?es = Some ([sample_packet], es')" by blast
  then show ?thesis by (simp only: list.size One_nat_def add_0 plus_1_eq_Suc) blast
qed

text \<open>
  C33: what \<open>send_packet\<close> puts on the wire always passes the receiver's header check at any payload
  limit not below the payload size, keeps command, arguments and payload, and for peers below
  the checksum-free version carries the sum of the payload bytes, which cannot have wrapped.
\<close>

theorem prepared_packet_accepted:
  assumes "packet_ok p"
  shows "\<exists>q. prepare_packet v p = Inr q \<and> packet_ok q \<and> payload q = payload p \<and>
     command (msg q) = command (msg p) \<and> arg0 (msg q) = arg0 (msg p) \<and> arg1 (msg q) = arg1 (msg p) \<and>
     (\<forall>m \<ge> length (payload p). check_header q m) \<and>
     (if v \<ge> uint A_VERSION_SKIP_CHECKSUM then data_check (msg q) = 0
      else unat (data_check (msg q)) = sum_list (map byte_val (payload p)))"
proof -
  let ?s = "sum_list (map byte_val (payload p)) :: nat"
  have "?s \<le> 255 * MAX_PAYLOAD"
    using byte_sum_le [of "payload p"] assms by (simp add: packet_ok_def)
  then have "unat (of_nat ?s :: u32) = ?s"
    by (simp add: MAX_PAYLOAD_def unat_of_nat take_bit_nat_eq_self)
  then show ?thesis
    using assms checksum_sum [of 0 "payload p"]
    by (auto simp: prepare_packet_def calculate_apacket_checksum_def packet_ok_def check_header_def Let_def)
qed

theorem prepared_packet_accepted_witness:
  "\<exists>q. prepare_packet (uint A_VERSION_MIN) sample_packet = Inr q \<and> check_header q MAX_PAYLOAD_V1 \<and>
     unat (data_check (msg q)) = 294"
proof -
  have ok: "packet_ok sample_packet" by (simp add: packet_ok_def sample_packet_def MAX_PAYLOAD_def)
  have "sum_list (map byte_val (payload sample_packet)) = (294 :: nat)" "length (payload sample_packet) \<le> MAX_PAYLOAD_V1"
    by (simp_all add: sample_packet_def MAX_PAYLOAD_V1_def)
  with prepared_packet_accepted [OF ok, of "uint A_VERSION_MIN"] show ?thesis
    by (auto simp: version_defs)
qed

end
