(* ===== verification/Shell_Protocol.thy ===== *)
theory Shell_Protocol
  imports Packet
begin

text \<open>
  \<open>adb/shell_protocol.h\<close> and \<open>shell_service_protocol.cpp\<close>: the framing that multiplexes stdin,
  stdout, stderr and the exit code over one descriptor. A packet larger than the buffer is
  delivered in several reads; the object remembers how much of it is still to come.
\<close>

section \<open>Definitions\<close>

definition kIdStdin :: u8 where "kIdStdin = 0"
definition kIdStdout :: u8 where "kIdStdout = 1"
definition kIdStderr :: u8 where "kIdStderr = 2"
definition kIdExit :: u8 where "kIdExit = 3"
definition kIdCloseStdin :: u8 where "kIdCloseStdin = 4"
definition kIdWindowSizeChange :: u8 where "kIdWindowSizeChange = 5"
definition kIdInvalid :: u8 where "kIdInvalid = 255"

definition kBufferSize :: nat where "kBufferSize = MAX_PAYLOAD"
definition kHeaderSize :: nat where "kHeaderSize = 5"

text \<open>
  The object: the identifier in the first buffer byte, the data read last (the first
  \<open>data_length_\<close> bytes of the data area), the bytes of the current packet still unread, and
  the capacity of the data area.
\<close>

record shell_protocol =
  sp_id :: u8
  sp_data :: string
  bytes_left :: nat
  data_capacity :: nat

definition ShellProtocol :: shell_protocol where
  "ShellProtocol = \<lparr>sp_id = kIdInvalid, sp_data = [], bytes_left = 0, data_capacity = kBufferSize - kHeaderSize\<rparr>"

definition ShellProtocol_Read :: "shell_protocol \<Rightarrow> read_event list \<Rightarrow> (shell_protocol \<times> read_event list) option" where
  "ShellProtocol_Read sp es =
     (case (if bytes_left sp = 0 then
              (case ReadFdExactly es kHeaderSize of
                 (None, _) \<Rightarrow> None
               | (Some h, es') \<Rightarrow>
                   Some (sp\<lparr>sp_id := of_nat (byte_val (hd h)),
                            bytes_left := unat (le32_decode (drop 1 h)), sp_data := []\<rparr>, es'))
            else Some (sp, es)) of
        None \<Rightarrow> None
      | Some (sp1, es1) \<Rightarrow>
          let read_length = min (bytes_left sp1) (data_capacity sp1)
          in (case (if read_length \<noteq> 0 then ReadFdExactly es1 read_length else (Some [], es1)) of
                (None, _) \<Rightarrow> None
              | (Some d, es2) \<Rightarrow> Some (sp1\<lparr>bytes_left := bytes_left sp1 - read_length, sp_data := d\<rparr>, es2)))"

text \<open>
  The bytes \<open>Write(id, length)\<close> sends when the caller has put \<open>data\<close> into the buffer; more than
  the buffer holds is read from beyond its end.
\<close>

definition ShellProtocol_bytes :: "shell_protocol \<Rightarrow> u8 \<Rightarrow> string \<Rightarrow> string result" where
  "ShellProtocol_bytes sp pkt_id data =
     (if length data \<le> data_capacity sp
      then Inr (char_of (unat pkt_id) # le32 (of_nat (length data)) @ data)
      else Inl OutOfBounds)"

definition ShellProtocol_Write ::
    "shell_protocol \<Rightarrow> write_event list \<Rightarrow> u8 \<Rightarrow> string \<Rightarrow> (bool \<times> string \<times> write_event list) result" where
  "ShellProtocol_Write sp ws pkt_id data =
     bind_r (ShellProtocol_bytes sp pkt_id data) (\<lambda>b.
       case WriteFdExactly ws b of (r, out, ws') \<Rightarrow> Inr (r = Written, out, ws'))"

text \<open>
  A reader that collects one packet: \<open>Read\<close> until nothing of it is left. Used to state what the
  successive reads deliver.
\<close>

function collect_rest :: "shell_protocol \<Rightarrow> read_event list \<Rightarrow> (string \<times> read_event list) option" where
  "collect_rest sp es =
     (if bytes_left sp = 0 then Some ([], es)
      else case ShellProtocol_Read sp es of
        None \<Rightarrow> None
      | Some (sp', es') \<Rightarrow>
          if bytes_left sp' < bytes_left sp
          then map_option (\<lambda>(d, es''). (sp_data sp' @ d, es'')) (collect_rest sp' es')
          else None)"
  by pat_completeness auto
termination
  by (relation "measure (\<lambda>(sp, _). bytes_left sp)") auto

declare collect_rest.simps [simp del]

definition collect_packet :: "shell_protocol \<Rightarrow> read_event list \<Rightarrow> ((u8 \<times> string) \<times> read_event list) option" where
  "collect_packet sp es =
     (case ShellProtocol_Read sp es of
        None \<Rightarrow> None
      | Some (sp', es') \<Rightarrow>
          map_option (\<lambda>(d, es''). ((sp_id sp', sp_data sp' @ d), es'')) (collect_rest sp' es'))"

section \<open>Lemmas\<close>

lemma Read_data:
  assumes "avail_bytes es = d @ rest" "length d = bytes_left sp" "bytes_left sp \<noteq> 0" "0 < data_capacity sp"
  defines "m \<equiv> min (bytes_left sp) (data_capacity sp)"
  shows "\<exists>es'. ShellProtocol_Read sp es = Some (sp\<lparr>bytes_left := bytes_left sp - m, sp_data := take m d\<rparr>, es') \<and>
     avail_bytes es' = drop m d @ rest \<and> 0 < m"
proof -
  have m: "m \<noteq> 0" "m \<le> length d" using assms by (auto simp: m_def)
  have "avail_bytes es = take m d @ drop m d @ rest" using assms(1) by simp
  from ReadFdExactly_Some [OF this] m obtain es' where
    "ReadFdExactly es m = (Some (take m d), es')" "avail_bytes es' = drop m d @ rest" by auto
  with m assms(3,4) show ?thesis by (simp add: ShellProtocol_Read_def m_def [symmetric] Let_def)
qed

lemma collect_rest_data:
  "avail_bytes es = d @ rest \<Longrightarrow> length d = bytes_left sp \<Longrightarrow> 0 < data_capacity sp \<Longrightarrow>
     \<exists>es'. collect_rest sp es = Some (d, es') \<and> avail_bytes es' = rest"
proof (induction "bytes_left sp" arbitrary: sp es d rule: less_induct)
  case less
  show ?case
  proof (cases "bytes_left sp = 0")
    case True
    with less.prems show ?thesis by (subst collect_rest.simps) simp
  next
    case False
    define m where "m = min (bytes_left sp) (data_capacity sp)"
    let ?sp = "sp\<lparr>bytes_left := bytes_left sp - m, sp_data := take m d\<rparr>"
    obtain es1 where es1: "ShellProtocol_Read sp es = Some (?sp, es1)" "avail_bytes es1 = drop m d @ rest" "0 < m"
      using Read_data [OF less.prems(1,2) False less.prems(3)] by (auto simp: m_def)
    obtain es2 where "collect_rest ?sp es1 = Some (drop m d, es2)" "avail_bytes es2 = rest"
      using less.hyps [of ?sp es1 "drop m d"] False es1 less.prems by auto
    with False es1 show ?thesis by (subst collect_rest.simps) simp
  qed
qed

lemma Read_header:
  assumes "avail_bytes es = char_of (unat pkt_id) # le32 n @ rest" "bytes_left sp = 0"
  obtains es' where "avail_bytes es' = rest"
    "ReadFdExactly es kHeaderSize = (Some (char_of (unat pkt_id) # le32 n), es')"
proof -
  have "avail_bytes es = (char_of (unat pkt_id) # le32 n) @ rest" using assms(1) by simp
  from ReadFdExactly_Some [OF this] that show thesis by (auto simp: kHeaderSize_def)
qed

lemma u8_char_roundtrip: "of_nat (unat (w :: u8) mod 256) = w"
  using unat_bounds(1) [of w] by simp

lemma collect_packet_enc:
  assumes "avail_bytes es = char_of (unat pkt_id) # le32 (of_nat (length d)) @ d @ rest" "length d < 2 ^ 32"
    "bytes_left sp = 0" "0 < data_capacity sp"
  shows "\<exists>es'. collect_packet sp es = Some ((pkt_id, d), es') \<and> avail_bytes es' = rest"
proof -
  obtain es1 where es1: "avail_bytes es1 = d @ rest"
    "ReadFdExactly es kHeaderSize = (Some (char_of (unat pkt_id) # le32 (of_nat (length d))), es1)"
    using Read_header [OF assms(1,3)] by blast
  define sp1 where "sp1 = sp\<lparr>sp_id := pkt_id, bytes_left := length d, sp_data := []\<rparr>"
  have un: "unat (of_nat (length d) :: u32) = length d"
    using assms(2) by (simp add: unat_of_nat take_bit_nat_eq_self)
  show ?thesis
  proof (cases "d = []")
    case True
    with es1 assms(3) un show ?thesis
      by (simp add: collect_packet_def ShellProtocol_Read_def Let_def u8_char_roundtrip collect_rest.simps)
  next
    case False
    then have "bytes_left sp1 \<noteq> 0" by (simp add: sp1_def)
    have same: "ShellProtocol_Read sp es = ShellProtocol_Read sp1 es1"
      using es1(2) assms(3) False un by (simp add: ShellProtocol_Read_def sp1_def u8_char_roundtrip)
    let ?m = "min (bytes_left sp1) (data_capacity sp1)"
    let ?sp = "sp1\<lparr>bytes_left := bytes_left sp1 - ?m, sp_data := take ?m d\<rparr>"
    obtain es2 where es2: "ShellProtocol_Read sp1 es1 = Some (?sp, es2)" "avail_bytes es2 = drop ?m d @ rest"
      using Read_data [OF es1(1), of sp1] False assms(4) by (auto simp: sp1_def)
    obtain es3 where "collect_rest ?sp es2 = Some (drop ?m d, es3)" "avail_bytes es3 = rest"
      using collect_rest_data [OF es2(2), of ?sp] assms(4) by (auto simp: sp1_def)
    with es2 same show ?thesis by (simp add: collect_packet_def) (simp add: sp1_def)
  qed
qed

text \<open>What a sender with the full buffer can send, and what a receiver collects.\<close>

definition shell_enc :: "u8 \<times> string \<Rightarrow> string" where
  "shell_enc m = (case ShellProtocol_bytes ShellProtocol (fst m) (snd m) of Inl _ \<Rightarrow> [] | Inr b \<Rightarrow> b)"

definition shell_ok :: "u8 \<times> string \<Rightarrow> bool" where
  "shell_ok m \<longleftrightarrow> length (snd m) \<le> data_capacity ShellProtocol"

lemma shell_collect:
  assumes "shell_ok m" "avail_bytes es = shell_enc m @ rest" "0 < cap"
  shows "\<exists>es'. collect_packet (ShellProtocol\<lparr>data_capacity := cap\<rparr>) es = Some (m, es') \<and> avail_bytes es' = rest"
proof -
  have len: "length (snd m) < 2 ^ 32"
    using assms(1) by (simp add: shell_ok_def ShellProtocol_def kBufferSize_def kHeaderSize_def MAX_PAYLOAD_def)
  have "avail_bytes es = char_of (unat (fst m)) # le32 (of_nat (length (snd m))) @ snd m @ rest"
    using assms(1,2) by (simp add: shell_enc_def ShellProtocol_bytes_def shell_ok_def)
  from collect_packet_enc [OF this len, of "ShellProtocol\<lparr>data_capacity := cap\<rparr>"] assms(3)
  show ?thesis by (simp add: ShellProtocol_def)
qed

interpretation shell: stream_codec avail_bytes shell_enc shell_ok "collect_packet ShellProtocol"
proof unfold_locales
  fix m es rest
  assume "shell_ok m" "avail_bytes es = shell_enc m @ rest"
  from shell_collect [OF this, of "kBufferSize - kHeaderSize"]
  show "\<exists>s'. collect_packet ShellProtocol es = Some (m, s') \<and> avail_bytes s' = rest"
    by (simp add: ShellProtocol_def kBufferSize_def kHeaderSize_def MAX_PAYLOAD_def)
qed

section \<open>Properties\<close>

text \<open>
  C34: a receiver with any nonempty data area, however much smaller than the sender's, reassembles
  every packet a sender can write: the successive reads deliver the packet's identifier and, put
  together, exactly its data, independently of how the stream is cut; and a whole conversation
  is read back packet by packet.
\<close>

theorem shell_protocol_reassembly:
  assumes "0 < cap" "\<forall>m \<in> set ms. shell_ok m"
  shows "(\<forall>m \<in> set ms. \<forall>es rest. avail_bytes es = shell_enc m @ rest \<longrightarrow>
        (\<exists>es'. collect_packet (ShellProtocol\<lparr>data_capacity := cap\<rparr>) es = Some (m, es') \<and> avail_bytes es' = rest)) \<and>
     (\<forall>es rest. avail_bytes es = concat (map shell_enc ms) @ rest \<longrightarrow>
        (\<exists>es'. shell.read_n (length ms) es = Some (ms, es') \<and> avail_bytes es' = rest))"
  using shell.read_n_enc [OF assms(2)] shell_collect [OF _ _ assms(1)] assms(2) by blast

theorem shell_protocol_reassembly_witness:
  "\<exists>es'. collect_packet (ShellProtocol\<lparr>data_capacity := 2\<rparr>)
     [Chunk [CHR 0x01, CHR 0x05, CHR 0x00], Chunk [CHR 0x00, CHR 0x00], Chunk ''hel'', Chunk ''lo''] =
     Some ((kIdStdout, ''hello''), es')"
proof -
  have ok: "\<forall>m \<in> set [(kIdStdout, ''hello'')]. shell_ok m"
    by (simp add: shell_ok_def ShellProtocol_def kBufferSize_def kHeaderSize_def MAX_PAYLOAD_def)
  have e: "shell_enc (kIdStdout, ''hello'') = [CHR 0x01, CHR 0x05, CHR 0x00, CHR 0x00, CHR 0x00] @ ''hello''"
    by code_simp
  from shell_protocol_reassembly [OF _ ok, of 2]
  have "\<forall>es rest. avail_bytes es = shell_enc (kIdStdout, ''hello'') @ rest \<longrightarrow>
      (\<exists>es'. collect_packet (ShellProtocol\<lparr>data_capacity := 2\<rparr>) es = Some ((kIdStdout, ''hello''), es') \<and>
        avail_bytes es' = rest)" by simp
  from this [THEN spec, of "[Chunk [CHR 0x01, CHR 0x05, CHR 0x00], Chunk [CHR 0x00, CHR 0x00], Chunk ''hel'', Chunk ''lo'']",
      THEN spec, of "[]"] show ?thesis by (auto simp: e)
qed

end
