(* ===== verification/Transport.thy ===== *)
theory Transport
  imports Net_Address Packet "HOL-Library.AList" "HOL-Library.List_Lexorder" "HOL-Library.Char_ord"
    "HOL-Library.Product_Lexorder" "HOL-Library.Multiset"
begin

text \<open>
  The transport object of \<open>adb/transport.h\<close> and \<open>transport.cpp\<close> and what is computed from it alone:
  connection states, feature sets and the connection banner, version negotiation, the allow-list
  of reverse forwards, the key queue of the authentication exchange, target matching and the choice
  of one transport for a request, and the textual device list. The operations here are functions
  on one transport or on a list of them; the state they live in is assembled in the theory of
  sockets.
\<close>

section \<open>States\<close>

datatype transport_type = kTransportUsb | kTransportLocal | kTransportAny | kTransportHost

datatype connection_state =
    kCsAny | kCsConnecting | kCsAuthorizing | kCsUnauthorized | kCsNoPerm | kCsDetached | kCsOffline
  | kCsBootloader | kCsDevice | kCsHost | kCsRecovery | kCsSideload | kCsRescue

definition ConnectionStateIsOnline :: "connection_state \<Rightarrow> bool" where
  "ConnectionStateIsOnline st =
     (case st of
        kCsBootloader \<Rightarrow> True | kCsDevice \<Rightarrow> True | kCsHost \<Rightarrow> True
      | kCsRecovery \<Rightarrow> True | kCsSideload \<Rightarrow> True | kCsRescue \<Rightarrow> True | _ \<Rightarrow> False)"

text \<open>The text for missing USB permissions comes from the diagnostics library.\<close>

definition state_to_string :: "string \<Rightarrow> connection_state \<Rightarrow> string" where
  "state_to_string no_perm_text st =
     (case st of
        kCsOffline \<Rightarrow> ''offline'' | kCsBootloader \<Rightarrow> ''bootloader'' | kCsDevice \<Rightarrow> ''device''
      | kCsHost \<Rightarrow> ''host'' | kCsRecovery \<Rightarrow> ''recovery'' | kCsRescue \<Rightarrow> ''rescue''
      | kCsNoPerm \<Rightarrow> no_perm_text | kCsSideload \<Rightarrow> ''sideload'' | kCsUnauthorized \<Rightarrow> ''unauthorized''
      | kCsAuthorizing \<Rightarrow> ''authorizing'' | kCsConnecting \<Rightarrow> ''connecting'' | _ \<Rightarrow> ''unknown'')"

section \<open>The object\<close>

text \<open>
  The connection object is represented by whether it has been stopped and by what its \<open>Write\<close>
  returns (\<open>conn_accepts\<close>, decided by the environment); \<open>established\<close> is the connection waitable
  (\<^const>\<open>None\<close> while pending).
\<close>

record atransport =
  t_id :: nat
  online :: bool
  t_type :: transport_type
  serial :: string
  product :: string
  model :: string
  device :: string
  devpath :: string
  use_tls :: bool
  kicked :: bool
  features :: "string list"
  protocol_version :: int
  max_payload :: nat
  disconnects :: "nat list"
  connection_state :: connection_state
  keys :: "string list"
  established :: "bool option"
  conn_stopped :: bool
  conn_accepts :: bool
  delayed_ack :: bool
  reverse_forwards :: "(string \<times> string) list"

definition new_atransport :: "nat \<Rightarrow> connection_state \<Rightarrow> atransport" where
  "new_atransport tid st =
     \<lparr>t_id = tid, online = False, t_type = kTransportAny, serial = [], product = [], model = [], device = [],
      devpath = [], use_tls = False, kicked = False, features = [], protocol_version = 0x01000000,
      max_payload = MAX_PAYLOAD, disconnects = [], connection_state = st, keys = [], established = None,
      conn_stopped = False, conn_accepts = True, delayed_ack = False, reverse_forwards = []\<rparr>"

definition serial_name :: "atransport \<Rightarrow> string" where
  "serial_name t = (if serial t \<noteq> [] then serial t else ''<unknown>'')"

text \<open>\<open>SetConnectionEstablished\<close>: only the first call counts.\<close>

definition SetConnectionEstablished :: "bool \<Rightarrow> atransport \<Rightarrow> atransport" where
  "SetConnectionEstablished success t =
     (if established t \<noteq> None then t else t\<lparr>established := Some success\<rparr>)"

text \<open>\<open>Kick\<close> and \<open>Reset\<close> stop the connection the first time.\<close>

definition Kick :: "atransport \<Rightarrow> atransport" where
  "Kick t = (if kicked t then t else t\<lparr>kicked := True, conn_stopped := True\<rparr>)"

definition update_version :: "u32 \<Rightarrow> u32 \<Rightarrow> atransport \<Rightarrow> atransport" where
  "update_version version pl t =
     t\<lparr>protocol_version := min (sint version) (uint A_VERSION), max_payload := min (unat pl) MAX_PAYLOAD\<rparr>"

section \<open>Features and the banner\<close>

definition kFeatureDelayedAck :: string where
  "kFeatureDelayedAck = ''delayed_ack''"

definition supported_features :: "string list" where
  "supported_features =
     [''shell_v2'', ''cmd'', ''stat_v2'', ''ls_v2'', ''fixed_push_mkdir'', ''apex'', ''abb'',
      ''fixed_push_symlink_timestamp'', ''abb_exec'', ''remount_shell'', ''track_app'', ''sendrecv_v2'',
      ''sendrecv_v2_brotli'', ''sendrecv_v2_lz4'', ''sendrecv_v2_zstd'', ''sendrecv_v2_dry_run_send'',
      ''openscreen_mdns'', ''devicetracker_proto_format'', ''devraw'', ''app_info'', kFeatureDelayedAck]"

definition FeatureSetToString :: "string list \<Rightarrow> string" where
  "FeatureSetToString fs = Join fs '',''"

definition StringToFeatureSet :: "string \<Rightarrow> string list result" where
  "StringToFeatureSet s = (if s = [] then Inr [] else Split s '','')"

definition CanUseFeature :: "string list \<Rightarrow> string \<Rightarrow> bool" where
  "CanUseFeature feature_set feature \<longleftrightarrow> feature \<in> set feature_set \<and> feature \<in> set supported_features"

definition has_feature :: "atransport \<Rightarrow> string \<Rightarrow> bool" where
  "has_feature t feature \<longleftrightarrow> feature \<in> set (features t)"

definition SetFeatures :: "string \<Rightarrow> atransport \<Rightarrow> atransport result" where
  "SetFeatures s t =
     bind_r (StringToFeatureSet s) (\<lambda>fs.
       Inr (t\<lparr>features := fs, delayed_ack := CanUseFeature fs kFeatureDelayedAck\<rparr>))"

definition adb_device_banner :: string where
  "adb_device_banner = ''host''"

definition get_connection_string :: string where
  "get_connection_string =
     (let connection_properties = [''features='' @ FeatureSetToString supported_features]
      in adb_device_banner @ ''::'' @ Join connection_properties '';'')"

text \<open>One property of the banner.\<close>

definition banner_prop :: "string \<Rightarrow> atransport \<Rightarrow> atransport result" where
  "banner_prop prop t =
     (if prop = [] then Inr t
      else bind_r (Split prop ''='') (\<lambda>key_value.
        (case key_value of
           [key, val] \<Rightarrow>
             if key = ''ro.product.name'' then Inr (t\<lparr>product := val\<rparr>)
             else if key = ''ro.product.model'' then Inr (t\<lparr>model := val\<rparr>)
             else if key = ''ro.product.device'' then Inr (t\<lparr>device := val\<rparr>)
             else if key = ''features'' then SetFeatures val t
             else Inr t
         | _ \<Rightarrow> Inr t)))"

fun banner_props :: "string list \<Rightarrow> atransport \<Rightarrow> atransport result" where
  "banner_props [] t = Inr t"
| "banner_props (p # ps) t = bind_r (banner_prop p t) (banner_props ps)"

definition banner_state :: "string \<Rightarrow> connection_state" where
  "banner_state type =
     (if type = ''bootloader'' then kCsBootloader
      else if type = ''device'' then kCsDevice
      else if type = ''recovery'' then kCsRecovery
      else if type = ''sideload'' then kCsSideload
      else if type = ''rescue'' then kCsRescue
      else kCsHost)"

text \<open>
  \<open>parse_banner\<close>: the transport after the properties are read, and the state it is to be set to
  (setting it notifies the device trackers).
\<close>

definition parse_banner :: "string \<Rightarrow> atransport \<Rightarrow> (atransport \<times> connection_state) result" where
  "parse_banner banner t =
     bind_r (Split banner '':'') (\<lambda>pieces.
     bind_r (SetFeatures [] t) (\<lambda>t1.
     bind_r (if length pieces > 2
             then bind_r (Split (pieces ! 2) '';'') (\<lambda>props. banner_props props t1)
             else Inr t1) (\<lambda>t2.
       (case pieces of
          [] \<Rightarrow> Inl OutOfBounds
        | type # _ \<Rightarrow> Inr (t2, banner_state type)))))"

section \<open>Reverse forwards\<close>

text \<open>The map is kept as an association list; the hash order of the source is not observable.\<close>

definition UpdateReverseConfig :: "string \<Rightarrow> atransport \<Rightarrow> atransport result" where
  "UpdateReverseConfig service_addr t =
     (case ConsumePrefix service_addr ''reverse:'' of
        (False, _) \<Rightarrow> Inr t
      | (True, a1) \<Rightarrow>
          (case ConsumePrefix a1 ''forward:'' of
             (True, a2) \<Rightarrow>
               (case ConsumePrefix a2 ''norebind:'' of
                  (norebind, a3) \<Rightarrow>
                    (case find_idx (\<lambda>c. c = CHR '';'') a3 of
                       None \<Rightarrow> Inr t
                     | Some it \<Rightarrow>
                         let remote = substr a3 0 it
                         in if norebind \<and> map_of (reverse_forwards t) remote \<noteq> None then Inr t
                            else Inr (t\<lparr>reverse_forwards :=
                                   AList.update remote (drop (it + 1) a3) (reverse_forwards t)\<rparr>)))
           | (False, _) \<Rightarrow>
               (case ConsumePrefix a1 ''killforward:'' of
                  (True, a2) \<Rightarrow>
                    if find_idx (\<lambda>c. c = CHR '';'') a2 \<noteq> None then Inr t
                    else Inr (t\<lparr>reverse_forwards := AList.delete a2 (reverse_forwards t)\<rparr>)
                | (False, _) \<Rightarrow>
                    if a1 = ''killforward-all'' then Inr (t\<lparr>reverse_forwards := []\<rparr>)
                    else if a1 = ''list-forward'' then Inr t
                    else Inl (FatalLog ''unhandled reverse service''))))"

definition IsReverseConfigured :: "string \<Rightarrow> atransport \<Rightarrow> bool" where
  "IsReverseConfigured local_addr t = list_ex (\<lambda>(remote, l). l = local_addr) (reverse_forwards t)"

section \<open>Keys\<close>

definition Key :: "atransport \<Rightarrow> string option" where
  "Key t = (case keys t of [] \<Rightarrow> None | k # _ \<Rightarrow> Some k)"

text \<open>\<open>private_keys\<close> is what \<open>adb_auth_get_private_keys\<close> returns.\<close>

definition NextKey :: "string list \<Rightarrow> atransport \<Rightarrow> (string option \<times> atransport) result" where
  "NextKey private_keys t =
     (if keys t = [] then
        let t' = t\<lparr>keys := private_keys\<rparr>
        in bind_r (check_r (private_keys \<noteq> []) ''!keys_.empty()'') (\<lambda>_. Inr (Key t', t'))
      else let t' = t\<lparr>keys := tl (keys t)\<rparr> in Inr (Key t', t'))"

definition ResetKeys :: "atransport \<Rightarrow> atransport" where
  "ResetKeys t = t\<lparr>keys := []\<rparr>"

section \<open>Choosing a transport\<close>

definition isalnum :: "char \<Rightarrow> bool" where
  "isalnum c \<longleftrightarrow> (let n = byte_val c in (48 \<le> n \<and> n \<le> 57) \<or> (65 \<le> n \<and> n \<le> 90) \<or> (97 \<le> n \<and> n \<le> 122))"

text \<open>
  Comparing characters through a running pointer; \<open>mem\<close> is the memory from the pointer to the
  terminating NUL. Stepping past the terminator reads out of range.
\<close>

fun match_ptr :: "string \<Rightarrow> string \<Rightarrow> string option result" where
  "match_ptr mem [] = Inr (Some mem)"
| "match_ptr [] (c # cs) = Inl OutOfBounds"
| "match_ptr (x # mem) (c # cs) = (if c \<noteq> x then Inr None else match_ptr mem cs)"

definition qual_match :: "string \<Rightarrow> string \<Rightarrow> string \<Rightarrow> bool \<Rightarrow> bool result" where
  "qual_match to_test prefix qual sanitize_qual =
     (if to_test = [] then Inr (qual = [])
      else if qual = [] then Inr False
      else
        bind_r (match_ptr (to_test @ [CHR 0x00]) prefix) (\<lambda>r.
          (case r of
             None \<Rightarrow> Inr False
           | Some mem \<Rightarrow>
               bind_r (match_ptr mem (map (\<lambda>ch. if sanitize_qual \<and> \<not> isalnum ch then CHR ''_'' else ch) qual)) (\<lambda>r'.
                 (case r' of
                    None \<Rightarrow> Inr False
                  | Some [] \<Rightarrow> Inl OutOfBounds
                  | Some (x # _) \<Rightarrow> Inr (x = CHR 0x00))))))"

definition or_r :: "bool result \<Rightarrow> bool result \<Rightarrow> bool result" where
  "or_r a b = bind_r a (\<lambda>x. if x then Inr True else b)"

text \<open>The host and port comparison for local transports.\<close>

definition same_endpoint :: "string \<Rightarrow> string \<Rightarrow> bool result" where
  "same_endpoint serial_text target =
     bind_r (ParseNetAddress serial_text (-1)) (\<lambda>r1.
       (case r1 of
          Inl _ \<Rightarrow> Inr False
        | Inr a \<Rightarrow>
            bind_r (ParseNetAddress target (na_port a)) (\<lambda>r2.
              (case r2 of
                 Inl _ \<Rightarrow> Inr False
               | Inr b \<Rightarrow> Inr (na_host a = na_host b \<and> na_port a = na_port b)))))"

definition MatchesTarget :: "atransport \<Rightarrow> string \<Rightarrow> bool result" where
  "MatchesTarget t target =
     or_r
       (if serial t = [] then Inr False
        else if target = serial t then Inr True
        else if t_type t = kTransportLocal then
          same_endpoint (serial t)
            (c_str (if StartsWith target ''tcp:'' \<or> StartsWith target ''udp:'' then drop 4 target else target))
        else Inr False)
       (or_r (Inr (target = devpath t))
         (or_r (qual_match target ''product:'' (product t) False)
           (or_r (qual_match target ''model:'' (model t) True)
             (qual_match target ''device:'' (device t) False))))"

text \<open>
  The selection loop. Its state is the candidate found so far and the error text; the result
  adds whether the choice was ambiguous. \<open>no_perm\<close> is the help text of the diagnostics library.
\<close>

record selection =
  sel_result :: "nat option"
  sel_ambiguous :: bool
  sel_error :: string

definition selection_prompt :: "transport_type \<Rightarrow> string option \<Rightarrow> nat \<Rightarrow> string" where
  "selection_prompt type serial_text transport_id =
     (if transport_id \<noteq> 0 then ''no device with transport id '' @ [CHR 0x27] @ to_dec transport_id @ [CHR 0x27]
      else case serial_text of
        Some s \<Rightarrow> ''device '' @ [CHR 0x27] @ s @ [CHR 0x27] @ '' not found''
      | None \<Rightarrow>
          if type = kTransportLocal then ''no emulators found''
          else if type = kTransportAny then ''no devices/emulators found''
          else ''no devices found'')"

definition ambiguity_text :: "transport_type \<Rightarrow> string option \<Rightarrow> string" where
  "ambiguity_text type serial_text =
     (case serial_text of
        Some s \<Rightarrow> ''more than one device with serial '' @ s
      | None \<Rightarrow>
          if type = kTransportUsb then ''more than one USB device''
          else if type = kTransportLocal then ''more than one emulator''
          else ''more than one device/emulator'')"

text \<open>Whether the loop's branches consider this transport a match when no transport id is given.\<close>

definition selects :: "transport_type \<Rightarrow> string option \<Rightarrow> atransport \<Rightarrow> bool result" where
  "selects type serial_text t =
     (case serial_text of
        Some s \<Rightarrow> MatchesTarget t s
      | None \<Rightarrow>
          Inr (if type = kTransportUsb \<and> t_type t = kTransportUsb then True
               else if type = kTransportLocal \<and> t_type t = kTransportLocal then True
               else type = kTransportAny))"

fun acquire_loop ::
    "string \<Rightarrow> transport_type \<Rightarrow> string option \<Rightarrow> nat \<Rightarrow> (nat \<times> atransport) list \<Rightarrow> selection \<Rightarrow> selection result" where
  "acquire_loop no_perm type serial_text transport_id [] sel = Inr sel"
| "acquire_loop no_perm type serial_text transport_id ((p, t) # ts) sel =
     (if connection_state t = kCsNoPerm then
        acquire_loop no_perm type serial_text transport_id ts (sel\<lparr>sel_error := no_perm\<rparr>)
      else if transport_id \<noteq> 0 then
        (if t_id t = transport_id then Inr (sel\<lparr>sel_result := Some p\<rparr>)
         else acquire_loop no_perm type serial_text transport_id ts sel)
      else
        bind_r (selects type serial_text t) (\<lambda>found.
          if found then
            (if sel_result sel \<noteq> None then
               Inr (sel\<lparr>sel_error := ambiguity_text type serial_text, sel_ambiguous := True, sel_result := None\<rparr>)
             else acquire_loop no_perm type serial_text transport_id ts (sel\<lparr>sel_result := Some p\<rparr>))
          else acquire_loop no_perm type serial_text transport_id ts sel))"

definition unauthorized_text :: "string option \<Rightarrow> string" where
  "unauthorized_text vendor_keys =
     ''device unauthorized.'' @ [CHR 0x0A] @ ''This adb server'' @ [CHR 0x27] @ ''s $ADB_VENDOR_KEYS is '' @
     (case vendor_keys of None \<Rightarrow> ''not set'' | Some k \<Rightarrow> k) @ [CHR 0x0A] @
     ''Try '' @ [CHR 0x27] @ ''adb kill-server'' @ [CHR 0x27] @ '' if that seems wrong.'' @ [CHR 0x0A] @
     ''Otherwise check for a confirmation dialog on your device.''"

text \<open>The texts \<open>acquire_one_transport\<close> takes from its surroundings.\<close>

record diagnostics =
  no_perm_long :: string
  no_perm_short :: string
  vendor_keys_env :: "string option"

definition state_objection :: "diagnostics \<Rightarrow> connection_state \<Rightarrow> string option" where
  "state_objection dg st =
     (case st of
        kCsConnecting \<Rightarrow> Some ''device still connecting''
      | kCsAuthorizing \<Rightarrow> Some ''device still authorizing''
      | kCsUnauthorized \<Rightarrow> Some (unauthorized_text (vendor_keys_env dg))
      | kCsOffline \<Rightarrow> Some ''device offline''
      | _ \<Rightarrow> None)"

definition acquire_one_transport ::
    "diagnostics \<Rightarrow> transport_type \<Rightarrow> string option \<Rightarrow> nat \<Rightarrow> bool \<Rightarrow> (nat \<times> atransport) list \<Rightarrow> selection result" where
  "acquire_one_transport dg type serial_text transport_id accept_any_state ts =
     bind_r (acquire_loop (no_perm_long dg) type serial_text transport_id ts
              \<lparr>sel_result = None, sel_ambiguous = False, sel_error = selection_prompt type serial_text transport_id\<rparr>)
       (\<lambda>sel.
          (case sel_result sel of
             None \<Rightarrow> Inr sel
           | Some p \<Rightarrow>
               (case map_of ts p of
                  None \<Rightarrow> Inl DanglingPointer
                | Some t \<Rightarrow>
                    (case (if accept_any_state then None else state_objection dg (connection_state t)) of
                       Some e \<Rightarrow> Inr (sel\<lparr>sel_result := None, sel_error := e\<rparr>)
                     | None \<Rightarrow> Inr (sel\<lparr>sel_error := ''success''\<rparr>)))))"

text \<open>\<open>find_transport\<close> compares C strings.\<close>

definition find_transport :: "string \<Rightarrow> (nat \<times> atransport) list \<Rightarrow> nat option" where
  "find_transport serial_text ts =
     map_option fst (find (\<lambda>(p, t). c_str serial_text = c_str (serial t)) ts)"

section \<open>The device list\<close>

definition sanitize :: "string \<Rightarrow> bool \<Rightarrow> string" where
  "sanitize str alphanumeric =
     map (\<lambda>c. if (if alphanumeric then \<not> isalnum c else c = CHR 0x0A) then CHR ''_'' else c) str"

definition append_transport_info :: "string \<Rightarrow> string \<Rightarrow> string \<Rightarrow> bool \<Rightarrow> string" where
  "append_transport_info res key val alphanumeric =
     (if val = [] then res else res @ '' '' @ key @ sanitize val alphanumeric)"

definition pad_right :: "nat \<Rightarrow> string \<Rightarrow> string" where
  "pad_right w s = s @ replicate (w - length s) (CHR '' '')"

definition append_transport :: "diagnostics \<Rightarrow> atransport \<Rightarrow> string \<Rightarrow> bool \<Rightarrow> string" where
  "append_transport dg t res long_listing =
     (let serial_text = (if serial t = [] then ''(no serial number)'' else serial t);
          st = state_to_string (no_perm_short dg) (connection_state t);
          line =
            (if \<not> long_listing then res @ serial_text @ [CHR 0x09] @ st
             else
               append_transport_info
                 (append_transport_info
                   (append_transport_info
                     (append_transport_info (res @ pad_right 22 (c_str serial_text) @ '' '' @ c_str st)
                       [] (devpath t) False)
                     ''product:'' (product t) False)
                   ''model:'' (model t) True)
                 ''device:'' (device t) False @ '' transport_id:'' @ to_dec (t_id t))
      in line @ [CHR 0x0A])"

definition transportListToText :: "diagnostics \<Rightarrow> atransport list \<Rightarrow> bool \<Rightarrow> string" where
  "transportListToText dg ts long_listing = foldl (\<lambda>res t. append_transport dg t res long_listing) [] ts"

datatype tracker_output = SHORT_TEXT | LONG_TEXT | PROTOBUF | TEXT_PROTOBUF

definition type_rank :: "transport_type \<Rightarrow> nat" where
  "type_rank ty = (case ty of kTransportUsb \<Rightarrow> 0 | kTransportLocal \<Rightarrow> 1 | kTransportAny \<Rightarrow> 2 | kTransportHost \<Rightarrow> 3)"

text \<open>The protocol buffer printer is a library; \<open>to_proto\<close> is its output for the list.\<close>

definition list_transports ::
    "diagnostics \<Rightarrow> (bool \<Rightarrow> atransport list \<Rightarrow> string) \<Rightarrow> tracker_output \<Rightarrow> atransport list \<Rightarrow> string" where
  "list_transports dg to_proto ot ts =
     (let sorted_list = sort_key (\<lambda>t. (type_rank (t_type t), serial t)) ts
      in case ot of
           SHORT_TEXT \<Rightarrow> transportListToText dg sorted_list False
         | LONG_TEXT \<Rightarrow> transportListToText dg sorted_list True
         | PROTOBUF \<Rightarrow> to_proto False sorted_list
         | TEXT_PROTOBUF \<Rightarrow> to_proto True sorted_list)"

section \<open>Versions, features and banner\<close>

lemma update_version_bounds:
  "protocol_version (update_version v pl t) \<le> uint A_VERSION \<and> max_payload (update_version v pl t) \<le> MAX_PAYLOAD"
  by (simp add: update_version_def)

lemma Split_no_delimiter: "c \<notin> set s \<Longrightarrow> Split s [c] = Inr [s]"
  by (simp add: Split_eq split_ref_no_delimiter) (use split_ref_no_delimiter [of s "\<lambda>x. x = c"] in auto)

lemma Split_append: "c \<notin> set s \<Longrightarrow> Split (s @ c # r) [c] = map_sum id ((#) s) (Split r [c])"
proof -
  assume "c \<notin> set s"
  then have "\<forall>x \<in> set s. \<not> x = c" by auto
  from split_ref_append_stop [of "\<lambda>x. x = c", OF refl this, of r] show ?thesis by (simp add: Split_eq)
qed

lemma SetFeatures_Join:
  assumes "fs \<noteq> []" "\<forall>f \<in> set fs. CHR '','' \<notin> set f" "Join fs '','' \<noteq> []"
  shows "SetFeatures (FeatureSetToString fs) t =
    Inr (t\<lparr>features := fs, delayed_ack := CanUseFeature fs kFeatureDelayedAck\<rparr>)"
  using assms by (simp add: SetFeatures_def StringToFeatureSet_def FeatureSetToString_def Split_eq split_ref_Join)

text \<open>Characters that do not occur in well-formed banner fields.\<close>

definition banner_safe :: "string \<Rightarrow> bool" where
  "banner_safe s \<longleftrightarrow> set s \<inter> {CHR '':'', CHR '';'', CHR ''=''} = {}"

lemma banner_prop_pair:
  assumes "banner_safe v"
  shows "banner_prop (''ro.product.name='' @ v) t = Inr (t\<lparr>product := v\<rparr>)"
    "banner_prop (''ro.product.model='' @ v) t = Inr (t\<lparr>model := v\<rparr>)"
    "banner_prop (''ro.product.device='' @ v) t = Inr (t\<lparr>device := v\<rparr>)"
    "banner_prop (''features='' @ v) t = SetFeatures v t"
proof -
  have v: "Split v ''='' = Inr [v]" using assms by (intro Split_no_delimiter) (auto simp: banner_safe_def)
  have "Split (k @ CHR ''='' # v) ''='' = Inr [k, v]" if "CHR ''='' \<notin> set k" for k
    using Split_append [OF that, of v] v by simp
  from this [of "''ro.product.name''"] this [of "''ro.product.model''"] this [of "''ro.product.device''"]
    this [of "''features''"]
  show "banner_prop (''ro.product.name='' @ v) t = Inr (t\<lparr>product := v\<rparr>)"
    "banner_prop (''ro.product.model='' @ v) t = Inr (t\<lparr>model := v\<rparr>)"
    "banner_prop (''ro.product.device='' @ v) t = Inr (t\<lparr>device := v\<rparr>)"
    "banner_prop (''features='' @ v) t = SetFeatures v t"
    by (simp_all add: banner_prop_def)
qed

text \<open>The banner a device sends.\<close>

definition device_banner :: "string \<Rightarrow> string \<Rightarrow> string \<Rightarrow> string \<Rightarrow> string list \<Rightarrow> string" where
  "device_banner type p m d fs =
     type @ ''::'' @ Join [''ro.product.name='' @ p, ''ro.product.model='' @ m, ''ro.product.device='' @ d,
       ''features='' @ FeatureSetToString fs] '';''"

lemma parse_device_banner:
  assumes "banner_safe type" "banner_safe p" "banner_safe m" "banner_safe d"
    and "fs \<noteq> []" "\<forall>f \<in> set fs. f \<noteq> [] \<and> banner_safe f \<and> CHR '','' \<notin> set f"
  shows "parse_banner (device_banner type p m d fs) t =
    Inr (t\<lparr>product := p, model := m, device := d, features := fs,
           delayed_ack := CanUseFeature fs kFeatureDelayedAck\<rparr>, banner_state type)"
proof -
  let ?f = "FeatureSetToString fs"
  let ?ps = "[''ro.product.name='' @ p, ''ro.product.model='' @ m, ''ro.product.device='' @ d, ''features='' @ ?f]"
  have setf: "set ?f \<subseteq> {CHR '',''} \<union> (\<Union>f \<in> set fs. set f)"
    using assms(5) by (cases fs) (auto simp: FeatureSetToString_def)
  have fsafe: "banner_safe ?f" using setf assms(6) by (fastforce simp: banner_safe_def)
  have fne: "?f \<noteq> []" using assms(5,6) by (cases fs) (auto simp: FeatureSetToString_def)
  have safe: "\<forall>q \<in> set ?ps. CHR '';'' \<notin> set q \<and> CHR '':'' \<notin> set q"
    using assms(2-4) fsafe by (auto simp: banner_safe_def)
  have props: "Split (Join ?ps '';'') '';'' = Inr ?ps"
    using safe by (simp add: Split_eq split_ref_Join del: Join.simps)
  have "set (Join ?ps '';'') \<subseteq> {CHR '';''} \<union> (\<Union>q \<in> set ?ps. set q)" by auto
  then have "CHR '':'' \<notin> set (Join ?ps '';'')" using safe by blast
  then have rest: "Split (Join ?ps '';'') '':'' = Inr [Join ?ps '';'']" by (rule Split_no_delimiter)
  have "CHR '':'' \<notin> set type" using assms(1) by (auto simp: banner_safe_def)
  then have "Split (device_banner type p m d fs) '':'' = Inr [type, [], Join ?ps '';'']"
    using Split_append [of "CHR '':''" type "CHR '':'' # Join ?ps '';''"]
      Split_append [of "CHR '':''" "[]" "Join ?ps '';''"] rest
    by (simp add: device_banner_def del: Join.simps)
  moreover have "SetFeatures [] t = Inr (t\<lparr>features := [], delayed_ack := False\<rparr>)"
    by (simp add: SetFeatures_def StringToFeatureSet_def CanUseFeature_def)
  moreover have "banner_props ?ps (t\<lparr>features := [], delayed_ack := False\<rparr>) =
      Inr (t\<lparr>product := p, model := m, device := d, features := fs,
             delayed_ack := CanUseFeature fs kFeatureDelayedAck\<rparr>)"
  proof -
    have "SetFeatures ?f t' = Inr (t'\<lparr>features := fs, delayed_ack := CanUseFeature fs kFeatureDelayedAck\<rparr>)" for t'
      by (rule SetFeatures_Join) (use assms(5,6) fne in \<open>auto simp: FeatureSetToString_def\<close>)
    then show ?thesis
      by (simp only: banner_props.simps banner_prop_pair [OF assms(2)] banner_prop_pair [OF assms(3)]
          banner_prop_pair [OF assms(4)] banner_prop_pair [OF fsafe] bind_r_simps) simp
  qed
  ultimately show ?thesis
    using props by (simp only: parse_banner_def bind_r_simps list.case) (simp del: Join.simps banner_props.simps)
qed

section \<open>Reverse forwards\<close>

text \<open>What a service string asks of the allow-list, and the allow-list as a map.\<close>

datatype reverse_request =
    RForward bool string string
  | RKill string
  | RKillAll
  | RNone
  | RUnknown

definition reverse_request :: "string \<Rightarrow> reverse_request" where
  "reverse_request s =
     (if \<not> starts_with s ''reverse:'' then RNone
      else let a = drop 8 s in
        if starts_with a ''forward:'' then
          (let b = drop 8 a; nb = starts_with b ''norebind:''; c = (if nb then drop 9 b else b)
           in case find_idx (\<lambda>x. x = CHR '';'') c of
                None \<Rightarrow> RNone
              | Some i \<Rightarrow> RForward nb (take i c) (drop (Suc i) c))
        else if starts_with a ''killforward:'' then
          (if CHR '';'' \<in> set (drop 12 a) then RNone else RKill (drop 12 a))
        else if a = ''killforward-all'' then RKillAll
        else if a = ''list-forward'' then RNone
        else RUnknown)"

fun reverse_step :: "reverse_request \<Rightarrow> (string \<rightharpoonup> string) \<Rightarrow> (string \<rightharpoonup> string)" where
  "reverse_step (RForward nb r l) m = (if nb \<and> m r \<noteq> None then m else m(r \<mapsto> l))"
| "reverse_step (RKill r) m = m(r := None)"
| "reverse_step RKillAll m = Map.empty"
| "reverse_step RNone m = m"
| "reverse_step RUnknown m = m"

lemma StartsWith_iff: "StartsWith s p = starts_with s p"
  by (simp add: StartsWith_def substr_def starts_with_def)

lemma UpdateReverseConfig_eq:
  "UpdateReverseConfig s t =
     (case reverse_request s of
        RForward nb r l \<Rightarrow>
          Inr (if nb \<and> map_of (reverse_forwards t) r \<noteq> None then t
               else t\<lparr>reverse_forwards := AList.update r l (reverse_forwards t)\<rparr>)
      | RKill r \<Rightarrow> Inr (t\<lparr>reverse_forwards := AList.delete r (reverse_forwards t)\<rparr>)
      | RKillAll \<Rightarrow> Inr (t\<lparr>reverse_forwards := []\<rparr>)
      | RNone \<Rightarrow> Inr t
      | RUnknown \<Rightarrow> Inl (FatalLog ''unhandled reverse service''))"
proof (cases "starts_with s ''reverse:''")
  case False
  then show ?thesis by (simp add: UpdateReverseConfig_def reverse_request_def ConsumePrefix_def StartsWith_iff)
next
  case rev: True
  then have cp: "ConsumePrefix s ''reverse:'' = (True, drop 8 s)" by (simp add: ConsumePrefix_def StartsWith_iff eval_nat_numeral)
  show ?thesis
  proof (cases "starts_with (drop 8 s) ''forward:''")
    case True
    define b where "b = drop 8 (drop 8 s)"
    define c where "c = (if starts_with b ''norebind:'' then drop 9 b else b)"
    have u: "ConsumePrefix (drop 8 s) ''forward:'' = (True, b)"
      "ConsumePrefix b ''norebind:'' = (starts_with b ''norebind:'', c)"
      using True by (simp_all add: ConsumePrefix_def StartsWith_iff b_def c_def eval_nat_numeral del: drop_drop)
    have r: "reverse_request s = (case find_idx (\<lambda>x. x = CHR '';'') c of None \<Rightarrow> RNone
        | Some i \<Rightarrow> RForward (starts_with b ''norebind:'') (take i c) (drop (Suc i) c))"
      using rev True by (simp only: reverse_request_def b_def c_def Let_def not_True_eq_False if_True if_False)
    show ?thesis
      by (cases "find_idx (\<lambda>x. x = CHR '';'') c")
         (auto simp: UpdateReverseConfig_def cp u r substr_def Let_def)
  next
    case nf: False
    then have u: "ConsumePrefix (drop 8 s) ''forward:'' = (False, drop 8 s)"
      by (simp add: ConsumePrefix_def StartsWith_iff eval_nat_numeral)
    show ?thesis
    proof (cases "starts_with (drop 8 s) ''killforward:''")
      case True
      have "ConsumePrefix (drop 8 s) ''killforward:'' = (True, drop 12 (drop 8 s))"
        using True by (simp add: ConsumePrefix_def StartsWith_iff eval_nat_numeral)
      moreover have "reverse_request s = (if CHR '';'' \<in> set (drop 12 (drop 8 s)) then RNone
          else RKill (drop 12 (drop 8 s)))"
        using rev nf True by (simp only: reverse_request_def Let_def not_True_eq_False if_True if_False)
      ultimately show ?thesis
        by (cases "find_idx (\<lambda>c. c = CHR '';'') (drop 12 (drop 8 s))")
           (use find_idx_None [of "\<lambda>c. c = CHR '';''" "drop 12 (drop 8 s)"] in
             \<open>auto simp: UpdateReverseConfig_def cp u simp del: drop_drop\<close>)
    next
      case False
      then have "ConsumePrefix (drop 8 s) ''killforward:'' = (False, drop 8 s)"
        by (simp add: ConsumePrefix_def StartsWith_iff eval_nat_numeral)
      moreover have "reverse_request s = (if drop 8 s = ''killforward-all'' then RKillAll
          else if drop 8 s = ''list-forward'' then RNone else RUnknown)"
        using rev nf False by (simp only: reverse_request_def Let_def not_True_eq_False if_True if_False)
      ultimately show ?thesis by (simp add: UpdateReverseConfig_def cp u)
    qed
  qed
qed

lemma UpdateReverseConfig_refines:
  assumes "distinct (map fst (reverse_forwards t))" "UpdateReverseConfig s t = Inr t'"
  shows "distinct (map fst (reverse_forwards t'))"
    "map_of (reverse_forwards t') = reverse_step (reverse_request s) (map_of (reverse_forwards t))"
  using assms
  by (auto simp: UpdateReverseConfig_eq update_conv' delete_conv' distinct_update distinct_delete
      split: reverse_request.splits if_splits)

lemma IsReverseConfigured_iff:
  "distinct (map fst (reverse_forwards t)) \<Longrightarrow>
     IsReverseConfigured a t \<longleftrightarrow> (\<exists>r. map_of (reverse_forwards t) r = Some a)"
  by (auto simp: IsReverseConfigured_def list_ex_iff dest: map_of_SomeD)

fun update_reverse_all :: "string list \<Rightarrow> atransport \<Rightarrow> atransport result" where
  "update_reverse_all [] t = Inr t"
| "update_reverse_all (s # ss) t = bind_r (UpdateReverseConfig s t) (update_reverse_all ss)"

lemma update_reverse_all_snoc:
  "update_reverse_all (ss @ [s]) t = bind_r (update_reverse_all ss t) (UpdateReverseConfig s)"
proof (induction ss arbitrary: t)
  case Nil
  then show ?case by (cases "UpdateReverseConfig s t") simp_all
next
  case (Cons x xs)
  then show ?case by (cases "UpdateReverseConfig x t") simp_all
qed

text \<open>A later request that takes a remote address off the list or points it elsewhere.\<close>

fun drops_remote :: "reverse_request \<Rightarrow> string \<Rightarrow> bool" where
  "drops_remote (RKill r) r' = (r = r')"
| "drops_remote RKillAll r' = True"
| "drops_remote (RForward nb r l) r' = (\<not> nb \<and> r = r')"
| "drops_remote _ r' = False"

lemma update_reverse_all_sound:
  "update_reverse_all ss t = Inr t' \<Longrightarrow> reverse_forwards t = [] \<Longrightarrow>
     distinct (map fst (reverse_forwards t')) \<and>
     (\<forall>r a. map_of (reverse_forwards t') r = Some a \<longrightarrow>
        (\<exists>i < length ss. (\<exists>nb. reverse_request (ss ! i) = RForward nb r a) \<and>
           (\<forall>j. i < j \<and> j < length ss \<longrightarrow> \<not> drops_remote (reverse_request (ss ! j)) r)))"
proof (induction ss arbitrary: t' rule: rev_induct)
  case Nil
  then show ?case by simp
next
  case (snoc s ss)
  then obtain t1 where t1: "update_reverse_all ss t = Inr t1" "UpdateReverseConfig s t1 = Inr t'"
    by (auto simp: update_reverse_all_snoc bind_r_eq_Inr)
  note IH = snoc.IH [OF t1(1) snoc.prems(2)]
  note ref = UpdateReverseConfig_refines [OF conjunct1 [OF IH] t1(2)]
  have "\<exists>i < length (ss @ [s]). (\<exists>nb. reverse_request ((ss @ [s]) ! i) = RForward nb r a) \<and>
      (\<forall>j. i < j \<and> j < length (ss @ [s]) \<longrightarrow> \<not> drops_remote (reverse_request ((ss @ [s]) ! j)) r)"
    if m: "map_of (reverse_forwards t') r = Some a" for r a
  proof (cases "\<exists>nb. reverse_request s = RForward nb r a")
    case True
    then show ?thesis by (intro exI [of _ "length ss"]) auto
  next
    case False
    have old: "map_of (reverse_forwards t1) r = Some a" "\<not> drops_remote (reverse_request s) r"
      using m ref(2) False by (cases "reverse_request s"; auto split: if_splits)+
    then obtain i where i: "i < length ss" "\<exists>nb. reverse_request (ss ! i) = RForward nb r a"
      "\<forall>j. i < j \<and> j < length ss \<longrightarrow> \<not> drops_remote (reverse_request (ss ! j)) r"
      using IH by blast
    then show ?thesis
      using old(2) by (intro exI [of _ i]) (auto simp: nth_append less_Suc_eq)
  qed
  with ref(1) show ?case by blast
qed

section \<open>Choosing a transport\<close>

definition candidates :: "(atransport \<Rightarrow> bool) \<Rightarrow> (nat \<times> atransport) list \<Rightarrow> (nat \<times> atransport) list" where
  "candidates sel_ok ts = filter (\<lambda>(p, t). connection_state t \<noteq> kCsNoPerm \<and> sel_ok t) ts"

lemma acquire_loop_candidates:
  assumes "\<forall>(p, t) \<in> set ts. selects ty ser t = Inr (f t)"
  shows "\<exists>sel'. acquire_loop np ty ser 0 ts sel = Inr sel' \<and>
     sel_result sel' =
       (case (sel_result sel, candidates f ts) of
          (None, [(p, t)]) \<Rightarrow> Some p | (Some q, []) \<Rightarrow> Some q | _ \<Rightarrow> None) \<and>
     sel_ambiguous sel' =
       (sel_ambiguous sel \<or> 2 \<le> length (candidates f ts) + (if sel_result sel = None then 0 else 1))"
  using assms
proof (induction ts arbitrary: sel)
  case Nil
  then show ?case by (auto simp: candidates_def split: option.splits)
next
  case (Cons x ts)
  obtain p t where x: "x = (p, t)" by fastforce
  show ?case
  proof (cases "connection_state t = kCsNoPerm \<or> \<not> f t")
    case True
    then show ?thesis
      using Cons.IH [of "sel\<lparr>sel_error := np\<rparr>"] Cons.IH [of sel] Cons.prems
      by (auto simp: x candidates_def)
  next
    case False
    then show ?thesis
      using Cons.IH [of "sel\<lparr>sel_result := Some p\<rparr>"] Cons.prems
      by (cases "sel_result sel"; cases "candidates f ts")
         (auto simp: x candidates_def split: option.splits list.splits)
  qed
qed

section \<open>The device list\<close>

lemma append_transport_info_append: "append_transport_info (a @ res) k v b = a @ append_transport_info res k v b"
  by (simp add: append_transport_info_def)

lemma append_transport_append: "append_transport dg t (a @ res) b = a @ append_transport dg t res b"
  by (simp add: append_transport_def Let_def append_transport_info_append)

lemma transportListToText_concat:
  "transportListToText dg ts b = concat (map (\<lambda>t. append_transport dg t [] b) ts)"
proof -
  have "foldl (\<lambda>res t. append_transport dg t res b) acc ts = acc @ concat (map (\<lambda>t. append_transport dg t [] b) ts)"
    for acc
  proof (induction ts arbitrary: acc)
    case (Cons t ts)
    then show ?case using append_transport_append [of dg t acc "[]" b] by simp
  qed simp
  from this [of "[]"] show ?thesis by (simp add: transportListToText_def)
qed

definition newlines :: "string \<Rightarrow> nat" where
  "newlines s = length (filter (\<lambda>c. c = CHR 0x0A) s)"

lemma newlines_append [simp]: "newlines (a @ b) = newlines a + newlines b"
  by (simp add: newlines_def)

lemma newlines_simps [simp]:
  "newlines [] = 0" "newlines (c # s) = (if c = CHR 0x0A then 1 else 0) + newlines s"
  by (simp_all add: newlines_def)

lemma newlines_none: "CHR 0x0A \<notin> set s \<Longrightarrow> newlines s = 0"
  by (auto simp: newlines_def filter_empty_conv)

lemma newlines_sanitize: "newlines (sanitize v b) = 0"
proof (rule newlines_none)
  have "isalnum (CHR 0x0A) = False" by (simp add: isalnum_def)
  then show "CHR 0x0A \<notin> set (sanitize v b)" by (auto simp: sanitize_def split: if_splits)
qed

lemma newlines_line:
  assumes "CHR 0x0A \<notin> set (serial t)" "CHR 0x0A \<notin> set (no_perm_short dg)"
  shows "newlines (append_transport dg t [] b) = 1"
proof -
  have st: "CHR 0x0A \<notin> set (state_to_string (no_perm_short dg) (connection_state t))"
    using assms(2) by (cases "connection_state t") (simp_all add: state_to_string_def)
  have cs: "CHR 0x0A \<notin> set x \<Longrightarrow> newlines (c_str x) = 0" for x
    by (rule newlines_none) (auto simp: c_str_def dest: set_takeWhileD)
  have dec: "newlines (to_dec n) = 0" for n
    by (rule newlines_none) (use to_dec_chars [of "CHR 0x0A" n] in auto)
  have pr: "newlines (pad_right w x) = newlines x" for w x
    by (simp add: pad_right_def newlines_none)
  have info: "newlines (append_transport_info r k v z) = newlines r" if "newlines k = 0" for r k v z
    using that by (simp add: append_transport_info_def newlines_sanitize)
  show ?thesis
    using assms(1) st
    by (simp add: append_transport_def Let_def info newlines_none cs dec pr)
qed

section \<open>Keys\<close>

fun next_keys :: "string list \<Rightarrow> nat \<Rightarrow> atransport \<Rightarrow> (string option list \<times> atransport) result" where
  "next_keys ks 0 t = Inr ([], t)"
| "next_keys ks (Suc n) t =
     bind_r (NextKey ks t) (\<lambda>(k, t').
     bind_r (next_keys ks n t') (\<lambda>(rs, t''). Inr (k # rs, t'')))"

lemma next_keys_drain:
  "keys t = k # xs \<Longrightarrow> next_keys ks (length xs + 1) t = Inr (map Some xs @ [None], t\<lparr>keys := []\<rparr>)"
proof (induction xs arbitrary: t k)
  case Nil
  then show ?case by (simp add: NextKey_def Key_def)
next
  case (Cons x xs)
  then show ?case using Cons.IH [of "t\<lparr>keys := x # xs\<rparr>" x] by (simp add: NextKey_def Key_def)
qed

section \<open>Properties\<close>

text \<open>
  C32: a banner made of safe fields is parsed into exactly those fields: product, model, device and
  features are the ones sent, the connection state follows from the banner type, and delayed
  acknowledgements are on exactly when both sides list the feature.
\<close>

theorem banner_roundtrip:
  assumes "banner_safe type" "banner_safe p" "banner_safe m" "banner_safe d"
    and "fs \<noteq> []" "\<forall>f \<in> set fs. f \<noteq> [] \<and> banner_safe f \<and> CHR '','' \<notin> set f"
  shows "\<exists>t'. parse_banner (device_banner type p m d fs) t = Inr (t', banner_state type) \<and>
     product t' = p \<and> model t' = m \<and> device t' = d \<and> features t' = fs \<and>
     (delayed_ack t' \<longleftrightarrow> kFeatureDelayedAck \<in> set fs \<and> kFeatureDelayedAck \<in> set supported_features)"
  using parse_device_banner [OF assms] by (simp add: CanUseFeature_def)

theorem banner_roundtrip_witness:
  "\<exists>t'. parse_banner (device_banner ''device'' ''sdk'' ''Pixel'' ''emu'' [''shell_v2'', ''delayed_ack''])
       (new_atransport 1 kCsOffline) = Inr (t', kCsDevice) \<and>
     product t' = ''sdk'' \<and> features t' = [''shell_v2'', ''delayed_ack''] \<and> delayed_ack t'"
  using banner_roundtrip [of "''device''" "''sdk''" "''Pixel''" "''emu''" "[''shell_v2'', ''delayed_ack'']"
      "new_atransport 1 kCsOffline"]
  by (simp add: banner_safe_def banner_state_def kFeatureDelayedAck_def supported_features_def) blast

text \<open>
  C27: after any sequence of service strings a device may connect back to a local address only if
  some \<open>reverse:forward:\<close> request in the sequence named it and no later request removed that
  forward, removed all forwards, or pointed the same remote address elsewhere.
\<close>

theorem reverse_allow_list_sound:
  assumes "update_reverse_all ss t = Inr t'" "reverse_forwards t = []" "IsReverseConfigured addr t'"
  shows "\<exists>i < length ss. \<exists>nb r. reverse_request (ss ! i) = RForward nb r addr \<and>
     (\<forall>j. i < j \<and> j < length ss \<longrightarrow> \<not> drops_remote (reverse_request (ss ! j)) r)"
proof -
  note sound = update_reverse_all_sound [OF assms(1,2)]
  obtain r where "map_of (reverse_forwards t') r = Some addr"
    using assms(3) IsReverseConfigured_iff [OF conjunct1 [OF sound]] by blast
  with sound show ?thesis by blast
qed

theorem reverse_allow_list_sound_witness:
  "\<exists>i < 2. \<exists>nb r. reverse_request ([''reverse:forward:tcp:1;tcp:2'', ''shell:ls''] ! i) = RForward nb r ''tcp:2''"
proof -
  have u: "update_reverse_all [''reverse:forward:tcp:1;tcp:2'', ''shell:ls''] (new_atransport 1 kCsDevice) =
      Inr ((new_atransport 1 kCsDevice)\<lparr>reverse_forwards := [(''tcp:1'', ''tcp:2'')]\<rparr>)"
    by code_simp
  show ?thesis
    using reverse_allow_list_sound [OF u, of "''tcp:2''"]
    by (auto simp: new_atransport_def IsReverseConfigured_def numeral_2_eq_2)
qed

text \<open>
  C24: without a transport id, \<open>acquire_one_transport\<close> returns a transport exactly when it is the only
  accessible one matching the request and its state does not object; it reports ambiguity
  exactly when at least two match.
\<close>

theorem acquire_one_transport_unique:
  assumes "\<forall>(p, t) \<in> set ts. selects ty ser t = Inr (f t)" "distinct (map fst ts)"
  shows "\<exists>sel. acquire_one_transport dg ty ser 0 any ts = Inr sel \<and>
     (\<forall>p. sel_result sel = Some p \<longleftrightarrow>
        (\<exists>t. candidates f ts = [(p, t)] \<and> (any \<or> state_objection dg (connection_state t) = None))) \<and>
     (sel_ambiguous sel \<longleftrightarrow> 2 \<le> length (candidates f ts))"
proof -
  let ?s0 = "\<lparr>sel_result = None, sel_ambiguous = False, sel_error = selection_prompt ty ser 0\<rparr>"
  obtain s1 where s1: "acquire_loop (no_perm_long dg) ty ser 0 ts ?s0 = Inr s1"
    "sel_result s1 = (case candidates f ts of [(p, t)] \<Rightarrow> Some p | _ \<Rightarrow> None)"
    "sel_ambiguous s1 \<longleftrightarrow> 2 \<le> length (candidates f ts)"
    using acquire_loop_candidates [OF assms(1), of "no_perm_long dg" ?s0] by (auto split: list.splits prod.splits)
  show ?thesis
  proof (cases "sel_result s1")
    case None
    with s1 show ?thesis by (auto simp: acquire_one_transport_def split: list.splits prod.splits)
  next
    case (Some p)
    with s1(2) obtain t where c: "candidates f ts = [(p, t)]" by (auto split: list.splits prod.splits)
    then have "(p, t) \<in> set (candidates f ts)" by simp
    then have "(p, t) \<in> set ts" by (simp add: candidates_def)
    then have "map_of ts p = Some t" using assms(2) by simp
    with Some s1 c show ?thesis
      by (cases "if any then None else state_objection dg (connection_state t)")
         (auto simp: acquire_one_transport_def split: if_splits)
  qed
qed

theorem acquire_one_transport_unique_witness:
  "\<exists>sel. acquire_one_transport \<lparr>no_perm_long = [], no_perm_short = [], vendor_keys_env = None\<rparr> kTransportAny None 0 False
       [(7, new_atransport 1 kCsDevice), (8, new_atransport 2 kCsNoPerm)] = Inr sel \<and>
     sel_result sel = Some 7 \<and> \<not> sel_ambiguous sel"
  using acquire_one_transport_unique [of "[(7, new_atransport 1 kCsDevice), (8, new_atransport 2 kCsNoPerm)]"
      kTransportAny None "\<lambda>_. True" "\<lparr>no_perm_long = [], no_perm_short = [], vendor_keys_env = None\<rparr>" False]
  by (auto simp: selects_def candidates_def new_atransport_def state_objection_def)

text \<open>
  Both textual device lists contain exactly one line per transport, whatever the device reports
  as its path, product, model or name, provided serial numbers contain no newline.
\<close>

lemma device_list_one_line_each:
  assumes "\<forall>t \<in> set ts. CHR 0x0A \<notin> set (serial t)" "CHR 0x0A \<notin> set (no_perm_short dg)" "ot \<in> {SHORT_TEXT, LONG_TEXT}"
  shows "newlines (list_transports dg pr ot ts) = length ts \<and>
     (\<exists>us. mset us = mset ts \<and>
        list_transports dg pr ot ts = concat (map (\<lambda>t. append_transport dg t [] (ot = LONG_TEXT)) us))"
proof -
  let ?us = "sort_key (\<lambda>t. (type_rank (t_type t), serial t)) ts"
  have l: "list_transports dg pr ot ts = concat (map (\<lambda>t. append_transport dg t [] (ot = LONG_TEXT)) ?us)"
    using assms(3) by (auto simp: list_transports_def transportListToText_concat)
  have "newlines (concat (map (\<lambda>t. append_transport dg t [] b) us)) = length us"
    if "\<forall>t \<in> set us. CHR 0x0A \<notin> set (serial t)" for us b
    using that
  proof (induction us)
    case Nil
    then show ?case by (simp add: newlines_def)
  next
    case (Cons u us)
    then show ?case using newlines_line [of u dg b] assms(2) by simp
  qed
  from this [of ?us] assms(1) have "newlines (list_transports dg pr ot ts) = length ts" by (simp add: l)
  moreover have "mset ?us = mset ts" by simp
  ultimately show ?thesis using l by blast
qed

text \<open>
  One authentication round offers every private key once and in order and then falls back to the
  public key; the next round starts over with the first key.
\<close>

lemma auth_keys_round:
  assumes "keys t = []" "ks \<noteq> []"
  shows "next_keys ks (length ks + 1) t = Inr (map Some ks @ [None], t)"
proof -
  obtain k xs where ks: "ks = k # xs" using assms(2) by (cases ks) auto
  have "t\<lparr>keys := []\<rparr> = t" using assms(1) by (cases t) simp
  then show ?thesis
    using next_keys_drain [of "t\<lparr>keys := ks\<rparr>" k xs ks] assms by (simp add: ks NextKey_def Key_def)
qed

end
