(* ===== verification/World.thy ===== *)
theory World
  imports Transport IOVec
begin

text \<open>
  The state of the server: the heap of \<open>asocket\<close> objects of \<open>adb/socket.h\<close> with their function
  pointers, the socket lists of \<open>sockets.cpp\<close>, the transports and their lists, the forwarding
  listeners, the device trackers, and the environment of descriptors as scripts of what the
  operating system returns. Pointers are numbers; following one that is not allocated is the
  fault \<^const>\<open>DanglingPointer\<close>, so that memory safety is a theorem and not an assumption.
\<close>

section \<open>Objects\<close>

type_synonym sptr = nat
type_synonym tptr = nat

text \<open>The functions the four method pointers of an \<open>asocket\<close> can point to.\<close>

datatype enqueue_fn = Local_enqueue | Remote_enqueue | Smart_enqueue | Tracker_enqueue
datatype ready_fn = Local_ready | Remote_ready | Smart_ready | Tracker_ready | Local_ready_notify
datatype shutdown_fn = Remote_shutdown
datatype close_fn = Local_close | Remote_close | Smart_close | Tracker_close | Local_close_notify

text \<open>\<open>fde_read\<close> and \<open>fde_write\<close> are the events the socket's \<open>fdevent\<close> waits for.\<close>

record asocket =
  sid :: u32
  closing :: bool
  has_write_error :: bool
  exit_on_close :: bool
  peer :: "sptr option"
  enqueue_m :: enqueue_fn
  ready_m :: ready_fn
  shutdown_m :: "shutdown_fn option"
  close_m :: close_fn
  sock_transport :: "tptr option"
  fd :: int
  fde_read :: bool
  fde_write :: bool
  packet_queue :: iovector
  available_send_bytes :: "int option"
  smart_socket_data :: string

definition new_asocket :: "enqueue_fn \<Rightarrow> ready_fn \<Rightarrow> shutdown_fn option \<Rightarrow> close_fn \<Rightarrow> asocket" where
  "new_asocket e r sh c =
     \<lparr>sid = 0, closing = False, has_write_error = False, exit_on_close = False, peer = None,
      enqueue_m = e, ready_m = r, shutdown_m = sh, close_m = c, sock_transport = None, fd = -1,
      fde_read = False, fde_write = False, packet_queue = IOVector_empty, available_send_bytes = None,
      smart_socket_data = []\<rparr>"

record alistener =
  local_name :: string
  connect_to :: string
  l_transport :: "tptr option"
  l_fd :: int
  l_enabled :: bool

record device_tracker =
  update_needed :: bool
  output_type :: tracker_output

text \<open>The functions given to \<open>fdevent_run_on_looper\<close> by \<open>register_transport\<close> and \<open>remove_transport\<close>.\<close>

datatype looper_task = Register_task tptr | Unregister_task tptr

section \<open>The server\<close>

text \<open>
  \<open>sent\<close> is the sequence of packets handed to connections; \<open>fd_out\<close> what each descriptor has
  accepted; \<open>deferred\<close> the descriptors given to \<open>deferred_close\<close>; \<open>new_fds\<close> what the next calls that
  open a descriptor return (\<^const>\<open>None\<close> for a failure); \<open>local_transports\<close> the emulators by port;
  \<open>run_queue\<close> what waits to run on the looper.
\<close>

record world =
  sockets :: "sptr \<Rightarrow> asocket option"
  next_sptr :: nat
  local_socket_list :: "sptr list"
  local_socket_closing_list :: "sptr list"
  local_socket_next_id :: u32
  transports :: "tptr \<Rightarrow> atransport option"
  transport_list :: "tptr list"
  pending_list :: "tptr list"
  sent :: "(tptr \<times> apacket) list"
  fd_in :: "int \<Rightarrow> read_event list"
  fd_accept :: "int \<Rightarrow> write_event list"
  fd_out :: "int \<Rightarrow> string"
  deferred :: "int list"
  new_fds :: "int option list"
  delayed_ack_window :: nat
  device_tracker_list :: "sptr list"
  tracker_info :: "sptr \<Rightarrow> device_tracker option"
  listener_list :: "(nat \<times> alistener) list"
  next_lptr :: nat
  next_tptr :: nat
  next_transport_id :: nat
  local_transports :: "(int \<times> tptr) list"
  run_queue :: "looper_task list"

text \<open>What the server asks of its surroundings.\<close>

record environment =
  diag :: diagnostics
  proto_print :: "bool \<Rightarrow> atransport list \<Rightarrow> string"
  private_keys :: "string list"
  auth_sign :: "string \<Rightarrow> string \<Rightarrow> string"
  public_key :: string
  reject_kill :: bool
  adbhost_set :: bool

section \<open>Pointers\<close>

definition get_sock :: "world \<Rightarrow> sptr \<Rightarrow> asocket result" where
  "get_sock w s = (case sockets w s of None \<Rightarrow> Inl DanglingPointer | Some so \<Rightarrow> Inr so)"

definition put_sock :: "sptr \<Rightarrow> asocket \<Rightarrow> world \<Rightarrow> world" where
  "put_sock s so w = w\<lparr>sockets := (sockets w)(s := Some so)\<rparr>"

definition upd_sock :: "(asocket \<Rightarrow> asocket) \<Rightarrow> sptr \<Rightarrow> world \<Rightarrow> world result" where
  "upd_sock f s w = bind_r (get_sock w s) (\<lambda>so. Inr (put_sock s (f so) w))"

definition delete_sock :: "sptr \<Rightarrow> world \<Rightarrow> world result" where
  "delete_sock s w = bind_r (get_sock w s) (\<lambda>_. Inr (w\<lparr>sockets := (sockets w)(s := None)\<rparr>))"

definition new_sock :: "asocket \<Rightarrow> world \<Rightarrow> sptr \<times> world" where
  "new_sock so w =
     (next_sptr w, w\<lparr>sockets := (sockets w)(next_sptr w := Some so), next_sptr := Suc (next_sptr w)\<rparr>)"

definition the_ptr :: "'a option \<Rightarrow> 'a result" where
  "the_ptr p = (case p of None \<Rightarrow> Inl NullPointer | Some x \<Rightarrow> Inr x)"

definition get_transport :: "world \<Rightarrow> tptr \<Rightarrow> atransport result" where
  "get_transport w t = (case transports w t of None \<Rightarrow> Inl DanglingPointer | Some a \<Rightarrow> Inr a)"

definition put_transport :: "tptr \<Rightarrow> atransport \<Rightarrow> world \<Rightarrow> world" where
  "put_transport t a w = w\<lparr>transports := (transports w)(t := Some a)\<rparr>"

text \<open>The transports of a list of pointers, in order.\<close>

fun deref_transports :: "world \<Rightarrow> tptr list \<Rightarrow> (tptr \<times> atransport) list result" where
  "deref_transports w [] = Inr []"
| "deref_transports w (t # ts) =
     bind_r (get_transport w t) (\<lambda>a. bind_r (deref_transports w ts) (\<lambda>as. Inr ((t, a) # as)))"

section \<open>Descriptors\<close>

definition fd_write :: "int \<Rightarrow> string \<Rightarrow> world \<Rightarrow> world" where
  "fd_write f bs w =
     (case WriteFdExactly (fd_accept w f) bs of
        (r, out, ws) \<Rightarrow> w\<lparr>fd_accept := (fd_accept w)(f := ws), fd_out := (fd_out w)(f := fd_out w f @ out)\<rparr>)"

definition world_SendOkay :: "int \<Rightarrow> world \<Rightarrow> world" where
  "world_SendOkay f w =
     (case SendOkay (fd_accept w f) of
        (r, out, ws) \<Rightarrow> w\<lparr>fd_accept := (fd_accept w)(f := ws), fd_out := (fd_out w)(f := fd_out w f @ out)\<rparr>)"

definition world_SendFail :: "int \<Rightarrow> string \<Rightarrow> world \<Rightarrow> world" where
  "world_SendFail f reason w =
     (case SendFail (fd_accept w f) reason of
        (r, out, ws) \<Rightarrow> w\<lparr>fd_accept := (fd_accept w)(f := ws), fd_out := (fd_out w)(f := fd_out w f @ out)\<rparr>)"

definition world_SendProtocolString :: "int \<Rightarrow> string \<Rightarrow> world \<Rightarrow> world" where
  "world_SendProtocolString f str w =
     (case SendProtocolString (fd_accept w f) str of
        (r, out, ws) \<Rightarrow> w\<lparr>fd_accept := (fd_accept w)(f := ws), fd_out := (fd_out w)(f := fd_out w f @ out)\<rparr>)"

text \<open>\<open>SendOkay(fd, s)\<close> of \<open>adb.cpp\<close>.\<close>

definition world_SendOkay_string :: "int \<Rightarrow> string \<Rightarrow> world \<Rightarrow> world" where
  "world_SendOkay_string f str w = world_SendProtocolString f str (world_SendOkay f w)"

text \<open>
  One \<open>adb_writev\<close> call: the number of bytes taken, a full descriptor, or a failure. A script that
  has run out is a full descriptor. A Linux \<open>writev\<close> never transfers more than \<open>0x7ffff000\<close> bytes.
\<close>

definition MAX_RW_COUNT :: nat where
  "MAX_RW_COUNT = 0x7ffff000"

datatype writev_return = Wrote nat | WriteAgain | WriteBroken

definition adb_writev :: "int \<Rightarrow> string \<Rightarrow> world \<Rightarrow> writev_return \<times> world" where
  "adb_writev f bs w =
     (case fd_accept w f of
        [] \<Rightarrow> (WriteAgain, w)
      | WouldBlock # ws \<Rightarrow> (WriteAgain, w\<lparr>fd_accept := (fd_accept w)(f := ws)\<rparr>)
      | WriteError # ws \<Rightarrow> (WriteBroken, w\<lparr>fd_accept := (fd_accept w)(f := ws)\<rparr>)
      | Took k # ws \<Rightarrow>
          let n = min (min k MAX_RW_COUNT) (length bs)
          in (Wrote n, w\<lparr>fd_accept := (fd_accept w)(f := ws), fd_out := (fd_out w)(f := fd_out w f @ take n bs)\<rparr>))"

definition world_read :: "int \<Rightarrow> nat \<Rightarrow> world \<Rightarrow> read_return \<times> world" where
  "world_read f n w =
     (case adb_read (fd_in w f) n of (r, es) \<Rightarrow> (r, w\<lparr>fd_in := (fd_in w)(f := es)\<rparr>))"

text \<open>A call that opens a descriptor.\<close>

definition open_fd :: "world \<Rightarrow> int option \<times> world" where
  "open_fd w = (case new_fds w of [] \<Rightarrow> (None, w) | r # rs \<Rightarrow> (r, w\<lparr>new_fds := rs\<rparr>))"

section \<open>Packets\<close>

definition get_apacket :: apacket where
  "get_apacket =
     \<lparr>msg = \<lparr>command = 0, arg0 = 0, arg1 = 0, data_length = 0, data_check = 0, magic = 0\<rparr>, payload = []\<rparr>"

definition make_packet :: "u32 \<Rightarrow> u32 \<Rightarrow> u32 \<Rightarrow> string \<Rightarrow> apacket" where
  "make_packet c a0 a1 d =
     get_apacket\<lparr>msg := (msg get_apacket)\<lparr>command := c, arg0 := a0, arg1 := a1, data_length := of_nat (length d)\<rparr>,
                 payload := d\<rparr>"

definition send_packet :: "apacket \<Rightarrow> tptr option \<Rightarrow> world \<Rightarrow> world result" where
  "send_packet p tp w =
     bind_r (the_ptr tp) (\<lambda>t.
     bind_r (get_transport w t) (\<lambda>a.
     bind_r (prepare_packet (protocol_version a) p) (\<lambda>p'.
       if conn_accepts a then Inr (w\<lparr>sent := sent w @ [(t, p')]\<rparr>)
       else Inr (put_transport t (Kick a) w))))"

definition send_ready :: "u32 \<Rightarrow> u32 \<Rightarrow> tptr \<Rightarrow> u32 \<Rightarrow> world \<Rightarrow> world result" where
  "send_ready loc remote t ack_bytes w =
     bind_r (get_transport w t) (\<lambda>a.
       send_packet (make_packet A_OKAY loc remote (if delayed_ack a then le32 ack_bytes else [])) (Some t) w)"

definition send_close :: "u32 \<Rightarrow> u32 \<Rightarrow> tptr \<Rightarrow> world \<Rightarrow> world result" where
  "send_close loc remote t w = send_packet (make_packet A_CLSE loc remote []) (Some t) w"

definition send_tls_request :: "tptr \<Rightarrow> world \<Rightarrow> world result" where
  "send_tls_request t w = send_packet (make_packet A_STLS A_STLS_VERSION 0 []) (Some t) w"

definition send_connect :: "tptr \<Rightarrow> world \<Rightarrow> world result" where
  "send_connect t w =
     bind_r (get_transport w t) (\<lambda>a.
       if length get_connection_string > MAX_PAYLOAD_V1 then Inl (FatalLog ''Connection banner is too long'')
       else send_packet (make_packet A_CNXN A_VERSION (of_nat (max_payload a)) get_connection_string) (Some t) w)"

end
