(* ===== verification/Sockets.thy ===== *)
theory Sockets
  imports World
begin

text \<open>
  \<open>adb/sockets.cpp\<close>: local sockets bound to a descriptor, remote sockets bound to a transport, and
  the parts of smart sockets and device trackers that other sockets call back into. Every
  function is the source's function on the state of the server; a call through a method pointer
  dispatches on the pointer stored in the object.
\<close>

section \<open>The socket lists\<close>

fun find_in_list :: "world \<Rightarrow> sptr list \<Rightarrow> u32 \<Rightarrow> u32 \<Rightarrow> sptr option result" where
  "find_in_list w [] local_id peer_id = Inr None"
| "find_in_list w (s # ss) local_id peer_id =
     bind_r (get_sock w s) (\<lambda>so.
       if sid so \<noteq> local_id then find_in_list w ss local_id peer_id
       else if peer_id = 0 then Inr (Some s)
       else (case peer so of
               None \<Rightarrow> Inr None
             | Some p \<Rightarrow> bind_r (get_sock w p) (\<lambda>po. Inr (if sid po = peer_id then Some s else None))))"

definition find_local_socket :: "u32 \<Rightarrow> u32 \<Rightarrow> world \<Rightarrow> sptr option result" where
  "find_local_socket local_id peer_id w = find_in_list w (local_socket_list w) local_id peer_id"

definition install_local_socket :: "sptr \<Rightarrow> world \<Rightarrow> world result" where
  "install_local_socket s w =
     bind_r (upd_sock (\<lambda>so. so\<lparr>sid := local_socket_next_id w\<rparr>) s w) (\<lambda>w1.
       let next = local_socket_next_id w + 1
       in if next = 0 then Inl (FatalLog ''local socket id overflow'')
          else Inr (w1\<lparr>local_socket_next_id := next, local_socket_list := local_socket_list w1 @ [s]\<rparr>))"

definition remove_socket :: "sptr \<Rightarrow> world \<Rightarrow> world" where
  "remove_socket s w =
     w\<lparr>local_socket_list := filter (\<lambda>x. x \<noteq> s) (local_socket_list w),
       local_socket_closing_list := filter (\<lambda>x. x \<noteq> s) (local_socket_closing_list w)\<rparr>"

section \<open>Closing\<close>

definition remote_socket_shutdown :: "sptr \<Rightarrow> world \<Rightarrow> world result" where
  "remote_socket_shutdown s w =
     bind_r (get_sock w s) (\<lambda>so.
     bind_r (case peer so of None \<Rightarrow> Inr 0 | Some p \<Rightarrow> bind_r (get_sock w p) (\<lambda>po. Inr (sid po))) (\<lambda>a0.
       send_packet (make_packet A_CLSE a0 (sid so) []) (sock_transport so) w))"

definition call_shutdown :: "sptr \<Rightarrow> world \<Rightarrow> world result" where
  "call_shutdown s w =
     bind_r (get_sock w s) (\<lambda>so.
       (case shutdown_m so of None \<Rightarrow> Inr w | Some Remote_shutdown \<Rightarrow> remote_socket_shutdown s w))"

text \<open>\<open>deferred_close\<close> takes over the descriptor; its event handler is below.\<close>

definition local_socket_destroy :: "sptr \<Rightarrow> world \<Rightarrow> world result" where
  "local_socket_destroy s w =
     bind_r (get_sock w s) (\<lambda>so.
     bind_r (delete_sock s (remove_socket s (w\<lparr>deferred := deferred w @ [fd so]\<rparr>))) (\<lambda>w1.
       if exit_on_close so then Inl (ProcessExit 0) else Inr w1))"

text \<open>The part of \<open>local_socket_close\<close> after the peer is gone.\<close>

definition local_socket_close_tail :: "sptr \<Rightarrow> world \<Rightarrow> world result" where
  "local_socket_close_tail s w =
     bind_r (get_sock w s) (\<lambda>so.
       if closing so \<or> has_write_error so \<or> IOVector_size (packet_queue so) = 0 then local_socket_destroy s w
       else
         let w1 = remove_socket s (put_sock s (so\<lparr>closing := True, fde_read := False\<rparr>) w);
             w2 = w1\<lparr>local_socket_closing_list := local_socket_closing_list w1 @ [s]\<rparr>
         in bind_r (check_r (fde_write so) ''FDE_WRITE == s->fde->state & FDE_WRITE'') (\<lambda>_. Inr w2))"

definition device_tracker_remove :: "sptr \<Rightarrow> world \<Rightarrow> world" where
  "device_tracker_remove s w =
     w\<lparr>device_tracker_list := remove1 s (device_tracker_list w), tracker_info := (tracker_info w)(s := None)\<rparr>"

definition has_peer :: "world \<Rightarrow> sptr \<Rightarrow> nat" where
  "has_peer w s = (case sockets w s of None \<Rightarrow> 0 | Some so \<Rightarrow> if peer so = None then 0 else 1)"

definition notifies :: "world \<Rightarrow> sptr \<Rightarrow> bool" where
  "notifies w s = (case sockets w s of None \<Rightarrow> False | Some so \<Rightarrow> close_m so = Local_close_notify)"

text \<open>
  The close functions call each other through \<open>peer->close\<close>. The caller clears the peer's back
  pointer first, so the nested call finds no peer; that is the termination measure.
\<close>

function close_socket :: "world \<Rightarrow> sptr \<Rightarrow> world result"
  and local_socket_close :: "world \<Rightarrow> sptr \<Rightarrow> world result"
  and local_socket_close_notify :: "world \<Rightarrow> sptr \<Rightarrow> world result"
  and remote_socket_close :: "world \<Rightarrow> sptr \<Rightarrow> world result"
  and smart_socket_close :: "world \<Rightarrow> sptr \<Rightarrow> world result"
  and device_tracker_close :: "world \<Rightarrow> sptr \<Rightarrow> world result" where
  "close_socket w s =
     bind_r (get_sock w s) (\<lambda>so.
       (case close_m so of
          Local_close \<Rightarrow> local_socket_close w s
        | Local_close_notify \<Rightarrow> local_socket_close_notify w s
        | Remote_close \<Rightarrow> remote_socket_close w s
        | Smart_close \<Rightarrow> smart_socket_close w s
        | Tracker_close \<Rightarrow> device_tracker_close w s))"
| "local_socket_close w s =
     bind_r (get_sock w s) (\<lambda>so.
       (case peer so of
          None \<Rightarrow> local_socket_close_tail s w
        | Some p \<Rightarrow>
            bind_r (call_shutdown p w) (\<lambda>w1.
            bind_r (get_sock w1 p) (\<lambda>po.
            bind_r (close_socket (put_sock p (po\<lparr>peer := None\<rparr>) w1) p) (\<lambda>w2.
            bind_r (upd_sock (\<lambda>so. so\<lparr>peer := None\<rparr>) s w2) (\<lambda>w3. local_socket_close_tail s w3))))))"
| "local_socket_close_notify w s =
     bind_r (get_sock w s) (\<lambda>so.
       let so1 = so\<lparr>ready_m := Local_ready, shutdown_m := None, close_m := Local_close\<rparr>
       in close_socket (put_sock s so1 (world_SendFail (fd so) ''closed'' w)) s)"
| "remote_socket_close w s =
     bind_r (get_sock w s) (\<lambda>so.
     bind_r (case peer so of
               None \<Rightarrow> Inr w
             | Some p \<Rightarrow>
                 bind_r (get_sock w p) (\<lambda>po. close_socket (put_sock p (po\<lparr>peer := None\<rparr>) w) p))
       (\<lambda>w1. delete_sock s w1))"
| "smart_socket_close w s =
     bind_r (get_sock w s) (\<lambda>so.
     bind_r (case peer so of
               None \<Rightarrow> Inr w
             | Some p \<Rightarrow>
                 bind_r (get_sock w p) (\<lambda>po.
                 bind_r (close_socket (put_sock p (po\<lparr>peer := None\<rparr>) w) p) (\<lambda>w1.
                 upd_sock (\<lambda>so. so\<lparr>peer := None\<rparr>) s w1)))
       (\<lambda>w1. delete_sock s w1))"
| "device_tracker_close w s =
     bind_r (get_sock w s) (\<lambda>so.
     bind_r (case peer so of
               None \<Rightarrow> Inr w
             | Some p \<Rightarrow>
                 bind_r (get_sock w p) (\<lambda>po. close_socket (put_sock p (po\<lparr>peer := None\<rparr>) w) p))
       (\<lambda>w1. delete_sock s (device_tracker_remove s w1)))"
  by pat_completeness auto
termination
proof (relation "measure (\<lambda>x. case x of
    Inl (Inl (w, s)) \<Rightarrow> 4 * has_peer w s + (if notifies w s then 3 else 1)
  | Inl (Inr (Inl (w, s))) \<Rightarrow> 4 * has_peer w s
  | Inl (Inr (Inr (w, s))) \<Rightarrow> 4 * has_peer w s + 2
  | Inr (Inl (w, s)) \<Rightarrow> 4 * has_peer w s
  | Inr (Inr (Inl (w, s))) \<Rightarrow> 4 * has_peer w s
  | Inr (Inr (Inr (w, s))) \<Rightarrow> 4 * has_peer w s)")
qed (auto simp: has_peer_def notifies_def get_sock_def put_sock_def world_SendFail_def
  split: option.splits prod.splits)

declare close_socket.simps [simp del] local_socket_close.simps [simp del] local_socket_close_notify.simps [simp del]
  remote_socket_close.simps [simp del] smart_socket_close.simps [simp del] device_tracker_close.simps [simp del]

text \<open>
  \<open>close_all_sockets\<close> restarts its scan after every close. Each close shortens the list, so a bound of
  one more than its length is never reached (lemma below).
\<close>

fun touches_transport :: "world \<Rightarrow> tptr \<Rightarrow> sptr list \<Rightarrow> sptr option result" where
  "touches_transport w t [] = Inr None"
| "touches_transport w t (s # ss) =
     bind_r (get_sock w s) (\<lambda>so.
       if sock_transport so = Some t then Inr (Some s)
       else (case peer so of
               None \<Rightarrow> touches_transport w t ss
             | Some p \<Rightarrow>
                 bind_r (get_sock w p) (\<lambda>po.
                   if sock_transport po = Some t then Inr (Some s) else touches_transport w t ss)))"

fun close_all_loop :: "nat \<Rightarrow> tptr \<Rightarrow> world \<Rightarrow> world result" where
  "close_all_loop 0 t w = Inl OutOfFuel"
| "close_all_loop (Suc n) t w =
     bind_r (touches_transport w t (local_socket_list w)) (\<lambda>r.
       (case r of None \<Rightarrow> Inr w | Some s \<Rightarrow> bind_r (close_socket w s) (close_all_loop n t)))"

definition close_all_sockets :: "tptr \<Rightarrow> world \<Rightarrow> world result" where
  "close_all_sockets t w = close_all_loop (Suc (length (local_socket_list w))) t w"

text \<open>
  The event handler \<open>deferred_close\<close> installs: it discards input until end of file, an error, or
  until a second has passed. The result says whether the descriptor is closed now.
\<close>

lemma adb_read_decreases:
  assumes "adb_read es n = (Got bs, es')" "0 < n"
  shows "length (avail_bytes es') < length (avail_bytes es)"
  using adb_read_avail [OF assms(2), of es] assms(1) by simp

function drain :: "read_event list \<Rightarrow> read_return \<times> read_event list" where
  "drain es =
     (case adb_read es 8192 of
        (Got bs, es') \<Rightarrow> drain es'
      | other \<Rightarrow> other)"
  by pat_completeness auto
termination
  by (relation "measure (\<lambda>es. length (avail_bytes es))") (auto dest!: adb_read_decreases [OF sym])

declare drain.simps [simp del]

definition deferred_close_event :: "bool \<Rightarrow> bool \<Rightarrow> bool \<Rightarrow> read_event list \<Rightarrow> bool \<times> read_event list" where
  "deferred_close_event readable timed_out older_than_1s es =
     (if readable then
        (case drain es of
           (ReadAgain, es') \<Rightarrow> (older_than_1s, es')
         | (_, es') \<Rightarrow> (True, es'))
      else (True, es))"

section \<open>Local sockets\<close>

datatype socket_flush_result = Destroyed | TryAgain | Completed

text \<open>The write at the head of \<open>local_socket_flush_incoming\<close>: what was flushed and the socket after it.\<close>

definition flush_queue :: "asocket \<Rightarrow> world \<Rightarrow> (nat \<times> asocket \<times> world) result" where
  "flush_queue so w =
     (if IOVector_size (packet_queue so) = 0 then Inr (0, so, w)
      else
        bind_r (iovecs (packet_queue so)) (\<lambda>iov.
          (case adb_writev (fd so) (concat iov) w of
             (Wrote rc, w1) \<Rightarrow>
               if rc > 0 then
                 (if rc = IOVector_size (packet_queue so)
                  then Inr (rc, so\<lparr>packet_queue := snd (IOVector_clear (packet_queue so))\<rparr>, w1)
                  else bind_r (IOVector_drop_front (packet_queue so) rc) (\<lambda>q. Inr (rc, so\<lparr>packet_queue := q\<rparr>, w1)))
               else Inr (0, so\<lparr>has_write_error := True\<rparr>, w1)
           | (WriteAgain, w1) \<Rightarrow> Inr (0, so, w1)
           | (WriteBroken, w1) \<Rightarrow> Inr (0, so\<lparr>has_write_error := True\<rparr>, w1))))"

definition local_socket_flush_incoming :: "sptr \<Rightarrow> world \<Rightarrow> (socket_flush_result \<times> world) result" where
  "local_socket_flush_incoming s w =
     bind_r (get_sock w s) (\<lambda>so0.
     bind_r (flush_queue so0 w) (\<lambda>(bytes_flushed, so, w0).
       let w1 = put_sock s so w0;
           fd_full = (IOVector_size (packet_queue so) \<noteq> 0 \<and> \<not> has_write_error so)
       in bind_r (case (sock_transport so, peer so) of
                    (Some t, Some p) \<Rightarrow>
                      bind_r (get_sock w1 p) (\<lambda>po.
                        if available_send_bytes so \<noteq> None
                        then send_ready (sid so) (sid po) t (of_nat bytes_flushed) w1
                        else if bytes_flushed \<noteq> 0 \<and> IOVector_size (packet_queue so) < MAX_PAYLOAD
                        then send_ready (sid so) (sid po) t 0 w1
                        else Inr w1)
                  | _ \<Rightarrow> Inr w1) (\<lambda>w2.
            if closing so \<and> \<not> fd_full then bind_r (close_socket w2 s) (\<lambda>w3. Inr (Destroyed, w3))
            else if fd_full then bind_r (upd_sock (\<lambda>so. so\<lparr>fde_write := True\<rparr>) s w2) (\<lambda>w3. Inr (TryAgain, w3))
            else bind_r (upd_sock (\<lambda>so. so\<lparr>fde_write := False\<rparr>) s w2) (\<lambda>w3. Inr (Completed, w3)))))"

definition local_socket_enqueue :: "sptr \<Rightarrow> string \<Rightarrow> world \<Rightarrow> (int \<times> world) result" where
  "local_socket_enqueue s data w =
     bind_r (upd_sock (\<lambda>so. so\<lparr>packet_queue := IOVector_append (packet_queue so) (Block_of data)\<rparr>) s w) (\<lambda>w1.
     bind_r (local_socket_flush_incoming s w1) (\<lambda>(r, w2).
       Inr (case r of Destroyed \<Rightarrow> -1 | TryAgain \<Rightarrow> 1 | Completed \<Rightarrow> 0, w2)))"

definition local_socket_ready :: "sptr \<Rightarrow> world \<Rightarrow> world result" where
  "local_socket_ready s w = upd_sock (\<lambda>so. so\<lparr>fde_read := True\<rparr>) s w"

definition create_local_socket :: "int \<Rightarrow> world \<Rightarrow> (sptr \<times> world) result" where
  "create_local_socket ufd w =
     (case new_sock ((new_asocket Local_enqueue Local_ready None Local_close)\<lparr>fd := ufd\<rparr>) w of
        (s, w1) \<Rightarrow> bind_r (install_local_socket s w1) (\<lambda>w2. Inr (s, w2)))"

text \<open>\<open>service_to_fd\<close> connects to the named socket; the outcome is the environment's.\<close>

definition create_local_service_socket :: "tptr \<Rightarrow> world \<Rightarrow> (sptr option \<times> world) result" where
  "create_local_service_socket t w =
     (case open_fd w of
        (None, w1) \<Rightarrow> Inr (None, w1)
      | (Some f, w1) \<Rightarrow>
          bind_r (create_local_socket f w1) (\<lambda>(s, w2).
          bind_r (upd_sock (\<lambda>so. so\<lparr>sock_transport := Some t\<rparr>) s w2) (\<lambda>w3. Inr (Some s, w3))))"

section \<open>Remote sockets\<close>

definition remote_socket_enqueue :: "sptr \<Rightarrow> string \<Rightarrow> world \<Rightarrow> (int \<times> world) result" where
  "remote_socket_enqueue s data w =
     bind_r (get_sock w s) (\<lambda>so.
     bind_r (the_ptr (peer so)) (\<lambda>p.
     bind_r (get_sock w p) (\<lambda>po.
       if length data > MAX_PAYLOAD then Inr (-1, w)
       else bind_r (send_packet (make_packet A_WRTE (sid po) (sid so) data) (sock_transport so) w)
              (\<lambda>w1. Inr (1, w1)))))"

definition remote_socket_ready :: "sptr \<Rightarrow> world \<Rightarrow> world result" where
  "remote_socket_ready s w =
     bind_r (get_sock w s) (\<lambda>so.
     bind_r (the_ptr (peer so)) (\<lambda>p.
     bind_r (get_sock w p) (\<lambda>po.
       send_packet (make_packet A_OKAY (sid po) (sid so) []) (sock_transport so) w)))"

definition create_remote_socket :: "u32 \<Rightarrow> tptr \<Rightarrow> world \<Rightarrow> (sptr \<times> world) result" where
  "create_remote_socket rid t w =
     (if rid = 0 then Inl (FatalLog ''invalid remote socket id (0)'')
      else Inr (new_sock ((new_asocket Remote_enqueue Remote_ready (Some Remote_shutdown) Remote_close)
                  \<lparr>sid := rid, sock_transport := Some t\<rparr>) w))"

definition get_max_payload :: "asocket \<Rightarrow> world \<Rightarrow> nat result" where
  "get_max_payload so w =
     bind_r (case sock_transport so of
               None \<Rightarrow> Inr MAX_PAYLOAD
             | Some t \<Rightarrow> bind_r (get_transport w t) (\<lambda>a. Inr (min MAX_PAYLOAD (max_payload a)))) (\<lambda>m1.
       (case peer so of
          None \<Rightarrow> Inr m1
        | Some p \<Rightarrow>
            bind_r (get_sock w p) (\<lambda>po.
              (case sock_transport po of
                 None \<Rightarrow> Inr m1
               | Some t \<Rightarrow> bind_r (get_transport w t) (\<lambda>a. Inr (min m1 (max_payload a)))))))"

definition connect_to_remote :: "sptr \<Rightarrow> string \<Rightarrow> world \<Rightarrow> world result" where
  "connect_to_remote s destination w =
     bind_r (get_sock w s) (\<lambda>so.
     bind_r (the_ptr (sock_transport so)) (\<lambda>t.
     bind_r (get_transport w t) (\<lambda>a.
     bind_r (UpdateReverseConfig destination a) (\<lambda>a1.
       let w1 = put_transport t a1 w;
           w2 = (if delayed_ack a1 then put_sock s (so\<lparr>available_send_bytes := Some 0\<rparr>) w1 else w1);
           p = make_packet A_OPEN (sid so) (if delayed_ack a1 then of_nat (delayed_ack_window w) else 0)
                 (destination @ [CHR 0x00])
       in bind_r (get_max_payload so w2) (\<lambda>m.
          bind_r (check_r (unat (data_length (msg p)) \<le> m) ''p->msg.data_length <= s->get_max_payload()'') (\<lambda>_.
            send_packet p (Some t) w2))))))"

section \<open>Method calls\<close>

definition local_socket_ready_notify :: "sptr \<Rightarrow> world \<Rightarrow> world result" where
  "local_socket_ready_notify s w =
     bind_r (get_sock w s) (\<lambda>so.
       local_socket_ready s
         (world_SendOkay (fd so)
           (put_sock s (so\<lparr>ready_m := Local_ready, shutdown_m := None, close_m := Local_close\<rparr>) w)))"

text \<open>
  \<open>peer->enqueue\<close> where the receiver is not a smart socket, which the theory of smart sockets adds.
  Data for a device tracker closes it.
\<close>

definition enqueue_basic :: "sptr \<Rightarrow> string \<Rightarrow> world \<Rightarrow> (int \<times> world) result" where
  "enqueue_basic s data w =
     bind_r (get_sock w s) (\<lambda>so.
       (case enqueue_m so of
          Local_enqueue \<Rightarrow> local_socket_enqueue s data w
        | Remote_enqueue \<Rightarrow> remote_socket_enqueue s data w
        | Tracker_enqueue \<Rightarrow> bind_r (device_tracker_close w s) (\<lambda>w1. Inr (-1, w1))
        | Smart_enqueue \<Rightarrow> Inl (Undefined ''smart socket'')))"

section \<open>Device trackers\<close>

definition device_tracker_send :: "sptr \<Rightarrow> string \<Rightarrow> world \<Rightarrow> world result" where
  "device_tracker_send s str w =
     bind_r (get_sock w s) (\<lambda>so.
     bind_r (the_ptr (peer so)) (\<lambda>p.
     bind_r (enqueue_basic p (take 4 (pad0 4 (to_base 16 (length str))) @ str) w) (\<lambda>(r, w1). Inr w1)))"

definition world_list_transports :: "environment \<Rightarrow> tracker_output \<Rightarrow> world \<Rightarrow> string result" where
  "world_list_transports env ot w =
     bind_r (deref_transports w (transport_list w)) (\<lambda>ts.
       Inr (list_transports (diag env) (proto_print env) ot (map snd ts)))"

definition device_tracker_ready :: "environment \<Rightarrow> sptr \<Rightarrow> world \<Rightarrow> world result" where
  "device_tracker_ready env s w =
     (case tracker_info w s of
        None \<Rightarrow> Inl DanglingPointer
      | Some tr \<Rightarrow>
          if update_needed tr then
            let w1 = w\<lparr>tracker_info := (tracker_info w)(s := Some (tr\<lparr>update_needed := False\<rparr>))\<rparr>
            in bind_r (world_list_transports env (output_type tr) w1) (\<lambda>str. device_tracker_send s str w1)
          else Inr w)"

definition create_device_tracker :: "tracker_output \<Rightarrow> world \<Rightarrow> sptr \<times> world" where
  "create_device_tracker ot w =
     (case new_sock (new_asocket Tracker_enqueue Tracker_ready None Tracker_close) w of
        (s, w1) \<Rightarrow>
          (s, w1\<lparr>device_tracker_list := s # device_tracker_list w1,
                 tracker_info := (tracker_info w1)(s := Some \<lparr>update_needed = True, output_type = ot\<rparr>)\<rparr>))"

text \<open>
  \<open>update_transports\<close> walks the tracker list; the next element is read before the send, which may
  destroy the current one.
\<close>

fun notify_trackers :: "environment \<Rightarrow> sptr list \<Rightarrow> world \<Rightarrow> world result" where
  "notify_trackers env [] w = Inr w"
| "notify_trackers env (s # ss) w =
     (case tracker_info w s of
        None \<Rightarrow> Inl DanglingPointer
      | Some tr \<Rightarrow>
          bind_r (world_list_transports env (output_type tr) w) (\<lambda>str.
          bind_r (device_tracker_send s str w) (\<lambda>w1. notify_trackers env ss w1)))"

definition update_transports :: "environment \<Rightarrow> world \<Rightarrow> world result" where
  "update_transports env w = notify_trackers env (device_tracker_list w) w"

definition SetConnectionState :: "environment \<Rightarrow> tptr \<Rightarrow> connection_state \<Rightarrow> world \<Rightarrow> world result" where
  "SetConnectionState env t st w =
     bind_r (get_transport w t) (\<lambda>a. update_transports env (put_transport t (a\<lparr>connection_state := st\<rparr>) w))"

definition call_ready :: "environment \<Rightarrow> sptr \<Rightarrow> world \<Rightarrow> world result" where
  "call_ready env s w =
     bind_r (get_sock w s) (\<lambda>so.
       (case ready_m so of
          Local_ready \<Rightarrow> local_socket_ready s w
        | Local_ready_notify \<Rightarrow> local_socket_ready_notify s w
        | Remote_ready \<Rightarrow> remote_socket_ready s w
        | Tracker_ready \<Rightarrow> device_tracker_ready env s w
        | Smart_ready \<Rightarrow> Inr w))"

definition local_socket_ack :: "environment \<Rightarrow> sptr \<Rightarrow> int option \<Rightarrow> world \<Rightarrow> world result" where
  "local_socket_ack env s acked_bytes w =
     bind_r (get_sock w s) (\<lambda>so.
       (case (available_send_bytes so, acked_bytes) of
          (Some a, Some b) \<Rightarrow>
            let n = min (a + b) (int (delayed_ack_window w));
                w1 = put_sock s (so\<lparr>available_send_bytes := Some n\<rparr>) w
            in if n > 0 then call_ready env s w1 else Inr w1
        | (None, None) \<Rightarrow> call_ready env s w
        | _ \<Rightarrow> Inr w))"

end
