(* ===== verification/Socket_Invariant.thy ===== *)
theory Socket_Invariant
  imports Sockets
begin

text \<open>
  The invariant of the socket heap and what closing a socket does to it. Peers point at each
  other, every listed or closing socket is allocated and local, identifiers of local sockets are
  distinct, a socket with queued data that can still be written waits for a write event. Under the invariant
  no close function ever follows a stale pointer, and closing leaves the invariant intact.
\<close>

section \<open>The invariant\<close>

abbreviation is_local :: "asocket \<Rightarrow> bool" where
  "is_local so \<equiv> enqueue_m so = Local_enqueue"

abbreviation queued :: "asocket \<Rightarrow> nat" where
  "queued so \<equiv> IOVector_size (packet_queue so)"

definition methods_ok :: "asocket \<Rightarrow> bool" where
  "methods_ok so \<longleftrightarrow>
     (case enqueue_m so of
        Local_enqueue \<Rightarrow> shutdown_m so = None \<and>
          ((ready_m so = Local_ready \<and> close_m so = Local_close) \<or>
           (ready_m so = Local_ready_notify \<and> close_m so = Local_close_notify))
      | Remote_enqueue \<Rightarrow> ready_m so = Remote_ready \<and> shutdown_m so = Some Remote_shutdown \<and> close_m so = Remote_close
      | Smart_enqueue \<Rightarrow> ready_m so = Smart_ready \<and> shutdown_m so = None \<and> close_m so = Smart_close
      | Tracker_enqueue \<Rightarrow> ready_m so = Tracker_ready \<and> shutdown_m so = None \<and> close_m so = Tracker_close)"

text \<open>What holds of an object by itself.\<close>

definition object_ok :: "asocket \<Rightarrow> bool" where
  "object_ok so \<longleftrightarrow>
     methods_ok so \<and> \<not> exit_on_close so \<and> iov_wf (packet_queue so) \<and>
     (queued so \<noteq> 0 \<and> \<not> has_write_error so \<longrightarrow> fde_write so) \<and>
     (closing so \<longrightarrow> is_local so \<and> peer so = None \<and> close_m so = Local_close \<and> \<not> fde_read so) \<and>
     (enqueue_m so = Remote_enqueue \<longrightarrow> sid so \<noteq> 0 \<and> sock_transport so \<noteq> None)"

definition peers_ok :: "world \<Rightarrow> bool" where
  "peers_ok w \<longleftrightarrow>
     (\<forall>s so p. sockets w s = Some so \<and> peer so = Some p \<longrightarrow>
        p \<noteq> s \<and> (\<exists>po. sockets w p = Some po \<and> peer po = Some s))"

definition lists_ok :: "world \<Rightarrow> bool" where
  "lists_ok w \<longleftrightarrow>
     distinct (local_socket_list w) \<and> distinct (local_socket_closing_list w) \<and> distinct (device_tracker_list w) \<and>
     (\<forall>s. s \<in> set (local_socket_list w) \<longleftrightarrow> (\<exists>so. sockets w s = Some so \<and> is_local so \<and> \<not> closing so)) \<and>
     (\<forall>s. s \<in> set (local_socket_closing_list w) \<longleftrightarrow> (\<exists>so. sockets w s = Some so \<and> is_local so \<and> closing so)) \<and>
     (\<forall>s. s \<in> set (device_tracker_list w) \<longleftrightarrow> (\<exists>so. sockets w s = Some so \<and> enqueue_m so = Tracker_enqueue)) \<and>
     (\<forall>s \<in> set (device_tracker_list w). tracker_info w s \<noteq> None)"

definition ids_ok :: "world \<Rightarrow> bool" where
  "ids_ok w \<longleftrightarrow>
     local_socket_next_id w \<noteq> 0 \<and>
     (\<forall>s so. sockets w s = Some so \<and> is_local so \<longrightarrow> sid so \<noteq> 0 \<and> sid so < local_socket_next_id w) \<and>
     (\<forall>s so s' so'. sockets w s = Some so \<and> is_local so \<and> sockets w s' = Some so' \<and> is_local so' \<and> sid so = sid so' \<longrightarrow>
        s = s')"

text \<open>
  The transport of a socket that is not closing is allocated, and a remote socket, smart socket or
  tracker always serves a local socket. A closing socket may outlive its transport.
\<close>

definition refs_ok :: "world \<Rightarrow> bool" where
  "refs_ok w \<longleftrightarrow>
     (\<forall>s so t. sockets w s = Some so \<and> \<not> closing so \<and> sock_transport so = Some t \<longrightarrow> transports w t \<noteq> None) \<and>
     (\<forall>s. sockets w s \<noteq> None \<longrightarrow> s < next_sptr w) \<and>
     (\<forall>t. transports w t \<noteq> None \<longrightarrow> t < next_tptr w) \<and>
     (\<forall>t \<in> set (transport_list w) \<union> set (pending_list w). transports w t \<noteq> None) \<and>
     (\<forall>t. Register_task t \<in> set (run_queue w) \<longrightarrow> transports w t \<noteq> None) \<and> (\<forall>t. Unregister_task t \<notin> set (run_queue w))"

definition attached_ok :: "world \<Rightarrow> bool" where
  "attached_ok w \<longleftrightarrow>
     (\<forall>s so. sockets w s = Some so \<and> \<not> is_local so \<longrightarrow>
        (\<exists>p po. peer so = Some p \<and> sockets w p = Some po \<and> is_local po))"

definition heap_ok :: "world \<Rightarrow> bool" where
  "heap_ok w \<longleftrightarrow> (\<forall>s so. sockets w s = Some so \<longrightarrow> object_ok so) \<and>
     peers_ok w \<and> lists_ok w \<and> ids_ok w \<and> refs_ok w \<and> attached_ok w"

section \<open>Frames\<close>

text \<open>States that differ only in what the invariant does not look at.\<close>

definition same_heap :: "world \<Rightarrow> world \<Rightarrow> bool" where
  "same_heap w w' \<longleftrightarrow>
     next_sptr w' = next_sptr w \<and> local_socket_next_id w' = local_socket_next_id w \<and> next_tptr w' = next_tptr w \<and>
     (\<forall>t. transports w' t = None \<longleftrightarrow> transports w t = None) \<and> transport_list w' = transport_list w \<and>
     pending_list w' = pending_list w \<and> delayed_ack_window w' = delayed_ack_window w \<and> run_queue w' = run_queue w"

definition same_struct :: "world \<Rightarrow> world \<Rightarrow> bool" where
  "same_struct w w' \<longleftrightarrow>
     same_heap w w' \<and> sockets w' = sockets w \<and> local_socket_list w' = local_socket_list w \<and>
     local_socket_closing_list w' = local_socket_closing_list w \<and>
     device_tracker_list w' = device_tracker_list w \<and> tracker_info w' = tracker_info w"

lemma same_heap_refl [simp]: "same_heap w w"
  by (simp add: same_heap_def)

lemma same_heap_trans: "same_heap a b \<Longrightarrow> same_heap b c \<Longrightarrow> same_heap a c"
  by (simp add: same_heap_def)

lemma same_struct_refl [simp]: "same_struct w w"
  by (simp add: same_struct_def)

lemma same_struct_trans: "same_struct a b \<Longrightarrow> same_struct b c \<Longrightarrow> same_struct a c"
  by (auto simp: same_struct_def intro: same_heap_trans)

lemma heap_ok_same_struct: "heap_ok w \<Longrightarrow> same_struct w w' \<Longrightarrow> heap_ok w'"
proof -
  assume heap_ok: "heap_ok w" and same: "same_struct w w'"
  then have s: "sockets w' = sockets w" by (simp add: same_struct_def)
  have "peers_ok w' = peers_ok w" by (simp only: peers_ok_def s)
  moreover have "lists_ok w' = lists_ok w" using same by (simp only: lists_ok_def same_struct_def)
  moreover have "ids_ok w' = ids_ok w" using same by (simp only: ids_ok_def same_struct_def same_heap_def)
  moreover have "refs_ok w' = refs_ok w" using same by (simp only: refs_ok_def same_struct_def same_heap_def)
  moreover have "attached_ok w' = attached_ok w" by (simp only: attached_ok_def s)
  ultimately show "heap_ok w'" using heap_ok s by (simp add: heap_ok_def)
qed

lemma get_sock_Inr [simp]: "sockets w s = Some so \<Longrightarrow> get_sock w s = Inr so"
  by (simp add: get_sock_def)

lemma get_sock_eq_Inr: "get_sock w s = Inr so \<longleftrightarrow> sockets w s = Some so"
  by (simp add: get_sock_def split: option.splits)

lemma put_sock_simps [simp]:
  "sockets (put_sock s so w) = (sockets w)(s := Some so)"
  "next_sptr (put_sock s so w) = next_sptr w"
  "local_socket_list (put_sock s so w) = local_socket_list w"
  "local_socket_closing_list (put_sock s so w) = local_socket_closing_list w"
  "local_socket_next_id (put_sock s so w) = local_socket_next_id w"
  "transports (put_sock s so w) = transports w"
  "transport_list (put_sock s so w) = transport_list w"
  "device_tracker_list (put_sock s so w) = device_tracker_list w"
  "tracker_info (put_sock s so w) = tracker_info w"
  "sent (put_sock s so w) = sent w"
  "fd_in (put_sock s so w) = fd_in w"
  "fd_out (put_sock s so w) = fd_out w"
  "fd_accept (put_sock s so w) = fd_accept w"
  "delayed_ack_window (put_sock s so w) = delayed_ack_window w" "next_tptr (put_sock s so w) = next_tptr w"
  "pending_list (put_sock s so w) = pending_list w" "run_queue (put_sock s so w) = run_queue w"
  "listener_list (put_sock s so w) = listener_list w"
  "same_heap w (put_sock s so w)"
  by (simp_all add: put_sock_def same_heap_def)

lemma the_ptr_Some [simp]: "the_ptr (Some x) = Inr x"
  by (simp add: the_ptr_def)

lemma get_transport_Inr: "transports w t \<noteq> None \<Longrightarrow> \<exists>a. get_transport w t = Inr a \<and> transports w t = Some a"
  by (auto simp: get_transport_def)

lemma world_Send_same:
  "same_struct w (world_SendOkay f w)" "same_struct w (world_SendFail f r w)"
  "same_struct w (world_SendProtocolString f r w)" "same_struct w (fd_write f r w)"
  "same_struct w (world_SendOkay_string f r w)"
  by (auto simp: same_struct_def same_heap_def world_SendOkay_def world_SendFail_def world_SendProtocolString_def
      fd_write_def world_SendOkay_string_def split: prod.splits)

lemma put_transport_same: "transports w t \<noteq> None \<Longrightarrow> same_struct w (put_transport t a w)"
  by (auto simp: same_struct_def same_heap_def put_transport_def)

text \<open>Sending a well-formed packet on an allocated transport only touches transports and the log.\<close>

lemma prepare_packet_total:
  "unat (data_length (msg p)) \<le> length (payload p) \<Longrightarrow> \<exists>q. prepare_packet v p = Inr q"
  by (simp add: prepare_packet_def calculate_apacket_checksum_def Let_def)

lemma make_packet_fits: "unat (data_length (msg (make_packet c a0 a1 d))) \<le> length (payload (make_packet c a0 a1 d))"
  by (simp add: make_packet_def unat_of_nat take_bit_nat_less_eq_self)

lemma send_packet_same:
  assumes "transports w t \<noteq> None"
  shows "\<exists>w'. send_packet (make_packet c a0 a1 d) (Some t) w = Inr w' \<and> same_struct w w'"
proof -
  obtain a where a: "transports w t = Some a" using assms by auto
  obtain q where q: "prepare_packet (protocol_version a) (make_packet c a0 a1 d) = Inr q"
    using prepare_packet_total [OF make_packet_fits] by blast
  have "same_struct w (w\<lparr>sent := sent w @ [(t, q)]\<rparr>)" by (simp add: same_struct_def same_heap_def)
  moreover have "same_struct w (put_transport t (Kick a) w)" using put_transport_same [OF assms] .
  ultimately show ?thesis
    using a q by (simp add: send_packet_def get_transport_def)
qed

section \<open>Changing one object\<close>

lemma object_ok_unpeer [simp]: "object_ok so \<Longrightarrow> object_ok (so\<lparr>peer := None\<rparr>)"
  by (simp add: object_ok_def methods_ok_def split: enqueue_fn.splits)

text \<open>A local socket with its regular methods restored.\<close>

definition regular :: "asocket \<Rightarrow> asocket" where
  "regular so = so\<lparr>ready_m := Local_ready, shutdown_m := None, close_m := Local_close\<rparr>"

lemma regular_simps [simp]:
  "sid (regular so) = sid so" "peer (regular so) = peer so" "enqueue_m (regular so) = enqueue_m so"
  "closing (regular so) = closing so" "sock_transport (regular so) = sock_transport so" "fd (regular so) = fd so"
  "packet_queue (regular so) = packet_queue so" "has_write_error (regular so) = has_write_error so"
  "close_m (regular so) = Local_close" "ready_m (regular so) = Local_ready" "shutdown_m (regular so) = None"
  "available_send_bytes (regular so) = available_send_bytes so"
  by (simp_all add: regular_def)

lemma object_ok_regular: "object_ok so \<Longrightarrow> is_local so \<Longrightarrow> object_ok (regular so)"
  by (simp add: object_ok_def methods_ok_def regular_def)

lemma heap_ok_put:
  assumes "heap_ok w" "sockets w s = Some so" "object_ok so'"
    and same: "sid so' = sid so" "peer so' = peer so" "enqueue_m so' = enqueue_m so" "closing so' = closing so"
    and tr: "\<And>t. \<not> closing so' \<Longrightarrow> sock_transport so' = Some t \<Longrightarrow> transports w t \<noteq> None"
  shows "heap_ok (put_sock s so' w)"
proof -
  let ?w = "put_sock s so' w"
  have old: "\<exists>yo. sockets w x = Some yo \<and> sid xo = sid yo \<and> peer xo = peer yo \<and> enqueue_m xo = enqueue_m yo \<and>
      closing xo = closing yo" if "sockets ?w x = Some xo" for x xo
    using that assms(2) same by (auto split: if_splits)
  have new: "\<exists>xo. sockets ?w x = Some xo \<and> sid xo = sid yo \<and> peer xo = peer yo \<and> enqueue_m xo = enqueue_m yo \<and>
      closing xo = closing yo" if "sockets w x = Some yo" for x yo
    using that assms(2) same by auto
  have "peers_ok ?w" unfolding peers_ok_def
  proof (intro allI impI)
    fix x xo p
    assume "sockets ?w x = Some xo \<and> peer xo = Some p"
    with old [of x xo] obtain yo where "sockets w x = Some yo" "peer yo = Some p" by auto
    with assms(1) obtain po where "p \<noteq> x" "sockets w p = Some po" "peer po = Some x"
      unfolding heap_ok_def peers_ok_def by blast
    with new [of p po] show "p \<noteq> x \<and> (\<exists>po. sockets ?w p = Some po \<and> peer po = Some x)" by auto
  qed
  moreover have "lists_ok ?w"
  proof -
    have "(\<exists>so. sockets ?w x = Some so \<and> P (enqueue_m so) (closing so)) \<longleftrightarrow>
        (\<exists>so. sockets w x = Some so \<and> P (enqueue_m so) (closing so))" for x P
      using assms(2) same(3,4) by auto
    note this [of _ "\<lambda>e c. e = Local_enqueue \<and> \<not> c"] this [of _ "\<lambda>e c. e = Local_enqueue \<and> c"]
      this [of _ "\<lambda>e c. e = Tracker_enqueue"]
    with assms(1) show ?thesis unfolding heap_ok_def lists_ok_def put_sock_simps(3,4,8,9) by simp
  qed
  moreover have "ids_ok ?w"
  proof -
    have a: "sid so \<noteq> 0 \<and> sid so < local_socket_next_id w" if "is_local so"
      using assms(1,2) that unfolding heap_ok_def ids_ok_def by blast
    have b: "sid xo = sid so \<Longrightarrow> is_local so \<Longrightarrow> sockets w x = Some xo \<Longrightarrow> is_local xo \<Longrightarrow> x = s" for x xo
      using assms(1,2) unfolding heap_ok_def ids_ok_def by blast
    show ?thesis
      using assms(1) a b same(1,3) unfolding heap_ok_def ids_ok_def by (auto split: if_splits)
  qed
  moreover have "refs_ok ?w"
    using assms(1,2) tr unfolding heap_ok_def refs_ok_def by (auto split: if_splits)
  moreover have "attached_ok ?w" unfolding attached_ok_def
  proof (intro allI impI)
    fix x xo
    assume "sockets ?w x = Some xo \<and> \<not> is_local xo"
    with old [of x xo] obtain yo where "sockets w x = Some yo" "\<not> is_local yo" "peer xo = peer yo" by auto
    with assms(1) obtain p po where "peer xo = Some p" "sockets w p = Some po" "is_local po"
      unfolding heap_ok_def attached_ok_def by metis
    with new [of p po] show "\<exists>p po. peer xo = Some p \<and> sockets ?w p = Some po \<and> is_local po" by auto
  qed
  ultimately show ?thesis using assms(1,3) by (auto simp: heap_ok_def)
qed

section \<open>What closing does\<close>

text \<open>
  A closed socket is deallocated, except that a local socket with data it can still write is
  parked on the closing list.
\<close>

definition parks :: "asocket \<Rightarrow> bool" where
  "parks so \<longleftrightarrow> is_local so \<and> \<not> closing so \<and> \<not> has_write_error so \<and> queued so \<noteq> 0"

definition parked :: "asocket \<Rightarrow> asocket" where
  "parked so = so\<lparr>peer := None, closing := True, fde_read := False, ready_m := Local_ready, shutdown_m := None,
     close_m := Local_close\<rparr>"

definition closes :: "world \<Rightarrow> sptr set \<Rightarrow> world \<Rightarrow> bool" where
  "closes w S w' \<longleftrightarrow>
     same_heap w w' \<and>
     (\<forall>x. sockets w' x =
        (if x \<in> S then (case sockets w x of None \<Rightarrow> None | Some xo \<Rightarrow> if parks xo then Some (parked xo) else None)
         else sockets w x)) \<and>
     local_socket_list w' = filter (\<lambda>x. x \<notin> S) (local_socket_list w) \<and>
     set (local_socket_closing_list w') =
       (set (local_socket_closing_list w) - S) \<union> {x \<in> S. \<exists>xo. sockets w x = Some xo \<and> parks xo} \<and>
     distinct (local_socket_closing_list w') \<and>
     device_tracker_list w' = filter (\<lambda>x. x \<notin> S) (device_tracker_list w) \<and>
     (\<forall>x. x \<notin> S \<longrightarrow> tracker_info w' x = tracker_info w x)"

lemma closes_same_heap: "closes w S w' \<Longrightarrow> same_heap w w'"
  by (simp add: closes_def)

lemma closes_lists_ok: "lists_ok w \<Longrightarrow> closes w S w' \<Longrightarrow> lists_ok w'"
  unfolding lists_ok_def closes_def
  by (intro conjI; (elim conjE)?) (auto simp: parks_def parked_def split: option.splits if_splits)

lemma object_ok_parked: "object_ok so \<Longrightarrow> parks so \<Longrightarrow> object_ok (parked so)"
  by (auto simp: object_ok_def parks_def parked_def methods_ok_def)

lemma closes_wf:
  assumes "heap_ok w" "closes w S w'"
    and sym: "\<And>s so p. s \<in> S \<Longrightarrow> sockets w s = Some so \<Longrightarrow> peer so = Some p \<Longrightarrow> p \<in> S"
  shows "heap_ok w'"
proof -
  have old: "(x \<notin> S \<and> sockets w x = Some xo) \<or> (x \<in> S \<and> (\<exists>yo. sockets w x = Some yo \<and> parks yo \<and> xo = parked yo))"
    if "sockets w' x = Some xo" for x xo
    using assms(2) that by (auto simp: closes_def split: if_splits option.splits)
  have keep: "x \<notin> S \<Longrightarrow> sockets w' x = sockets w x" for x using assms(2) by (simp add: closes_def)
  have objs: "\<forall>x xo. sockets w' x = Some xo \<longrightarrow> object_ok xo"
    using old assms(1) by (metis object_ok_parked heap_ok_def)
  have outside: "p \<notin> S" if "x \<notin> S" "sockets w x = Some xo" "peer xo = Some p" for x xo p
    using assms(1) sym that by (metis (no_types, opaque_lifting) heap_ok_def peers_ok_def)
  have peers: "peers_ok w'"
    unfolding peers_ok_def
  proof (intro allI impI)
    fix x xo p
    assume a: "sockets w' x = Some xo \<and> peer xo = Some p"
    then have x: "x \<notin> S" "sockets w x = Some xo" using old [of x xo] by (auto simp: parked_def)
    with a outside [OF x] keep assms(1) show "p \<noteq> x \<and> (\<exists>po. sockets w' p = Some po \<and> peer po = Some x)"
      by (simp add: heap_ok_def peers_ok_def)
  qed
  have lists: "lists_ok w'" using assms(1,2) closes_lists_ok by (auto simp: heap_ok_def)
  have same: "same_heap w w'" using assms(2) by (simp add: closes_def)
  have sidp: "sid (parked yo) = sid yo" "is_local (parked yo) = is_local yo" "sock_transport (parked yo) = sock_transport yo"
    "peer (parked yo) = None" "enqueue_m (parked yo) = enqueue_m yo" for yo
    by (simp_all add: parked_def)
  have pre: "\<exists>yo. sockets w x = Some yo \<and> sid xo = sid yo \<and> enqueue_m xo = enqueue_m yo \<and> sock_transport xo = sock_transport yo"
    if "sockets w' x = Some xo" for x xo
    using old [OF that] sidp by auto
  have "ids_ok w'"
    using assms(1) same pre unfolding heap_ok_def ids_ok_def same_heap_def by metis
  moreover have "refs_ok w'"
  proof -
    have "x < next_sptr w" if "sockets w' x = Some xo" for x xo
      using pre [OF that] assms(1) unfolding heap_ok_def refs_ok_def by blast
    moreover have "transports w t \<noteq> None" if "sockets w' x = Some xo" "\<not> closing xo" "sock_transport xo = Some t" for x xo t
      using old [OF that(1)] that(2,3) assms(1) unfolding heap_ok_def refs_ok_def by (auto simp: parked_def)
    ultimately show ?thesis using same assms(1) unfolding heap_ok_def refs_ok_def same_heap_def by auto
  qed
  moreover have "attached_ok w'"
    unfolding attached_ok_def
  proof (intro allI impI)
    fix x xo
    assume a: "sockets w' x = Some xo \<and> \<not> is_local xo"
    then have x: "x \<notin> S" "sockets w x = Some xo" using old [of x xo] by (auto simp: parks_def parked_def)
    obtain p po where "peer xo = Some p" "sockets w p = Some po" "is_local po"
      using a x assms(1) unfolding heap_ok_def attached_ok_def by blast
    with outside [OF x] keep show "\<exists>p po. peer xo = Some p \<and> sockets w' p = Some po \<and> is_local po" by auto
  qed
  ultimately show ?thesis using objs peers lists by (simp add: heap_ok_def)
qed

section \<open>The close functions\<close>

lemma filter_neq_id: "q \<notin> set xs \<Longrightarrow> filter (\<lambda>x. x \<noteq> q) xs = xs"
  by (induction xs) auto

lemma distinct_remove1_filter: "distinct xs \<Longrightarrow> remove1 q xs = filter (\<lambda>x. x \<noteq> q) xs"
  by (induction xs) (auto simp: filter_neq_id)

text \<open>The tail of \<open>local_socket_close\<close>, for a socket that has no peer any more.\<close>

lemma local_socket_close_tail_closes:
  assumes "sockets w q = Some qo" "object_ok qo" "is_local qo" "lists_ok w" "close_m qo = Local_close" "peer qo = None"
  shows "\<exists>w'. local_socket_close_tail q w = Inr w' \<and> closes w {q} w'"
proof (cases "parks qo")
  case True
  define w1 where "w1 = remove_socket q (put_sock q (qo\<lparr>closing := True, fde_read := False\<rparr>) w)"
  define w2 where "w2 = w1\<lparr>local_socket_closing_list := local_socket_closing_list w1 @ [q]\<rparr>"
  have fw: "fde_write qo" using True assms(2) by (auto simp: parks_def object_ok_def)
  have "parked qo = qo\<lparr>closing := True, fde_read := False\<rparr>"
    using assms(2,3,5,6) by (cases qo) (auto simp: parked_def object_ok_def methods_ok_def)
  moreover have "q \<notin> set (device_tracker_list w)" using assms(1,3,4) by (auto simp: lists_ok_def)
  ultimately have "closes w {q} w2"
    using assms(1,4) True
    by (auto simp: closes_def same_heap_def w2_def w1_def remove_socket_def put_sock_def lists_ok_def
        filter_neq_id [symmetric])
  moreover have "local_socket_close_tail q w = Inr w2"
    using True assms(1) fw by (simp add: local_socket_close_tail_def parks_def w2_def w1_def Let_def)
  ultimately show ?thesis by blast
next
  case False
  define w1 where "w1 = remove_socket q (w\<lparr>deferred := deferred w @ [fd qo]\<rparr>)"
  define w2 where "w2 = w1\<lparr>sockets := (sockets w1)(q := None)\<rparr>"
  have nt: "q \<notin> set (device_tracker_list w)" using assms(1,3,4) by (auto simp: lists_ok_def)
  have "local_socket_close_tail q w = Inr w2"
    using False assms(1-3)
    by (auto simp: local_socket_close_tail_def parks_def local_socket_destroy_def delete_sock_def w2_def w1_def
        remove_socket_def get_sock_def object_ok_def)
  moreover have "closes w {q} w2"
    using assms(1,4) nt False
    by (auto simp: closes_def same_heap_def w2_def w1_def remove_socket_def lists_ok_def filter_neq_id [symmetric])
  ultimately show ?thesis by blast
qed

lemma closes_delete:
  assumes "sockets w q = Some qo" "\<not> is_local qo" "enqueue_m qo \<noteq> Tracker_enqueue" "lists_ok w"
  shows "closes w {q} (w\<lparr>sockets := (sockets w)(q := None)\<rparr>)"
proof -
  have "q \<notin> set (local_socket_list w)" "q \<notin> set (local_socket_closing_list w)" "q \<notin> set (device_tracker_list w)"
    using assms by (auto simp: lists_ok_def)
  with assms show ?thesis
    by (auto simp: closes_def same_heap_def parks_def lists_ok_def filter_neq_id)
qed

lemma closes_delete_tracker:
  assumes "sockets w q = Some qo" "enqueue_m qo = Tracker_enqueue" "lists_ok w"
  shows "closes w {q} ((device_tracker_remove q w)\<lparr>sockets := (sockets w)(q := None)\<rparr>)"
proof -
  have "q \<notin> set (local_socket_list w)" "q \<notin> set (local_socket_closing_list w)" "distinct (device_tracker_list w)"
    using assms by (auto simp: lists_ok_def)
  with assms show ?thesis
    by (auto simp: closes_def same_heap_def parks_def lists_ok_def filter_neq_id device_tracker_remove_def
        distinct_remove1_filter)
qed

text \<open>A change of one object that does not matter to \<^const>\<open>closes\<close>.\<close>

lemma closes_cong:
  assumes "closes w1 S w'" "same_heap w w1" "q \<in> S" "sockets w q = Some qo" "sockets w1 = (sockets w)(q := Some qo1)"
    "parks qo1 = parks qo" "parked qo1 = parked qo"
    "local_socket_list w1 = local_socket_list w" "local_socket_closing_list w1 = local_socket_closing_list w"
    "device_tracker_list w1 = device_tracker_list w" "tracker_info w1 = tracker_info w"
  shows "closes w S w'"
  using assms by (auto simp: closes_def intro: same_heap_trans split: option.splits)

lemma closes_same_struct: "same_struct w w1 \<Longrightarrow> closes w1 S w' \<Longrightarrow> closes w S w'"
  by (simp add: closes_def same_struct_def) (blast intro: same_heap_trans)

lemma closes_trans:
  assumes "closes w S w1" "closes w1 T w2" "S \<inter> T = {}"
  shows "closes w (S \<union> T) w2"
proof -
  have st: "x \<in> T \<Longrightarrow> x \<notin> S" for x using assms(3) by auto
  have s1: "x \<notin> S \<Longrightarrow> sockets w1 x = sockets w x" for x using assms(1) by (simp add: closes_def)
  have pk: "{x \<in> T. \<exists>xo. sockets w1 x = Some xo \<and> parks xo} = {x \<in> T. \<exists>xo. sockets w x = Some xo \<and> parks xo}"
    using s1 st by auto
  have "sockets w2 x =
      (if x \<in> S \<union> T then (case sockets w x of None \<Rightarrow> None | Some xo \<Rightarrow> if parks xo then Some (parked xo) else None)
       else sockets w x)" for x
    using assms(1,2) st s1 by (cases "x \<in> T"; cases "x \<in> S") (simp_all add: closes_def)
  moreover have "set (local_socket_closing_list w2) =
      (set (local_socket_closing_list w) - (S \<union> T)) \<union> {x \<in> S \<union> T. \<exists>xo. sockets w x = Some xo \<and> parks xo}"
  proof -
    have "set (local_socket_closing_list w2) = (set (local_socket_closing_list w1) - T) \<union>
        {x \<in> T. \<exists>xo. sockets w x = Some xo \<and> parks xo}"
      using assms(2) pk by (simp add: closes_def)
    moreover have "set (local_socket_closing_list w1) = (set (local_socket_closing_list w) - S) \<union>
        {x \<in> S. \<exists>xo. sockets w x = Some xo \<and> parks xo}"
      using assms(1) by (simp add: closes_def)
    ultimately show ?thesis using assms(3) by blast
  qed
  moreover have "same_heap w w2" by (rule same_heap_trans [OF closes_same_heap [OF assms(1)] closes_same_heap [OF assms(2)]])
  moreover have "local_socket_list w2 = filter (\<lambda>x. x \<notin> S \<union> T) (local_socket_list w)"
    "device_tracker_list w2 = filter (\<lambda>x. x \<notin> S \<union> T) (device_tracker_list w)"
    using assms(1,2) by (simp_all add: closes_def conj_commute)
  ultimately show ?thesis
    using assms(1,2) by (simp add: closes_def)
qed

text \<open>A socket that has lost its peer: the nested call of every close function.\<close>

lemma close_notify_eq:
  assumes "sockets w q = Some qo" "close_m qo = Local_close_notify"
  shows "close_socket w q = local_socket_close (put_sock q (regular qo) (world_SendFail (fd qo) ''closed'' w)) q"
proof -
  have "close_socket w q = close_socket (put_sock q (regular qo) (world_SendFail (fd qo) ''closed'' w)) q"
    by (subst close_socket.simps) (simp add: assms local_socket_close_notify.simps regular_def)
  also have "\<dots> = local_socket_close (put_sock q (regular qo) (world_SendFail (fd qo) ''closed'' w)) q"
    by (subst close_socket.simps) simp
  finally show ?thesis .
qed

lemma parks_regular [simp]: "parks (regular so) = parks so" "parked (regular so) = parked so"
  by (simp_all add: parks_def parked_def regular_def)

lemma parks_unpeer [simp]: "parks (so\<lparr>peer := None\<rparr>) = parks so" "parked (so\<lparr>peer := None\<rparr>) = parked so"
  by (simp_all add: parks_def parked_def)

lemma close_unpeered:
  assumes "sockets w q = Some qo" "object_ok qo" "peer qo = None" "lists_ok w"
  shows "\<exists>w'. close_socket w q = Inr w' \<and> closes w {q} w'"
proof (cases "enqueue_m qo")
  case Local_enqueue
  show ?thesis
  proof (cases "close_m qo = Local_close")
    case True
    then show ?thesis
      using local_socket_close_tail_closes [OF assms(1,2) Local_enqueue assms(4) True assms(3)] assms(1,3)
      by (simp add: close_socket.simps local_socket_close.simps)
  next
    case False
    then have n: "close_m qo = Local_close_notify" using assms(2) Local_enqueue by (auto simp: object_ok_def methods_ok_def)
    define w1 where "w1 = put_sock q (regular qo) (world_SendFail (fd qo) ''closed'' w)"
    have w1: "same_heap w w1" "sockets w1 = (sockets w)(q := Some (regular qo))" "local_socket_list w1 = local_socket_list w"
      "local_socket_closing_list w1 = local_socket_closing_list w" "device_tracker_list w1 = device_tracker_list w"
      "tracker_info w1 = tracker_info w"
      using world_Send_same(2) [of w "fd qo" "''closed''"]
      by (simp_all add: w1_def same_struct_def same_heap_def)
    have l1: "lists_ok w1"
      using assms(1,4) Local_enqueue by (auto simp: lists_ok_def w1)
    obtain w' where w': "local_socket_close_tail q w1 = Inr w'" "closes w1 {q} w'"
      using local_socket_close_tail_closes [of w1 q "regular qo"] object_ok_regular [OF assms(2) Local_enqueue]
        Local_enqueue assms(3) l1 w1(2) by auto
    have "close_socket w q = Inr w'"
      using close_notify_eq [OF assms(1) n] w1(2) assms(3) w'(1)
      by (simp add: w1_def [symmetric] local_socket_close.simps)
    with closes_cong [OF w'(2) w1(1) _ assms(1) w1(2) _ _ w1(3-6)] show ?thesis by simp
  qed
next
  case Remote_enqueue
  then have "close_m qo = Remote_close" using assms(2) by (simp add: object_ok_def methods_ok_def)
  then show ?thesis
    using assms Remote_enqueue closes_delete [OF assms(1) _ _ assms(4)]
    by (simp add: close_socket.simps remote_socket_close.simps delete_sock_def)
next
  case Smart_enqueue
  then have "close_m qo = Smart_close" using assms(2) by (simp add: object_ok_def methods_ok_def)
  then show ?thesis
    using assms Smart_enqueue closes_delete [OF assms(1) _ _ assms(4)]
    by (simp add: close_socket.simps smart_socket_close.simps delete_sock_def)
next
  case Tracker_enqueue
  then have "close_m qo = Tracker_close" using assms(2) by (simp add: object_ok_def methods_ok_def)
  then show ?thesis
    using assms Tracker_enqueue closes_delete_tracker [OF assms(1) _ assms(4)]
    by (simp add: close_socket.simps device_tracker_close.simps delete_sock_def get_sock_def device_tracker_remove_def)
qed

text \<open>Closing the peer first: the common beginning of all close functions on a peered socket.\<close>

lemma close_peer:
  assumes "heap_ok w" "sockets w s = Some so" "peer so = Some p"
  obtains po w2 where "sockets w p = Some po" "p \<noteq> s" "close_socket (put_sock p (po\<lparr>peer := None\<rparr>) w) p = Inr w2"
    "closes w {p} w2" "sockets w2 s = Some so" "lists_ok w2"
proof -
  obtain po where po: "sockets w p = Some po" "p \<noteq> s" "object_ok po" "lists_ok w"
    using assms unfolding heap_ok_def peers_ok_def by metis
  let ?p = "po\<lparr>peer := None\<rparr>"
  let ?w = "put_sock p ?p w"
  have ok: "object_ok ?p" using po(3) by simp
  have l: "lists_ok ?w" using po(1,4) by (auto simp: lists_ok_def)
  obtain w2 where w2: "close_socket ?w p = Inr w2" "closes ?w {p} w2"
    using close_unpeered [of ?w p ?p] ok l by auto
  have "parks ?p = parks po" "parked ?p = parked po" by (simp_all add: parks_def parked_def)
  then have c: "closes w {p} w2"
    using closes_cong [OF w2(2), of w p po ?p] po(1) by simp
  then have "sockets w2 s = Some so" using po(2) assms(2) by (simp add: closes_def)
  with that [OF po(1,2) w2(1) c] closes_lists_ok [OF po(4) c] show thesis by blast
qed

lemma call_shutdown_same:
  assumes "heap_ok w" "sockets w p = Some po"
  shows "\<exists>w1. call_shutdown p w = Inr w1 \<and> same_struct w w1"
proof (cases "shutdown_m po")
  case None
  then show ?thesis using assms(2) by (simp add: call_shutdown_def)
next
  case (Some sh)
  then have sh: "shutdown_m po = Some Remote_shutdown" by (cases sh) simp
  have po: "object_ok po" using assms by (simp add: heap_ok_def)
  then have "enqueue_m po = Remote_enqueue"
    using sh by (cases "enqueue_m po") (auto simp: object_ok_def methods_ok_def)
  with po obtain t where t: "sock_transport po = Some t" by (auto simp: object_ok_def)
  moreover have "\<not> closing po" using po sh by (auto simp: object_ok_def methods_ok_def)
  ultimately have tt: "transports w t \<noteq> None" using assms unfolding heap_ok_def refs_ok_def by blast
  have "\<exists>a0. (case peer po of None \<Rightarrow> Inr 0 | Some q \<Rightarrow> bind_r (get_sock w q) (\<lambda>qo. Inr (sid qo))) = Inr a0"
  proof (cases "peer po")
    case (Some q)
    then obtain qo where "sockets w q = Some qo" using assms unfolding heap_ok_def peers_ok_def by blast
    with Some show ?thesis by simp
  qed simp
  then obtain a0 where "(case peer po of None \<Rightarrow> Inr 0 | Some q \<Rightarrow> bind_r (get_sock w q) (\<lambda>qo. Inr (sid qo))) = Inr a0" ..
  with send_packet_same [OF tt, of A_CLSE a0 "sid po" "[]"] sh assms(2) t show ?thesis
    by (simp add: call_shutdown_def remote_socket_shutdown_def)
qed

abbreviation closed_set :: "sptr \<Rightarrow> asocket \<Rightarrow> sptr set" where
  "closed_set s so \<equiv> {s} \<union> set_option (peer so)"

lemma local_socket_close_closes:
  assumes "heap_ok w" "sockets w s = Some so" "is_local so" "close_m so = Local_close"
  shows "\<exists>w'. local_socket_close w s = Inr w' \<and> closes w (closed_set s so) w'"
proof (cases "peer so")
  case None
  then show ?thesis
    using assms local_socket_close_tail_closes [OF assms(2) _ assms(3) _ assms(4) None]
    by (simp add: local_socket_close.simps heap_ok_def)
next
  case (Some p)
  obtain po where po: "sockets w p = Some po" using assms(1,2) Some unfolding heap_ok_def peers_ok_def by blast
  obtain w1 where w1: "call_shutdown p w = Inr w1" "same_struct w w1"
    using call_shutdown_same [OF assms(1) po] by blast
  have wf1: "heap_ok w1" using heap_ok_same_struct [OF assms(1) w1(2)] .
  have s1: "sockets w1 s = Some so" "sockets w1 p = Some po" using w1(2) assms(2) po by (simp_all add: same_struct_def)
  obtain w2 where w2: "p \<noteq> s" "close_socket (put_sock p (po\<lparr>peer := None\<rparr>) w1) p = Inr w2" "closes w1 {p} w2"
    "sockets w2 s = Some so" "lists_ok w2"
    using close_peer [OF wf1 s1(1) Some] s1(2) by (metis option.inject)
  let ?s = "so\<lparr>peer := None\<rparr>"
  let ?w3 = "put_sock s ?s w2"
  have "object_ok ?s" using assms(1,2) by (auto simp: heap_ok_def)
  moreover have "lists_ok ?w3" using w2(4,5) by (auto simp: lists_ok_def)
  ultimately obtain w4 where w4: "local_socket_close_tail s ?w3 = Inr w4" "closes ?w3 {s} w4"
    using local_socket_close_tail_closes [of ?w3 s ?s] assms(3,4) by auto
  have "parks ?s = parks so" "parked ?s = parked so" by (simp_all add: parks_def parked_def)
  then have "closes w2 {s} w4" using closes_cong [OF w4(2), of w2 s so ?s] w2(4) by simp
  from closes_same_struct [OF w1(2) closes_trans [OF w2(3) this]] w2(1)
  have "closes w {p, s} w4" by (simp add: insert_commute)
  moreover have "local_socket_close w s = Inr w4"
    using assms(2) Some w1(1) s1 w2 w4(1) by (simp add: local_socket_close.simps upd_sock_def)
  ultimately show ?thesis using Some by (auto simp: insert_commute)
qed

lemma closes_wf_pair:
  assumes "heap_ok w" "sockets w s = Some so" "closes w (closed_set s so) w'"
  shows "heap_ok w'"
proof (rule closes_wf [OF assms(1,3)])
  fix x xo p
  assume "x \<in> closed_set s so" "sockets w x = Some xo" "peer xo = Some p"
  with assms(1,2) show "p \<in> closed_set s so" unfolding heap_ok_def peers_ok_def by fastforce
qed

text \<open>The end of the other close functions, once the peer is closed.\<close>

lemma close_finish:
  assumes "\<not> is_local so" "sockets w s = Some so" "object_ok so" "peer so = Some p" "sockets w p = Some po"
    "close_socket (put_sock p (po\<lparr>peer := None\<rparr>) w) p = Inr w2" "sockets w2 s = Some so" "lists_ok w2"
  shows "\<exists>w3. close_socket w s = Inr w3 \<and> closes w2 {s} w3"
proof (cases "enqueue_m so")
  case Local_enqueue
  with assms(1) show ?thesis by simp
next
  case Remote_enqueue
  then have "close_m so = Remote_close" using assms(3) by (simp add: object_ok_def methods_ok_def)
  with assms Remote_enqueue closes_delete [OF assms(7,1) _ assms(8)] show ?thesis
    by (subst close_socket.simps) (simp add: remote_socket_close.simps delete_sock_def)
next
  case Smart_enqueue
  then have c: "close_m so = Smart_close" using assms(3) by (simp add: object_ok_def methods_ok_def)
  let ?w = "put_sock s (so\<lparr>peer := None\<rparr>) w2"
  have d: "?w\<lparr>sockets := (sockets ?w)(s := None)\<rparr> = w2\<lparr>sockets := (sockets w2)(s := None)\<rparr>"
    by (simp add: put_sock_def)
  have "close_socket w s = Inr (w2\<lparr>sockets := (sockets w2)(s := None)\<rparr>)"
    using assms c d by (subst close_socket.simps) (simp add: smart_socket_close.simps delete_sock_def upd_sock_def)
  with closes_delete [OF assms(7,1) _ assms(8)] Smart_enqueue show ?thesis by simp
next
  case Tracker_enqueue
  then have "close_m so = Tracker_close" using assms(3) by (simp add: object_ok_def methods_ok_def)
  with assms Tracker_enqueue closes_delete_tracker [OF assms(7) Tracker_enqueue assms(8)] show ?thesis
    by (subst close_socket.simps)
       (simp add: device_tracker_close.simps delete_sock_def get_sock_def device_tracker_remove_def)
qed

theorem close_socket_closes:
  assumes "heap_ok w" "sockets w s = Some so"
  shows "\<exists>w'. close_socket w s = Inr w' \<and> closes w (closed_set s so) w' \<and> heap_ok w'"
proof -
  have ok: "object_ok so" "lists_ok w" using assms by (auto simp: heap_ok_def)
  have "\<exists>w'. close_socket w s = Inr w' \<and> closes w (closed_set s so) w'"
  proof (cases "peer so")
    case None
    then show ?thesis using close_unpeered [OF assms(2) ok(1) None ok(2)] by simp
  next
    case (Some p)
    show ?thesis
    proof (cases "is_local so")
      case True
      show ?thesis
      proof (cases "close_m so = Local_close")
        case True
        then show ?thesis
          using local_socket_close_closes [OF assms \<open>is_local so\<close> True] assms(2) by (simp add: close_socket.simps)
      next
        case False
        then have n: "close_m so = Local_close_notify" using ok(1) \<open>is_local so\<close> by (auto simp: object_ok_def methods_ok_def)
        let ?w0 = "world_SendFail (fd so) ''closed'' w"
        define w1 where "w1 = put_sock s (regular so) ?w0"
        have w1: "same_heap w w1" "sockets w1 = (sockets w)(s := Some (regular so))"
          "local_socket_list w1 = local_socket_list w"
          "local_socket_closing_list w1 = local_socket_closing_list w" "device_tracker_list w1 = device_tracker_list w"
          "tracker_info w1 = tracker_info w"
          using world_Send_same(2) [of w "fd so" "''closed''"] by (simp_all add: w1_def same_struct_def same_heap_def)
        have w0: "heap_ok ?w0" "sockets ?w0 s = Some so"
          using heap_ok_same_struct [OF assms(1) world_Send_same(2)] world_Send_same(2) [of w "fd so" "''closed''"] assms(2)
          by (simp_all add: same_struct_def)
        have "heap_ok w1" unfolding w1_def
          by (rule heap_ok_put [OF w0 object_ok_regular [OF ok(1) \<open>is_local so\<close>]])
             (use w0 in \<open>auto simp: heap_ok_def refs_ok_def\<close>)
        then obtain w' where w': "local_socket_close w1 s = Inr w'" "closes w1 (closed_set s (regular so)) w'"
          using local_socket_close_closes [of w1 s "regular so"] w1(2) \<open>is_local so\<close> by auto
        have "close_socket w s = Inr w'"
          using close_notify_eq [OF assms(2) n] w'(1) by (simp add: w1_def [symmetric])
        moreover have "closes w (closed_set s so) w'"
          using closes_cong [OF w'(2) w1(1) _ assms(2) w1(2) _ _ w1(3-6)] by simp
        ultimately show ?thesis by blast
      qed
    next
      case False
      obtain po w2 where w2: "sockets w p = Some po" "p \<noteq> s" "close_socket (put_sock p (po\<lparr>peer := None\<rparr>) w) p = Inr w2"
        "closes w {p} w2" "sockets w2 s = Some so" "lists_ok w2"
        using close_peer [OF assms Some] by blast
      obtain w3 where w3: "close_socket w s = Inr w3" "closes w2 {s} w3"
        using close_finish [OF False assms(2) ok(1) Some w2(1,3,5,6)] by blast
      from closes_trans [OF w2(4) w3(2)] w2(2) w3(1) Some show ?thesis by (auto simp: insert_commute)
    qed
  qed
  with closes_wf_pair [OF assms] show ?thesis by blast
qed

end
