(* ===== verification/Socket_Flow.thy ===== *)
theory Socket_Flow
  imports Socket_Invariant
begin

text \<open>
  What the operations of \<open>sockets.cpp\<close> promise, under the invariant of the socket heap: tearing a
  transport down, flushing and queueing data, flow control, opening and connecting sockets. None
  of them follows a stale pointer, and each leaves the invariant intact.
\<close>

section \<open>Tearing a transport down\<close>

definition on_transport :: "world \<Rightarrow> tptr \<Rightarrow> sptr \<Rightarrow> bool" where
  "on_transport w t s =
     (case sockets w s of
        None \<Rightarrow> False
      | Some so \<Rightarrow> sock_transport so = Some t \<or>
          (case peer so of
             None \<Rightarrow> False
           | Some p \<Rightarrow> (case sockets w p of None \<Rightarrow> False | Some po \<Rightarrow> sock_transport po = Some t)))"

lemma heap_ok_peer:
  assumes "heap_ok w" "sockets w s = Some so" "peer so = Some p"
  obtains po where "sockets w p = Some po" "peer po = Some s" "p \<noteq> s"
  using assms unfolding heap_ok_def peers_ok_def by blast

lemma heap_ok_object: "heap_ok w \<Longrightarrow> sockets w s = Some so \<Longrightarrow> object_ok so"
  by (simp add: heap_ok_def)

lemma heap_ok_transport:
  "heap_ok w \<Longrightarrow> sockets w s = Some so \<Longrightarrow> \<not> closing so \<Longrightarrow> sock_transport so = Some t \<Longrightarrow> transports w t \<noteq> None"
  unfolding heap_ok_def refs_ok_def by blast

lemma heap_ok_peer_open:
  assumes "heap_ok w" "sockets w s = Some so" "peer so = Some p" "sockets w p = Some po"
  shows "\<not> closing po" "peer po = Some s" "p \<noteq> s"
proof -
  show p: "peer po = Some s" "p \<noteq> s" using assms unfolding heap_ok_def peers_ok_def by fastforce+
  then show "\<not> closing po" using heap_ok_object [OF assms(1,4)] by (auto simp: object_ok_def)
qed

lemma heap_ok_attached:
  assumes "heap_ok w" "sockets w s = Some so" "\<not> is_local so"
  obtains p po where "peer so = Some p" "sockets w p = Some po" "is_local po"
  using assms unfolding heap_ok_def attached_ok_def by blast

lemma touches_transport_spec:
  assumes "heap_ok w"
  shows "set ss \<subseteq> set (local_socket_list w) \<Longrightarrow>
    \<exists>r. touches_transport w t ss = Inr r \<and>
      (case r of None \<Rightarrow> \<forall>s \<in> set ss. \<not> on_transport w t s | Some s \<Rightarrow> s \<in> set ss \<and> on_transport w t s)"
proof (induction ss)
  case Nil
  then show ?case by simp
next
  case (Cons s ss)
  then obtain so where so: "sockets w s = Some so"
    using assms by (auto simp: heap_ok_def lists_ok_def)
  obtain r where r: "touches_transport w t ss = Inr r"
    "case r of None \<Rightarrow> \<forall>s \<in> set ss. \<not> on_transport w t s | Some s \<Rightarrow> s \<in> set ss \<and> on_transport w t s"
    using Cons by auto
  show ?case
  proof (cases "peer so")
    case None
    with so r show ?thesis by (auto simp: on_transport_def split: option.splits)
  next
    case (Some p)
    obtain po where "sockets w p = Some po" using heap_ok_peer [OF assms so Some] by blast
    with Some so r show ?thesis by (auto simp: on_transport_def split: option.splits)
  qed
qed

lemma on_transport_peer:
  assumes "heap_ok w" "sockets w s = Some so" "peer so = Some p"
  shows "on_transport w t p = on_transport w t s"
proof -
  obtain po where "sockets w p = Some po" "peer po = Some s" using heap_ok_peer [OF assms] by blast
  with assms show ?thesis by (auto simp: on_transport_def)
qed

lemma closed_set_on_transport:
  assumes "heap_ok w" "sockets w s = Some so" "x \<in> closed_set s so"
  shows "on_transport w t x = on_transport w t s"
  using assms on_transport_peer [OF assms(1,2)] by auto

lemma on_transport_closes:
  assumes "heap_ok w" "sockets w s = Some so" "closes w (closed_set s so) w'" "x \<notin> closed_set s so"
  shows "on_transport w' t x = on_transport w t x" "sockets w' x = sockets w x"
proof -
  have keep: "y \<notin> closed_set s so \<Longrightarrow> sockets w' y = sockets w y" for y using assms(3) unfolding closes_def by (metis (full_types))
  show s: "sockets w' x = sockets w x" using keep [OF assms(4)] .
  have "p \<notin> closed_set s so" if p: "sockets w x = Some xo" "peer xo = Some p" for xo p
  proof
    assume p': "p \<in> closed_set s so"
    obtain po where po: "sockets w p = Some po" "peer po = Some x" using heap_ok_peer [OF assms(1) p] by blast
    from p' consider "p = s" | "peer so = Some p" by auto
    then show False
    proof cases
      case 1
      with po assms(2,4) show False by auto
    next
      case 2
      from heap_ok_peer [OF assms(1,2) 2] po assms(4) show False by auto
    qed
  qed
  with s keep show "on_transport w' t x = on_transport w t x"
    by (auto simp: on_transport_def split: option.splits)
qed

text \<open>
  The restarting scan of \<open>close_all_sockets\<close> needs one round more than there are local sockets:
  each round closes at least the socket it found.
\<close>

lemma close_all_loop_spec:
  "heap_ok w \<Longrightarrow> length (local_socket_list w) < n \<Longrightarrow>
     \<exists>w'. close_all_loop n t w = Inr w' \<and> heap_ok w' \<and> same_heap w w' \<and>
       (\<forall>s \<in> set (local_socket_list w'). \<not> on_transport w' t s) \<and>
       (\<forall>s. \<not> on_transport w t s \<longrightarrow> sockets w' s = sockets w s)"
proof (induction n arbitrary: w)
  case 0
  then show ?case by simp
next
  case (Suc n)
  obtain r where r: "touches_transport w t (local_socket_list w) = Inr r"
    "case r of None \<Rightarrow> \<forall>s \<in> set (local_socket_list w). \<not> on_transport w t s
      | Some s \<Rightarrow> s \<in> set (local_socket_list w) \<and> on_transport w t s"
    using touches_transport_spec [OF Suc.prems(1) order_refl] by blast
  show ?case
  proof (cases r)
    case None
    with r Suc.prems show ?thesis by simp
  next
    case (Some s)
    with r(2) have s: "s \<in> set (local_socket_list w)" "on_transport w t s" by simp_all
    then obtain so where so: "sockets w s = Some so" by (auto simp: on_transport_def split: option.splits)
    obtain w1 where w1: "close_socket w s = Inr w1" "closes w (closed_set s so) w1" "heap_ok w1"
      using close_socket_closes [OF Suc.prems(1) so] by blast
    have "local_socket_list w1 = filter (\<lambda>x. x \<notin> closed_set s so) (local_socket_list w)"
      using w1(2) by (simp add: closes_def)
    moreover have "length (filter (\<lambda>x. x \<notin> closed_set s so) (local_socket_list w)) < length (local_socket_list w)"
      using s(1) by (intro length_filter_less) auto
    ultimately have "length (local_socket_list w1) < n" using Suc.prems(2) by simp
    from Suc.IH [OF w1(3) this] obtain w' where w': "close_all_loop n t w1 = Inr w'" "heap_ok w'" "same_heap w1 w'"
      "\<forall>s \<in> set (local_socket_list w'). \<not> on_transport w' t s" "\<forall>s. \<not> on_transport w1 t s \<longrightarrow> sockets w' s = sockets w1 s"
      by blast
    have "sockets w' x = sockets w x" if x: "\<not> on_transport w t x" for x
    proof -
      have "x \<notin> closed_set s so" using closed_set_on_transport [OF Suc.prems(1) so, of x t] s(2) x by blast
      from on_transport_closes [OF Suc.prems(1) so w1(2) this] x w'(5) show ?thesis by simp
    qed
    moreover have "same_heap w w'" using same_heap_trans [OF closes_same_heap [OF w1(2)] w'(3)] .
    ultimately show ?thesis using r(1) Some w1(1) w' by simp
  qed
qed

text \<open>With no local socket left on a transport, nothing that is not closing refers to it.\<close>

lemma no_reference_left:
  assumes "heap_ok w" "\<forall>s \<in> set (local_socket_list w). \<not> on_transport w t s" "sockets w x = Some xo" "\<not> closing xo"
  shows "sock_transport xo \<noteq> Some t"
proof (cases "is_local xo")
  case True
  then have "x \<in> set (local_socket_list w)" using assms(1,3,4) by (auto simp: heap_ok_def lists_ok_def)
  with assms(2,3) show ?thesis by (auto simp: on_transport_def)
next
  case False
  then obtain p po where p: "peer xo = Some p" "sockets w p = Some po" "is_local po"
    using assms(1,3) unfolding heap_ok_def attached_ok_def by blast
  moreover have "peer po = Some x" using heap_ok_peer [OF assms(1,3) p(1)] p(2) by auto
  moreover from this have "\<not> closing po" using assms(1) p(2) by (auto simp: heap_ok_def object_ok_def)
  ultimately have "p \<in> set (local_socket_list w)" using assms(1) by (auto simp: heap_ok_def lists_ok_def)
  with assms(2) have "\<not> on_transport w t p" by blast
  with p(2) \<open>peer po = Some x\<close> assms(3) show ?thesis by (auto simp: on_transport_def)
qed

lemma heap_ok_forget_transport:
  assumes "heap_ok w" "\<forall>s \<in> set (local_socket_list w). \<not> on_transport w t s" "t \<notin> set (pending_list w)" "Register_task t \<notin> set (run_queue w)"
  shows "heap_ok (w\<lparr>transports := (transports w)(t := None), transport_list := filter (\<lambda>x. x \<noteq> t) (transport_list w)\<rparr>)"
    (is "heap_ok ?w")
proof -
  have "refs_ok ?w"
    using assms(1,3,4) no_reference_left [OF assms(1,2)] unfolding heap_ok_def refs_ok_def by auto
  moreover have "peers_ok ?w = peers_ok w" "lists_ok ?w = lists_ok w" "ids_ok ?w = ids_ok w" "attached_ok ?w = attached_ok w"
    by (simp_all add: peers_ok_def lists_ok_def ids_ok_def attached_ok_def)
  ultimately show ?thesis using assms(1) by (simp add: heap_ok_def)
qed

section \<open>Flushing and queueing\<close>

lemma iovecs_content: "iov_wf v \<Longrightarrow> \<exists>ss. iovecs v = Inr ss \<and> concat ss = iov_content v"
  using iterate_blocks_correct by (simp add: iovecs_def)

lemma adb_writev_same: "adb_writev f bs w = (r, w') \<Longrightarrow> same_struct w w'"
  by (auto simp: adb_writev_def same_struct_def same_heap_def Let_def split: list.splits write_event.splits)

lemma adb_writev_bytes:
  assumes "adb_writev f bs w = (r, w')"
  shows "fd_out w' f = fd_out w f @ (case r of Wrote n \<Rightarrow> take n bs | _ \<Rightarrow> [])"
    and "case r of Wrote n \<Rightarrow> n \<le> length bs \<and> n < drop_limit | _ \<Rightarrow> True"
    and "g \<noteq> f \<Longrightarrow> fd_out w' g = fd_out w g"
  using assms
  by (auto simp: adb_writev_def Let_def MAX_RW_COUNT_def drop_limit_def split: list.splits write_event.splits)

text \<open>
  One flush moves a prefix of the queue to the descriptor: whatever the descriptor does, the bytes
  it has accepted followed by the bytes still queued are what they were.
\<close>

lemma flush_queue_spec:
  assumes "iov_wf (packet_queue so)"
  shows "\<exists>n q e w'. flush_queue so w = Inr (n, so\<lparr>packet_queue := q, has_write_error := e\<rparr>, w') \<and>
    same_struct w w' \<and> iov_wf q \<and> (has_write_error so \<longrightarrow> e) \<and>
    fd_out w' (fd so) @ iov_content q = fd_out w (fd so) @ iov_content (packet_queue so) \<and>
    fd_out w' (fd so) = fd_out w (fd so) @ take n (iov_content (packet_queue so)) \<and>
    n \<le> length (iov_content (packet_queue so))"
proof (cases "IOVector_size (packet_queue so) = 0")
  case True
  then show ?thesis using assms
    by (intro exI [of _ 0] exI [of _ "packet_queue so"] exI [of _ "has_write_error so"] exI [of _ w]) (simp add: flush_queue_def)
next
  case False
  obtain ss where ss: "iovecs (packet_queue so) = Inr ss" "concat ss = iov_content (packet_queue so)"
    using iovecs_content [OF assms] by blast
  obtain r w' where w': "adb_writev (fd so) (iov_content (packet_queue so)) w = (r, w')" by fastforce
  note b = adb_writev_bytes [OF w'] and st = adb_writev_same [OF w']
  show ?thesis
  proof (cases r)
    case (Wrote n)
    with b have n: "n \<le> IOVector_size (packet_queue so)" "n < drop_limit" "fd_out w' (fd so) = fd_out w (fd so) @ take n (iov_content (packet_queue so))"
      by (simp_all add: iov_size_content [OF assms])
    consider "n = 0" | "n > 0" "n = IOVector_size (packet_queue so)" | "n > 0" "n \<noteq> IOVector_size (packet_queue so)" by (metis neq0_conv)
    then show ?thesis
    proof cases
      case 1
      with False ss w' Wrote st n assms show ?thesis
        by (intro exI [of _ 0] exI [of _ "packet_queue so"] exI [of _ True] exI [of _ w']) (simp add: flush_queue_def)
    next
      case 2
      with False ss w' Wrote st n show ?thesis
        by (intro exI [of _ n] exI [of _ IOVector_empty] exI [of _ "has_write_error so"] exI [of _ w'])
           (simp add: flush_queue_def IOVector_clear_def iov_size_content [OF assms])
    next
      case 3
      obtain q where "IOVector_drop_front (packet_queue so) n = Inr q" "iov_wf q"
        "iov_content q = drop n (iov_content (packet_queue so))"
        using iov.drop_front_spec [OF assms n(1,2)] by blast
      with False ss w' Wrote st n 3 show ?thesis
        by (intro exI [of _ n] exI [of _ q] exI [of _ "has_write_error so"] exI [of _ w'])
           (simp add: flush_queue_def iov_size_content [OF assms])
    qed
  next
    case WriteAgain
    with False ss w' st b assms show ?thesis
      by (intro exI [of _ 0] exI [of _ "packet_queue so"] exI [of _ "has_write_error so"] exI [of _ w']) (simp add: flush_queue_def)
  next
    case WriteBroken
    with False ss w' st b assms show ?thesis
      by (intro exI [of _ 0] exI [of _ "packet_queue so"] exI [of _ True] exI [of _ w']) (simp add: flush_queue_def)
  qed
qed

lemma put_sock_put_sock [simp]: "put_sock s a (put_sock s b w) = put_sock s a w"
  by (simp add: put_sock_def)

lemma put_sock_same: "sockets w s = Some so \<Longrightarrow> put_sock s so w = w"
  by (simp add: put_sock_def fun_upd_idem)

lemma same_struct_put: "same_struct w w' \<Longrightarrow> same_struct (put_sock s so w) (put_sock s so w')"
  by (simp add: same_struct_def same_heap_def put_sock_def)

lemma send_packet_quiet:
  "send_packet p t w = Inr w' \<Longrightarrow> fd_out w' = fd_out w \<and> fd_in w' = fd_in w \<and> fd_accept w' = fd_accept w"
  by (auto simp: send_packet_def put_transport_def get_transport_def the_ptr_def bind_r_eq_Inr split: option.splits if_splits)

lemma send_ready_same:
  assumes "transports w t \<noteq> None"
  shows "\<exists>w'. send_ready a b t n w = Inr w' \<and> same_struct w w' \<and> fd_out w' = fd_out w"
proof -
  obtain d where d: "transports w t = Some d" using assms by auto
  obtain w' where "send_packet (make_packet A_OKAY a b (if delayed_ack d then le32 n else [])) (Some t) w = Inr w'" "same_struct w w'"
    using send_packet_same [OF assms] by blast
  with send_packet_quiet [OF this(1)] d show ?thesis by (simp add: send_ready_def get_transport_def)
qed

text \<open>
  The state of a socket after a flush that did not destroy it: it waits for a write event exactly
  when there is more to write, nothing is lost or reordered, and no other socket is touched.
\<close>

definition flushed :: "world \<Rightarrow> sptr \<Rightarrow> asocket \<Rightarrow> bool \<Rightarrow> world \<Rightarrow> bool" where
  "flushed w s so full w' \<longleftrightarrow>
     (\<exists>q e. sockets w' = (sockets w)(s := Some (so\<lparr>packet_queue := q, has_write_error := e, fde_write := full\<rparr>)) \<and>
        (full \<longleftrightarrow> IOVector_size q \<noteq> 0 \<and> \<not> e) \<and> (has_write_error so \<longrightarrow> e) \<and>
        fd_out w' (fd so) @ iov_content q = fd_out w (fd so) @ iov_content (packet_queue so)) \<and>
     local_socket_list w' = local_socket_list w \<and> local_socket_closing_list w' = local_socket_closing_list w \<and>
     device_tracker_list w' = device_tracker_list w \<and> tracker_info w' = tracker_info w \<and> same_heap w w'"

lemma object_ok_flush:
  assumes "object_ok (so\<lparr>fde_write := True\<rparr>)" "iov_wf q" "IOVector_size q \<noteq> 0 \<and> \<not> e \<longrightarrow> full"
  shows "object_ok (so\<lparr>packet_queue := q, has_write_error := e, fde_write := full\<rparr>)"
  using assms by (simp add: object_ok_def methods_ok_def split: enqueue_fn.splits)

lemma close_parked_quiet:
  assumes "sockets w s = Some so" "object_ok so" "closing so" "close_socket w s = Inr w'"
  shows "fd_out w' = fd_out w"
  using assms
  by (auto simp: object_ok_def close_socket.simps local_socket_close.simps local_socket_close_tail_def local_socket_destroy_def
      delete_sock_def get_sock_def remove_socket_def)

lemma flush_acknowledge:
  assumes "heap_ok (put_sock s (so\<lparr>fde_write := b\<rparr>) w)"
  shows "\<exists>w2. (case (sock_transport so, peer so) of
        (Some t, Some p) \<Rightarrow>
          bind_r (get_sock (put_sock s so w) p) (\<lambda>po.
            if available_send_bytes so \<noteq> None then send_ready (sid so) (sid po) t n (put_sock s so w)
            else if m \<noteq> 0 \<and> queued so < MAX_PAYLOAD then send_ready (sid so) (sid po) t 0 (put_sock s so w)
            else Inr (put_sock s so w))
      | _ \<Rightarrow> Inr (put_sock s so w)) = Inr w2 \<and> same_struct (put_sock s so w) w2 \<and> fd_out w2 = fd_out w"
proof (cases "sock_transport so = None \<or> peer so = None")
  case True
  then show ?thesis by (auto split: option.splits)
next
  case False
  then obtain t p where t: "sock_transport so = Some t" "peer so = Some p" by auto
  let ?v = "put_sock s (so\<lparr>fde_write := b\<rparr>) w"
  have "\<not> closing so" using heap_ok_object [OF assms, of s] t(2) by (auto simp: object_ok_def)
  then have tr: "transports (put_sock s so w) t \<noteq> None" using heap_ok_transport [OF assms, of s] t by simp
  obtain po where "sockets ?v p = Some po" "p \<noteq> s" using heap_ok_peer [OF assms, of s "so\<lparr>fde_write := b\<rparr>" p] t(2) by auto
  then have "sockets w p = Some po" "p \<noteq> s" by simp_all
  with t send_ready_same [OF tr, of "sid so" "sid po" n] send_ready_same [OF tr, of "sid so" "sid po" 0] show ?thesis by simp
qed

lemma local_socket_flush_incoming_spec:
  assumes "sockets w s = Some so" "is_local so" "heap_ok (put_sock s (so\<lparr>fde_write := True\<rparr>) w)"
  shows "\<exists>r w'. local_socket_flush_incoming s w = Inr (r, w') \<and> heap_ok w' \<and>
    (if r = Destroyed then closing so \<and> same_heap w w' \<and> sockets w' s = None \<and> (\<forall>x. x \<noteq> s \<longrightarrow> sockets w' x = sockets w x) \<and>
       (\<exists>q e. fd_out w' (fd so) @ iov_content q = fd_out w (fd so) @ iov_content (packet_queue so) \<and> (e \<or> IOVector_size q = 0))
     else flushed w s so (r = TryAgain) w')"
proof -
  let ?o = "so\<lparr>fde_write := True\<rparr>"
  have ok: "object_ok ?o" using heap_ok_object [OF assms(3), of s] by simp
  then have "iov_wf (packet_queue so)" by (simp add: object_ok_def)
  from flush_queue_spec [OF this, of w] obtain n q e w0 where
    f: "flush_queue so w = Inr (n, so\<lparr>packet_queue := q, has_write_error := e\<rparr>, w0)" "same_struct w w0" "iov_wf q"
      "has_write_error so \<longrightarrow> e" "fd_out w0 (fd so) @ iov_content q = fd_out w (fd so) @ iov_content (packet_queue so)"
    by blast
  define so1 where "so1 = so\<lparr>packet_queue := q, has_write_error := e\<rparr>"
  define full where "full \<longleftrightarrow> IOVector_size q \<noteq> 0 \<and> \<not> e"
  have so1: "sid so1 = sid so" "peer so1 = peer so" "enqueue_m so1 = enqueue_m so" "closing so1 = closing so"
    "sock_transport so1 = sock_transport so" "packet_queue so1 = q" "has_write_error so1 = e"
    by (simp_all add: so1_def)
  have v0: "heap_ok (put_sock s ?o w0)" using heap_ok_same_struct [OF assms(3) same_struct_put [OF f(2)]] .
  have ref: "transports w0 t \<noteq> None" if "\<not> closing so" "sock_transport so = Some t" for t
    using heap_ok_transport [OF v0, of s ?o t] that by simp
  have wf1: "heap_ok (put_sock s (so1\<lparr>fde_write := b\<rparr>) w0)" if "full \<longrightarrow> b" for b
    using heap_ok_put [OF v0, of s ?o "so1\<lparr>fde_write := b\<rparr>"] object_ok_flush [OF ok f(3), of e b] that ref
    by (simp add: so1_def full_def)
  obtain w2 where w2: "(case (sock_transport so1, peer so1) of
        (Some t, Some p) \<Rightarrow>
          bind_r (get_sock (put_sock s so1 w0) p) (\<lambda>po.
            if available_send_bytes so1 \<noteq> None then send_ready (sid so1) (sid po) t (of_nat n) (put_sock s so1 w0)
            else if n \<noteq> 0 \<and> IOVector_size (packet_queue so1) < MAX_PAYLOAD then send_ready (sid so1) (sid po) t 0 (put_sock s so1 w0)
            else Inr (put_sock s so1 w0))
      | _ \<Rightarrow> Inr (put_sock s so1 w0)) = Inr w2" "same_struct (put_sock s so1 w0) w2" "fd_out w2 = fd_out w0"
    using flush_acknowledge [OF wf1 [of True, simplified], of "of_nat n" n] by blast
  have s2: "sockets w2 = (sockets w)(s := Some so1)" using w2(2) f(2) by (simp add: same_struct_def)
  have g2: "get_sock w2 s = Inr so1" using s2 by simp
  have run: "local_socket_flush_incoming s w =
      (if closing so \<and> \<not> full then bind_r (close_socket w2 s) (\<lambda>w3. Inr (Destroyed, w3))
       else Inr (if full then TryAgain else Completed, put_sock s (so1\<lparr>fde_write := full\<rparr>) w2))"
    unfolding local_socket_flush_incoming_def get_sock_Inr [OF assms(1)] bind_r_simps f(1) prod.case Let_def
      so1_def [symmetric] w2(1) [unfolded prod.case]
    using full_def by (cases full) (auto simp: g2 upd_sock_def so1(4,6,7))
  have heap: "same_heap w w2" "local_socket_list w2 = local_socket_list w" "local_socket_closing_list w2 = local_socket_closing_list w"
    "device_tracker_list w2 = device_tracker_list w" "tracker_info w2 = tracker_info w"
    using w2(2) f(2) by (simp_all add: same_struct_def same_heap_def)
  show ?thesis
  proof (cases "closing so \<and> \<not> full")
    case True
    have "heap_ok w2" using heap_ok_same_struct [OF wf1 [of "fde_write so1"] , of w2] True w2(2) by simp
    then obtain w3 where w3: "close_socket w2 s = Inr w3" "closes w2 (closed_set s so1) w3" "heap_ok w3"
      using close_socket_closes [of w2 s so1] s2 by auto
    have "object_ok so1" using heap_ok_object [OF \<open>heap_ok w2\<close>, of s so1] s2 by simp
    then have "fd_out w3 = fd_out w2" using close_parked_quiet [of w2 s so1 w3] s2 True w3(1) so1 by simp
    moreover have "peer so = None" using ok True by (simp add: object_ok_def)
    moreover have "same_heap w w3" using same_heap_trans [OF heap(1) closes_same_heap [OF w3(2)]] .
    ultimately show ?thesis using run True w3 w2(3) f(5) s2 so1 full_def
      by (auto simp: closes_def parks_def)
  next
    case False
    have "heap_ok (put_sock s (so1\<lparr>fde_write := full\<rparr>) w2)"
      using heap_ok_same_struct [OF wf1 [of full] ] same_struct_put [OF w2(2), of s "so1\<lparr>fde_write := full\<rparr>"] by simp
    moreover have "flushed w s so full (put_sock s (so1\<lparr>fde_write := full\<rparr>) w2)"
      unfolding flushed_def using s2 heap f(4,5) w2(3)
      by (auto simp: so1_def full_def put_sock_def same_heap_def)
    ultimately show ?thesis using run False by auto
  qed
qed

section \<open>Operations that keep the structure of the heap\<close>

text \<open>The part of a socket that flushing, queueing and waiting for events leave alone.\<close>

definition core :: "asocket \<Rightarrow> asocket" where
  "core so = so\<lparr>packet_queue := IOVector_empty, has_write_error := False, fde_write := False, fde_read := False,
     available_send_bytes := None\<rparr>"

definition mild :: "world \<Rightarrow> world \<Rightarrow> bool" where
  "mild w w' \<longleftrightarrow>
     same_heap w w' \<and> (\<forall>x. map_option core (sockets w' x) = map_option core (sockets w x)) \<and>
     local_socket_list w' = local_socket_list w \<and> local_socket_closing_list w' = local_socket_closing_list w \<and>
     device_tracker_list w' = device_tracker_list w \<and> tracker_info w' = tracker_info w"

lemma mild_refl [simp]: "mild w w"
  by (simp add: mild_def)

lemma mild_trans: "mild a b \<Longrightarrow> mild b c \<Longrightarrow> mild a c"
  by (simp add: mild_def same_heap_def)

lemma same_struct_mild: "same_struct w w' \<Longrightarrow> mild w w'"
  by (simp add: same_struct_def mild_def)

lemma core_eqD:
  assumes "core a = core b"
  shows "sid a = sid b" "peer a = peer b" "enqueue_m a = enqueue_m b" "closing a = closing b" "sock_transport a = sock_transport b"
    "ready_m a = ready_m b" "close_m a = close_m b" "shutdown_m a = shutdown_m b" "fd a = fd b"
  using assms by (cases a; cases b; simp add: core_def)+

lemma mildD:
  assumes "mild w w'" "sockets w x = Some xo"
  obtains yo where "sockets w' x = Some yo" "core yo = core xo"
  using assms unfolding mild_def by (metis map_option_eq_Some option.simps(9))

lemma mild_back:
  assumes "mild w w'" "sockets w' x = Some yo"
  obtains xo where "sockets w x = Some xo" "core yo = core xo"
  using assms unfolding mild_def by (metis map_option_eq_Some option.simps(9))

lemma flushed_mild:
  assumes "flushed w s so b w'" "sockets w s = Some so0" "core so0 = core so"
  shows "mild w w'"
proof -
  have "core (so\<lparr>packet_queue := q, has_write_error := e, fde_write := b\<rparr>) = core so" for q e by (simp add: core_def)
  with assms show ?thesis unfolding flushed_def mild_def by fastforce
qed

lemma heap_ok_upd:
  assumes "heap_ok w" "sockets w s = Some so" "core so' = core so" "object_ok so'"
  shows "heap_ok (put_sock s so' w)" "mild w (put_sock s so' w)"
  using heap_ok_put [OF assms(1,2,4)] core_eqD [OF assms(3)] heap_ok_transport [OF assms(1,2)] assms(2,3)
  by (simp_all add: mild_def)

lemma object_ok_append:
  "object_ok so \<Longrightarrow> object_ok (so\<lparr>packet_queue := IOVector_append (packet_queue so) (Block_of data), fde_write := True\<rparr>)"
  by (simp add: object_ok_def methods_ok_def IOVector_append_correct split: enqueue_fn.splits)

lemma local_socket_enqueue_spec:
  assumes "heap_ok w" "sockets w s = Some so" "is_local so" "\<not> closing so"
  shows "\<exists>b w'. local_socket_enqueue s data w = Inr (if b then 1 else 0, w') \<and> heap_ok w' \<and> mild w w' \<and>
    flushed w s (so\<lparr>packet_queue := IOVector_append (packet_queue so) (Block_of data)\<rparr>) b w'"
proof -
  let ?so = "so\<lparr>packet_queue := IOVector_append (packet_queue so) (Block_of data)\<rparr>"
  let ?w = "put_sock s ?so w"
  have "heap_ok (put_sock s (?so\<lparr>fde_write := True\<rparr>) w)"
    by (rule heap_ok_upd(1) [OF assms(1,2)]) (simp_all add: core_def object_ok_append [OF heap_ok_object [OF assms(1,2)]])
  then have pre: "heap_ok (put_sock s (?so\<lparr>fde_write := True\<rparr>) ?w)" "sockets ?w s = Some ?so" "is_local ?so"
    using assms(3) by simp_all
  obtain r w' where r0: "local_socket_flush_incoming s ?w = Inr (r, w')" "heap_ok w'"
    "(r = Destroyed \<longrightarrow> closing ?so) \<and> (r \<noteq> Destroyed \<longrightarrow> flushed ?w s ?so (r = TryAgain) w')"
    using local_socket_flush_incoming_spec [OF pre(2,3,1)] by (metis (full_types))
  then have r: "local_socket_flush_incoming s ?w = Inr (r, w')" "heap_ok w'" "r \<noteq> Destroyed"
    "flushed ?w s ?so (r = TryAgain) w'" using assms(4) by auto
  then have f: "flushed w s ?so (r = TryAgain) w'" by (simp add: flushed_def put_sock_def same_heap_def)
  have "local_socket_enqueue s data w = Inr (if r = TryAgain then 1 else 0, w')"
    using r(1,3) assms(2) by (cases r) (simp_all add: local_socket_enqueue_def upd_sock_def)
  moreover have "mild w w'" by (rule flushed_mild [OF f assms(2)]) (simp add: core_def)
  ultimately show ?thesis using r(2) f by blast
qed

lemma object_ok_read: "object_ok so \<Longrightarrow> \<not> closing so \<or> \<not> b \<Longrightarrow> object_ok (so\<lparr>fde_read := b\<rparr>)"
  "object_ok so \<Longrightarrow> object_ok (so\<lparr>available_send_bytes := a\<rparr>)"
  by (simp_all add: object_ok_def methods_ok_def split: enqueue_fn.splits)

lemma local_socket_ready_spec:
  assumes "heap_ok w" "sockets w s = Some so" "\<not> closing so"
  shows "\<exists>w'. local_socket_ready s w = Inr w' \<and> heap_ok w' \<and> mild w w' \<and> fd_out w' = fd_out w"
proof -
  let ?so = "so\<lparr>fde_read := True\<rparr>"
  have "core ?so = core so" "object_ok ?so" using object_ok_read(1) [OF heap_ok_object [OF assms(1,2)]] assms(3) by (simp_all add: core_def)
  with heap_ok_upd [OF assms(1,2), of ?so] assms(2) show ?thesis by (simp add: local_socket_ready_def upd_sock_def)
qed

section \<open>Device trackers\<close>

lemma device_tracker_send_spec:
  assumes "heap_ok w" "s \<in> set (device_tracker_list w)"
  shows "\<exists>w'. device_tracker_send s str w = Inr w' \<and> heap_ok w' \<and> mild w w'"
proof -
  obtain so where so: "sockets w s = Some so" "enqueue_m so = Tracker_enqueue"
    using assms by (auto simp: heap_ok_def lists_ok_def)
  then obtain p po where p: "peer so = Some p" "sockets w p = Some po" "is_local po"
    using heap_ok_attached [OF assms(1) so(1)] by auto
  have "\<not> closing po" using heap_ok_peer_open [OF assms(1) so(1) p(1,2)] by simp
  then obtain b w' where "local_socket_enqueue p (take 4 (pad0 4 (to_base 16 (length str))) @ str) w = Inr (if b then 1 else 0, w')"
    "heap_ok w'" "mild w w'"
    using local_socket_enqueue_spec [OF assms(1) p(2,3)] by blast
  with so p show ?thesis by (simp add: device_tracker_send_def enqueue_basic_def)
qed

lemma deref_transports_total: "\<forall>t \<in> set ts. transports w t \<noteq> None \<Longrightarrow> \<exists>r. deref_transports w ts = Inr r"
  by (induction ts) (auto simp: get_transport_def)

lemma world_list_transports_total: "heap_ok w \<Longrightarrow> \<exists>str. world_list_transports env ot w = Inr str"
  using deref_transports_total [of "transport_list w" w]
  by (auto simp: heap_ok_def refs_ok_def world_list_transports_def)

lemma notify_trackers_spec:
  "heap_ok w \<Longrightarrow> set ss \<subseteq> set (device_tracker_list w) \<Longrightarrow>
     \<exists>w'. notify_trackers env ss w = Inr w' \<and> heap_ok w' \<and> mild w w'"
proof (induction ss arbitrary: w)
  case Nil
  then show ?case by simp
next
  case (Cons s ss)
  then have "tracker_info w s \<noteq> None" by (simp add: heap_ok_def lists_ok_def)
  then obtain tr where tr: "tracker_info w s = Some tr" by blast
  obtain str where str: "world_list_transports env (output_type tr) w = Inr str"
    using world_list_transports_total [OF Cons.prems(1)] by blast
  obtain w1 where w1: "device_tracker_send s str w = Inr w1" "heap_ok w1" "mild w w1"
    using device_tracker_send_spec [OF Cons.prems(1), of s] Cons.prems(2) by auto
  have "set ss \<subseteq> set (device_tracker_list w1)" using Cons.prems(2) w1(3) by (simp add: mild_def)
  from Cons.IH [OF w1(2) this] tr str w1 mild_trans [OF w1(3)] show ?case by fastforce
qed

lemma update_transports_spec: "heap_ok w \<Longrightarrow> \<exists>w'. update_transports env w = Inr w' \<and> heap_ok w' \<and> mild w w'"
  using notify_trackers_spec [of w "device_tracker_list w"] by (simp add: update_transports_def)

lemma SetConnectionState_spec:
  assumes "heap_ok w" "transports w t \<noteq> None"
  shows "\<exists>w'. SetConnectionState env t st w = Inr w' \<and> heap_ok w' \<and> mild w w'"
proof -
  obtain a where a: "transports w t = Some a" using assms by auto
  let ?w = "put_transport t (a\<lparr>connection_state := st\<rparr>) w"
  have s: "same_struct w ?w" using put_transport_same [OF assms(2)] .
  obtain w' where "update_transports env ?w = Inr w'" "heap_ok w'" "mild ?w w'"
    using update_transports_spec [OF heap_ok_same_struct [OF assms(1) s]] by blast
  with a mild_trans [OF same_struct_mild [OF s]] show ?thesis by (auto simp: SetConnectionState_def get_transport_def)
qed

end
