(* ===== verification/Socket_Links.thy ===== *)
theory Socket_Links
  imports Socket_Flow
begin

text \<open>
  Looking sockets up, creating them, connecting them to each other and to a remote service, and
  acknowledgements: what each does to the socket heap.
\<close>

section \<open>Looking up\<close>

definition answers :: "world \<Rightarrow> u32 \<Rightarrow> u32 \<Rightarrow> sptr \<Rightarrow> bool" where
  "answers w local_id peer_id s =
     (case sockets w s of
        None \<Rightarrow> False
      | Some so \<Rightarrow> is_local so \<and> \<not> closing so \<and> sid so = local_id \<and>
          (peer_id = 0 \<or> (case peer so of None \<Rightarrow> False | Some p \<Rightarrow> map_option sid (sockets w p) = Some peer_id)))"

lemma find_in_list_spec:
  assumes "heap_ok w"
  shows "set ss \<subseteq> set (local_socket_list w) \<Longrightarrow>
    \<exists>r. find_in_list w ss i j = Inr r \<and> (\<forall>s. r = Some s \<longleftrightarrow> s \<in> set ss \<and> answers w i j s)"
proof (induction ss)
  case Nil
  then show ?case by simp
next
  case (Cons s ss)
  then obtain so where so: "sockets w s = Some so" "is_local so" "\<not> closing so"
    using assms by (auto simp: heap_ok_def lists_ok_def)
  have mem: "\<exists>xo. sockets w x = Some xo \<and> is_local xo" if "x \<in> set ss" for x
    using assms Cons.prems that by (auto simp: heap_ok_def lists_ok_def)
  have uniq: "x = s" if a: "answers w i j x" "sid so = i" for x
  proof -
    obtain xo where "sockets w x = Some xo" "is_local xo" "sid xo = i"
      using a(1) unfolding answers_def by (cases "sockets w x") auto
    with so a(2) assms show ?thesis unfolding heap_ok_def ids_ok_def by metis
  qed
  show ?case
  proof (cases "sid so = i")
    case False
    have "\<not> answers w i j s" using so False by (simp add: answers_def)
    with False Cons so show ?thesis by auto
  next
    case True
    show ?thesis
    proof (cases "j = 0")
      case True
      with \<open>sid so = i\<close> so uniq show ?thesis by (auto simp: answers_def)
    next
      case False
      show ?thesis
      proof (cases "peer so")
        case None
        then have "\<not> answers w i j s" using so False by (simp add: answers_def)
        with uniq True False None so show ?thesis by auto
      next
        case (Some p)
        obtain po where po: "sockets w p = Some po" using heap_ok_peer [OF assms so(1) Some] by blast
        then have "answers w i j s \<longleftrightarrow> sid po = j" using so Some True False by (simp add: answers_def)
        with uniq True False Some po so show ?thesis by auto
      qed
    qed
  qed
qed

lemma find_local_socket_spec:
  assumes "heap_ok w"
  shows "\<exists>r. find_local_socket i j w = Inr r \<and> (\<forall>s. r = Some s \<longleftrightarrow> answers w i j s)"
proof -
  have mem: "s \<in> set (local_socket_list w)" if a: "answers w i j s" for s
  proof -
    obtain so where "sockets w s = Some so" "is_local so" "\<not> closing so"
      using a unfolding answers_def by (cases "sockets w s") auto
    with assms show ?thesis by (auto simp: heap_ok_def lists_ok_def)
  qed
  obtain r where "find_in_list w (local_socket_list w) i j = Inr r"
    "\<forall>s. r = Some s \<longleftrightarrow> s \<in> set (local_socket_list w) \<and> answers w i j s"
    using find_in_list_spec [OF assms order_refl] by blast
  with mem show ?thesis unfolding find_local_socket_def by blast
qed

section \<open>Creating\<close>

definition local_object :: "int \<Rightarrow> u32 \<Rightarrow> asocket" where
  "local_object f i = (new_asocket Local_enqueue Local_ready None Local_close)\<lparr>fd := f, sid := i\<rparr>"

definition with_local :: "asocket \<Rightarrow> world \<Rightarrow> world" where
  "with_local so w =
     w\<lparr>sockets := (sockets w)(next_sptr w := Some so), next_sptr := Suc (next_sptr w),
       local_socket_next_id := local_socket_next_id w + 1, local_socket_list := local_socket_list w @ [next_sptr w]\<rparr>"

lemma create_local_socket_eq:
  "create_local_socket f w =
     (if local_socket_next_id w + 1 = 0 then Inl (FatalLog ''local socket id overflow'')
      else Inr (next_sptr w, with_local (local_object f (local_socket_next_id w)) w))"
  by (simp add: create_local_socket_def new_sock_def install_local_socket_def upd_sock_def get_sock_def put_sock_def
      with_local_def local_object_def new_asocket_def Let_def)

lemma object_ok_local: "object_ok ((local_object f i)\<lparr>sock_transport := t\<rparr>)"
  by (simp add: local_object_def object_ok_def methods_ok_def new_asocket_def)

lemma fresh_sptr: "heap_ok w \<Longrightarrow> sockets w (next_sptr w) = None"
  unfolding heap_ok_def refs_ok_def by (metis less_irrefl not_None_eq)

lemma word_less_Suc: "(i :: u32) + 1 \<noteq> 0 \<Longrightarrow> x < i + 1 \<longleftrightarrow> x < i \<or> x = i"
  by uint_arith

lemma heap_ok_with_local:
  assumes "heap_ok w" "local_socket_next_id w + 1 \<noteq> 0" "object_ok so" "is_local so" "\<not> closing so" "peer so = None"
    "sid so = local_socket_next_id w" "\<And>t. sock_transport so = Some t \<Longrightarrow> transports w t \<noteq> None"
  shows "heap_ok (with_local so w)"
proof -
  let ?w = "with_local so w" and ?n = "next_sptr w"
  note fresh = fresh_sptr [OF assms(1)]
  have sk: "sockets ?w = (sockets w)(?n := Some so)" by (simp add: with_local_def)
  have "peers_ok ?w"
    using assms(1,6) fresh unfolding heap_ok_def peers_ok_def sk by (metis (no_types, lifting) fun_upd_apply option.distinct(1) option.inject)
  moreover have "lists_ok ?w"
    using assms(1,4,5) fresh unfolding heap_ok_def lists_ok_def by (auto simp: with_local_def)
  moreover have "ids_ok ?w"
  proof -
    have new: "sid xo \<noteq> local_socket_next_id w" if "sockets w x = Some xo" "is_local xo" for x xo
      using assms(1) that unfolding heap_ok_def ids_ok_def by (metis less_irrefl)
    show ?thesis
      using assms(1,2,7) new new [OF _ _, symmetric] unfolding heap_ok_def ids_ok_def
      by (auto simp: with_local_def word_less_Suc split: if_splits)
  qed
  moreover have "refs_ok ?w"
    using assms(1,8) unfolding heap_ok_def refs_ok_def by (auto simp: with_local_def less_Suc_eq split: if_splits)
  moreover have "attached_ok ?w"
    using assms(1,4) fresh unfolding heap_ok_def attached_ok_def sk by (metis (no_types, lifting) fun_upd_apply option.distinct(1) option.inject)
  ultimately show ?thesis using assms(1,3) sk by (auto simp: heap_ok_def split: if_splits)
qed

section \<open>Connecting two sockets\<close>

text \<open>A new socket that is not local becomes the peer of a local socket that has none.\<close>

definition with_peer :: "sptr \<Rightarrow> asocket \<Rightarrow> asocket \<Rightarrow> world \<Rightarrow> world" where
  "with_peer s so bo w =
     w\<lparr>sockets := (sockets w)(next_sptr w := Some (bo\<lparr>peer := Some s\<rparr>), s := Some (so\<lparr>peer := Some (next_sptr w)\<rparr>)),
       next_sptr := Suc (next_sptr w)\<rparr>"

lemma with_peer_links:
  assumes "heap_ok w" "sockets w s = Some so" "is_local so" "\<not> closing so" "peer so = None"
    "object_ok bo" "\<not> is_local bo" "\<And>t. sock_transport bo = Some t \<Longrightarrow> transports w t \<noteq> None"
  shows "(\<forall>x xo. sockets (with_peer s so bo w) x = Some xo \<longrightarrow> object_ok xo) \<and> peers_ok (with_peer s so bo w) \<and>
    ids_ok (with_peer s so bo w) \<and> refs_ok (with_peer s so bo w) \<and> attached_ok (with_peer s so bo w)"
proof -
  let ?w = "with_peer s so bo w" and ?n = "next_sptr w"
  let ?b = "bo\<lparr>peer := Some s\<rparr>" and ?s = "so\<lparr>peer := Some ?n\<rparr>"
  note fresh = fresh_sptr [OF assms(1)]
  have n: "?n \<noteq> s" using fresh assms(2) by auto
  have nc: "\<not> closing bo" using assms(6,7) by (auto simp: object_ok_def)
  have sk: "sockets ?w = (sockets w)(?n := Some ?b, s := Some ?s)" by (simp add: with_peer_def)
  have ok: "object_ok ?b" "object_ok ?s"
    using assms(6) nc heap_ok_object [OF assms(1,2)] assms(4)
    by (simp_all add: object_ok_def methods_ok_def split: enqueue_fn.splits)
  have "peers_ok ?w" unfolding peers_ok_def
  proof (intro allI impI)
    fix x xo p
    assume a: "sockets ?w x = Some xo \<and> peer xo = Some p"
    show "p \<noteq> x \<and> (\<exists>po. sockets ?w p = Some po \<and> peer po = Some x)"
    proof (cases "x = s \<or> x = ?n")
      case True
      with a n show ?thesis by (auto simp: sk)
    next
      case False
      with a have x: "sockets w x = Some xo" "peer xo = Some p" by (simp_all add: sk)
      obtain po where po: "sockets w p = Some po" "peer po = Some x" "p \<noteq> x" using heap_ok_peer [OF assms(1) x] .
      moreover have "p \<noteq> s" using po assms(2,5) by auto
      moreover have "p \<noteq> ?n" using po fresh by auto
      ultimately show ?thesis by (simp add: sk)
    qed
  qed
  moreover have "ids_ok ?w"
    using assms(1,2,3,7) unfolding heap_ok_def ids_ok_def with_peer_def by (auto split: if_splits)
  moreover have "refs_ok ?w"
    using assms(1,2,8) unfolding heap_ok_def refs_ok_def by (auto simp: with_peer_def less_Suc_eq split: if_splits)
  moreover have "attached_ok ?w" unfolding attached_ok_def
  proof (intro allI impI)
    fix x xo
    assume a: "sockets ?w x = Some xo \<and> \<not> is_local xo"
    show "\<exists>p po. peer xo = Some p \<and> sockets ?w p = Some po \<and> is_local po"
    proof (cases "x = s \<or> x = ?n")
      case True
      with a n assms(3) have "xo = ?b" by (auto simp: sk split: if_splits)
      with n assms(3) show ?thesis by (intro exI [of _ s] exI [of _ ?s]) (simp add: sk)
    next
      case False
      with a have "sockets w x = Some xo" "\<not> is_local xo" by (simp_all add: sk)
      from heap_ok_attached [OF assms(1) this] obtain p po where p: "peer xo = Some p" "sockets w p = Some po" "is_local po" .
      moreover have "p \<noteq> ?n" using p fresh by auto
      ultimately show ?thesis using assms(3) by (cases "p = s") (auto simp: sk)
    qed
  qed
  ultimately show ?thesis using assms(1) ok sk by (auto simp: heap_ok_def split: if_splits)
qed

lemma heap_ok_with_peer:
  assumes "heap_ok w" "sockets w s = Some so" "is_local so" "\<not> closing so" "peer so = None"
    "object_ok bo" "\<not> is_local bo" "enqueue_m bo \<noteq> Tracker_enqueue"
    "\<And>t. sock_transport bo = Some t \<Longrightarrow> transports w t \<noteq> None"
  shows "heap_ok (with_peer s so bo w)"
proof -
  have f: "sockets w (next_sptr w) = None" using fresh_sptr [OF assms(1)] .
  then have "next_sptr w \<noteq> s" using assms(2) by auto
  moreover have "\<not> closing bo" using assms(6,7) by (auto simp: object_ok_def)
  ultimately have "lists_ok (with_peer s so bo w)"
    using assms(1-4,7,8) f unfolding heap_ok_def lists_ok_def by (auto simp: with_peer_def)
  with with_peer_links [OF assms(1-7,9)] show ?thesis by (simp add: heap_ok_def)
qed

text \<open>The same for a device tracker, which also enters the list of trackers.\<close>

definition with_tracker :: "sptr \<Rightarrow> asocket \<Rightarrow> asocket \<Rightarrow> device_tracker \<Rightarrow> world \<Rightarrow> world" where
  "with_tracker s so bo tr w = (with_peer s so bo w)\<lparr>device_tracker_list := next_sptr w # device_tracker_list w,
     tracker_info := (tracker_info w)(next_sptr w := Some tr)\<rparr>"

lemma heap_ok_with_tracker:
  assumes "heap_ok w" "sockets w s = Some so" "is_local so" "\<not> closing so" "peer so = None"
    "object_ok bo" "enqueue_m bo = Tracker_enqueue" "sock_transport bo = None"
  shows "heap_ok (with_tracker s so bo tr w)"
proof -
  let ?v = "with_peer s so bo w" and ?w = "with_tracker s so bo tr w" and ?n = "next_sptr w"
  have f: "sockets w ?n = None" using fresh_sptr [OF assms(1)] .
  have n: "?n \<noteq> s" using f assms(2) by auto
  have c: "\<not> closing bo" using assms(6,7) by (auto simp: object_ok_def)
  have "?n \<notin> set (device_tracker_list w)" using f assms(1) unfolding heap_ok_def lists_ok_def by auto
  then have "lists_ok ?w"
    using assms(1-4,7) f n c unfolding heap_ok_def lists_ok_def by (auto simp: with_peer_def with_tracker_def)
  moreover have "peers_ok ?w = peers_ok ?v" "ids_ok ?w = ids_ok ?v" "refs_ok ?w = refs_ok ?v" "attached_ok ?w = attached_ok ?v"
    "sockets ?w = sockets ?v"
    by (simp_all add: with_tracker_def peers_ok_def ids_ok_def refs_ok_def attached_ok_def)
  ultimately show ?thesis using with_peer_links [OF assms(1-6)] assms(7,8) by (simp add: heap_ok_def)
qed

text \<open>Two local sockets without peers are connected.\<close>

lemma heap_ok_link:
  assumes "heap_ok w" "sockets w s = Some so" "sockets w q = Some qo" "s \<noteq> q" "is_local so" "is_local qo" "\<not> closing so" "\<not> closing qo"
    "peer so = None" "peer qo = None"
  shows "heap_ok (put_sock q (qo\<lparr>peer := Some s\<rparr>) (put_sock s (so\<lparr>peer := Some q\<rparr>) w))" (is "heap_ok ?w")
proof -
  have sk: "sockets ?w = (sockets w)(s := Some (so\<lparr>peer := Some q\<rparr>), q := Some (qo\<lparr>peer := Some s\<rparr>))" by simp
  have ok: "object_ok (so\<lparr>peer := Some q\<rparr>)" "object_ok (qo\<lparr>peer := Some s\<rparr>)"
    using heap_ok_object [OF assms(1,2)] heap_ok_object [OF assms(1,3)] assms(7,8) by (simp_all add: object_ok_def methods_ok_def split: enqueue_fn.splits)
  have "peers_ok ?w" unfolding peers_ok_def
  proof (intro allI impI)
    fix x xo p
    assume a: "sockets ?w x = Some xo \<and> peer xo = Some p"
    show "p \<noteq> x \<and> (\<exists>po. sockets ?w p = Some po \<and> peer po = Some x)"
    proof (cases "x = s \<or> x = q")
      case True
      with a assms(4) show ?thesis unfolding sk by (auto split: if_splits)
    next
      case False
      with a have x: "sockets w x = Some xo" "peer xo = Some p" by (simp_all add: sk)
      obtain po where po: "sockets w p = Some po" "peer po = Some x" "p \<noteq> x" using heap_ok_peer [OF assms(1) x] .
      then have "p \<noteq> s" "p \<noteq> q" using assms(2,3,9,10) by auto
      with po show ?thesis by (simp add: sk)
    qed
  qed
  moreover have "lists_ok ?w" using assms(1-3,5-8) unfolding heap_ok_def lists_ok_def by auto
  moreover have "ids_ok ?w" using assms(1-6) unfolding heap_ok_def ids_ok_def by (auto split: if_splits)
  moreover have "refs_ok ?w" using assms(1-3) unfolding heap_ok_def refs_ok_def by (auto split: if_splits)
  moreover have "attached_ok ?w" unfolding attached_ok_def
  proof (intro allI impI)
    fix x xo
    assume a: "sockets ?w x = Some xo \<and> \<not> is_local xo"
    then have "sockets w x = Some xo" "\<not> is_local xo" using assms(5,6) by (auto simp: sk split: if_splits)
    from heap_ok_attached [OF assms(1) this] obtain p po where "peer xo = Some p" "sockets w p = Some po" "is_local po" .
    with assms(5,6) show "\<exists>p po. peer xo = Some p \<and> sockets ?w p = Some po \<and> is_local po" by (auto simp: sk)
  qed
  ultimately show ?thesis using assms(1) ok sk by (auto simp: heap_ok_def split: if_splits)
qed

text \<open>A local socket loses its peer, which is deleted.\<close>

definition without_peer :: "sptr \<Rightarrow> sptr \<Rightarrow> asocket \<Rightarrow> world \<Rightarrow> world" where
  "without_peer s p po w = w\<lparr>sockets := (sockets w)(s := None, p := Some po)\<rparr>"

lemma heap_ok_without_peer:
  assumes "heap_ok w" "sockets w s = Some so" "\<not> is_local so" "enqueue_m so \<noteq> Tracker_enqueue" "peer so = Some p" "sockets w p = Some po0"
    "object_ok po" "is_local po" "\<not> closing po" "peer po = None" "sid po = sid po0"
    "\<And>t. sock_transport po = Some t \<Longrightarrow> transports w t \<noteq> None"
  shows "heap_ok (without_peer s p po w)" (is "heap_ok ?w")
proof -
  have sk: "sockets ?w = (sockets w)(s := None, p := Some po)" by (simp add: without_peer_def)
  obtain q qo where "peer so = Some q" "sockets w q = Some qo" "is_local qo" using heap_ok_attached [OF assms(1-3)] .
  then have loc: "is_local po0" using assms(5,6) by simp
  obtain po' where "sockets w p = Some po'" "peer po' = Some s" "p \<noteq> s" using heap_ok_peer [OF assms(1,2,5)] .
  then have pp: "peer po0 = Some s" "p \<noteq> s" using assms(6) by auto
  have nc: "\<not> closing po0" using heap_ok_object [OF assms(1,6)] pp by (auto simp: object_ok_def)
  have "peers_ok ?w" unfolding peers_ok_def
  proof (intro allI impI)
    fix x xo q
    assume a: "sockets ?w x = Some xo \<and> peer xo = Some q"
    then have x: "sockets w x = Some xo" "peer xo = Some q" "x \<noteq> p" "x \<noteq> s" using assms(10) by (auto simp: sk split: if_splits)
    obtain qo where qo: "sockets w q = Some qo" "peer qo = Some x" "q \<noteq> x" using heap_ok_peer [OF assms(1) x(1,2)] .
    then have "q \<noteq> s" "q \<noteq> p" using assms(2,5,6) pp x by auto
    with qo show "q \<noteq> x \<and> (\<exists>qo. sockets ?w q = Some qo \<and> peer qo = Some x)" by (simp add: sk)
  qed
  moreover have "lists_ok ?w"
    using assms(1-4,6,8,9) loc nc pp(2) unfolding heap_ok_def lists_ok_def by (auto simp: without_peer_def)
  moreover have "ids_ok ?w"
    using assms(1,6,8,11) loc unfolding heap_ok_def ids_ok_def by (auto simp: without_peer_def split: if_splits)
  moreover have "refs_ok ?w"
    using assms(1,6,12) unfolding heap_ok_def refs_ok_def by (auto simp: without_peer_def split: if_splits)
  moreover have "attached_ok ?w" unfolding attached_ok_def
  proof (intro allI impI)
    fix x xo
    assume a: "sockets ?w x = Some xo \<and> \<not> is_local xo"
    then have x: "sockets w x = Some xo" "\<not> is_local xo" "x \<noteq> s" using assms(8) by (auto simp: sk split: if_splits)
    obtain q qo where q: "peer xo = Some q" "sockets w q = Some qo" "is_local qo" using heap_ok_attached [OF assms(1) x(1,2)] .
    then have "q \<noteq> s" using assms(2,3) by auto
    with q assms(8) show "\<exists>q qo. peer xo = Some q \<and> sockets ?w q = Some qo \<and> is_local qo" by (auto simp: sk)
  qed
  ultimately show ?thesis using assms(1,7) sk by (auto simp: heap_ok_def split: if_splits)
qed

section \<open>Becoming ready and acknowledgements\<close>

text \<open>What the environment may assume of a socket after an operation on it.\<close>

definition still_there :: "asocket \<Rightarrow> sptr \<Rightarrow> world \<Rightarrow> bool" where
  "still_there so s w \<longleftrightarrow>
     (\<exists>so'. sockets w s = Some so' \<and> is_local so' \<and> sid so' = sid so \<and> peer so' = peer so \<and> closing so' = closing so \<and>
        sock_transport so' = sock_transport so \<and> fd so' = fd so)"

lemma call_ready_local:
  assumes "heap_ok w" "sockets w s = Some so" "is_local so" "\<not> closing so"
  shows "\<exists>w'. call_ready env s w = Inr w' \<and> heap_ok w' \<and> same_heap w w' \<and> still_there so s w'"
proof (cases "ready_m so = Local_ready")
  case True
  obtain w' where w': "local_socket_ready s w = Inr w'" "heap_ok w'" "mild w w'"
    using local_socket_ready_spec [OF assms(1,2,4)] by blast
  obtain so' where "sockets w' s = Some so'" "core so' = core so" using mildD [OF w'(3) assms(2)] .
  with core_eqD [OF this(2)] True assms(2,3) w' show ?thesis
    by (simp add: call_ready_def still_there_def mild_def)
next
  case False
  then have r: "ready_m so = Local_ready_notify"
    using heap_ok_object [OF assms(1,2)] assms(3) by (auto simp: object_ok_def methods_ok_def)
  let ?w1 = "put_sock s (regular so) w" and ?w2 = "world_SendOkay (fd so) (put_sock s (regular so) w)"
  have "heap_ok ?w1"
    using heap_ok_put [OF assms(1,2) object_ok_regular [OF heap_ok_object [OF assms(1,2)] assms(3)]]
      heap_ok_transport [OF assms(1,2)] by simp
  then have w2: "heap_ok ?w2" "sockets ?w2 s = Some (regular so)"
    using heap_ok_same_struct [OF _ world_Send_same(1)] world_Send_same(1) [of ?w1 "fd so"] by (simp_all add: same_struct_def)
  obtain w' where w': "local_socket_ready s ?w2 = Inr w'" "heap_ok w'" "mild ?w2 w'"
    using local_socket_ready_spec [OF w2] assms(4) by auto
  obtain so' where "sockets w' s = Some so'" "core so' = core (regular so)" using mildD [OF w'(3) w2(2)] .
  with core_eqD [OF this(2)] have "still_there so s w'" using assms(3) by (simp add: still_there_def)
  moreover have "same_heap w w'"
    using w'(3) world_Send_same(1) [of ?w1 "fd so"] by (simp add: mild_def same_struct_def same_heap_def)
  moreover have "call_ready env s w = Inr w'"
    using assms(2) r w'(1) by (simp add: call_ready_def local_socket_ready_notify_def regular_def)
  ultimately show ?thesis using w'(2) by blast
qed

lemma local_socket_ack_spec:
  assumes "heap_ok w" "sockets w s = Some so" "is_local so" "\<not> closing so"
  shows "\<exists>w'. local_socket_ack env s a w = Inr w' \<and> heap_ok w' \<and> same_heap w w' \<and> still_there so s w'"
proof -
  have here: "still_there so s w" using assms(2,3) by (simp add: still_there_def)
  consider (both) x y where "available_send_bytes so = Some x" "a = Some y" | (neither) "available_send_bytes so = None" "a = None"
    | (mixed) "(available_send_bytes so = None) \<noteq> (a = None)" by (cases "available_send_bytes so"; cases a) auto
  then show ?thesis
  proof cases
    case both
    let ?n = "min (x + y) (int (delayed_ack_window w))"
    let ?so = "so\<lparr>available_send_bytes := Some ?n\<rparr>" let ?w = "put_sock s ?so w"
    have w1: "heap_ok ?w" "sockets ?w s = Some ?so"
      using heap_ok_upd(1) [OF assms(1,2), of ?so] object_ok_read(2) [OF heap_ok_object [OF assms(1,2)]] by (simp_all add: core_def)
    then obtain w' where "call_ready env s ?w = Inr w'" "heap_ok w'" "same_heap ?w w'" "still_there ?so s w'"
      using call_ready_local [OF w1] assms(3,4) by auto
    with w1(1) both assms(2,3) show ?thesis
      by (simp add: local_socket_ack_def Let_def still_there_def same_heap_def)
  next
    case neither
    with call_ready_local [OF assms] assms(2) show ?thesis by (simp add: local_socket_ack_def)
  next
    case mixed
    with assms here show ?thesis
      by (cases "available_send_bytes so"; cases a) (simp_all add: local_socket_ack_def)
  qed
qed

end
