(* ===== verification/Listeners.thy ===== *)
theory Listeners
  imports Socket_Links
begin

text \<open>
  \<open>adb/adb_listeners.cpp\<close> and the forwarding requests of \<open>adb.cpp\<close>: the list of listeners, how they
  are bound to transports through the disconnect callbacks, and what a connection to one starts.
  Binding a socket is the operating system's: \<open>socket_spec_listen\<close> is an argument that gives an
  error text, or the descriptor and the resolved port (0 when none was asked for).
\<close>

section \<open>The list\<close>

definition kSmartSocketConnectTo :: string where
  "kSmartSocketConnectTo = ''*smartsocket*''"

definition isSmartSocket :: "alistener \<Rightarrow> bool" where
  "isSmartSocket l = (connect_to l = kSmartSocketConnectTo)"

datatype install_status = INSTALL_STATUS_OK | INSTALL_STATUS_INTERNAL_ERROR | INSTALL_STATUS_CANNOT_BIND
  | INSTALL_STATUS_CANNOT_REBIND | INSTALL_STATUS_LISTENER_NOT_FOUND

type_synonym listen_fn = "string \<Rightarrow> string + (int \<times> int)"

definition upd_transport :: "(atransport \<Rightarrow> atransport) \<Rightarrow> tptr \<Rightarrow> world \<Rightarrow> world result" where
  "upd_transport f t w = bind_r (get_transport w t) (\<lambda>a. Inr (put_transport t (f a) w))"

definition AddDisconnect :: "nat \<Rightarrow> atransport \<Rightarrow> atransport" where
  "AddDisconnect d t = t\<lparr>disconnects := disconnects t @ [d]\<rparr>"

definition RemoveDisconnect :: "nat \<Rightarrow> atransport \<Rightarrow> atransport" where
  "RemoveDisconnect d t = t\<lparr>disconnects := filter (\<lambda>x. x \<noteq> d) (disconnects t)\<rparr>"

text \<open>\<open>~alistener\<close>.\<close>

definition destroy_listener :: "nat \<Rightarrow> alistener \<Rightarrow> world \<Rightarrow> world result" where
  "destroy_listener i l w =
     (case l_transport l of None \<Rightarrow> Inr w | Some t \<Rightarrow> upd_transport (RemoveDisconnect i) t w)"

text \<open>\<open>listener_list.erase(iter)\<close>: the element leaves the list and is destroyed.\<close>

definition erase_listener :: "nat \<Rightarrow> alistener \<Rightarrow> world \<Rightarrow> world result" where
  "erase_listener i l w = destroy_listener i l (w\<lparr>listener_list := filter (\<lambda>x. fst x \<noteq> i) (listener_list w)\<rparr>)"

definition listener_disconnect :: "nat \<Rightarrow> world \<Rightarrow> world result" where
  "listener_disconnect i w =
     (case map_of (listener_list w) i of
        None \<Rightarrow> Inr w
      | Some l \<Rightarrow> erase_listener i (l\<lparr>l_transport := None\<rparr>) w)"

definition format_listener :: "world \<Rightarrow> alistener \<Rightarrow> string result" where
  "format_listener w l =
     (if isSmartSocket l then Inr []
      else
        bind_r (the_ptr (l_transport l)) (\<lambda>t.
        bind_r (get_transport w t) (\<lambda>a.
          Inr ((if serial a \<noteq> [] then serial a else ''(reverse)'') @ '' '' @ local_name l @ '' '' @ connect_to l @ [CHR 0x0A]))))"

fun format_loop :: "world \<Rightarrow> (nat \<times> alistener) list \<Rightarrow> string result" where
  "format_loop w [] = Inr []"
| "format_loop w ((i, l) # ls) = bind_r (format_listener w l) (\<lambda>s. bind_r (format_loop w ls) (\<lambda>r. Inr (s @ r)))"

definition format_listeners :: "world \<Rightarrow> string result" where
  "format_listeners w = format_loop w (listener_list w)"

text \<open>The transport argument of \<open>remove_listener\<close> is not looked at.\<close>

definition remove_listener :: "string \<Rightarrow> tptr option \<Rightarrow> world \<Rightarrow> (install_status \<times> world) result" where
  "remove_listener nm t w =
     (case find (\<lambda>(i, l). local_name l = nm) (listener_list w) of
        Some (i, l) \<Rightarrow> bind_r (erase_listener i l w) (\<lambda>w1. Inr (INSTALL_STATUS_OK, w1))
      | None \<Rightarrow> Inr (INSTALL_STATUS_LISTENER_NOT_FOUND, w))"

fun remove_loop :: "(nat \<times> alistener) list \<Rightarrow> world \<Rightarrow> world result" where
  "remove_loop [] w = Inr w"
| "remove_loop ((i, l) # ls) w =
     (if (case connect_to l of c # cs \<Rightarrow> c = CHR ''*'' | [] \<Rightarrow> False) then remove_loop ls w
      else bind_r (erase_listener i l w) (remove_loop ls))"

definition remove_all_listeners :: "world \<Rightarrow> world result" where
  "remove_all_listeners w = remove_loop (listener_list w) w"

definition enable_server_sockets :: "world \<Rightarrow> world" where
  "enable_server_sockets w =
     w\<lparr>listener_list := map (\<lambda>(i, l). (i, if isSmartSocket l then l\<lparr>l_enabled := True\<rparr> else l)) (listener_list w)\<rparr>"

fun close_smart_loop :: "(nat \<times> alistener) list \<Rightarrow> world \<Rightarrow> world result" where
  "close_smart_loop [] w = Inr w"
| "close_smart_loop ((i, l) # ls) w =
     (if isSmartSocket l then bind_r (erase_listener i l w) (close_smart_loop ls) else close_smart_loop ls w)"

definition close_smartsockets :: "world \<Rightarrow> world result" where
  "close_smartsockets w = close_smart_loop (listener_list w) w"

section \<open>Installing\<close>

definition set_listener :: "nat \<Rightarrow> alistener \<Rightarrow> world \<Rightarrow> world" where
  "set_listener i l w = w\<lparr>listener_list := map (\<lambda>(j, k). (j, if j = i then l else k)) (listener_list w)\<rparr>"

text \<open>Repointing the listener that already has the name.\<close>

definition reuse_listener :: "nat \<Rightarrow> alistener \<Rightarrow> string \<Rightarrow> tptr option \<Rightarrow> bool \<Rightarrow> world \<Rightarrow>
    (install_status \<times> string \<times> int \<times> world) result" where
  "reuse_listener i l target t no_rebind w =
     (if isSmartSocket l then Inr (INSTALL_STATUS_INTERNAL_ERROR, ''cannot repurpose smartsocket'', 0, w)
      else if no_rebind then Inr (INSTALL_STATUS_CANNOT_REBIND, ''cannot rebind'', 0, w)
      else if l_transport l = t then Inr (INSTALL_STATUS_OK, [], 0, set_listener i (l\<lparr>connect_to := target\<rparr>) w)
      else
        bind_r (the_ptr (l_transport l)) (\<lambda>old.
        bind_r (upd_transport (RemoveDisconnect i) old w) (\<lambda>w1.
        bind_r (the_ptr t) (\<lambda>new.
        bind_r (upd_transport (AddDisconnect i) new
            (set_listener i (l\<lparr>connect_to := target, l_transport := t\<rparr>) w1)) (\<lambda>w2.
          Inr (INSTALL_STATUS_OK, [], 0, w2))))))"

definition port_name :: "int \<Rightarrow> string" where
  "port_name p = ''tcp:'' @ (if p < 0 then CHR ''-'' # to_base 10 (nat (- p)) else to_base 10 (nat p))"

definition new_listener :: "listen_fn \<Rightarrow> string \<Rightarrow> string \<Rightarrow> tptr option \<Rightarrow> bool \<Rightarrow> world \<Rightarrow>
    (install_status \<times> string \<times> int \<times> world) result" where
  "new_listener listen nm target t disabled w =
     (case listen nm of
        Inl error \<Rightarrow> Inr (INSTALL_STATUS_CANNOT_BIND, error, 0, w)
      | Inr (f, resolved) \<Rightarrow>
          let i = next_lptr w;
              l = \<lparr>local_name = (if resolved \<noteq> 0 then port_name resolved else nm), connect_to = target, l_transport = t,
                   l_fd = f, l_enabled = \<not> disabled\<rparr>
          in bind_r (case t of None \<Rightarrow> Inr w | Some tp \<Rightarrow> upd_transport (AddDisconnect i) tp w) (\<lambda>w1.
               Inr (INSTALL_STATUS_OK, [], resolved,
                    w1\<lparr>listener_list := listener_list w1 @ [(i, l)], next_lptr := Suc i\<rparr>)))"

definition install_listener :: "listen_fn \<Rightarrow> string \<Rightarrow> string \<Rightarrow> tptr option \<Rightarrow> bool \<Rightarrow> bool \<Rightarrow> world \<Rightarrow>
    (install_status \<times> string \<times> int \<times> world) result" where
  "install_listener listen nm target t no_rebind disabled w =
     (case find (\<lambda>(i, l). local_name l = nm) (listener_list w) of
        Some (i, l) \<Rightarrow> reuse_listener i l target t no_rebind w
      | None \<Rightarrow> new_listener listen nm target t disabled w)"

section \<open>Accepting connections\<close>

definition connect_to_smartsocket :: "environment \<Rightarrow> sptr \<Rightarrow> world \<Rightarrow> world result" where
  "connect_to_smartsocket env s w =
     (case new_sock (new_asocket Smart_enqueue Smart_ready None Smart_close) w of
        (ss, w1) \<Rightarrow>
          bind_r (upd_sock (\<lambda>so. so\<lparr>peer := Some ss\<rparr>) s w1) (\<lambda>w2.
          bind_r (upd_sock (\<lambda>so. so\<lparr>peer := Some s\<rparr>) ss w2) (\<lambda>w3.
            call_ready env s w3)))"

definition ss_listener_event :: "environment \<Rightarrow> world \<Rightarrow> world result" where
  "ss_listener_event env w =
     (case open_fd w of
        (None, w1) \<Rightarrow> Inr w1
      | (Some f, w1) \<Rightarrow> bind_r (create_local_socket f w1) (\<lambda>(s, w2). connect_to_smartsocket env s w2))"

definition listener_event :: "alistener \<Rightarrow> world \<Rightarrow> world result" where
  "listener_event l w =
     (case open_fd w of
        (None, w1) \<Rightarrow> Inr w1
      | (Some f, w1) \<Rightarrow>
          bind_r (create_local_socket f w1) (\<lambda>(s, w2).
          bind_r (upd_sock (\<lambda>so. so\<lparr>sock_transport := l_transport l\<rparr>) s w2) (\<lambda>w3.
            connect_to_remote s (connect_to l) w3)))"

section \<open>Disconnecting\<close>

fun run_disconnects :: "nat list \<Rightarrow> world \<Rightarrow> world result" where
  "run_disconnects [] w = Inr w"
| "run_disconnects (d # ds) w = bind_r (listener_disconnect d w) (run_disconnects ds)"

definition RunDisconnects :: "tptr \<Rightarrow> world \<Rightarrow> world result" where
  "RunDisconnects t w =
     bind_r (get_transport w t) (\<lambda>a.
     bind_r (run_disconnects (disconnects a) w) (\<lambda>w1. upd_transport (\<lambda>a. a\<lparr>disconnects := []\<rparr>) t w1))"

section \<open>Forwarding requests\<close>

text \<open>\<open>acq\<close> is what the transport acquirer returns.\<close>

definition forward_reply :: "int \<Rightarrow> string \<Rightarrow> install_status \<Rightarrow> string \<Rightarrow> int \<Rightarrow> world \<Rightarrow> world" where
  "forward_reply f service r error resolved w =
     (case r of
        INSTALL_STATUS_OK \<Rightarrow>
          let w1 = world_SendOkay f (world_SendOkay f w)
          in if resolved \<noteq> 0 then world_SendProtocolString f (drop 4 (port_name resolved)) w1 else w1
      | INSTALL_STATUS_INTERNAL_ERROR \<Rightarrow> world_SendFail f ''internal error'' w
      | INSTALL_STATUS_CANNOT_BIND \<Rightarrow> world_SendFail f (''cannot bind listener: '' @ error) w
      | INSTALL_STATUS_CANNOT_REBIND \<Rightarrow> world_SendFail f ''cannot rebind existing socket'' w
      | INSTALL_STATUS_LISTENER_NOT_FOUND \<Rightarrow> world_SendFail f (''listener '' @ [CHR 0x27] @ service @ [CHR 0x27] @ '' not found'') w)"

definition handle_forward_request :: "listen_fn \<Rightarrow> string \<Rightarrow> (tptr option \<times> string) result \<Rightarrow> int \<Rightarrow> world \<Rightarrow> (bool \<times> world) result" where
  "handle_forward_request listen service acq f w =
     (if service = ''list-forward'' then
        bind_r (format_listeners w) (\<lambda>ls. Inr (True, world_SendProtocolString f ls (world_SendOkay f w)))
      else if service = ''killforward-all'' then
        bind_r (remove_all_listeners w) (\<lambda>w1. Inr (True, world_SendOkay f (world_SendOkay f w1)))
      else if StartsWith service ''forward:'' \<or> StartsWith service ''killforward:'' then
        bind_r acq (\<lambda>(tr, error).
          (case tr of
             None \<Rightarrow> Inr (True, world_SendFail f error w)
           | Some t \<Rightarrow>
               if StartsWith service ''killforward:'' then
                 (let rest = drop 12 service
                  in bind_r (Split rest '';'') (\<lambda>pieces.
                       if length pieces \<noteq> 1 \<or> pieces ! 0 = [] then Inr (True, world_SendFail f (''bad killforward: '' @ rest) w)
                       else bind_r (remove_listener (pieces ! 0) (Some t) w) (\<lambda>(r, w1).
                              Inr (True, forward_reply f rest r error 0 w1))))
               else
                 (let r8 = drop 8 service; no_rebind = StartsWith r8 ''norebind:'';
                      rest = (if no_rebind then drop 9 r8 else r8)
                  in bind_r (Split rest '';'') (\<lambda>pieces.
                       if length pieces \<noteq> 2 \<or> pieces ! 0 = [] \<or> pieces ! 1 = [] \<or> hd (pieces ! 1) = CHR ''*''
                       then Inr (True, world_SendFail f (''bad forward: '' @ rest) w)
                       else bind_r (install_listener listen (pieces ! 0) (pieces ! 1) (Some t) no_rebind False w)
                              (\<lambda>(r, err, resolved, w1). Inr (True, forward_reply f rest r err resolved w1))))))
      else Inr (False, w))"

section \<open>The invariant of the list\<close>

text \<open>
  Every listener has its own number; exactly the smart sockets have no transport; and a transport's
  list of disconnect callbacks holds exactly the listeners that point to it.
\<close>

definition callbacks :: "world \<Rightarrow> tptr \<Rightarrow> nat list" where
  "callbacks w t = (case transports w t of None \<Rightarrow> [] | Some a \<Rightarrow> disconnects a)"

definition listeners_ok :: "world \<Rightarrow> bool" where
  "listeners_ok w \<longleftrightarrow>
     distinct (map fst (listener_list w)) \<and>
     (\<forall>i l. (i, l) \<in> set (listener_list w) \<longrightarrow> i < next_lptr w \<and> (isSmartSocket l \<longleftrightarrow> l_transport l = None) \<and>
        (\<forall>t. l_transport l = Some t \<longrightarrow> transports w t \<noteq> None)) \<and>
     (\<forall>t i. i \<in> set (callbacks w t) \<longleftrightarrow> (\<exists>l. (i, l) \<in> set (listener_list w) \<and> l_transport l = Some t))"

lemma listeners_okD:
  assumes "listeners_ok w" "(i, l) \<in> set (listener_list w)"
  shows "isSmartSocket l \<longleftrightarrow> l_transport l = None" "i < next_lptr w" "l_transport l = Some t \<Longrightarrow> transports w t \<noteq> None"
    "(i, k) \<in> set (listener_list w) \<Longrightarrow> k = l"
proof -
  show "isSmartSocket l \<longleftrightarrow> l_transport l = None" "i < next_lptr w" "l_transport l = Some t \<Longrightarrow> transports w t \<noteq> None"
    using assms unfolding listeners_ok_def by blast+
  show "(i, k) \<in> set (listener_list w) \<Longrightarrow> k = l"
    using assms eq_key_imp_eq_value [of "listener_list w" i k l] unfolding listeners_ok_def by blast
qed

lemma upd_transport_ok:
  assumes "transports w t \<noteq> None" "\<And>a. disconnects (f a) = g (disconnects a)"
  shows "\<exists>w'. upd_transport f t w = Inr w' \<and> same_struct w w' \<and> listener_list w' = listener_list w \<and> next_lptr w' = next_lptr w \<and>
    callbacks w' t = g (callbacks w t) \<and> (\<forall>u. u \<noteq> t \<longrightarrow> callbacks w' u = callbacks w u)"
proof -
  obtain a where a: "transports w t = Some a" using assms by auto
  have "same_struct w (put_transport t (f a) w)" using put_transport_same [OF assms(1)] .
  with a assms(2) show ?thesis
    by (simp add: upd_transport_def get_transport_def put_transport_def callbacks_def)
qed

lemma erase_listener_ok:
  assumes "listeners_ok w" "(i, l) \<in> set (listener_list w)"
  shows "\<exists>w'. erase_listener i l w = Inr w' \<and> same_struct w w' \<and> listeners_ok w' \<and>
    listener_list w' = filter (\<lambda>x. fst x \<noteq> i) (listener_list w)"
proof (cases "l_transport l")
  case None
  let ?w = "w\<lparr>listener_list := filter (\<lambda>x. fst x \<noteq> i) (listener_list w)\<rparr>"
  have "callbacks ?w = callbacks w" by (simp add: fun_eq_iff callbacks_def)
  moreover have "i \<notin> set (callbacks w t)" for t
  proof
    assume "i \<in> set (callbacks w t)"
    then obtain k where "(i, k) \<in> set (listener_list w)" "l_transport k = Some t"
      using assms(1) unfolding listeners_ok_def by blast
    with listeners_okD(4) [OF assms] None show False by auto
  qed
  ultimately have "listeners_ok ?w"
    using assms(1) unfolding listeners_ok_def by (auto simp: distinct_map_filter)
  with None show ?thesis by (simp add: erase_listener_def destroy_listener_def same_struct_def same_heap_def)
next
  case (Some t)
  let ?w = "w\<lparr>listener_list := filter (\<lambda>x. fst x \<noteq> i) (listener_list w)\<rparr>"
  have c0: "callbacks ?w = callbacks w" by (simp add: fun_eq_iff callbacks_def)
  have tr: "transports ?w t \<noteq> None" using listeners_okD(3) [OF assms Some] by simp
  obtain w' where w': "upd_transport (RemoveDisconnect i) t ?w = Inr w'" "same_struct ?w w'" "listener_list w' = listener_list ?w"
      "next_lptr w' = next_lptr w" "callbacks w' t = filter (\<lambda>x. x \<noteq> i) (callbacks w t)" "\<forall>u. u \<noteq> t \<longrightarrow> callbacks w' u = callbacks w u"
    using upd_transport_ok [OF tr, of "RemoveDisconnect i" "filter (\<lambda>x. x \<noteq> i)"] c0 by (auto simp: RemoveDisconnect_def)
  have trs: "transports w' u \<noteq> None" if "transports w u \<noteq> None" for u
    using w'(2) that by (simp add: same_struct_def same_heap_def)
  have "i \<notin> set (callbacks w u)" if "u \<noteq> t" for u
  proof
    assume "i \<in> set (callbacks w u)"
    then obtain k where "(i, k) \<in> set (listener_list w)" "l_transport k = Some u"
      using assms(1) unfolding listeners_ok_def by blast
    with listeners_okD(4) [OF assms] Some that show False by auto
  qed
  then have "set (callbacks w' u) = set (callbacks w u) - {i}" for u using w'(5,6) by (cases "u = t") auto
  then have "listeners_ok w'"
    using assms(1) w'(3,4) trs unfolding listeners_ok_def by (auto simp: distinct_map_filter)
  with w' Some show ?thesis
    by (simp add: erase_listener_def destroy_listener_def same_struct_def same_heap_def)
qed

section \<open>Every operation keeps the invariant\<close>

lemma remove_listener_ok:
  assumes "listeners_ok w"
  shows "\<exists>r w'. remove_listener nm t w = Inr (r, w') \<and> same_struct w w' \<and> listeners_ok w'"
proof (cases "find (\<lambda>(i, l). local_name l = nm) (listener_list w)")
  case None
  with assms show ?thesis by (simp add: remove_listener_def)
next
  case (Some x)
  obtain i l where x: "x = (i, l)" by (cases x)
  with Some have "(i, l) \<in> set (listener_list w)" by (metis find_Some_iff nth_mem)
  from erase_listener_ok [OF assms this] Some x show ?thesis by (auto simp: remove_listener_def)
qed

text \<open>Both loops over the list erase the elements a predicate selects.\<close>

fun erase_loop :: "(alistener \<Rightarrow> bool) \<Rightarrow> (nat \<times> alistener) list \<Rightarrow> world \<Rightarrow> world result" where
  "erase_loop P [] w = Inr w"
| "erase_loop P ((i, l) # ls) w = (if P l then bind_r (erase_listener i l w) (erase_loop P ls) else erase_loop P ls w)"

lemma remove_loop_erase: "remove_loop ls w = erase_loop (\<lambda>l. \<not> (case connect_to l of c # cs \<Rightarrow> c = CHR ''*'' | [] \<Rightarrow> False)) ls w"
proof (induction ls arbitrary: w)
  case (Cons x ls)
  obtain i l where "x = (i, l)" by (cases x)
  with Cons show ?case by (simp add: fun_eq_iff bind_r_def split: sum.splits)
qed simp

lemma close_smart_loop_erase: "close_smart_loop ls w = erase_loop isSmartSocket ls w"
proof (induction ls arbitrary: w)
  case (Cons x ls)
  obtain i l where "x = (i, l)" by (cases x)
  with Cons show ?case by (simp add: bind_r_def split: sum.splits)
qed simp

lemma erase_loop_ok:
  "listeners_ok w \<Longrightarrow> set ls \<subseteq> set (listener_list w) \<Longrightarrow> distinct (map fst ls) \<Longrightarrow>
     \<exists>w'. erase_loop P ls w = Inr w' \<and> same_struct w w' \<and> listeners_ok w' \<and>
       listener_list w' = filter (\<lambda>x. \<not> (fst x \<in> fst ` {y \<in> set ls. P (snd y)})) (listener_list w)"
proof (induction ls arbitrary: w)
  case Nil
  then show ?case by simp
next
  case (Cons x ls)
  obtain i l where x: "x = (i, l)" by (cases x)
  show ?case
  proof (cases "P l")
    case False
    then have "{y \<in> set (x # ls). P (snd y)} = {y \<in> set ls. P (snd y)}" using x by auto
    moreover have "erase_loop P (x # ls) w = erase_loop P ls w" using False x by simp
    ultimately show ?thesis using Cons.IH [OF Cons.prems(1)] Cons.prems(2,3) by (simp del: erase_loop.simps)
  next
    case True
    have "(i, l) \<in> set (listener_list w)" using Cons.prems(2) x by simp
    from erase_listener_ok [OF Cons.prems(1) this] obtain w1 where
      w1: "erase_listener i l w = Inr w1" "same_struct w w1" "listeners_ok w1"
        "listener_list w1 = filter (\<lambda>x. fst x \<noteq> i) (listener_list w)"
      by blast
    have "set ls \<subseteq> set (listener_list w1)"
    proof
      fix y
      assume y: "y \<in> set ls"
      then have "fst y \<noteq> i" using Cons.prems(3) x by force
      with y Cons.prems(2) w1(4) show "y \<in> set (listener_list w1)" by auto
    qed
    from Cons.IH [OF w1(3) this] Cons.prems(3) x obtain w' where
      w': "erase_loop P ls w1 = Inr w'" "same_struct w1 w'" "listeners_ok w'"
        "listener_list w' = filter (\<lambda>x. \<not> (fst x \<in> fst ` {y \<in> set ls. P (snd y)})) (listener_list w1)"
      by auto
    have "fst ` {y \<in> set (x # ls). P (snd y)} = insert i (fst ` {y \<in> set ls. P (snd y)})"
      using x True by (auto simp: image_iff)
    then have "listener_list w' = filter (\<lambda>z. \<not> (fst z \<in> fst ` {y \<in> set (x # ls). P (snd y)})) (listener_list w)"
      using w'(4) w1(4) by (simp only: filter_filter insert_iff de_Morgan_disj)
    with x True w1(1) w' same_struct_trans [OF w1(2) w'(2)] show ?thesis by simp
  qed
qed

lemma erase_all_ok:
  assumes "listeners_ok w"
  shows "\<exists>w'. erase_loop P (listener_list w) w = Inr w' \<and> same_struct w w' \<and> listeners_ok w' \<and>
    listener_list w' = filter (\<lambda>x. \<not> P (snd x)) (listener_list w)"
proof -
  have d: "distinct (map fst (listener_list w))" using assms by (simp add: listeners_ok_def)
  have "fst x \<in> fst ` {y \<in> set (listener_list w). P (snd y)} \<longleftrightarrow> P (snd x)" if "x \<in> set (listener_list w)" for x
    using that eq_key_imp_eq_value [OF d, of "fst x" "snd x"] by (force simp: image_iff)
  then have "filter (\<lambda>x. \<not> (fst x \<in> fst ` {y \<in> set (listener_list w). P (snd y)})) (listener_list w) =
      filter (\<lambda>x. \<not> P (snd x)) (listener_list w)"
    by (intro filter_cong) auto
  with erase_loop_ok [OF assms order_refl d, of P] show ?thesis by auto
qed

lemma remove_all_listeners_ok:
  assumes "listeners_ok w"
  shows "\<exists>w'. remove_all_listeners w = Inr w' \<and> same_struct w w' \<and> listeners_ok w'"
  using erase_all_ok [OF assms] unfolding remove_all_listeners_def remove_loop_erase by blast

lemma close_smartsockets_ok:
  assumes "listeners_ok w"
  shows "\<exists>w'. close_smartsockets w = Inr w' \<and> same_struct w w' \<and> listeners_ok w'"
  using erase_all_ok [OF assms] unfolding close_smartsockets_def close_smart_loop_erase by blast

lemma run_disconnects_eq:
  "run_disconnects ds w = Inr (w\<lparr>listener_list := filter (\<lambda>x. fst x \<notin> set ds) (listener_list w)\<rparr>)"
proof (induction ds arbitrary: w)
  case Nil
  then show ?case by simp
next
  case (Cons d ds)
  have "listener_disconnect d w = Inr (w\<lparr>listener_list := filter (\<lambda>x. fst x \<noteq> d) (listener_list w)\<rparr>)"
  proof (cases "map_of (listener_list w) d")
    case None
    then have "filter (\<lambda>x. fst x \<noteq> d) (listener_list w) = listener_list w"
      by (force simp: filter_id_conv map_of_eq_None_iff)
    with None show ?thesis by (simp add: listener_disconnect_def)
  next
    case (Some l)
    then show ?thesis by (simp add: listener_disconnect_def erase_listener_def destroy_listener_def)
  qed
  with Cons show ?case by (simp add: conj_commute)
qed

lemma RunDisconnects_ok:
  assumes "listeners_ok w" "transports w t \<noteq> None"
  shows "\<exists>w'. RunDisconnects t w = Inr w' \<and> same_struct w w' \<and> listeners_ok w' \<and>
    listener_list w' = filter (\<lambda>x. l_transport (snd x) \<noteq> Some t) (listener_list w) \<and> callbacks w' t = []"
proof -
  obtain a where a: "transports w t = Some a" using assms(2) by auto
  let ?w = "w\<lparr>listener_list := filter (\<lambda>x. fst x \<notin> set (disconnects a)) (listener_list w)\<rparr>"
  have cb: "callbacks w t = disconnects a" "callbacks ?w = callbacks w" using a by (simp_all add: callbacks_def fun_eq_iff)
  have mem: "fst x \<in> set (disconnects a) \<longleftrightarrow> l_transport (snd x) = Some t" if x: "x \<in> set (listener_list w)" for x
  proof -
    have "fst x \<in> set (disconnects a) \<longleftrightarrow> (\<exists>l. (fst x, l) \<in> set (listener_list w) \<and> l_transport l = Some t)"
      using assms(1) cb(1) unfolding listeners_ok_def by metis
    with listeners_okD(4) [OF assms(1), of "fst x" "snd x"] x show ?thesis by force
  qed
  have ls: "listener_list ?w = filter (\<lambda>x. l_transport (snd x) \<noteq> Some t) (listener_list w)"
    using mem by (auto intro: filter_cong)
  have "transports ?w t \<noteq> None" using a by simp
  from upd_transport_ok [OF this, of "\<lambda>a. a\<lparr>disconnects := []\<rparr>" "\<lambda>_. []"] obtain w' where
    w': "upd_transport (\<lambda>a. a\<lparr>disconnects := []\<rparr>) t ?w = Inr w'" "same_struct ?w w'" "listener_list w' = listener_list ?w"
      "next_lptr w' = next_lptr w" "callbacks w' t = []" "\<forall>u. u \<noteq> t \<longrightarrow> callbacks w' u = callbacks w u"
    using cb(2) by auto
  have trs: "transports w' u \<noteq> None \<longleftrightarrow> transports w u \<noteq> None" for u
    using w'(2) by (simp add: same_struct_def same_heap_def)
  have "i \<in> set (callbacks w' u) \<longleftrightarrow> (\<exists>l. (i, l) \<in> set (listener_list w') \<and> l_transport l = Some u)" for u i
  proof (cases "u = t")
    case True
    then show ?thesis using w'(3,5) ls by auto
  next
    case False
    then have "i \<in> set (callbacks w' u) \<longleftrightarrow> (\<exists>l. (i, l) \<in> set (listener_list w) \<and> l_transport l = Some u)"
      using w'(6) assms(1) unfolding listeners_ok_def by metis
    then show ?thesis using w'(3) ls False by auto
  qed
  then have "listeners_ok w'"
    using assms(1) w'(3,4) trs unfolding listeners_ok_def by (auto simp: distinct_map_filter)
  moreover have "same_struct w w'" using w'(2) by (simp add: same_struct_def same_heap_def)
  ultimately show ?thesis
    using a w' ls by (simp add: RunDisconnects_def get_transport_def run_disconnects_eq)
qed

text \<open>Replacing one listener of the list, its callback moving with it.\<close>

lemma listeners_ok_replace:
  assumes "listeners_ok w" "(i, l) \<in> set (listener_list w)"
    and w': "listener_list w' = map (\<lambda>(j, k). (j, if j = i then l' else k)) (listener_list w)" "next_lptr w' = next_lptr w"
      "\<And>u. transports w u \<noteq> None \<Longrightarrow> transports w' u \<noteq> None"
      "\<And>u. set (callbacks w' u) = (if l_transport l' = Some u then insert i (set (callbacks w u)) else set (callbacks w u) - {i})"
    and l': "\<not> isSmartSocket l'" "l_transport l' = Some t" "transports w t \<noteq> None"
  shows "listeners_ok w'"
proof -
  have mem: "(j, k) \<in> set (listener_list w') \<longleftrightarrow> (if j = i then k = l' else (j, k) \<in> set (listener_list w))" for j k
    using assms(2) unfolding w'(1) by force
  have "map fst (listener_list w') = map fst (listener_list w)" unfolding w'(1) by (induction "listener_list w") auto
  then have "distinct (map fst (listener_list w'))" using assms(1) by (simp add: listeners_ok_def)
  moreover have "j < next_lptr w' \<and> (isSmartSocket k \<longleftrightarrow> l_transport k = None) \<and> (\<forall>u. l_transport k = Some u \<longrightarrow> transports w' u \<noteq> None)"
    if "(j, k) \<in> set (listener_list w')" for j k
    using that assms(1,2) l' w'(2,3) unfolding mem listeners_ok_def by (cases "j = i") auto
  moreover have "j \<in> set (callbacks w' u) \<longleftrightarrow> (\<exists>k. (j, k) \<in> set (listener_list w') \<and> l_transport k = Some u)" for j u
  proof -
    have old: "j \<in> set (callbacks w u) \<longleftrightarrow> (\<exists>k. (j, k) \<in> set (listener_list w) \<and> l_transport k = Some u)"
      using assms(1) unfolding listeners_ok_def by metis
    show ?thesis using old unfolding mem w'(4) by (cases "j = i") auto
  qed
  ultimately show ?thesis unfolding listeners_ok_def by blast
qed

lemma reuse_listener_ok:
  assumes "listeners_ok w" "(i, l) \<in> set (listener_list w)" "transports w t \<noteq> None" "target \<noteq> kSmartSocketConnectTo"
  shows "\<exists>r e w'. reuse_listener i l target (Some t) nb w = Inr (r, e, 0, w') \<and> same_struct w w' \<and> listeners_ok w' \<and>
    (if r = INSTALL_STATUS_OK
     then listener_list w' = map (\<lambda>(j, k). (j, if j = i then l\<lparr>connect_to := target, l_transport := Some t\<rparr> else k)) (listener_list w)
     else listener_list w' = listener_list w)"
proof (cases "isSmartSocket l \<or> nb")
  case True
  with assms(1) show ?thesis by (auto simp: reuse_listener_def)
next
  case False
  let ?l = "l\<lparr>connect_to := target, l_transport := Some t\<rparr>"
  have nsm: "\<not> isSmartSocket ?l" using assms(4) by (simp add: isSmartSocket_def)
  obtain old where old: "l_transport l = Some old" "transports w old \<noteq> None"
    using listeners_okD(1,3) [OF assms(1,2)] False by (metis not_None_eq)
  have i: "i \<in> set (callbacks w u) \<longleftrightarrow> u = old" for u
    using assms(1,2) old listeners_okD(4) [OF assms(1,2)] unfolding listeners_ok_def by (metis option.inject)
  show ?thesis
  proof (cases "old = t")
    case True
    let ?w = "set_listener i ?l w"
    have l: "l\<lparr>connect_to := target\<rparr> = ?l" using old True by (cases l) simp
    have cb: "callbacks ?w = callbacks w" by (simp add: fun_eq_iff callbacks_def set_listener_def)
    have "set (callbacks ?w u) = (if l_transport ?l = Some u then insert i (set (callbacks w u)) else set (callbacks w u) - {i})" for u
      using i [of u] True unfolding cb by auto
    then have "listeners_ok ?w"
      by (rule listeners_ok_replace [OF assms(1,2), of ?w ?l t, rotated 3]) (use nsm assms(3) in \<open>simp_all add: set_listener_def\<close>)
    moreover have "reuse_listener i l target (Some t) nb w = Inr (INSTALL_STATUS_OK, [], 0, ?w)"
      by (subst l [symmetric]) (use False old True in \<open>simp add: reuse_listener_def\<close>)
    moreover have "same_struct w ?w" by (simp add: set_listener_def same_struct_def same_heap_def)
    ultimately show ?thesis by (simp add: set_listener_def)
  next
    case ne: False
    obtain w1 where w1: "upd_transport (RemoveDisconnect i) old w = Inr w1" "same_struct w w1" "listener_list w1 = listener_list w"
      "next_lptr w1 = next_lptr w" "callbacks w1 old = filter (\<lambda>x. x \<noteq> i) (callbacks w old)"
      "\<forall>u. u \<noteq> old \<longrightarrow> callbacks w1 u = callbacks w u"
      using upd_transport_ok [OF old(2), of "RemoveDisconnect i" "filter (\<lambda>x. x \<noteq> i)"] by (auto simp: RemoveDisconnect_def)
    let ?w1 = "set_listener i ?l w1"
    have cb: "callbacks ?w1 = callbacks w1" by (simp add: fun_eq_iff callbacks_def set_listener_def)
    have tr: "transports ?w1 t \<noteq> None" using w1(2) assms(3) by (simp add: set_listener_def same_struct_def same_heap_def)
    obtain w2 where w2: "upd_transport (AddDisconnect i) t ?w1 = Inr w2" "same_struct ?w1 w2" "listener_list w2 = listener_list ?w1"
      "next_lptr w2 = next_lptr ?w1" "callbacks w2 t = callbacks w1 t @ [i]" "\<forall>u. u \<noteq> t \<longrightarrow> callbacks w2 u = callbacks w1 u"
      using upd_transport_ok [OF tr, of "AddDisconnect i" "\<lambda>x. x @ [i]"] by (auto simp: AddDisconnect_def cb)
    have same: "same_struct w w2" using w1(2) w2(2) by (simp add: set_listener_def same_struct_def same_heap_def)
    have trs: "transports w u \<noteq> None \<Longrightarrow> transports w2 u \<noteq> None" for u using same by (metis same_struct_def same_heap_def)
    have "set (callbacks w2 u) = (if l_transport ?l = Some u then insert i (set (callbacks w u)) else set (callbacks w u) - {i})" for u
      using w1(5,6) w2(5,6) i [of u] ne by (cases "u = t"; cases "u = old") auto
    then have "listeners_ok w2"
      by (rule listeners_ok_replace [OF assms(1,2), of w2 ?l t, rotated 3])
         (use nsm assms(3) trs w1(3,4) w2(3,4) in \<open>simp_all add: set_listener_def\<close>)
    with False old ne w1 w2 same show ?thesis
      by (simp add: reuse_listener_def) (simp add: set_listener_def)
  qed
qed

lemma new_listener_ok:
  assumes "listeners_ok w" "t = None \<longleftrightarrow> target = kSmartSocketConnectTo" "\<And>tp. t = Some tp \<Longrightarrow> transports w tp \<noteq> None"
  shows "\<exists>r e p w'. new_listener listen nm target t disabled w = Inr (r, e, p, w') \<and> same_struct w w' \<and> listeners_ok w' \<and>
    (if r = INSTALL_STATUS_OK
     then \<exists>l. listener_list w' = listener_list w @ [(next_lptr w, l)] \<and> connect_to l = target \<and> l_transport l = t \<and>
       (p = 0 \<longrightarrow> local_name l = nm) \<and> (p \<noteq> 0 \<longrightarrow> local_name l = port_name p)
     else listener_list w' = listener_list w)"
proof (cases "listen nm")
  case (Inl e)
  with assms(1) show ?thesis by (simp add: new_listener_def)
next
  case (Inr fp)
  obtain f p where fp: "fp = (f, p)" by (cases fp)
  let ?i = "next_lptr w"
  define l where "l = \<lparr>local_name = (if p \<noteq> 0 then port_name p else nm), connect_to = target, l_transport = t, l_fd = f, l_enabled = \<not> disabled\<rparr>"
  have "\<exists>w1. (case t of None \<Rightarrow> Inr w | Some tp \<Rightarrow> upd_transport (AddDisconnect ?i) tp w) = Inr w1 \<and> same_struct w w1 \<and>
      listener_list w1 = listener_list w \<and> next_lptr w1 = next_lptr w \<and>
      (\<forall>u. callbacks w1 u = callbacks w u @ (if t = Some u then [?i] else []))"
  proof (cases t)
    case (Some tp)
    with upd_transport_ok [OF assms(3) [OF Some], of "AddDisconnect ?i" "\<lambda>x. x @ [?i]"] show ?thesis
      by (auto simp: AddDisconnect_def)
  qed simp
  then obtain w1 where w1: "(case t of None \<Rightarrow> Inr w | Some tp \<Rightarrow> upd_transport (AddDisconnect ?i) tp w) = Inr w1" "same_struct w w1"
    "listener_list w1 = listener_list w" "next_lptr w1 = next_lptr w" "\<forall>u. callbacks w1 u = callbacks w u @ (if t = Some u then [?i] else [])"
    by blast
  let ?w = "w1\<lparr>listener_list := listener_list w1 @ [(?i, l)], next_lptr := Suc ?i\<rparr>"
  have cb: "callbacks ?w = callbacks w1" by (simp add: fun_eq_iff callbacks_def)
  have trs: "transports w1 u \<noteq> None \<longleftrightarrow> transports w u \<noteq> None" for u using w1(2) by (simp add: same_struct_def same_heap_def)
  have fresh: "(?i, k) \<notin> set (listener_list w)" for k using listeners_okD(2) [OF assms(1)] by blast
  have lt: "l_transport l = t" "isSmartSocket l \<longleftrightarrow> t = None" using assms(2) by (simp_all add: l_def isSmartSocket_def)
  have "distinct (map fst (listener_list ?w))"
    using assms(1) w1(3) fresh by (auto simp: listeners_ok_def)
  moreover have "j < next_lptr ?w \<and> (isSmartSocket k \<longleftrightarrow> l_transport k = None) \<and> (\<forall>u. l_transport k = Some u \<longrightarrow> transports ?w u \<noteq> None)"
    if "(j, k) \<in> set (listener_list ?w)" for j k
    using that assms(1,3) w1(3) lt trs unfolding listeners_ok_def by (auto simp: less_SucI)
  moreover have "j \<in> set (callbacks ?w u) \<longleftrightarrow> (\<exists>k. (j, k) \<in> set (listener_list ?w) \<and> l_transport k = Some u)" for j u
  proof -
    have "j \<in> set (callbacks w u) \<longleftrightarrow> (\<exists>k. (j, k) \<in> set (listener_list w) \<and> l_transport k = Some u)"
      using assms(1) unfolding listeners_ok_def by metis
    then show ?thesis using w1(3,5) lt(1) unfolding cb by auto
  qed
  ultimately have "listeners_ok ?w" unfolding listeners_ok_def by blast
  moreover have "same_struct w ?w" using w1(2) by (simp add: same_struct_def same_heap_def)
  moreover have "new_listener listen nm target t disabled w = Inr (INSTALL_STATUS_OK, [], p, ?w)"
    using Inr fp w1(1) by (simp add: new_listener_def Let_def l_def)
  ultimately show ?thesis using w1(3) by (simp add: l_def)
qed

lemma find_listener:
  "find (\<lambda>(i, l). local_name l = nm) ls = Some (i, l) \<Longrightarrow> (i, l) \<in> set ls \<and> local_name l = nm"
  by (metis (mono_tags, lifting) case_prod_conv find_Some_iff nth_mem)

lemma install_listener_ok:
  assumes "listeners_ok w" "transports w t \<noteq> None" "target \<noteq> kSmartSocketConnectTo"
  shows "\<exists>r e p w'. install_listener listen nm target (Some t) nb disabled w = Inr (r, e, p, w') \<and> same_struct w w' \<and> listeners_ok w'"
proof (cases "find (\<lambda>(i, l). local_name l = nm) (listener_list w)")
  case None
  from new_listener_ok [of w "Some t" target listen nm disabled] assms None show ?thesis by (auto simp: install_listener_def)
next
  case (Some x)
  obtain i l where x: "x = (i, l)" by (cases x)
  with Some have "(i, l) \<in> set (listener_list w)" using find_listener [of nm "listener_list w" i l] by simp
  from reuse_listener_ok [OF assms(1) this assms(2,3), of nb] Some x show ?thesis by (auto simp: install_listener_def)
qed

lemma format_loop_total:
  "\<forall>i l. (i, l) \<in> set ls \<longrightarrow> isSmartSocket l \<or> (\<exists>t. l_transport l = Some t \<and> transports w t \<noteq> None) \<Longrightarrow> \<exists>s. format_loop w ls = Inr s"
proof (induction ls)
  case (Cons x ls)
  obtain i l where x: "x = (i, l)" by (cases x)
  obtain r where "format_loop w ls = Inr r" using Cons by auto
  moreover have "isSmartSocket l \<or> (\<exists>t. l_transport l = Some t \<and> transports w t \<noteq> None)" using Cons.prems x by simp
  then have "\<exists>s. format_listener w l = Inr s" by (auto simp: format_listener_def get_transport_def)
  ultimately show ?case using x by auto
qed simp

lemma format_listeners_total: "listeners_ok w \<Longrightarrow> \<exists>s. format_listeners w = Inr s"
proof -
  assume ok: "listeners_ok w"
  have "isSmartSocket l \<or> (\<exists>t. l_transport l = Some t \<and> transports w t \<noteq> None)" if "(i, l) \<in> set (listener_list w)" for i l
    using listeners_okD(1) [OF ok that] listeners_okD(3) [OF ok that] by (cases "l_transport l") auto
  then show ?thesis unfolding format_listeners_def by (intro format_loop_total) blast
qed

lemma enable_server_sockets_ok: "listeners_ok w \<Longrightarrow> listeners_ok (enable_server_sockets w) \<and> same_struct w (enable_server_sockets w)"
proof -
  assume ok: "listeners_ok w"
  let ?w = "enable_server_sockets w"
  have cb: "callbacks ?w = callbacks w" by (simp add: fun_eq_iff callbacks_def enable_server_sockets_def)
  have mem: "(j, k) \<in> set (listener_list ?w) \<longleftrightarrow>
      (\<exists>l. (j, l) \<in> set (listener_list w) \<and> k = (if isSmartSocket l then l\<lparr>l_enabled := True\<rparr> else l))" for j k
    by (force simp: enable_server_sockets_def)
  have lt: "l_transport (if isSmartSocket l then l\<lparr>l_enabled := True\<rparr> else l) = l_transport l" for l by simp
  have sm: "isSmartSocket (l\<lparr>l_enabled := True\<rparr>) = isSmartSocket l" for l by (simp add: isSmartSocket_def)
  have "map fst (listener_list ?w) = map fst (listener_list w)" by (auto simp: enable_server_sockets_def)
  then have "distinct (map fst (listener_list ?w))" using ok by (simp add: listeners_ok_def)
  moreover have "j < next_lptr ?w \<and> (isSmartSocket k \<longleftrightarrow> l_transport k = None) \<and> (\<forall>u. l_transport k = Some u \<longrightarrow> transports ?w u \<noteq> None)"
    if a: "(j, k) \<in> set (listener_list ?w)" for j k
  proof -
    obtain l where l: "(j, l) \<in> set (listener_list w)" "k = (if isSmartSocket l then l\<lparr>l_enabled := True\<rparr> else l)"
      using a unfolding mem by blast
    from listeners_okD(1,2) [OF ok l(1)] listeners_okD(3) [OF ok l(1)] l(2) show ?thesis
      by (simp add: sm enable_server_sockets_def)
  qed
  moreover have "j \<in> set (callbacks ?w u) \<longleftrightarrow> (\<exists>k. (j, k) \<in> set (listener_list ?w) \<and> l_transport k = Some u)" for j u
  proof -
    have "j \<in> set (callbacks w u) \<longleftrightarrow> (\<exists>k. (j, k) \<in> set (listener_list w) \<and> l_transport k = Some u)"
      using ok unfolding listeners_ok_def by metis
    moreover have "(\<exists>k. (j, k) \<in> set (listener_list ?w) \<and> l_transport k = Some u) \<longleftrightarrow>
        (\<exists>k. (j, k) \<in> set (listener_list w) \<and> l_transport k = Some u)"
      unfolding mem by (auto simp: lt split del: if_split)
    ultimately show ?thesis unfolding cb by simp
  qed
  ultimately have "listeners_ok ?w" unfolding listeners_ok_def by blast
  then show ?thesis by (simp add: enable_server_sockets_def same_struct_def same_heap_def)
qed

section \<open>Properties\<close>

text \<open>The requests that change the list once the server listens.\<close>

datatype listener_op = Op_install string string tptr bool bool | Op_remove string tptr | Op_remove_all
  | Op_disconnect tptr | Op_close_smart | Op_enable

fun op_allowed :: "world \<Rightarrow> listener_op \<Rightarrow> bool" where
  "op_allowed w (Op_install nm target t nb d) \<longleftrightarrow> transports w t \<noteq> None \<and> target \<noteq> kSmartSocketConnectTo"
| "op_allowed w (Op_disconnect t) \<longleftrightarrow> transports w t \<noteq> None"
| "op_allowed w _ \<longleftrightarrow> True"

fun apply_op :: "listen_fn \<Rightarrow> listener_op \<Rightarrow> world \<Rightarrow> world result" where
  "apply_op listen (Op_install nm target t nb d) w =
     bind_r (install_listener listen nm target (Some t) nb d w) (\<lambda>(r, e, p, w1). Inr w1)"
| "apply_op listen (Op_remove nm t) w = bind_r (remove_listener nm (Some t) w) (\<lambda>(r, w1). Inr w1)"
| "apply_op listen Op_remove_all w = remove_all_listeners w"
| "apply_op listen (Op_disconnect t) w = RunDisconnects t w"
| "apply_op listen Op_close_smart w = close_smartsockets w"
| "apply_op listen Op_enable w = Inr (enable_server_sockets w)"

fun apply_ops :: "listen_fn \<Rightarrow> listener_op list \<Rightarrow> world \<Rightarrow> world result" where
  "apply_ops listen [] w = Inr w"
| "apply_ops listen (x # xs) w = bind_r (apply_op listen x w) (apply_ops listen xs)"

lemma apply_op_ok:
  assumes "listeners_ok w" "op_allowed w x"
  shows "\<exists>w'. apply_op listen x w = Inr w' \<and> same_struct w w' \<and> listeners_ok w'"
proof (cases x)
  case (Op_install nm target t nb d)
  with install_listener_ok [OF assms(1), of t target listen nm nb d] assms(2) show ?thesis by auto
next
  case (Op_remove nm t)
  with remove_listener_ok [OF assms(1), of nm "Some t"] show ?thesis by auto
next
  case Op_remove_all
  with remove_all_listeners_ok [OF assms(1)] show ?thesis by auto
next
  case (Op_disconnect t)
  with RunDisconnects_ok [OF assms(1), of t] assms(2) show ?thesis by auto
next
  case Op_close_smart
  with close_smartsockets_ok [OF assms(1)] show ?thesis by auto
next
  case Op_enable
  with enable_server_sockets_ok [OF assms(1)] show ?thesis by auto
qed

lemma op_allowed_same: "same_struct w w' \<Longrightarrow> op_allowed w x \<Longrightarrow> op_allowed w' x"
  by (cases x) (simp_all add: same_struct_def same_heap_def)

text \<open>
  C10: no sequence of forwarding requests and disconnects ever follows a null or stale transport
  pointer: from a list in which callbacks and listeners correspond, every sequence of installs,
  removals and transport disconnects runs through, keeps the correspondence, leaves the sockets
  alone, and the resulting list can be printed.
\<close>

theorem listener_table_invariant:
  assumes "listeners_ok w" "\<forall>x \<in> set xs. op_allowed w x"
  shows "\<exists>w'. apply_ops listen xs w = Inr w' \<and> listeners_ok w' \<and> same_struct w w' \<and> (\<exists>s. format_listeners w' = Inr s)"
  using assms
proof (induction xs arbitrary: w)
  case Nil
  then show ?case using format_listeners_total by auto
next
  case (Cons x xs)
  then obtain w1 where w1: "apply_op listen x w = Inr w1" "same_struct w w1" "listeners_ok w1"
    using apply_op_ok [of w x listen] by auto
  have "\<forall>x \<in> set xs. op_allowed w1 x" using Cons.prems(2) op_allowed_same [OF w1(2)] by simp
  from Cons.IH [OF w1(3) this] w1(1) same_struct_trans [OF w1(2)] show ?case by auto
qed

text \<open>A server without sockets that knows one device, used by the examples.\<close>

definition empty_world :: world where
  "empty_world =
     \<lparr>sockets = (\<lambda>_. None), next_sptr = 1, local_socket_list = [], local_socket_closing_list = [], local_socket_next_id = 1,
      transports = (\<lambda>t. if t = 7 then Some ((new_atransport 1 kCsDevice)\<lparr>serial := ''dev'', online := True\<rparr>) else None),
      transport_list = [7], pending_list = [], sent = [], fd_in = (\<lambda>_. []), fd_accept = (\<lambda>_. []), fd_out = (\<lambda>_. []),
      deferred = [], new_fds = [], delayed_ack_window = 33554432, device_tracker_list = [], tracker_info = (\<lambda>_. None),
      listener_list = [(0, \<lparr>local_name = ''tcp:5037'', connect_to = kSmartSocketConnectTo, l_transport = None, l_fd = 3, l_enabled = True\<rparr>)],
      next_lptr = 1, next_tptr = 8, next_transport_id = 2, local_transports = [], run_queue = []\<rparr>"

lemma empty_world_listeners: "listeners_ok empty_world"
  by (auto simp: listeners_ok_def empty_world_def callbacks_def isSmartSocket_def new_atransport_def)

theorem listener_table_invariant_witness:
  "\<exists>w'. apply_ops (\<lambda>_. Inr (4, 0)) [Op_install ''tcp:1'' ''tcp:2'' 7 False False, Op_disconnect 7, Op_remove ''tcp:1'' 7] empty_world = Inr w' \<and>
     listeners_ok w'"
  using listener_table_invariant [OF empty_world_listeners,
      of "[Op_install ''tcp:1'' ''tcp:2'' 7 False False, Op_disconnect 7, Op_remove ''tcp:1'' 7]" "\<lambda>_. Inr (4, 0)"]
  by (simp add: empty_world_def kSmartSocketConnectTo_def) blast

text \<open>The listener that answers to a name.\<close>

definition lookup_listener :: "string \<Rightarrow> world \<Rightarrow> alistener option" where
  "lookup_listener nm w = map_option snd (find (\<lambda>(i, l). local_name l = nm) (listener_list w))"

lemma find_map_replace:
  "\<forall>k. (i, k) \<in> set ls \<longrightarrow> k = l \<Longrightarrow> local_name l' = local_name l \<Longrightarrow>
   find (\<lambda>(i, l). local_name l = nm) (map (\<lambda>(j, k). (j, if j = i then l' else k)) ls) =
   map_option (\<lambda>(j, k). (j, if j = i then l' else k)) (find (\<lambda>(i, l). local_name l = nm) ls)"
  by (induction ls) auto

lemma split_forward:
  assumes "CHR '';'' \<notin> set a" "CHR '';'' \<notin> set b"
  shows "Split (a @ '';'' @ b) '';'' = Inr [a, b]"
  using split_ref_Join [of "[a, b]" "CHR '';''"] assms by (simp add: Split_eq)

lemma world_Send_listeners [simp]:
  "listener_list (world_SendOkay f w) = listener_list w" "listener_list (world_SendFail f x w) = listener_list w"
  "listener_list (world_SendProtocolString f x w) = listener_list w"
  by (auto simp: world_SendOkay_def world_SendFail_def world_SendProtocolString_def split: prod.splits)

lemma forward_reply_listeners [simp]: "listener_list (forward_reply f sv r e p w) = listener_list w"
  by (cases r) (simp_all add: forward_reply_def Let_def)

lemma StartsWith_before:
  assumes "StartsWith (a @ c # b) p" "c \<notin> set p"
  shows "StartsWith a p"
proof (cases "length p \<le> length a")
  case True
  with assms show ?thesis by (simp add: StartsWith_def substr_def)
next
  case False
  have t: "take (length p) (a @ c # b) = p" using assms(1) by (simp add: StartsWith_def substr_def)
  have "p ! length a = take (length p) (a @ c # b) ! length a" by (simp only: t)
  then have "p ! length a = c" using False by (simp add: nth_append)
  with False assms(2) show ?thesis by (metis not_le nth_mem)
qed

lemma lookup_replace:
  assumes "distinct (map fst (listener_list w))" "find (\<lambda>(i, l). local_name l = a) (listener_list w) = Some (i, l)"
    "listener_list w' = map (\<lambda>(j, k). (j, if j = i then l' else k)) (listener_list w)" "local_name l' = a"
  shows "lookup_listener a w' = Some l'" "n \<noteq> a \<Longrightarrow> lookup_listener n w' = lookup_listener n w"
proof -
  have m: "(i, l) \<in> set (listener_list w)" "local_name l = a" using find_listener [OF assms(2)] by simp_all
  have u: "\<forall>k. (i, k) \<in> set (listener_list w) \<longrightarrow> k = l" using m(1) eq_key_imp_eq_value [OF assms(1)] by blast
  note fm = find_map_replace [OF u, of l'] assms(3,4) m(2)
  show "lookup_listener a w' = Some l'" using fm(1) [of a] assms by (simp add: lookup_listener_def m(2))
  assume n: "n \<noteq> a"
  have "snd (case x of (j, k) \<Rightarrow> (j, if j = i then l' else k)) = snd x"
    if f: "find (\<lambda>(i, l). local_name l = n) (listener_list w) = Some x" for x
  proof -
    obtain j k where x: "x = (j, k)" by (cases x)
    then have "(j, k) \<in> set (listener_list w)" "local_name k = n" using find_listener [of n "listener_list w" j k] f by simp_all
    then have "j \<noteq> i" using u m(2) n by auto
    with x show ?thesis by simp
  qed
  then show "lookup_listener n w' = lookup_listener n w"
    using fm(1) [of n] assms(3,4) m(2) by (cases "find (\<lambda>(i, l). local_name l = n) (listener_list w)") (simp_all add: lookup_listener_def)
qed

lemma lookup_append:
  assumes "listener_list w' = listener_list w @ [(i, l)]" "local_name l = a" "find (\<lambda>(i, l). local_name l = a) (listener_list w) = None"
  shows "lookup_listener a w' = Some l" "n \<noteq> a \<Longrightarrow> lookup_listener n w' = lookup_listener n w"
proof -
  have f: "find P (xs @ ys) = (case find P xs of None \<Rightarrow> find P ys | Some x \<Rightarrow> Some x)" for P and xs ys :: "(nat \<times> alistener) list"
    by (induction xs) auto
  show "lookup_listener a w' = Some l" "n \<noteq> a \<Longrightarrow> lookup_listener n w' = lookup_listener n w"
    using assms by (auto simp: lookup_listener_def f split: option.splits)
qed

lemma install_lookup:
  assumes "listeners_ok w" "transports w t \<noteq> None" "b \<noteq> kSmartSocketConnectTo" "listen a = Inr (g, 0)"
    "\<forall>l. lookup_listener a w = Some l \<longrightarrow> \<not> isSmartSocket l"
  shows "\<exists>e w'. install_listener listen a b (Some t) False d w = Inr (INSTALL_STATUS_OK, e, 0, w') \<and>
    (\<exists>l. lookup_listener a w' = Some l \<and> connect_to l = b \<and> l_transport l = Some t) \<and>
    (\<forall>n. n \<noteq> a \<longrightarrow> lookup_listener n w' = lookup_listener n w)"
proof (cases "find (\<lambda>(i, l). local_name l = a) (listener_list w)")
  case None
  obtain r e p w' where w': "new_listener listen a b (Some t) d w = Inr (r, e, p, w')"
    "if r = INSTALL_STATUS_OK then \<exists>l. listener_list w' = listener_list w @ [(next_lptr w, l)] \<and> connect_to l = b \<and>
       l_transport l = Some t \<and> (p = 0 \<longrightarrow> local_name l = a) \<and> (p \<noteq> 0 \<longrightarrow> local_name l = port_name p)
     else listener_list w' = listener_list w"
    using new_listener_ok [of w "Some t" b listen a d] assms(1-3) by auto
  have rp: "r = INSTALL_STATUS_OK" "p = 0" using w'(1) assms(4) by (auto simp: new_listener_def Let_def result_iff)
  with w'(2) obtain l where l: "listener_list w' = listener_list w @ [(next_lptr w, l)]" "connect_to l = b" "l_transport l = Some t"
    "local_name l = a" by auto
  from lookup_append [OF l(1,4) None] l(2,3) w'(1) rp None show ?thesis by (simp add: install_listener_def)
next
  case (Some x)
  obtain i l where x: "x = (i, l)" by (cases x)
  then have m: "(i, l) \<in> set (listener_list w)" "local_name l = a" using find_listener [of a "listener_list w" i l] Some by simp_all
  have ns: "\<not> isSmartSocket l" using assms(5) Some x by (simp add: lookup_listener_def)
  obtain r e w' where w': "reuse_listener i l b (Some t) False w = Inr (r, e, 0, w')"
    "if r = INSTALL_STATUS_OK
     then listener_list w' = map (\<lambda>(j, k). (j, if j = i then l\<lparr>connect_to := b, l_transport := Some t\<rparr> else k)) (listener_list w)
     else listener_list w' = listener_list w"
    using reuse_listener_ok [OF assms(1) m(1) assms(2,3), of False] by blast
  have r: "r = INSTALL_STATUS_OK" using w'(1) ns by (auto simp: reuse_listener_def result_iff split: if_splits)
  have d: "distinct (map fst (listener_list w))" using assms(1) by (simp add: listeners_ok_def)
  from lookup_replace [OF d, of a i l w' "l\<lparr>connect_to := b, l_transport := Some t\<rparr>"] Some x m(2) w' r show ?thesis
    by (simp add: install_listener_def)
qed



text \<open>
  C40: \<open>killforward\<close> removes whatever listener has the name, the server's own smart socket included,
  although \<open>killforward-all\<close> takes care never to remove it.
\<close>

theorem killforward_removes_smart_socket:
  assumes "listeners_ok w" "lookup_listener nm w = Some l" "isSmartSocket l" "nm \<noteq> []" "CHR '';'' \<notin> set nm"
  shows "\<exists>w' w''. handle_forward_request listen (''killforward:'' @ nm) (Inr (Some t, e)) f w = Inr (True, w') \<and>
    length (filter (\<lambda>(i, l). isSmartSocket l) (listener_list w')) < length (filter (\<lambda>(i, l). isSmartSocket l) (listener_list w)) \<and>
    remove_all_listeners w = Inr w'' \<and>
    filter (\<lambda>(i, l). isSmartSocket l) (listener_list w'') = filter (\<lambda>(i, l). isSmartSocket l) (listener_list w)"
proof -
  let ?s = "''killforward:'' @ nm"
  obtain i where f: "find (\<lambda>(i, l). local_name l = nm) (listener_list w) = Some (i, l)"
    using assms(2) by (auto simp: lookup_listener_def)
  then have m: "(i, l) \<in> set (listener_list w)" using find_listener [OF f] by simp
  obtain w1 where w1: "erase_listener i l w = Inr w1" "listener_list w1 = filter (\<lambda>x. fst x \<noteq> i) (listener_list w)"
    using erase_listener_ok [OF assms(1) m] by blast
  have k: "StartsWith ?s ''killforward:''" "drop 12 ?s = nm" by (simp_all add: StartsWith_def substr_def eval_nat_numeral)
  have sp: "Split nm '';'' = Inr [nm]" using split_ref_Join [of "[nm]" "CHR '';''"] assms(5) by (simp add: Split_eq)
  have "handle_forward_request listen ?s (Inr (Some t, e)) f w = Inr (True, forward_reply f nm INSTALL_STATUS_OK e 0 w1)"
    unfolding handle_forward_request_def using k sp assms(4) f w1(1) by (simp add: Let_def remove_listener_def)
  moreover have "length (filter (\<lambda>(i, l). isSmartSocket l) (listener_list w1)) < length (filter (\<lambda>(i, l). isSmartSocket l) (listener_list w))"
    using m assms(3) length_filter_less [of "(i, l)" "filter (\<lambda>(i, l). isSmartSocket l) (listener_list w)" "\<lambda>x. fst x \<noteq> i"]
    by (simp add: w1(2) conj_commute)
  moreover obtain w'' where "remove_all_listeners w = Inr w''" "listener_list w'' =
      filter (\<lambda>x. \<not> \<not> (case connect_to (snd x) of c # cs \<Rightarrow> c = CHR ''*'' | [] \<Rightarrow> False)) (listener_list w)"
    using erase_all_ok [OF assms(1)] unfolding remove_all_listeners_def remove_loop_erase by blast
  moreover have "filter (\<lambda>(i, l). isSmartSocket l) (filter (\<lambda>x. case connect_to (snd x) of c # cs \<Rightarrow> c = CHR ''*'' | [] \<Rightarrow> False) ls) =
      filter (\<lambda>(i, l). isSmartSocket l) ls" for ls :: "(nat \<times> alistener) list"
    by (induction ls) (auto simp: isSmartSocket_def kSmartSocketConnectTo_def)
  ultimately show ?thesis by simp
qed


theorem killforward_removes_smart_socket_witness:
  "\<exists>w'. handle_forward_request (\<lambda>_. Inr (4, 0)) ''killforward:tcp:5037'' (Inr (Some 7, [])) 9 empty_world = Inr (True, w') \<and>
     filter (\<lambda>(i, l). isSmartSocket l) (listener_list w') = []"
  using killforward_removes_smart_socket [OF empty_world_listeners, of "''tcp:5037''"
      "\<lparr>local_name = ''tcp:5037'', connect_to = kSmartSocketConnectTo, l_transport = None, l_fd = 3, l_enabled = True\<rparr>" "\<lambda>_. Inr (4, 0)" 7 "[]" 9]
  by (simp add: empty_world_def lookup_listener_def isSmartSocket_def) blast

end
