(* ===== verification/Socket_Frames.thy ===== *)
theory Socket_Frames
  imports Listeners
begin

text \<open>
  What socket operations leave alone: the forwarding table, and of every transport all but the flag
  that it has been kicked. The only way a socket reaches a transport is by sending a packet, and a
  failed send kicks.
\<close>

definition unkicked :: "atransport \<Rightarrow> atransport" where
  "unkicked a = a\<lparr>kicked := False, conn_stopped := False\<rparr>"

definition outside :: "world \<Rightarrow> (nat \<times> alistener) list \<times> nat \<times> (tptr \<Rightarrow> atransport option)" where
  "outside w = (listener_list w, next_lptr w, \<lambda>t. map_option unkicked (transports w t))"

named_theorems outside_intro \<open>operations that keep the outside\<close>

lemma unkicked_Kick [simp]: "unkicked (Kick a) = unkicked a"
  by (simp add: unkicked_def Kick_def)

lemma outside_upd [simp]:
  "outside (put_sock s so w) = outside w"
  "outside (w\<lparr>sockets := x1\<rparr>) = outside w"
  "outside (w\<lparr>local_socket_list := x2\<rparr>) = outside w"
  "outside (w\<lparr>local_socket_closing_list := x3\<rparr>) = outside w"
  "outside (w\<lparr>deferred := x4\<rparr>) = outside w"
  "outside (w\<lparr>tracker_info := x5\<rparr>) = outside w"
  "outside (w\<lparr>device_tracker_list := x6\<rparr>) = outside w"
  "outside (w\<lparr>sent := x7\<rparr>) = outside w"
  "outside (w\<lparr>fd_accept := x8\<rparr>) = outside w"
  "outside (w\<lparr>fd_out := x9\<rparr>) = outside w"
  "outside (remove_socket s w) = outside w"
  "outside (device_tracker_remove s w) = outside w"
  by (simp_all add: outside_def put_sock_def remove_socket_def device_tracker_remove_def)

lemma outside_Send [simp]:
  "outside (world_SendOkay f w) = outside w" "outside (world_SendFail f r w) = outside w"
  "outside (world_SendProtocolString f r w) = outside w"
  by (simp_all add: world_SendOkay_def world_SendFail_def world_SendProtocolString_def split: prod.splits)

lemma outside_put_transport: "transports w t = Some a \<Longrightarrow> unkicked b = unkicked a \<Longrightarrow> outside (put_transport t b w) = outside w"
  by (auto simp: outside_def put_transport_def fun_eq_iff)

lemma upd_sock_outside [outside_intro]: "upd_sock f s w = Inr w' \<Longrightarrow> outside w' = outside w"
  by (auto simp: upd_sock_def result_iff)

lemma delete_sock_outside [outside_intro]: "delete_sock s w = Inr w' \<Longrightarrow> outside w' = outside w"
  by (auto simp: delete_sock_def result_iff)

lemma send_packet_outside [outside_intro]: "send_packet p t w = Inr w' \<Longrightarrow> outside w' = outside w"
  by (auto simp: send_packet_def result_iff get_transport_def intro: outside_put_transport split: if_splits option.splits)

lemma send_ready_outside [outside_intro]: "send_ready a b t n w = Inr w' \<Longrightarrow> outside w' = outside w"
  by (auto simp: send_ready_def result_iff intro: outside_intro)

lemma shutdown_fn_unique [simp]: "(y :: shutdown_fn) = Remote_shutdown"
  by (cases y)

lemma call_shutdown_outside [outside_intro]: "call_shutdown s w = Inr w' \<Longrightarrow> outside w' = outside w"
  by (auto simp: call_shutdown_def remote_socket_shutdown_def result_iff intro: outside_intro split: option.splits shutdown_fn.splits)

lemma local_socket_destroy_outside [outside_intro]: "local_socket_destroy s w = Inr w' \<Longrightarrow> outside w' = outside w"
  by (auto simp: local_socket_destroy_def result_iff dest!: delete_sock_outside split: if_splits)

lemma local_socket_close_tail_outside [outside_intro]: "local_socket_close_tail s w = Inr w' \<Longrightarrow> outside w' = outside w"
  by (auto simp: local_socket_close_tail_def result_iff Let_def dest!: local_socket_destroy_outside split: if_splits)

lemma close_outside:
  "close_socket w s = Inr w' \<Longrightarrow> outside w' = outside w"
  "local_socket_close w s = Inr w' \<Longrightarrow> outside w' = outside w"
  "local_socket_close_notify w s = Inr w' \<Longrightarrow> outside w' = outside w"
  "remote_socket_close w s = Inr w' \<Longrightarrow> outside w' = outside w"
  "smart_socket_close w s = Inr w' \<Longrightarrow> outside w' = outside w"
  "device_tracker_close w s = Inr w' \<Longrightarrow> outside w' = outside w"
proof (induction w s and w s and w s and w s and w s and w s arbitrary: w' and w' and w' and w' and w' and w'
    rule: close_socket_local_socket_close_local_socket_close_notify_remote_socket_close_smart_socket_close_device_tracker_close.induct)
  case (1 w s)
  from "1.prems" obtain so where so: "get_sock w s = Inr so" by (auto simp: close_socket.simps result_iff)
  show ?case
  proof (cases "close_m so")
    case Local_close
    with so "1.prems" show ?thesis by (intro "1.IH"(1)) (simp_all add: close_socket.simps)
  next
    case Remote_close
    with so "1.prems" show ?thesis by (intro "1.IH"(2)) (simp_all add: close_socket.simps)
  next
    case Smart_close
    with so "1.prems" show ?thesis by (intro "1.IH"(3)) (simp_all add: close_socket.simps)
  next
    case Tracker_close
    with so "1.prems" show ?thesis by (intro "1.IH"(4)) (simp_all add: close_socket.simps)
  next
    case Local_close_notify
    with so "1.prems" show ?thesis by (intro "1.IH"(5)) (simp_all add: close_socket.simps)
  qed
next
  case (2 w s)
  from "2.prems" obtain so where so: "get_sock w s = Inr so" by (auto simp: local_socket_close.simps [of w s] result_iff)
  show ?case
  proof (cases "peer so")
    case None
    with "2.prems" so show ?thesis by (simp add: local_socket_close.simps [of w s] local_socket_close_tail_outside)
  next
    case (Some p)
    with "2.prems" so obtain w1 po w2 w3 where w: "call_shutdown p w = Inr w1" "get_sock w1 p = Inr po"
      "close_socket (put_sock p (po\<lparr>peer := None\<rparr>) w1) p = Inr w2" "upd_sock (\<lambda>so. so\<lparr>peer := None\<rparr>) s w2 = Inr w3"
      "local_socket_close_tail s w3 = Inr w'"
      by (auto simp: local_socket_close.simps [of w s] result_iff)
    show ?thesis
      using "2.IH" [OF so Some w(1,2,3)] call_shutdown_outside [OF w(1)] upd_sock_outside [OF w(4)]
        local_socket_close_tail_outside [OF w(5)] by simp
  qed
next
  case (3 w s)
  then show ?case by (auto simp: local_socket_close_notify.simps [of w s] result_iff)
next
  case (4 w s)
  then show ?case
    by (auto simp: remote_socket_close.simps [of w s] result_iff dest!: delete_sock_outside split: option.splits)
next
  case (5 w s)
  then show ?case
    by (auto simp: smart_socket_close.simps [of w s] result_iff dest!: delete_sock_outside upd_sock_outside split: option.splits)
next
  case (6 w s)
  then show ?case
    by (auto simp: device_tracker_close.simps [of w s] result_iff dest!: delete_sock_outside split: option.splits)
qed

lemma close_all_loop_outside: "close_all_loop n t w = Inr w' \<Longrightarrow> outside w' = outside w"
  by (induction n arbitrary: w) (fastforce simp: result_iff dest: close_outside(1) split: option.splits)+

lemma adb_writev_outside: "adb_writev f bs w = (r, w') \<Longrightarrow> outside w' = outside w"
  by (auto simp: adb_writev_def Let_def split: list.splits write_event.splits)

lemma flush_queue_outside:
  assumes "flush_queue so w = Inr (n, so', w')"
  shows "outside w' = outside w"
proof (cases "queued so = 0")
  case True
  with assms show ?thesis by (simp add: flush_queue_def)
next
  case False
  with assms obtain iov where i: "iovecs (packet_queue so) = Inr iov" by (auto simp: flush_queue_def result_iff)
  obtain r w1 where r: "adb_writev (fd so) (concat iov) w = (r, w1)" by fastforce
  have "w' = w1" using assms False i r by (cases r) (auto simp: flush_queue_def result_iff split: if_splits)
  with adb_writev_outside [OF r] show ?thesis by simp
qed

lemma bind_rE:
  assumes "bind_r m f = Inr y"
  obtains x where "m = Inr x" "f x = Inr y"
  using assms by (auto simp: result_iff)

lemma local_socket_flush_incoming_outside [outside_intro]:
  assumes "local_socket_flush_incoming s w = Inr (r, w')"
  shows "outside w' = outside w"
proof -
  from assms obtain so0 where g: "get_sock w s = Inr so0" by (auto simp: local_socket_flush_incoming_def result_iff)
  with assms obtain n so w0 where f: "flush_queue so0 w = Inr (n, so, w0)"
    by (auto simp: local_socket_flush_incoming_def result_iff)
  let ?w1 = "put_sock s so w0"
  from assms obtain w2 where ack: "(case sock_transport so of
        None \<Rightarrow> Inr ?w1
      | Some t \<Rightarrow> (case peer so of None \<Rightarrow> Inr ?w1 | Some p \<Rightarrow> bind_r (get_sock ?w1 p) (\<lambda>po.
          if available_send_bytes so \<noteq> None then send_ready (sid so) (sid po) t (of_nat n) ?w1
          else if n \<noteq> 0 \<and> queued so < MAX_PAYLOAD then send_ready (sid so) (sid po) t 0 ?w1
          else Inr ?w1))) = Inr w2"
    and fin: "(if closing so \<and> \<not> (queued so \<noteq> 0 \<and> \<not> has_write_error so)
        then bind_r (close_socket w2 s) (\<lambda>w3. Inr (Destroyed, w3))
        else if queued so \<noteq> 0 \<and> \<not> has_write_error so
        then bind_r (upd_sock (\<lambda>so. so\<lparr>fde_write := True\<rparr>) s w2) (\<lambda>w3. Inr (TryAgain, w3))
        else bind_r (upd_sock (\<lambda>so. so\<lparr>fde_write := False\<rparr>) s w2) (\<lambda>w3. Inr (Completed, w3))) = Inr (r, w')"
    unfolding local_socket_flush_incoming_def g f bind_r_simps prod.case Let_def by (erule bind_rE)
  have "outside w2 = outside w0"
    using ack by (auto simp: result_iff dest: send_ready_outside split: option.splits if_splits)
  moreover have "outside w' = outside w2"
    using fin by (auto simp: result_iff dest: close_outside(1) upd_sock_outside split: if_splits)
  ultimately show ?thesis using flush_queue_outside [OF f] by simp
qed

lemma local_socket_enqueue_outside [outside_intro]: "local_socket_enqueue s d w = Inr (r, w') \<Longrightarrow> outside w' = outside w"
  by (auto simp: local_socket_enqueue_def result_iff dest!: local_socket_flush_incoming_outside upd_sock_outside)

lemma enqueue_basic_outside [outside_intro]:
  assumes "enqueue_basic s d w = Inr (r, w')"
  shows "outside w' = outside w"
proof -
  obtain so where "get_sock w s = Inr so" using assms by (auto simp: enqueue_basic_def result_iff)
  with assms show ?thesis
    by (cases "enqueue_m so") (auto simp: enqueue_basic_def result_iff remote_socket_enqueue_def split: if_splits
        dest: local_socket_enqueue_outside send_packet_outside close_outside(6))
qed

lemma device_tracker_send_outside: "device_tracker_send s str w = Inr w' \<Longrightarrow> outside w' = outside w"
  by (auto simp: device_tracker_send_def result_iff dest: enqueue_basic_outside)

lemma notify_trackers_outside: "notify_trackers env ss w = Inr w' \<Longrightarrow> outside w' = outside w"
  by (induction ss arbitrary: w) (fastforce simp: result_iff dest: device_tracker_send_outside split: option.splits)+

lemma update_transports_outside [outside_intro]: "update_transports env w = Inr w' \<Longrightarrow> outside w' = outside w"
  by (simp add: update_transports_def notify_trackers_outside)

lemma call_ready_outside [outside_intro]:
  assumes "call_ready env s w = Inr w'"
  shows "outside w' = outside w"
proof -
  obtain so where "get_sock w s = Inr so" using assms by (auto simp: call_ready_def result_iff)
  with assms show ?thesis
    by (cases "ready_m so")
       (auto simp: call_ready_def result_iff local_socket_ready_def local_socket_ready_notify_def remote_socket_ready_def
         device_tracker_ready_def Let_def split: option.splits if_splits
         dest: upd_sock_outside send_packet_outside device_tracker_send_outside)
qed

lemma local_socket_ack_outside [outside_intro]:
  assumes "local_socket_ack env s a w = Inr w'"
  shows "outside w' = outside w"
proof -
  obtain so where "get_sock w s = Inr so" using assms by (auto simp: local_socket_ack_def result_iff)
  with assms show ?thesis
    by (cases "available_send_bytes so"; cases a)
       (auto simp: local_socket_ack_def Let_def split: if_splits dest: call_ready_outside)
qed

text \<open>The forwarding table's invariant only looks at the outside.\<close>

lemma unkicked_fields:
  "disconnects (unkicked a) = disconnects a" "connection_state (unkicked a) = connection_state a" "online (unkicked a) = online a"
  "delayed_ack (unkicked a) = delayed_ack a" "reverse_forwards (unkicked a) = reverse_forwards a" "use_tls (unkicked a) = use_tls a"
  "max_payload (unkicked a) = max_payload a"
  by (simp_all add: unkicked_def)

lemma outside_transport:
  assumes "outside w' = outside w" "transports w t = Some a"
  obtains b where "transports w' t = Some b" "unkicked b = unkicked a"
  using assms by (auto simp: outside_def fun_eq_iff) (metis (no_types, lifting) map_option_eq_Some option.simps(9))

lemma outside_listeners_ok:
  assumes "outside w' = outside w"
  shows "listeners_ok w' = listeners_ok w"
proof -
  have m: "map_option unkicked (transports w' t) = map_option unkicked (transports w t)" for t
    using assms by (auto simp: outside_def fun_eq_iff)
  have "callbacks v t = (case map_option unkicked (transports v t) of None \<Rightarrow> [] | Some a \<Rightarrow> disconnects a)" for v t
    by (auto simp: callbacks_def unkicked_fields split: option.splits)
  then have "callbacks w' t = callbacks w t" for t using m [of t] by metis
  then have "callbacks w' = callbacks w" by (simp add: fun_eq_iff)
  moreover have "transports w' t = None \<longleftrightarrow> transports w t = None" for t using m [of t] by auto
  moreover have "listener_list w' = listener_list w" "next_lptr w' = next_lptr w" using assms by (simp_all add: outside_def)
  ultimately show ?thesis by (simp add: listeners_ok_def)
qed

end
