(* ===== verification/Packet_Handler.thy ===== *)
theory Packet_Handler
  imports Socket_Frames
begin

text \<open>
  The packets a device sends (\<open>adb.cpp: handle_packet\<close> and what it calls), authentication
  (\<open>client/auth.cpp\<close>), and the life of a transport around them: registration, errors, destruction
  (\<open>transport.cpp\<close>). The signature of a token is \<open>adb_auth_sign\<close> of the environment.
\<close>

section \<open>Going online and offline\<close>

definition handle_online :: "tptr \<Rightarrow> world \<Rightarrow> world result" where
  "handle_online t w = upd_transport (\<lambda>a. SetConnectionEstablished True (a\<lparr>online := True\<rparr>)) t w"

definition handle_offline :: "environment \<Rightarrow> tptr \<Rightarrow> world \<Rightarrow> world result" where
  "handle_offline env t w =
     bind_r (get_transport w t) (\<lambda>a.
       if connection_state a = kCsOffline then Inr w
       else
         bind_r (SetConnectionState env t kCsOffline w) (\<lambda>w1.
         bind_r (upd_transport (\<lambda>a. a\<lparr>online := False\<rparr>) t w1) (\<lambda>w2.
         bind_r (close_all_sockets t w2) (\<lambda>w3.
           RunDisconnects t w3))))"

definition world_parse_banner :: "environment \<Rightarrow> string \<Rightarrow> tptr \<Rightarrow> world \<Rightarrow> world result" where
  "world_parse_banner env banner t w =
     bind_r (get_transport w t) (\<lambda>a.
     bind_r (parse_banner banner a) (\<lambda>(a1, st). SetConnectionState env t st (put_transport t a1 w)))"

definition handle_new_connection :: "environment \<Rightarrow> apacket \<Rightarrow> tptr \<Rightarrow> world \<Rightarrow> world result" where
  "handle_new_connection env p t w =
     bind_r (handle_offline env t w) (\<lambda>w1.
     bind_r (upd_transport (update_version (arg0 (msg p)) (arg1 (msg p))) t w1) (\<lambda>w2.
     bind_r (world_parse_banner env (payload p) t w2) (\<lambda>w3.
       handle_online t w3)))"

section \<open>Authentication\<close>

definition ADB_AUTH_TOKEN :: u32 where "ADB_AUTH_TOKEN = 1"
definition ADB_AUTH_SIGNATURE :: u32 where "ADB_AUTH_SIGNATURE = 2"
definition ADB_AUTH_RSAPUBLICKEY :: u32 where "ADB_AUTH_RSAPUBLICKEY = 3"

definition send_auth_publickey :: "environment \<Rightarrow> tptr \<Rightarrow> world \<Rightarrow> world result" where
  "send_auth_publickey env t w =
     (if public_key env = [] then Inr w
      else if length (public_key env) \<ge> MAX_PAYLOAD_V1 then Inr w
      else send_packet (make_packet A_AUTH ADB_AUTH_RSAPUBLICKEY 0 (public_key env @ [CHR 0x00])) (Some t) w)"

definition send_auth_response :: "environment \<Rightarrow> string \<Rightarrow> tptr \<Rightarrow> world \<Rightarrow> world result" where
  "send_auth_response env token t w =
     bind_r (get_transport w t) (\<lambda>a.
     bind_r (NextKey (private_keys env) a) (\<lambda>(key, a1).
       let w1 = put_transport t a1 w
       in (case key of
             None \<Rightarrow>
               bind_r (SetConnectionState env t kCsUnauthorized w1) (\<lambda>w2.
               bind_r (upd_transport (SetConnectionEstablished True) t w2) (\<lambda>w3.
                 send_auth_publickey env t w3))
           | Some k \<Rightarrow>
               let result = auth_sign env k token
               in if result = [] then Inr w1
                  else send_packet (make_packet A_AUTH ADB_AUTH_SIGNATURE 0 result) (Some t) w1)))"

text \<open>
  The thread \<open>adb_auth_tls_handshake\<close> starts; \<open>success\<close> is the result of the TLS library's handshake.
\<close>

definition adb_auth_tls_handshake :: "environment \<Rightarrow> bool \<Rightarrow> tptr \<Rightarrow> world \<Rightarrow> world result" where
  "adb_auth_tls_handshake env success t w =
     bind_r (get_transport w t) (\<lambda>a.
     bind_r (case Key a of
               Some k \<Rightarrow> Inr w
             | None \<Rightarrow> bind_r (NextKey (private_keys env) a) (\<lambda>(key, a1).
                         bind_r (check_r (key \<noteq> None) ''key'') (\<lambda>_. Inr (put_transport t a1 w)))) (\<lambda>w1.
       if success then Inr w1 else upd_transport Kick t w1))"

section \<open>Packets\<close>

text \<open>
  \<open>IsReverseConfigured\<close> is called with \<open>address.data()\<close>: a C string that starts at the payload. It
  ends at the first NUL, which may lie beyond the payload; an empty payload has no storage at all.
\<close>

definition payload_c_str :: "string \<Rightarrow> string result" where
  "payload_c_str pl =
     (if pl = [] then Inl (StdException ''basic_string: construction from null is not valid'')
      else if CHR 0x00 \<in> set pl then Inr (c_str pl)
      else Inl OutOfBounds)"

definition attach_remote :: "u32 \<Rightarrow> tptr \<Rightarrow> sptr \<Rightarrow> world \<Rightarrow> world result" where
  "attach_remote rid t s w =
     bind_r (create_remote_socket rid t w) (\<lambda>(r, w1).
     bind_r (upd_sock (\<lambda>so. so\<lparr>peer := Some r\<rparr>) s w1) (\<lambda>w2.
       upd_sock (\<lambda>so. so\<lparr>peer := Some s\<rparr>) r w2))"

definition handle_open :: "environment \<Rightarrow> apacket \<Rightarrow> tptr \<Rightarrow> world \<Rightarrow> world result" where
  "handle_open env p t w =
     bind_r (get_transport w t) (\<lambda>a.
       if \<not> online a \<or> arg0 (msg p) = 0 then Inr w
       else if delayed_ack a \<noteq> (arg1 (msg p) \<noteq> 0) then send_close 0 (arg0 (msg p)) t w
       else
         bind_r (payload_c_str (payload p)) (\<lambda>addr.
           if \<not> IsReverseConfigured addr a then Inl (FatalLog ''disallowed connect'')
           else
             bind_r (create_local_service_socket t w) (\<lambda>(sp, w1).
               (case sp of
                  None \<Rightarrow> send_close 0 (arg0 (msg p)) t w1
                | Some s \<Rightarrow>
                    bind_r (attach_remote (arg0 (msg p)) t s w1) (\<lambda>w2.
                    bind_r (get_sock w2 s) (\<lambda>so.
                    bind_r (if delayed_ack a
                            then send_ready (sid so) (arg0 (msg p)) t (of_nat (delayed_ack_window w2))
                                   (put_sock s (so\<lparr>available_send_bytes := Some (uint (arg1 (msg p)))\<rparr>) w2)
                            else send_ready (sid so) (arg0 (msg p)) t 0 w2) (\<lambda>w3.
                      call_ready env s w3)))))))"

definition acked_bytes :: "string \<Rightarrow> int option" where
  "acked_bytes pl = (if length pl = 4 then Some (sint (le32_decode pl)) else None)"

definition handle_okay :: "environment \<Rightarrow> apacket \<Rightarrow> tptr \<Rightarrow> world \<Rightarrow> world result" where
  "handle_okay env p t w =
     bind_r (get_transport w t) (\<lambda>a.
       if \<not> (online a \<and> arg0 (msg p) \<noteq> 0 \<and> arg1 (msg p) \<noteq> 0) then Inr w
       else
         bind_r (find_local_socket (arg1 (msg p)) 0 w) (\<lambda>sp.
           (case sp of
              None \<Rightarrow> send_close (arg1 (msg p)) (arg0 (msg p)) t w
            | Some s \<Rightarrow>
                if length (payload p) \<noteq> 4 \<and> length (payload p) \<noteq> 0 then Inr w
                else
                  bind_r (get_sock w s) (\<lambda>so.
                    (case peer so of
                       None \<Rightarrow>
                         bind_r (attach_remote (arg0 (msg p)) t s w) (\<lambda>w1.
                         bind_r (local_socket_ack env s (acked_bytes (payload p)) w1) (\<lambda>w2.
                           call_ready env s w2))
                     | Some q \<Rightarrow>
                         bind_r (get_sock w q) (\<lambda>qo.
                           if sid qo = arg0 (msg p) then local_socket_ack env s (acked_bytes (payload p)) w
                           else Inr w))))))"

definition handle_clse :: "apacket \<Rightarrow> tptr \<Rightarrow> world \<Rightarrow> world result" where
  "handle_clse p t w =
     bind_r (get_transport w t) (\<lambda>a.
       if \<not> (online a \<and> arg1 (msg p) \<noteq> 0) then Inr w
       else
         bind_r (find_local_socket (arg1 (msg p)) (arg0 (msg p)) w) (\<lambda>sp.
           (case sp of
              None \<Rightarrow> Inr w
            | Some s \<Rightarrow>
                bind_r (get_sock w s) (\<lambda>so.
                bind_r (case peer so of
                          None \<Rightarrow> Inr False
                        | Some q \<Rightarrow> bind_r (get_sock w q) (\<lambda>qo. Inr (sock_transport qo \<noteq> Some t))) (\<lambda>foreign.
                  if arg0 (msg p) = 0 \<and> foreign then Inr w else close_socket w s)))))"

definition handle_wrte :: "apacket \<Rightarrow> tptr \<Rightarrow> world \<Rightarrow> world result" where
  "handle_wrte p t w =
     bind_r (get_transport w t) (\<lambda>a.
       if \<not> (online a \<and> arg0 (msg p) \<noteq> 0 \<and> arg1 (msg p) \<noteq> 0) then Inr w
       else
         bind_r (find_local_socket (arg1 (msg p)) (arg0 (msg p)) w) (\<lambda>sp.
           (case sp of
              None \<Rightarrow> Inr w
            | Some s \<Rightarrow> bind_r (enqueue_basic s (payload p) w) (\<lambda>(r, w1). Inr w1))))"

definition handle_auth :: "environment \<Rightarrow> apacket \<Rightarrow> tptr \<Rightarrow> world \<Rightarrow> world result" where
  "handle_auth env p t w =
     bind_r (get_transport w t) (\<lambda>a.
       if use_tls a then Inr w
       else if arg0 (msg p) = ADB_AUTH_TOKEN then
         bind_r (if connection_state a \<noteq> kCsAuthorizing then SetConnectionState env t kCsAuthorizing w else Inr w) (\<lambda>w1.
           send_auth_response env (payload p) t w1)
       else bind_r (SetConnectionState env t kCsOffline w) (\<lambda>w1. handle_offline env t w1))"

definition handle_packet :: "environment \<Rightarrow> apacket \<Rightarrow> tptr \<Rightarrow> world \<Rightarrow> world result" where
  "handle_packet env p t w =
     bind_r (check_r (length (payload p) = unat (data_length (msg p))) ''p->payload.size() == p->msg.data_length'') (\<lambda>_.
       let c = command (msg p)
       in if c = A_CNXN then handle_new_connection env p t w
          else if c = A_STLS then bind_r (upd_transport (\<lambda>a. a\<lparr>use_tls := True\<rparr>) t w) (send_tls_request t)
          else if c = A_AUTH then handle_auth env p t w
          else if c = A_OPEN then handle_open env p t w
          else if c = A_OKAY then handle_okay env p t w
          else if c = A_CLSE then handle_clse p t w
          else if c = A_WRTE then handle_wrte p t w
          else Inr w)"

section \<open>The life of a transport\<close>

definition HandleRead :: "environment \<Rightarrow> apacket \<Rightarrow> tptr \<Rightarrow> world \<Rightarrow> (bool \<times> world) result" where
  "HandleRead env p t w =
     bind_r (get_transport w t) (\<lambda>a.
       if \<not> check_header p (max_payload a) then Inr (False, w)
       else bind_r (handle_packet env p t w) (\<lambda>w1. Inr (True, w1)))"

definition IsTcpDevice :: "atransport \<Rightarrow> bool" where
  "IsTcpDevice a \<longleftrightarrow> t_type a = kTransportLocal"

datatype destroy_outcome = Reconnecting | Removed

text \<open>\<open>transport_destroy\<close>: a TCP device that nobody kicked is handed to the reconnect handler.\<close>

definition transport_destroy :: "tptr \<Rightarrow> world \<Rightarrow> (destroy_outcome \<times> world) result" where
  "transport_destroy t w =
     bind_r (upd_transport (\<lambda>a. a\<lparr>conn_stopped := True\<rparr>) t w) (\<lambda>w1.
     bind_r (get_transport w1 t) (\<lambda>a.
       if IsTcpDevice a \<and> \<not> kicked a then Inr (Reconnecting, put_transport t (ResetKeys a) w1)
       else Inr (Removed, w1\<lparr>run_queue := run_queue w1 @ [Unregister_task t]\<rparr>)))"

definition HandleError :: "environment \<Rightarrow> tptr \<Rightarrow> world \<Rightarrow> (destroy_outcome \<times> world) result" where
  "HandleError env t w = bind_r (handle_offline env t w) (transport_destroy t)"

definition fdevent_unregister_transport :: "environment \<Rightarrow> tptr \<Rightarrow> world \<Rightarrow> world result" where
  "fdevent_unregister_transport env t w =
     bind_r (get_transport w t) (\<lambda>_.
       update_transports env
         (w\<lparr>transports := (transports w)(t := None), transport_list := filter (\<lambda>x. x \<noteq> t) (transport_list w)\<rparr>))"

definition fdevent_register_transport :: "environment \<Rightarrow> bool \<Rightarrow> tptr \<Rightarrow> world \<Rightarrow> world result" where
  "fdevent_register_transport env start_detached t w =
     bind_r (get_transport w t) (\<lambda>a.
     bind_r (if connection_state a = kCsNoPerm then Inr w
             else if t_type a = kTransportUsb \<and> start_detached then SetConnectionState env t kCsDetached w
             else send_connect t w) (\<lambda>w1.
       update_transports env
         (if t \<in> set (pending_list w1)
          then w1\<lparr>pending_list := filter (\<lambda>x. x \<noteq> t) (pending_list w1), transport_list := t # transport_list w1\<rparr>
          else w1)))"

section \<open>The invariant of the server\<close>

definition server_ok :: "world \<Rightarrow> bool" where
  "server_ok w \<longleftrightarrow> heap_ok w \<and> listeners_ok w"

text \<open>An operation that runs through, keeps the invariant and deallocates no transport.\<close>

definition safe :: "world \<Rightarrow> world result \<Rightarrow> bool" where
  "safe w r \<longleftrightarrow> (\<exists>w'. r = Inr w' \<and> server_ok w' \<and> (\<forall>u. transports w u \<noteq> None \<longrightarrow> transports w' u \<noteq> None))"

lemma safe_Inr [simp]: "server_ok w \<Longrightarrow> safe w (Inr w)"
  by (simp add: safe_def)

lemma safe_bind:
  assumes "safe w m" "\<And>w'. m = Inr w' \<Longrightarrow> server_ok w' \<Longrightarrow> (\<forall>u. transports w u \<noteq> None \<longrightarrow> transports w' u \<noteq> None) \<Longrightarrow> safe w' (f w')"
  shows "safe w (bind_r m f)"
proof -
  obtain w' where w': "m = Inr w'" "server_ok w'" "\<forall>u. transports w u \<noteq> None \<longrightarrow> transports w' u \<noteq> None"
    using assms(1) unfolding safe_def by blast
  from assms(2) [OF this] w' show ?thesis unfolding safe_def by auto
qed

lemma same_heap_transports: "same_heap w w' \<Longrightarrow> \<forall>u. transports w u \<noteq> None \<longrightarrow> transports w' u \<noteq> None"
  by (simp only: same_heap_def) blast

lemma safe_mild:
  assumes "listeners_ok w" "heap_ok w'" "same_heap w w'" "outside w' = outside w"
  shows "safe w (Inr w')"
  using assms outside_listeners_ok [OF assms(4)] same_heap_transports [OF assms(3)] unfolding safe_def server_ok_def by blast

lemma safe_same_struct:
  assumes "server_ok w" "r = Inr w'" "same_struct w w'" "outside w' = outside w"
  shows "safe w r"
  using safe_mild [of w w'] assms heap_ok_same_struct [OF _ assms(3)] by (simp add: server_ok_def same_struct_def)

lemma put_transport_listeners:
  assumes "listeners_ok w" "transports w t = Some a" "disconnects b = disconnects a"
  shows "listeners_ok (put_transport t b w)"
proof -
  have "callbacks (put_transport t b w) = callbacks w"
    using assms by (auto simp: callbacks_def put_transport_def fun_eq_iff)
  then show ?thesis using assms(1,2) by (auto simp: listeners_ok_def put_transport_def)
qed

lemma server_ok_put_transport:
  assumes "server_ok w" "transports w t = Some a" "disconnects b = disconnects a"
  shows "server_ok (put_transport t b w)"
  using assms put_transport_listeners [OF _ assms(2,3)] heap_ok_same_struct [OF _ put_transport_same [of w t b]]
  by (auto simp: server_ok_def)

lemma safe_put_transport: "safe (put_transport t b w) r \<Longrightarrow> safe w r"
  by (auto simp: safe_def put_transport_def)

lemma upd_transport_safe:
  assumes "server_ok w" "transports w t \<noteq> None" "\<And>a. disconnects (f a) = disconnects a"
  shows "safe w (upd_transport f t w)"
proof -
  obtain a where a: "transports w t = Some a" using assms(2) by auto
  from server_ok_put_transport [OF assms(1) a assms(3)] a show ?thesis
    by (simp add: safe_def upd_transport_def get_transport_def put_transport_def)
qed

lemma send_packet_safe:
  assumes "server_ok w" "transports w t \<noteq> None"
  shows "safe w (send_packet (make_packet c a0 a1 d) (Some t) w)"
proof -
  obtain w' where "send_packet (make_packet c a0 a1 d) (Some t) w = Inr w'" "same_struct w w'"
    using send_packet_same [OF assms(2)] by blast
  then show ?thesis using safe_same_struct [OF assms(1)] send_packet_outside by blast
qed

lemma send_ready_safe: "server_ok w \<Longrightarrow> transports w t \<noteq> None \<Longrightarrow> safe w (send_ready a b t n w)"
  using send_packet_safe by (auto simp: send_ready_def get_transport_def)

lemma SetConnectionState_safe:
  assumes "server_ok w" "transports w t \<noteq> None"
  shows "safe w (SetConnectionState env t st w)"
proof -
  obtain a where a: "transports w t = Some a" using assms by auto
  let ?w = "put_transport t (a\<lparr>connection_state := st\<rparr>) w"
  have ok: "server_ok ?w" using server_ok_put_transport [OF assms(1) a] by simp
  then obtain w' where w': "update_transports env ?w = Inr w'" "heap_ok w'" "mild ?w w'"
    using update_transports_spec by (auto simp: server_ok_def)
  have "safe ?w (Inr w')"
    using safe_mild [of ?w w'] ok w' update_transports_outside [OF w'(1)] by (simp add: server_ok_def mild_def)
  with a w'(1) show ?thesis by (auto simp: safe_def SetConnectionState_def get_transport_def put_transport_def)
qed

lemma close_all_sockets_safe:
  assumes "server_ok w"
  shows "safe w (close_all_sockets t w)"
proof -
  obtain w' where w': "close_all_sockets t w = Inr w'" "heap_ok w'" "same_heap w w'"
    using close_all_loop_spec [of w "Suc (length (local_socket_list w))" t] assms
    by (auto simp: close_all_sockets_def server_ok_def)
  have "outside w' = outside w" using w'(1) close_all_loop_outside unfolding close_all_sockets_def by blast
  with safe_mild [of w w'] assms w' show ?thesis by (simp add: server_ok_def)
qed

lemma RunDisconnects_safe:
  assumes "server_ok w" "transports w t \<noteq> None"
  shows "safe w (RunDisconnects t w)"
proof -
  obtain w' where "RunDisconnects t w = Inr w'" "same_struct w w'" "listeners_ok w'"
    using RunDisconnects_ok [of w t] assms by (auto simp: server_ok_def)
  moreover from this have "heap_ok w'" "same_heap w w'" using assms(1) heap_ok_same_struct by (auto simp: server_ok_def same_struct_def)
  ultimately show ?thesis using same_heap_transports unfolding safe_def server_ok_def by blast
qed

lemma handle_offline_safe:
  assumes "server_ok w" "transports w t \<noteq> None"
  shows "safe w (handle_offline env t w)"
proof -
  obtain a where a: "transports w t = Some a" using assms by auto
  have "safe w (bind_r (SetConnectionState env t kCsOffline w) (\<lambda>w1.
         bind_r (upd_transport (\<lambda>a. a\<lparr>online := False\<rparr>) t w1) (\<lambda>w2.
         bind_r (close_all_sockets t w2) (\<lambda>w3. RunDisconnects t w3))))"
    by (intro safe_bind SetConnectionState_safe upd_transport_safe close_all_sockets_safe RunDisconnects_safe)
       (use assms in auto)
  with a assms(1) show ?thesis by (simp add: handle_offline_def get_transport_def)
qed

section \<open>Each packet\<close>

lemma Split_total: "ds \<noteq> [] \<Longrightarrow> \<exists>ps. Split s ds = Inr ps"
  by (simp add: Split_def)

lemma SetFeatures_total: "\<exists>a'. SetFeatures fs a = Inr a' \<and> disconnects a' = disconnects a"
  using Split_eq [of "'',''" fs] by (simp add: SetFeatures_def StringToFeatureSet_def)

lemma banner_prop_total: "\<exists>a'. banner_prop p a = Inr a' \<and> disconnects a' = disconnects a"
proof -
  obtain kv where "Split p ''='' = Inr kv" using Split_total [of "''=''"] by blast
  then show ?thesis using SetFeatures_total [of _ a] by (auto simp: banner_prop_def split: list.splits)
qed

lemma banner_props_total: "\<exists>a'. banner_props ps a = Inr a' \<and> disconnects a' = disconnects a"
proof (induction ps arbitrary: a)
  case (Cons p ps)
  obtain a1 where "banner_prop p a = Inr a1" "disconnects a1 = disconnects a" using banner_prop_total by blast
  with Cons.IH [of a1] show ?case by auto
qed simp

lemma parse_banner_total: "\<exists>a' st. parse_banner b a = Inr (a', st) \<and> disconnects a' = disconnects a"
proof -
  obtain x xs where p: "Split b '':'' = Inr (x # xs)"
    using Split_eq [of "'':''" b] split_ref_not_Nil [of "\<lambda>c. c \<in> set '':''" b]
    by (cases "split_ref (\<lambda>c. c \<in> set '':'') b") auto
  obtain a1 where a1: "SetFeatures [] a = Inr a1" "disconnects a1 = disconnects a" using SetFeatures_total by blast
  show ?thesis
  proof (cases "length (x # xs) > 2")
    case True
    obtain ps where ps: "Split ((x # xs) ! 2) '';'' = Inr ps" using Split_total [of "'';''"] by blast
    obtain a2 where "banner_props ps a1 = Inr a2" "disconnects a2 = disconnects a1" using banner_props_total by blast
    with True p a1 ps show ?thesis by (simp add: parse_banner_def)
  next
    case False
    with p a1 show ?thesis by (simp add: parse_banner_def)
  qed
qed

lemma world_parse_banner_safe:
  assumes "server_ok w" "transports w t \<noteq> None"
  shows "safe w (world_parse_banner env b t w)"
proof -
  obtain a where a: "transports w t = Some a" using assms by auto
  obtain a1 st where a1: "parse_banner b a = Inr (a1, st)" "disconnects a1 = disconnects a" using parse_banner_total by blast
  let ?w = "put_transport t a1 w"
  have "safe ?w (SetConnectionState env t st ?w)"
    by (rule SetConnectionState_safe [OF server_ok_put_transport [OF assms(1) a a1(2)]]) (simp add: put_transport_def)
  with a a1(1) have "safe ?w (world_parse_banner env b t w)" by (simp add: world_parse_banner_def get_transport_def)
  then show ?thesis by (rule safe_put_transport)
qed

lemma handle_new_connection_safe:
  assumes "server_ok w" "transports w t \<noteq> None"
  shows "safe w (handle_new_connection env p t w)"
  unfolding handle_new_connection_def handle_online_def
  by (intro safe_bind handle_offline_safe world_parse_banner_safe upd_transport_safe)
     (use assms in \<open>auto simp: update_version_def SetConnectionEstablished_def\<close>)

lemma send_auth_publickey_safe:
  "server_ok w \<Longrightarrow> transports w t \<noteq> None \<Longrightarrow> safe w (send_auth_publickey env t w)"
  by (simp add: send_auth_publickey_def send_packet_safe)

lemma NextKey_total: "ks \<noteq> [] \<Longrightarrow> \<exists>key a1. NextKey ks a = Inr (key, a1) \<and> disconnects a1 = disconnects a"
  by (simp add: NextKey_def check_r_def Let_def)

lemma send_auth_response_safe:
  assumes "server_ok w" "transports w t \<noteq> None" "private_keys env \<noteq> []"
  shows "safe w (send_auth_response env token t w)"
proof -
  obtain a where a: "transports w t = Some a" using assms by auto
  obtain key a1 where k: "NextKey (private_keys env) a = Inr (key, a1)" "disconnects a1 = disconnects a"
    using NextKey_total [OF assms(3)] by blast
  let ?w = "put_transport t a1 w"
  have ok: "server_ok ?w" "transports ?w t \<noteq> None" using server_ok_put_transport [OF assms(1) a k(2)] by (simp_all add: put_transport_def)
  have "safe ?w (bind_r (SetConnectionState env t kCsUnauthorized ?w) (\<lambda>w2.
      bind_r (upd_transport (SetConnectionEstablished True) t w2) (\<lambda>w3. send_auth_publickey env t w3)))"
    by (intro safe_bind SetConnectionState_safe upd_transport_safe send_auth_publickey_safe)
       (use ok in \<open>auto simp: SetConnectionEstablished_def\<close>)
  then have "safe ?w (send_auth_response env token t w)"
    using ok a k send_packet_safe [OF ok] by (cases key) (simp_all add: send_auth_response_def get_transport_def Let_def)
  then show ?thesis by (rule safe_put_transport)
qed

lemma handle_auth_safe:
  assumes "server_ok w" "transports w t \<noteq> None" "private_keys env \<noteq> []"
  shows "safe w (handle_auth env p t w)"
proof -
  obtain a where a: "transports w t = Some a" using assms by auto
  have "safe w (bind_r (if connection_state a \<noteq> kCsAuthorizing then SetConnectionState env t kCsAuthorizing w else Inr w)
      (send_auth_response env (payload p) t))"
    by (intro safe_bind send_auth_response_safe) (use assms SetConnectionState_safe in auto)
  moreover have "safe w (bind_r (SetConnectionState env t kCsOffline w) (handle_offline env t))"
    by (intro safe_bind handle_offline_safe SetConnectionState_safe) (use assms in auto)
  ultimately show ?thesis using a assms(1) by (simp add: handle_auth_def get_transport_def)
qed

text \<open>\<open>answers\<close> names a local socket that is not closing.\<close>

lemma answersE:
  assumes "answers w i j s"
  obtains so where "sockets w s = Some so" "is_local so" "\<not> closing so" "sid so = i"
  using assms unfolding answers_def by (cases "sockets w s") auto

lemma attach_remote_spec:
  assumes "server_ok w" "sockets w s = Some so" "is_local so" "\<not> closing so" "peer so = None" "rid \<noteq> 0" "transports w t \<noteq> None"
  shows "\<exists>w'. attach_remote rid t s w = Inr w' \<and> server_ok w' \<and> sockets w' s = Some (so\<lparr>peer := Some (next_sptr w)\<rparr>) \<and>
    transports w' = transports w \<and> outside w' = outside w \<and> delayed_ack_window w' = delayed_ack_window w"
proof -
  let ?b = "(new_asocket Remote_enqueue Remote_ready (Some Remote_shutdown) Remote_close)\<lparr>sid := rid, sock_transport := Some t\<rparr>"
  let ?w = "with_peer s so ?b w"
  have h: "heap_ok w" using assms(1) by (simp add: server_ok_def)
  have ns: "next_sptr w \<noteq> s" using fresh_sptr [OF h] assms(2) by auto
  have "object_ok ?b" using assms(6) by (simp add: object_ok_def methods_ok_def new_asocket_def)
  then have "heap_ok ?w"
    using heap_ok_with_peer [OF h assms(2-5), of ?b] assms(7) by (simp add: new_asocket_def)
  moreover have o: "outside ?w = outside w" by (simp add: outside_def with_peer_def)
  ultimately have "server_ok ?w" using outside_listeners_ok [OF o] assms(1) by (simp add: server_ok_def)
  moreover have "attach_remote rid t s w = Inr ?w"
    using assms(2,6) ns
    by (simp add: attach_remote_def create_remote_socket_def new_sock_def upd_sock_def get_sock_def put_sock_def with_peer_def
        fun_upd_twist)
  ultimately show ?thesis using o by (simp add: with_peer_def)
qed

lemma call_ready_safe:
  assumes "server_ok w" "sockets w s = Some so" "is_local so" "\<not> closing so"
  shows "\<exists>w'. call_ready env s w = Inr w' \<and> server_ok w' \<and> same_heap w w' \<and> still_there so s w'"
  using call_ready_local [of w s so env] call_ready_outside [of env s w] outside_listeners_ok assms
  unfolding server_ok_def by blast

lemma local_socket_ack_safe:
  assumes "server_ok w" "sockets w s = Some so" "is_local so" "\<not> closing so"
  shows "\<exists>w'. local_socket_ack env s a w = Inr w' \<and> server_ok w' \<and> same_heap w w' \<and> still_there so s w'"
  using local_socket_ack_spec [of w s so env a] local_socket_ack_outside [of env s a w] outside_listeners_ok assms
  unfolding server_ok_def by blast

lemma safeI: "r = Inr w' \<Longrightarrow> server_ok w' \<Longrightarrow> same_heap w w' \<Longrightarrow> safe w r"
  using same_heap_transports unfolding safe_def by blast

lemma found_socket:
  assumes "server_ok w"
  obtains (missing) "find_local_socket i j w = Inr None"
    | (found) s so where "find_local_socket i j w = Inr (Some s)" "answers w i j s" "sockets w s = Some so" "is_local so" "\<not> closing so"
proof -
  obtain r where r: "find_local_socket i j w = Inr r" "\<forall>s. r = Some s \<longleftrightarrow> answers w i j s"
    using find_local_socket_spec assms unfolding server_ok_def by blast
  show ?thesis
  proof (cases r)
    case None
    with r(1) missing show ?thesis by simp
  next
    case (Some s)
    then have ans: "answers w i j s" using r(2) by metis
    then obtain so where "sockets w s = Some so" "is_local so" "\<not> closing so" by (rule answersE)
    with found [OF _ ans] r(1) Some show ?thesis by simp
  qed
qed

text \<open>The first and the later acknowledgements of a socket.\<close>

lemma okay_first:
  assumes "server_ok w" "transports w t \<noteq> None" "sockets w s = Some so" "is_local so" "\<not> closing so" "peer so = None" "rid \<noteq> 0"
  shows "safe w (bind_r (attach_remote rid t s w) (\<lambda>w1. bind_r (local_socket_ack env s n w1) (call_ready env s)))"
proof -
  obtain w1 where w1: "attach_remote rid t s w = Inr w1" "server_ok w1" "sockets w1 s = Some (so\<lparr>peer := Some (next_sptr w)\<rparr>)"
    "transports w1 = transports w"
    using attach_remote_spec [OF assms(1,3-7,2)] by blast
  obtain w2 where w2: "local_socket_ack env s n w1 = Inr w2" "server_ok w2" "same_heap w1 w2"
    "still_there (so\<lparr>peer := Some (next_sptr w)\<rparr>) s w2"
    using local_socket_ack_safe [OF w1(2,3)] assms(4,5) by auto
  obtain so2 where "sockets w2 s = Some so2" "is_local so2" "\<not> closing so2" using w2(4) assms(5) by (auto simp: still_there_def)
  then obtain w3 where w3: "call_ready env s w2 = Inr w3" "server_ok w3" "same_heap w2 w3"
    using call_ready_safe [OF w2(2)] by blast
  have "safe w1 (Inr w3)" using safeI [OF refl w3(2) same_heap_trans [OF w2(3) w3(3)]] .
  then show ?thesis using w1 w2(1) w3(1) by (simp add: safe_def)
qed

lemma okay_again:
  assumes "server_ok w" "sockets w s = Some so" "is_local so" "\<not> closing so"
  shows "safe w (local_socket_ack env s n w)"
  using local_socket_ack_safe [OF assms, of env n] safeI by blast

lemma handle_okay_safe:
  assumes "server_ok w" "transports w t \<noteq> None"
  shows "safe w (handle_okay env p t w)"
proof -
  obtain a where a: "transports w t = Some a" using assms(2) by auto
  show ?thesis
  proof (cases "online a \<and> arg0 (msg p) \<noteq> 0 \<and> arg1 (msg p) \<noteq> 0")
    case False
    with a assms(1) show ?thesis by (auto simp: handle_okay_def get_transport_def)
  next
    case True
    show ?thesis
    proof (cases rule: found_socket [OF assms(1), of "arg1 (msg p)" 0, case_names missing found])
      case missing
      with a True send_packet_safe [OF assms, of A_CLSE] show ?thesis
        by (simp add: handle_okay_def get_transport_def send_close_def)
    next
      case (found s so)
      note run = handle_okay_def get_transport_def
      show ?thesis
      proof (cases "peer so")
        case None
        with a True found assms(1) okay_first [OF assms found(3,4,5) None] show ?thesis by (simp add: run)
      next
        case (Some q)
        obtain qo where "sockets w q = Some qo" using heap_ok_peer [of w s so q] found(3) Some assms(1) by (auto simp: server_ok_def)
        with a True found assms(1) Some okay_again [OF assms(1) found(3,4,5)] show ?thesis by (simp add: run)
      qed
    qed
  qed
qed

lemma handle_clse_safe:
  assumes "server_ok w" "transports w t \<noteq> None"
  shows "safe w (handle_clse p t w)"
proof -
  obtain a where a: "transports w t = Some a" using assms(2) by auto
  show ?thesis
  proof (cases rule: found_socket [OF assms(1), of "arg1 (msg p)" "arg0 (msg p)", case_names missing found])
    case missing
    with a assms(1) show ?thesis by (simp add: handle_clse_def get_transport_def)
  next
    case (found s so)
    have h: "heap_ok w" using assms(1) by (simp add: server_ok_def)
    obtain w' where w': "close_socket w s = Inr w'" "closes w (closed_set s so) w'" "heap_ok w'"
      using close_socket_closes [OF h found(3)] by blast
    have "safe w (Inr w')"
      using safe_mild [of w w'] assms(1) w' closes_same_heap [OF w'(2)] close_outside(1) [OF w'(1)] by (simp add: server_ok_def)
    moreover have "\<exists>b. (case peer so of None \<Rightarrow> Inr False
        | Some q \<Rightarrow> bind_r (get_sock w q) (\<lambda>qo. Inr (sock_transport qo \<noteq> Some t))) = Inr b"
    proof (cases "peer so")
      case (Some q)
      obtain qo where "sockets w q = Some qo" using heap_ok_peer [OF h found(3) Some] .
      with Some show ?thesis by simp
    qed auto
    ultimately show ?thesis
      using a found assms(1) w'(1) by (auto simp: handle_clse_def get_transport_def)
  qed
qed

lemma handle_wrte_safe:
  assumes "server_ok w" "transports w t \<noteq> None"
  shows "safe w (handle_wrte p t w)"
proof -
  obtain a where a: "transports w t = Some a" using assms(2) by auto
  show ?thesis
  proof (cases rule: found_socket [OF assms(1), of "arg1 (msg p)" "arg0 (msg p)", case_names missing found])
    case missing
    with a assms(1) show ?thesis by (simp add: handle_wrte_def get_transport_def)
  next
    case (found s so)
    have h: "heap_ok w" using assms(1) by (simp add: server_ok_def)
    obtain b w' where w': "local_socket_enqueue s (payload p) w = Inr (if b then 1 else 0, w')" "heap_ok w'" "mild w w'"
      using local_socket_enqueue_spec [OF h found(3-5)] by blast
    have "safe w (Inr w')"
      using safe_mild [of w w'] assms(1) w' local_socket_enqueue_outside [OF w'(1)] by (simp add: server_ok_def mild_def)
    then show ?thesis
      using a found assms(1) w'(1) by (simp add: handle_wrte_def get_transport_def enqueue_basic_def)
  qed
qed

text \<open>Opening: the descriptor, the socket pair, the acknowledgement, readiness.\<close>

lemma open_fd_same: "open_fd w = (r, w') \<Longrightarrow> same_struct w w' \<and> outside w' = outside w"
  by (auto simp: open_fd_def same_struct_def same_heap_def outside_def split: list.splits)

lemma create_local_service_socket_spec:
  assumes "server_ok w" "transports w t \<noteq> None"
  shows "create_local_service_socket t w = Inl (FatalLog ''local socket id overflow'') \<or>
    (\<exists>w'. create_local_service_socket t w = Inr (None, w') \<and> same_struct w w' \<and> outside w' = outside w) \<or>
    (\<exists>s so w'. create_local_service_socket t w = Inr (Some s, w') \<and> server_ok w' \<and> transports w' = transports w \<and>
       sockets w' s = Some so \<and> is_local so \<and> \<not> closing so \<and> peer so = None)"
proof -
  obtain r w1 where w1: "open_fd w = (r, w1)" by fastforce
  note same = open_fd_same [OF w1]
  have ok: "server_ok w1" using safe_same_struct [OF assms(1) refl, of w1] same by (simp add: safe_def)
  have tr: "transports w1 = transports w" using w1 by (auto simp: open_fd_def split: list.splits)
  show ?thesis
  proof (cases r)
    case None
    with w1 same show ?thesis by (simp add: create_local_service_socket_def)
  next
    case (Some f)
    show ?thesis
    proof (cases "local_socket_next_id w1 + 1 = 0")
      case True
      with w1 Some show ?thesis by (simp add: create_local_service_socket_def create_local_socket_eq)
    next
      case False
      let ?o = "(local_object f (local_socket_next_id w1))\<lparr>sock_transport := Some t\<rparr>" and ?n = "next_sptr w1"
      let ?w = "with_local ?o w1"
      have o: "is_local ?o" "\<not> closing ?o" "peer ?o = None" "sid ?o = local_socket_next_id w1" "sock_transport ?o = Some t"
        by (simp_all add: local_object_def new_asocket_def)
      have "heap_ok ?w" using heap_ok_with_local [OF _ False object_ok_local o(1-4)] ok tr assms(2) by (auto simp: server_ok_def o(5))
      moreover have out: "outside ?w = outside w1" by (simp add: outside_def with_local_def)
      ultimately have "server_ok ?w" using ok outside_listeners_ok [OF out] by (simp add: server_ok_def)
      moreover have "create_local_service_socket t w = Inr (Some ?n, ?w)"
        using w1 Some False
        by (simp add: create_local_service_socket_def create_local_socket_eq upd_sock_def get_sock_def put_sock_def with_local_def)
      ultimately show ?thesis using o tr by (auto simp: with_local_def)
    qed
  qed
qed

abbreviation open_ready :: "environment \<Rightarrow> sptr \<Rightarrow> bool \<Rightarrow> u32 \<Rightarrow> u32 \<Rightarrow> tptr \<Rightarrow> world \<Rightarrow> asocket \<Rightarrow> world result" where
  "open_ready env s da rid n t w2 so \<equiv>
     bind_r (if da
             then send_ready (sid so) rid t (of_nat (delayed_ack_window w2))
                    (put_sock s (so\<lparr>available_send_bytes := Some (uint n)\<rparr>) w2)
             else send_ready (sid so) rid t 0 w2) (\<lambda>w3.
       call_ready env s w3)"

lemma send_then_ready:
  assumes "server_ok w" "transports w t \<noteq> None" "sockets w s = Some so" "is_local so" "\<not> closing so"
  shows "safe w (bind_r (send_ready i rid t k w) (call_ready env s))"
proof -
  obtain w3 where w3: "send_ready i rid t k w = Inr w3" "same_struct w w3" using send_ready_same [OF assms(2)] by blast
  have "safe w (send_ready i rid t k w)" using send_ready_safe [OF assms(1,2)] .
  then have ok: "server_ok w3" using w3(1) by (simp add: safe_def)
  have "sockets w3 s = Some so" using w3(2) assms(3) by (simp add: same_struct_def)
  then obtain w4 where w4: "call_ready env s w3 = Inr w4" "server_ok w4" "same_heap w3 w4"
    using call_ready_safe [OF ok _ assms(4,5)] by blast
  have "same_heap w w4" using w3(2) w4(3) same_heap_trans by (auto simp: same_struct_def)
  with w3(1) w4(1,2) safeI show ?thesis by simp
qed

lemma open_established:
  assumes "server_ok w" "transports w t \<noteq> None" "sockets w s = Some so" "is_local so" "\<not> closing so" "peer so = None" "rid \<noteq> 0"
  shows "safe w (bind_r (attach_remote rid t s w) (\<lambda>w2. bind_r (get_sock w2 s) (open_ready env s da rid n t w2)))"
proof -
  let ?so = "so\<lparr>peer := Some (next_sptr w)\<rparr>"
  obtain w2 where w2: "attach_remote rid t s w = Inr w2" "server_ok w2" "sockets w2 s = Some ?so" "transports w2 = transports w"
    using attach_remote_spec [OF assms(1,3-7,2)] by blast
  let ?o = "?so\<lparr>available_send_bytes := Some (uint n)\<rparr>"
  have h: "heap_ok w2" using w2(2) by (simp add: server_ok_def)
  have "heap_ok (put_sock s ?o w2)"
    using heap_ok_upd(1) [OF h w2(3), of ?o] object_ok_read(2) [OF heap_ok_object [OF h w2(3)]] by (simp add: core_def)
  then have p: "server_ok (put_sock s ?o w2)" using w2(2) outside_listeners_ok [OF outside_upd(1) [of s ?o w2]] by (simp add: server_ok_def)
  have "safe (put_sock s ?o w2) (bind_r (send_ready i rid t k (put_sock s ?o w2)) (call_ready env s))" for i k
    by (rule send_then_ready [OF p, of t s ?o]) (use assms(2,4,5) w2(4) in simp_all)
  then have "safe w2 (bind_r (send_ready i rid t k (put_sock s ?o w2)) (call_ready env s))" for i k by (simp add: safe_def)
  moreover have "safe w2 (bind_r (send_ready i rid t k w2) (call_ready env s))" for i k
    by (rule send_then_ready [OF w2(2) _ w2(3)]) (use assms(2,4,5) w2(4) in simp_all)
  ultimately have "safe w2 (open_ready env s da rid n t w2 ?so)" by simp
  with w2 show ?thesis by (simp add: safe_def)
qed

lemma handle_open_outcome:
  assumes "server_ok w" "transports w t \<noteq> None"
  shows "safe w (handle_open env p t w) \<or>
    handle_open env p t w \<in> Inl ` {FatalLog ''local socket id overflow'', FatalLog ''disallowed connect''} \<or>
    (CHR 0x00 \<notin> set (payload p) \<and>
       handle_open env p t w \<in> Inl ` {OutOfBounds, StdException ''basic_string: construction from null is not valid''})"
proof -
  obtain a where a: "transports w t = Some a" using assms(2) by auto
  note run = handle_open_def get_transport_def a
  consider (closed) "\<not> online a \<or> arg0 (msg p) = 0" | (mismatch) "online a" "arg0 (msg p) \<noteq> 0" "delayed_ack a \<noteq> (arg1 (msg p) \<noteq> 0)"
    | (overread) "online a" "arg0 (msg p) \<noteq> 0" "delayed_ack a = (arg1 (msg p) \<noteq> 0)" "CHR 0x00 \<notin> set (payload p)"
    | (refused) "online a" "arg0 (msg p) \<noteq> 0" "delayed_ack a = (arg1 (msg p) \<noteq> 0)" "CHR 0x00 \<in> set (payload p)"
        "\<not> IsReverseConfigured (c_str (payload p)) a"
    | (allowed) "online a" "arg0 (msg p) \<noteq> 0" "delayed_ack a = (arg1 (msg p) \<noteq> 0)" "CHR 0x00 \<in> set (payload p)"
        "IsReverseConfigured (c_str (payload p)) a" by blast
  then show ?thesis
  proof cases
    case closed
    with assms(1) show ?thesis by (auto simp: run)
  next
    case mismatch
    with send_packet_safe [OF assms, of A_CLSE] show ?thesis by (simp add: run send_close_def)
  next
    case overread
    then show ?thesis by (auto simp: run payload_c_str_def)
  next
    case refused
    then show ?thesis by (auto simp: run payload_c_str_def)
  next
    case allowed
    then have ne: "payload p \<noteq> []" by auto
    from create_local_service_socket_spec [OF assms]
    consider (overflow) "create_local_service_socket t w = Inl (FatalLog ''local socket id overflow'')"
      | (failed) w1 where "create_local_service_socket t w = Inr (None, w1)" "same_struct w w1" "outside w1 = outside w"
      | (created) s so w1 where "create_local_service_socket t w = Inr (Some s, w1)" "server_ok w1" "transports w1 = transports w"
          "sockets w1 s = Some so" "is_local so" "\<not> closing so" "peer so = None" by blast
    then show ?thesis
    proof cases
      case overflow
      with allowed ne show ?thesis by (simp add: run payload_c_str_def)
    next
      case failed
      have "safe w (Inr w1)" using safe_same_struct [OF assms(1) refl failed(2,3)] .
      then have "safe w (bind_r (Inr w1) (send_close 0 (arg0 (msg p)) t))"
        unfolding send_close_def by (rule safe_bind) (use assms(2) send_packet_safe in auto)
      with allowed ne failed(1) show ?thesis by (simp add: run payload_c_str_def)
    next
      case created
      have tr: "transports w1 t \<noteq> None" using created(3) assms(2) by simp
      have "handle_open env p t w = bind_r (attach_remote (arg0 (msg p)) t s w1) (\<lambda>w2.
          bind_r (get_sock w2 s) (open_ready env s (delayed_ack a) (arg0 (msg p)) (arg1 (msg p)) t w2))"
        using allowed ne created(1) by (simp add: run payload_c_str_def)
      with open_established [OF created(2) tr created(4-7) allowed(2)] created(3) show ?thesis by (simp add: safe_def)
    qed
  qed
qed

section \<open>Destroying a transport\<close>

definition unreferenced :: "world \<Rightarrow> tptr \<Rightarrow> bool" where
  "unreferenced w t \<longleftrightarrow> (\<forall>s \<in> set (local_socket_list w). \<not> on_transport w t s) \<and>
     (\<forall>i l. (i, l) \<in> set (listener_list w) \<longrightarrow> l_transport l \<noteq> Some t)"

lemma close_and_disconnect:
  assumes "server_ok w" "transports w t \<noteq> None"
  shows "\<exists>w'. bind_r (close_all_sockets t w) (RunDisconnects t) = Inr w' \<and> server_ok w' \<and> transports w' t \<noteq> None \<and> unreferenced w' t \<and>
    pending_list w' = pending_list w \<and> run_queue w' = run_queue w"
proof -
  obtain w3 where w3: "close_all_sockets t w = Inr w3" "heap_ok w3" "same_heap w w3"
    "\<forall>s \<in> set (local_socket_list w3). \<not> on_transport w3 t s"
    using close_all_loop_spec [of w "Suc (length (local_socket_list w))" t] assms(1)
    by (auto simp: close_all_sockets_def server_ok_def)
  have ok: "server_ok w3" "transports w3 t \<noteq> None"
    using close_all_sockets_safe [OF assms(1), of t] w3(1) assms(2) by (simp_all add: safe_def)
  then obtain w4 where w4: "RunDisconnects t w3 = Inr w4" "same_struct w3 w4" "listeners_ok w4"
    "listener_list w4 = filter (\<lambda>x. l_transport (snd x) \<noteq> Some t) (listener_list w3)"
    using RunDisconnects_ok [of w3 t] by (auto simp: server_ok_def)
  have "server_ok w4" "transports w4 t \<noteq> None"
    using RunDisconnects_safe [OF ok] w4(1) ok(2) by (simp_all add: safe_def)
  moreover have "unreferenced w4 t"
  proof -
    have "sockets w4 = sockets w3" "local_socket_list w4 = local_socket_list w3" using w4(2) by (simp_all add: same_struct_def)
    then have "on_transport w4 t s = on_transport w3 t s" for s by (simp only: on_transport_def)
    with w3(4) \<open>local_socket_list w4 = local_socket_list w3\<close> w4(4) show ?thesis by (simp add: unreferenced_def)
  qed
  moreover have "pending_list w4 = pending_list w" "run_queue w4 = run_queue w" using w3(3) w4(2) by (simp_all add: same_heap_def same_struct_def)
  ultimately show ?thesis using w3(1) w4(1) by simp
qed

lemma handle_offline_unreferences:
  assumes "server_ok w" "transports w t = Some a" "connection_state a \<noteq> kCsOffline"
  shows "\<exists>w'. handle_offline env t w = Inr w' \<and> server_ok w' \<and> transports w' t \<noteq> None \<and> unreferenced w' t \<and>
    pending_list w' = pending_list w \<and> run_queue w' = run_queue w"
proof -
  have tr: "transports w t \<noteq> None" using assms(2) by simp
  obtain w1 where w1: "SetConnectionState env t kCsOffline w = Inr w1" "server_ok w1" "transports w1 t \<noteq> None"
    using SetConnectionState_safe [OF assms(1) tr, of env kCsOffline] tr by (auto simp: safe_def)
  obtain w2 where w2: "upd_transport (\<lambda>a. a\<lparr>online := False\<rparr>) t w1 = Inr w2" "server_ok w2" "transports w2 t \<noteq> None"
    using upd_transport_safe [OF w1(2,3), of "\<lambda>a. a\<lparr>online := False\<rparr>"] w1(3) by (auto simp: safe_def)
  have "pending_list w1 = pending_list w" "run_queue w1 = run_queue w"
    using SetConnectionState_spec [of w t env kCsOffline] assms(1) tr w1(1) by (auto simp: server_ok_def mild_def same_heap_def)
  moreover have "pending_list w2 = pending_list w1" "run_queue w2 = run_queue w1"
    using w2(1) w1(3) by (auto simp: upd_transport_def get_transport_def put_transport_def)
  ultimately show ?thesis
    using close_and_disconnect [OF w2(2,3)] assms(2,3) w1(1) w2(1) by (simp add: handle_offline_def get_transport_def)
qed

lemma fdevent_unregister_transport_spec:
  assumes "server_ok w" "transports w t \<noteq> None" "unreferenced w t" "t \<notin> set (pending_list w)" "Register_task t \<notin> set (run_queue w)"
  shows "\<exists>w'. fdevent_unregister_transport env t w = Inr w' \<and> server_ok w' \<and> transports w' t = None \<and> run_queue w' = run_queue w"
proof -
  let ?w = "w\<lparr>transports := (transports w)(t := None), transport_list := filter (\<lambda>x. x \<noteq> t) (transport_list w)\<rparr>"
  have h: "heap_ok ?w" using heap_ok_forget_transport assms(1,3-5) by (simp add: server_ok_def unreferenced_def)
  have "callbacks ?w u = (if u = t then [] else callbacks w u)" for u by (simp add: callbacks_def)
  then have "listeners_ok ?w"
    using assms(1,3) unfolding server_ok_def listeners_ok_def unreferenced_def by (auto split: if_splits)
  then have ok: "server_ok ?w" using h by (simp add: server_ok_def)
  obtain w' where w': "update_transports env ?w = Inr w'" "heap_ok w'" "mild ?w w'" using update_transports_spec [OF h] by blast
  have out: "outside w' = outside ?w" using update_transports_outside [OF w'(1)] .
  have "server_ok w'" using w'(2) ok outside_listeners_ok [OF out] by (simp add: server_ok_def)
  moreover have "transports w' t = None" "run_queue w' = run_queue w" using w'(3) by (simp_all add: mild_def same_heap_def)
  ultimately show ?thesis using w'(1) assms(2) by (auto simp: fdevent_unregister_transport_def get_transport_def)
qed

section \<open>Properties\<close>

text \<open>The only ways a packet ends the server.\<close>

definition abort_reason :: "apacket \<Rightarrow> fault \<Rightarrow> bool" where
  "abort_reason p f \<longleftrightarrow>
     (length (payload p) \<noteq> unat (data_length (msg p)) \<and> f = CheckFailed ''p->payload.size() == p->msg.data_length'') \<or>
     (command (msg p) = A_OPEN \<and>
        (f \<in> {FatalLog ''local socket id overflow'', FatalLog ''disallowed connect''} \<or>
         (CHR 0x00 \<notin> set (payload p) \<and> f \<in> {OutOfBounds, StdException ''basic_string: construction from null is not valid''})))"

lemma handle_packet_outcome:
  assumes "server_ok w" "transports w t \<noteq> None" "private_keys env \<noteq> []"
  shows "case handle_packet env p t w of
      Inr w' \<Rightarrow> server_ok w' \<and> (\<forall>u. transports w u \<noteq> None \<longrightarrow> transports w' u \<noteq> None)
    | Inl f \<Rightarrow> abort_reason p f"
proof -
  have stls: "safe w (bind_r (upd_transport (\<lambda>a. a\<lparr>use_tls := True\<rparr>) t w) (send_tls_request t))"
    unfolding send_tls_request_def by (intro safe_bind upd_transport_safe send_packet_safe) (use assms in auto)
  have "command (msg p) \<noteq> A_OPEN \<Longrightarrow> length (payload p) = unat (data_length (msg p)) \<Longrightarrow> safe w (handle_packet env p t w)"
    using assms(1) stls handle_new_connection_safe [OF assms(1,2)] handle_auth_safe [OF assms] handle_okay_safe [OF assms(1,2)]
      handle_clse_safe [OF assms(1,2)] handle_wrte_safe [OF assms(1,2)]
    by (simp add: handle_packet_def check_r_def Let_def)
  moreover have "command (msg p) = A_OPEN \<Longrightarrow> length (payload p) = unat (data_length (msg p)) \<Longrightarrow>
      handle_packet env p t w = handle_open env p t w"
    by (simp add: handle_packet_def check_r_def Let_def A_OPEN_def A_CNXN_def A_STLS_def A_AUTH_def)
  moreover have "length (payload p) \<noteq> unat (data_length (msg p)) \<Longrightarrow>
      handle_packet env p t w = Inl (CheckFailed ''p->payload.size() == p->msg.data_length'')"
    by (simp add: handle_packet_def check_r_def)
  ultimately show ?thesis
    using handle_open_outcome [OF assms(1,2), of env p] unfolding safe_def abort_reason_def
    by (cases "length (payload p) = unat (data_length (msg p))"; cases "command (msg p) = A_OPEN") auto
qed



text \<open>
  C17: an \<open>A_AUTH\<close> packet that is not a token defeats that: it marks the transport offline before
  calling \<open>handle_offline\<close>, which then does nothing. When the connection fails afterwards the
  transport is deleted while remote sockets still point to it, and closing such a socket follows
  the stale pointer.
\<close>

theorem auth_packet_leaves_stale_pointer:
  assumes "heap_ok w" "transports w t = Some a" "\<not> use_tls a" "device_tracker_list w = []"
    and p: "command (msg p) = A_AUTH" "arg0 (msg p) \<noteq> ADB_AUTH_TOKEN" "length (payload p) = unat (data_length (msg p))"
    and s: "sockets w s = Some so" "close_m so = Local_close" "peer so = Some q" "sockets w q = Some qo"
      "shutdown_m qo = Some Remote_shutdown" "sock_transport qo = Some t"
  shows "\<exists>w1 w2 w3. handle_packet env p t w = Inr w1 \<and> handle_offline env t w1 = Inr w2 \<and>
    fdevent_unregister_transport env t w2 = Inr w3 \<and> close_socket w3 s = Inl DanglingPointer"
proof -
  let ?w1 = "put_transport t (a\<lparr>connection_state := kCsOffline\<rparr>) w"
  let ?w3 = "?w1\<lparr>transports := (transports ?w1)(t := None), transport_list := filter (\<lambda>x. x \<noteq> t) (transport_list ?w1)\<rparr>"
  have nt: "device_tracker_list ?w1 = []" "device_tracker_list ?w3 = []" using assms(4) by (simp_all add: put_transport_def)
  have off: "handle_offline env t ?w1 = Inr ?w1" by (simp add: handle_offline_def get_transport_def put_transport_def)
  have "SetConnectionState env t kCsOffline w = Inr ?w1"
    using assms(2) nt by (simp add: SetConnectionState_def get_transport_def update_transports_def)
  then have "handle_packet env p t w = Inr ?w1"
    using p assms(2,3) off
    by (simp add: handle_packet_def check_r_def Let_def A_AUTH_def A_CNXN_def A_STLS_def handle_auth_def get_transport_def)
  moreover have "fdevent_unregister_transport env t ?w1 = Inr ?w3"
    using nt by (simp add: fdevent_unregister_transport_def get_transport_def update_transports_def put_transport_def)
  moreover have "close_socket ?w3 s = Inl DanglingPointer"
  proof -
    have sk: "sockets ?w3 = sockets w" by (simp add: put_transport_def)
    obtain "peer qo = Some s" using heap_ok_peer_open(2) [OF assms(1) s(1,3,4)] by blast
    then have "call_shutdown q ?w3 = Inl DanglingPointer"
      using s sk by (simp add: call_shutdown_def remote_socket_shutdown_def get_sock_def send_packet_def get_transport_def)
    then show ?thesis using s sk by (simp add: close_socket.simps local_socket_close.simps get_sock_def)
  qed
  ultimately show ?thesis using off by blast
qed

text \<open>
  C35: an \<open>A_OKAY\<close> that answers an open request is accepted from any online device: a socket that was
  opened to one device and has no peer yet is connected to whichever device answers with its
  identifier.
\<close>

theorem okay_from_another_device:
  assumes "server_ok w" "transports w t = Some a" "online a"
    and p: "command (msg p) = A_OKAY" "arg0 (msg p) \<noteq> 0" "arg1 (msg p) = sid so" "payload p = []" "data_length (msg p) = 0"
    and s: "sockets w s = Some so" "is_local so" "\<not> closing so" "peer so = None" "sock_transport so = Some u" "u \<noteq> t"
      "available_send_bytes so = None" "ready_m so = Local_ready"
  shows "\<exists>w' so' qo. handle_packet env p t w = Inr w' \<and> sockets w' s = Some so' \<and> peer so' = Some (next_sptr w) \<and>
    sockets w' (next_sptr w) = Some qo \<and> sock_transport qo = Some t \<and> sid qo = arg0 (msg p)"
proof -
  have h: "heap_ok w" using assms(1) by (simp add: server_ok_def)
  have i: "sid so \<noteq> 0" using h s(1,2) unfolding heap_ok_def ids_ok_def by blast
  obtain r where r: "find_local_socket (sid so) 0 w = Inr r" "\<forall>x. r = Some x \<longleftrightarrow> answers w (sid so) 0 x"
    using find_local_socket_spec [OF h] by blast
  have "answers w (sid so) 0 s" using s by (simp add: answers_def)
  then have rs: "find_local_socket (sid so) 0 w = Inr (Some s)" using r by metis
  let ?n = "next_sptr w"
  have ns: "?n \<noteq> s" using fresh_sptr [OF h] s(1) by auto
  have "handle_packet env p t w = handle_okay env p t w"
    using p by (simp add: handle_packet_def check_r_def Let_def A_OKAY_def A_CNXN_def A_STLS_def A_AUTH_def A_OPEN_def)
  moreover have "\<exists>w' so' qo. handle_okay env p t w = Inr w' \<and> sockets w' s = Some so' \<and> peer so' = Some ?n \<and>
      sockets w' ?n = Some qo \<and> sock_transport qo = Some t \<and> sid qo = arg0 (msg p)"
    using assms(2,3) p i rs s ns
    by (simp add: handle_okay_def get_transport_def get_sock_def attach_remote_def create_remote_socket_def new_sock_def
        upd_sock_def put_sock_def local_socket_ack_def acked_bytes_def call_ready_def local_socket_ready_def new_asocket_def)
  ultimately show ?thesis by simp
qed

section \<open>A small server\<close>

text \<open>
  One device and one client: the local socket 1 is connected to the remote socket 2 on transport 7;
  the local socket 3 waits for transport 8 to answer.
\<close>

definition example_local :: asocket where
  "example_local = (local_object 4 1)\<lparr>peer := Some 2\<rparr>"

definition example_remote :: asocket where
  "example_remote = (new_asocket Remote_enqueue Remote_ready (Some Remote_shutdown) Remote_close)
     \<lparr>sid := 9, sock_transport := Some 7, peer := Some 1\<rparr>"

definition example_waiting :: asocket where
  "example_waiting = (local_object 5 2)\<lparr>sock_transport := Some 8\<rparr>"

definition example_server :: world where
  "example_server = empty_world\<lparr>
     sockets := (\<lambda>x. if x = 1 then Some example_local else if x = 2 then Some example_remote
                     else if x = 3 then Some example_waiting else None),
     next_sptr := 4, local_socket_list := [1, 3], local_socket_next_id := 3,
     transports := (\<lambda>t. if t = 7 \<or> t = 8 then Some ((new_atransport t kCsDevice)\<lparr>serial := ''dev'', online := True\<rparr>) else None),
     transport_list := [7, 8], next_tptr := 9\<rparr>"

lemmas example_defs = example_server_def example_local_def example_remote_def example_waiting_def empty_world_def local_object_def
  new_asocket_def

lemma example_server_ok: "server_ok example_server"
proof -
  have "peers_ok example_server" by (auto simp: peers_ok_def example_defs split: if_splits)
  moreover have "lists_ok example_server" by (auto simp: lists_ok_def example_defs split: if_splits)
  moreover have "ids_ok example_server" by (auto simp: ids_ok_def example_defs split: if_splits)
  moreover have "refs_ok example_server" by (auto simp: refs_ok_def example_defs split: if_splits)
  moreover have "attached_ok example_server" by (auto simp: attached_ok_def example_defs split: if_splits)
  moreover have "sockets example_server s = Some so \<Longrightarrow> object_ok so" for s so
    by (auto simp: object_ok_def methods_ok_def example_defs split: if_splits)
  moreover have "listeners_ok example_server"
    by (auto simp: listeners_ok_def example_defs callbacks_def isSmartSocket_def new_atransport_def)
  ultimately show ?thesis by (simp add: server_ok_def heap_ok_def)
qed

definition example_env :: environment where
  "example_env = \<lparr>diag = \<lparr>no_perm_long = [], no_perm_short = [], vendor_keys_env = None\<rparr>, proto_print = (\<lambda>_ _. []),
     private_keys = [''k''], auth_sign = (\<lambda>k t. k @ t), public_key = ''pub'', reject_kill = False, adbhost_set = False\<rparr>"



theorem auth_packet_leaves_stale_pointer_witness:
  "\<exists>w1 w2 w3. handle_packet example_env (make_packet A_AUTH 2 0 []) 7 example_server = Inr w1 \<and> handle_offline example_env 7 w1 = Inr w2 \<and>
     fdevent_unregister_transport example_env 7 w2 = Inr w3 \<and> close_socket w3 1 = Inl DanglingPointer"
proof -
  have "heap_ok example_server" using example_server_ok by (simp add: server_ok_def)
  from auth_packet_leaves_stale_pointer [OF this, of 7 _ "make_packet A_AUTH 2 0 []" 1 example_local 2 example_remote example_env]
  show ?thesis
    by (simp add: example_defs make_packet_def get_apacket_def ADB_AUTH_TOKEN_def new_atransport_def)
qed

theorem okay_from_another_device_witness:
  "\<exists>w' so' qo. handle_packet example_env (make_packet A_OKAY 5 2 []) 7 example_server = Inr w' \<and> sockets w' 3 = Some so' \<and>
     peer so' = Some 4 \<and> sockets w' 4 = Some qo \<and> sock_transport qo = Some 7"
  using okay_from_another_device [OF example_server_ok, of 7 "(new_atransport 7 kCsDevice)\<lparr>serial := ''dev'', online := True\<rparr>"
      "make_packet A_OKAY 5 2 []" example_waiting 3 8 example_env]
  by (simp add: example_defs make_packet_def get_apacket_def new_atransport_def) blast

end
