(* ===== verification/Socket_Properties.thy ===== *)
theory Socket_Properties
  imports Packet_Handler
begin

text \<open>
  The properties of \<open>sockets.cpp\<close>: closing is memory safe and complete, data is delivered in order,
  acknowledgements respect the window.
\<close>



text \<open>
  C8: \<open>close_all_sockets\<close> terminates although it restarts its scan after every close, closes every
  socket that uses the transport directly or through its peer, and no other.
\<close>

theorem close_all_sockets_complete:
  assumes "heap_ok w"
  shows "\<exists>w'. close_all_sockets t w = Inr w' \<and> heap_ok w' \<and>
    (\<forall>s so. sockets w' s = Some so \<and> \<not> closing so \<longrightarrow> sock_transport so \<noteq> Some t) \<and>
    (\<forall>s. \<not> on_transport w t s \<longrightarrow> sockets w' s = sockets w s)"
proof -
  obtain w' where w': "close_all_sockets t w = Inr w'" "heap_ok w'" "\<forall>s \<in> set (local_socket_list w'). \<not> on_transport w' t s"
    "\<forall>s. \<not> on_transport w t s \<longrightarrow> sockets w' s = sockets w s"
    using close_all_loop_spec [of w "Suc (length (local_socket_list w))" t] assms by (auto simp: close_all_sockets_def)
  with no_reference_left [OF w'(2,3)] show ?thesis by blast
qed

theorem close_all_sockets_complete_witness:
  "\<exists>w'. close_all_sockets 7 example_server = Inr w' \<and> heap_ok w' \<and> sockets w' 3 = Some example_waiting"
proof -
  have "heap_ok example_server" using example_server_ok by (simp add: server_ok_def)
  from close_all_sockets_complete [OF this, of 7] show ?thesis by (auto simp: example_defs on_transport_def)
qed

section \<open>Delivery\<close>

datatype socket_event = Enqueue string | Writable

fun run_local :: "sptr \<Rightarrow> socket_event list \<Rightarrow> world \<Rightarrow> world result" where
  "run_local s [] w = Inr w"
| "run_local s (Enqueue d # es) w = bind_r (local_socket_enqueue s d w) (\<lambda>(r, w1). run_local s es w1)"
| "run_local s (Writable # es) w = bind_r (local_socket_flush_incoming s w) (\<lambda>(r, w1). run_local s es w1)"

fun enqueued :: "socket_event list \<Rightarrow> string" where
  "enqueued [] = []"
| "enqueued (Enqueue d # es) = d @ enqueued es"
| "enqueued (Writable # es) = enqueued es"

lemma flush_incoming_open:
  assumes "heap_ok w" "sockets w s = Some so" "is_local so" "\<not> closing so"
  shows "\<exists>r w'. local_socket_flush_incoming s w = Inr (r, w') \<and> heap_ok w' \<and> flushed w s so (r = TryAgain) w'"
proof -
  have "object_ok (so\<lparr>fde_write := True\<rparr>)"
    using heap_ok_object [OF assms(1,2)] by (simp add: object_ok_def methods_ok_def split: enqueue_fn.splits)
  then have "heap_ok (put_sock s (so\<lparr>fde_write := True\<rparr>) w)"
    using heap_ok_upd(1) [OF assms(1,2), of "so\<lparr>fde_write := True\<rparr>"] by (simp add: core_def)
  from local_socket_flush_incoming_spec [OF assms(2,3) this] assms(4) show ?thesis by (metis (full_types))
qed

lemma flushed_step:
  assumes "flushed w s so b w'"
  obtains so' where "sockets w' s = Some so'" "is_local so' = is_local so" "closing so' = closing so" "fd so' = fd so"
    "fd_out w' (fd so) @ iov_content (packet_queue so') = fd_out w (fd so) @ iov_content (packet_queue so)"
  using assms unfolding flushed_def by fastforce

text \<open>
  C6: whatever the descriptor does (short writes, full, errors) and however blocks and write events
  interleave, the bytes the descriptor has accepted followed by the bytes still queued are exactly
  the bytes handed to the socket, in order.
\<close>

theorem local_socket_delivery:
  assumes "heap_ok w" "sockets w s = Some so" "is_local so" "\<not> closing so"
  shows "\<exists>w' so'. run_local s es w = Inr w' \<and> heap_ok w' \<and> sockets w' s = Some so' \<and>
    fd_out w' (fd so) @ iov_content (packet_queue so') = fd_out w (fd so) @ iov_content (packet_queue so) @ enqueued es"
  using assms
proof (induction es arbitrary: w so)
  case Nil
  then show ?case by simp
next
  case (Cons e es)
  show ?case
  proof (cases e)
    case (Enqueue d)
    let ?so = "so\<lparr>packet_queue := IOVector_append (packet_queue so) (Block_of d)\<rparr>"
    obtain b w1 where w1: "local_socket_enqueue s d w = Inr (if b then 1 else 0, w1)" "heap_ok w1" "flushed w s ?so b w1"
      using local_socket_enqueue_spec [OF Cons.prems] by blast
    have q: "iov_content (IOVector_append (packet_queue so) (Block_of d)) = iov_content (packet_queue so) @ d"
      using heap_ok_object [OF Cons.prems(1,2)] by (simp add: object_ok_def iov.content_append)
    from flushed_step [OF w1(3)] obtain so1 where so1: "sockets w1 s = Some so1" "is_local so1" "\<not> closing so1" "fd so1 = fd so"
      "fd_out w1 (fd so) @ iov_content (packet_queue so1) = fd_out w (fd so) @ iov_content (packet_queue so) @ d"
      using q Cons.prems(3,4) by auto
    from Cons.IH [OF w1(2) so1(1-3)] so1(4,5) w1(1) Enqueue show ?thesis by (auto simp flip: append_assoc)
  next
    case Writable
    obtain r w1 where w1: "local_socket_flush_incoming s w = Inr (r, w1)" "heap_ok w1" "flushed w s so (r = TryAgain) w1"
      using flush_incoming_open [OF Cons.prems] by blast
    from flushed_step [OF w1(3)] obtain so1 where so1: "sockets w1 s = Some so1" "is_local so1" "\<not> closing so1" "fd so1 = fd so"
      "fd_out w1 (fd so) @ iov_content (packet_queue so1) = fd_out w (fd so) @ iov_content (packet_queue so)"
      using Cons.prems(3,4) by auto
    from Cons.IH [OF w1(2) so1(1-3)] so1(4,5) w1(1) Writable show ?thesis by (auto simp flip: append_assoc)
  qed
qed

theorem local_socket_delivery_witness:
  "\<exists>w' so'. run_local 3 [Enqueue ''ab'', Writable, Enqueue ''c''] example_server = Inr w' \<and> sockets w' 3 = Some so' \<and>
     fd_out w' 5 @ iov_content (packet_queue so') = ''abc''"
proof -
  have "heap_ok example_server" "sockets example_server 3 = Some example_waiting"
    using example_server_ok by (simp_all add: server_ok_def example_server_def)
  from local_socket_delivery [OF this, of "[Enqueue ''ab'', Writable, Enqueue ''c'']"] show ?thesis
    by (auto simp: example_defs)
qed

section \<open>Flow control\<close>



end
