(* ===== verification/Registration.thy ===== *)
theory Registration
  imports Packet_Handler
begin

text \<open>
  How transports come and go (\<open>transport.cpp\<close>, \<open>client/transport_local.cpp\<close>, \<open>fdevent.cpp\<close>): creating the
  object for a socket or USB connection, refusing a second one with the same serial number, the
  table of emulators, the work queued for the looper, kicking, and attach and detach. Opening the
  socket is the operating system's; what the looper does while a caller waits for the connection
  is an argument.
\<close>

section \<open>Objects\<close>

definition should_use_libusb :: bool where
  "should_use_libusb = False"

definition usb_devices_start_detached :: "bool \<Rightarrow> bool" where
  "usb_devices_start_detached start_detached_env = (should_use_libusb \<and> start_detached_env)"

definition new_transport :: "atransport \<Rightarrow> world \<Rightarrow> tptr \<times> world" where
  "new_transport a w =
     (next_tptr w,
      w\<lparr>transports := (transports w)(next_tptr w := Some (a\<lparr>t_id := next_transport_id w\<rparr>)),
        next_tptr := Suc (next_tptr w), next_transport_id := Suc (next_transport_id w)\<rparr>)"

definition delete_transport :: "tptr \<Rightarrow> world \<Rightarrow> world" where
  "delete_transport t w = w\<lparr>transports := (transports w)(t := None)\<rparr>"

section \<open>The looper\<close>

definition register_transport :: "tptr \<Rightarrow> world \<Rightarrow> world" where
  "register_transport t w = w\<lparr>run_queue := run_queue w @ [Register_task t]\<rparr>"

definition remove_transport :: "tptr \<Rightarrow> world \<Rightarrow> world" where
  "remove_transport t w = w\<lparr>run_queue := run_queue w @ [Unregister_task t]\<rparr>"

fun run_task :: "environment \<Rightarrow> looper_task \<Rightarrow> world \<Rightarrow> world result" where
  "run_task env (Register_task t) w = fdevent_register_transport env (usb_devices_start_detached False) t w"
| "run_task env (Unregister_task t) w = fdevent_unregister_transport env t w"

text \<open>The queue is taken from the front until it is empty; the bound is on the number of tasks run.\<close>

fun FlushRunQueue :: "nat \<Rightarrow> environment \<Rightarrow> world \<Rightarrow> world result" where
  "FlushRunQueue n env w =
     (case run_queue w of
        [] \<Rightarrow> Inr w
      | task # rest \<Rightarrow>
          (case n of
             0 \<Rightarrow> Inl OutOfFuel
           | Suc m \<Rightarrow> bind_r (run_task env task (w\<lparr>run_queue := rest\<rparr>)) (FlushRunQueue m env)))"

declare FlushRunQueue.simps [simp del]

section \<open>Socket transports\<close>

definition getEmulatorSerialString :: "int \<Rightarrow> string" where
  "getEmulatorSerialString console_port = ''emulator-'' @ to_dec_int console_port"

definition find_emulator_transport_by_adb_port :: "int \<Rightarrow> world \<Rightarrow> tptr option" where
  "find_emulator_transport_by_adb_port adb_port w = map_of (local_transports w) adb_port"

definition world_find_transport :: "string \<Rightarrow> world \<Rightarrow> tptr option result" where
  "world_find_transport serial_text w =
     bind_r (deref_transports w (transport_list w)) (\<lambda>ts. Inr (find_transport serial_text ts))"

definition find_emulator_transport_by_console_port :: "int \<Rightarrow> world \<Rightarrow> tptr option result" where
  "find_emulator_transport_by_console_port console_port w = world_find_transport (getEmulatorSerialString console_port) w"

definition init_socket_transport :: "tptr \<Rightarrow> int \<Rightarrow> bool \<Rightarrow> world \<Rightarrow> (int \<times> world) result" where
  "init_socket_transport t adb_port emulator w =
     bind_r (upd_transport (\<lambda>a. a\<lparr>t_type := kTransportLocal, conn_stopped := False\<rparr>) t w) (\<lambda>w1.
       if emulator then
         (if find_emulator_transport_by_adb_port adb_port w1 \<noteq> None then Inr (-1, w1)
          else Inr (0, w1\<lparr>local_transports := (adb_port, t) # local_transports w1\<rparr>))
       else Inr (0, w1))"

fun serial_in_list :: "world \<Rightarrow> tptr list \<Rightarrow> string \<Rightarrow> bool result" where
  "serial_in_list w [] ser = Inr False"
| "serial_in_list w (t # ts) ser =
     bind_r (get_transport w t) (\<lambda>a. if ser = serial a then Inr True else serial_in_list w ts ser)"

definition validate_transport_list :: "tptr list \<Rightarrow> string \<Rightarrow> tptr \<Rightarrow> world \<Rightarrow> (bool \<times> world) result" where
  "validate_transport_list ts ser t w =
     bind_r (serial_in_list w ts ser) (\<lambda>found. Inr (if found then (False, delete_transport t w) else (True, w)))"

datatype register_errno = EALREADY | EPERM | ETIMEDOUT | Other_errno

text \<open>\<open>WaitForConnection\<close>: the value of the waitable when the wait ends.\<close>

definition WaitForConnection :: "bool option \<Rightarrow> bool" where
  "WaitForConnection est = (case est of None \<Rightarrow> False | Some success \<Rightarrow> success)"

text \<open>\<open>register_socket_transport\<close> up to the point where the object waits for the looper.\<close>

definition enlist_socket_transport :: "string \<Rightarrow> int \<Rightarrow> bool \<Rightarrow> bool \<Rightarrow> world \<Rightarrow> ((register_errno + tptr) \<times> world) result" where
  "enlist_socket_transport ser prt emulator tls w =
     (case new_transport ((new_atransport 0 kCsOffline)\<lparr>use_tls := tls, serial := ser\<rparr>) w of
        (t, w1) \<Rightarrow>
          bind_r (init_socket_transport t prt emulator w1) (\<lambda>(r, w2).
            if r < 0 then Inr (Inl Other_errno, delete_transport t w2)
            else
              bind_r (validate_transport_list (pending_list w2) ser t w2) (\<lambda>(not_pending, w3).
                if \<not> not_pending then Inr (Inl EALREADY, w3)
                else
                  bind_r (validate_transport_list (transport_list w3) ser t w3) (\<lambda>(not_listed, w4).
                    if \<not> not_listed then Inr (Inl EALREADY, w4)
                    else Inr (Inr t, register_transport t (w4\<lparr>pending_list := t # pending_list w4\<rparr>))))))"

text \<open>
  The rest of it. \<open>meanwhile\<close> is the state, and the waitable's value, after the time the caller waits
  for the connection; an emulator is not waited for.
\<close>

definition register_socket_transport ::
    "(world \<Rightarrow> bool option \<times> world) \<Rightarrow> string \<Rightarrow> int \<Rightarrow> bool \<Rightarrow> bool \<Rightarrow> world \<Rightarrow> (register_errno option \<times> world) result" where
  "register_socket_transport meanwhile ser prt emulator tls w =
     bind_r (enlist_socket_transport ser prt emulator tls w) (\<lambda>(r, w1).
       (case r of
          Inl error \<Rightarrow> Inr (Some error, w1)
        | Inr t \<Rightarrow>
            if emulator then Inr (None, w1)
            else (case meanwhile w1 of
                    (est, w2) \<Rightarrow>
                      if \<not> WaitForConnection est then Inr (Some ETIMEDOUT, w2)
                      else bind_r (get_transport w2 t) (\<lambda>a.
                        Inr (if connection_state a = kCsUnauthorized then Some EPERM else None, w2)))))"

section \<open>Emulators and \<open>adb connect\<close>\<close>

text \<open>With \<open>ADBHOST\<close> set the host is tried before the loopback address.\<close>

definition connect_adb_port :: "environment \<Rightarrow> world \<Rightarrow> int option \<times> world" where
  "connect_adb_port env w =
     (case (if adbhost_set env then open_fd w else (None, w)) of
        (Some f, w1) \<Rightarrow> (Some f, w1)
      | (None, w1) \<Rightarrow> open_fd w1)"

definition local_connect_arbitrary_ports :: "environment \<Rightarrow> int \<Rightarrow> int \<Rightarrow> world \<Rightarrow> (int \<times> world) result" where
  "local_connect_arbitrary_ports env console_port adb_port w =
     (if find_emulator_transport_by_adb_port adb_port w \<noteq> None then Inr (-1, w)
      else
        bind_r (find_emulator_transport_by_console_port console_port w) (\<lambda>known.
          if known \<noteq> None then Inr (-1, w)
          else
            (case connect_adb_port env w of
               (None, w1) \<Rightarrow> Inr (-1, w1)
             | (Some f, w1) \<Rightarrow>
                 bind_r (register_socket_transport (\<lambda>x. (None, x)) (getEmulatorSerialString console_port) adb_port True False w1)
                   (\<lambda>(error, w2). Inr (if error = None then 0 else -1, w2)))))"

definition local_connect :: "environment \<Rightarrow> int \<Rightarrow> world \<Rightarrow> (bool \<times> world) result" where
  "local_connect env prt w =
     (if prt = - 2147483648 then Inl (Undefined ''port - 1'')
      else bind_r (local_connect_arbitrary_ports env (prt - 1) prt w) (\<lambda>(r, w1). Inr (r = 0, w1)))"

text \<open>\<open>spec_connect\<close> is \<open>socket_spec_connect\<close>: an error text, or the port and the serial number.\<close>

definition connect_device ::
    "(string \<Rightarrow> string + (int \<times> string)) \<Rightarrow> (world \<Rightarrow> bool option \<times> world) \<Rightarrow> string \<Rightarrow> world \<Rightarrow> (string \<times> world) result" where
  "connect_device spec_connect meanwhile address w =
     (if address = [] then Inr (''empty address'', w)
      else
        let prefix_addr = (if StartsWith address ''vsock:'' \<or> StartsWith address ''localfilesystem:''
                           then address else ''tcp:'' @ address)
        in (case spec_connect prefix_addr of
              Inl error \<Rightarrow> Inr (error, w)
            | Inr (prt, ser) \<Rightarrow>
                bind_r (register_socket_transport meanwhile ser prt False False w) (\<lambda>(error, w1).
                  Inr ((case error of
                          None \<Rightarrow> ''connected to ''
                        | Some EALREADY \<Rightarrow> ''already connected to ''
                        | Some EPERM \<Rightarrow> ''failed to authenticate to ''
                        | Some _ \<Rightarrow> ''failed to connect to '') @ c_str ser, w1))))"

section \<open>USB transports\<close>

definition register_usb_transport :: "string option \<Rightarrow> string option \<Rightarrow> bool \<Rightarrow> world \<Rightarrow> world" where
  "register_usb_transport ser dev writeable w =
     (case new_transport ((new_atransport 0 (if writeable then kCsOffline else kCsNoPerm))
             \<lparr>serial := (case ser of None \<Rightarrow> [] | Some s \<Rightarrow> c_str s), devpath := (case dev of None \<Rightarrow> [] | Some d \<Rightarrow> c_str d),
              t_type := kTransportUsb\<rparr>) w of
        (t, w1) \<Rightarrow> register_transport t (w1\<lparr>pending_list := t # pending_list w1\<rparr>))"

section \<open>Kicking\<close>

definition transport_Reset :: "atransport \<Rightarrow> atransport" where
  "transport_Reset a = (if kicked a then a else a\<lparr>kicked := True, conn_stopped := True\<rparr>)"

definition kick_transport :: "tptr \<Rightarrow> bool \<Rightarrow> world \<Rightarrow> world result" where
  "kick_transport t reset w =
     (if t \<in> set (transport_list w) then upd_transport (if reset then transport_Reset else Kick) t w else Inr w)"

text \<open>The loops that kick the transports of the list a predicate selects.\<close>

fun kick_loop :: "(atransport \<Rightarrow> bool) \<Rightarrow> bool \<Rightarrow> tptr list \<Rightarrow> world \<Rightarrow> world result" where
  "kick_loop P reset [] w = Inr w"
| "kick_loop P reset (t # ts) w =
     bind_r (get_transport w t) (\<lambda>a.
       if P a then bind_r (upd_transport (if reset then transport_Reset else Kick) t w) (kick_loop P reset ts)
       else kick_loop P reset ts w)"

definition kick_all_tcp_devices :: "world \<Rightarrow> world result" where
  "kick_all_tcp_devices w = kick_loop IsTcpDevice False (transport_list w) w"

definition kick_all_transports :: "world \<Rightarrow> world result" where
  "kick_all_transports w = kick_loop (\<lambda>_. True) False (transport_list w) w"

definition kick_all_tcp_tls_transports :: "world \<Rightarrow> world result" where
  "kick_all_tcp_tls_transports w = kick_loop (\<lambda>a. IsTcpDevice a \<and> use_tls a) False (transport_list w) w"

definition close_usb_devices :: "(atransport \<Rightarrow> bool) \<Rightarrow> bool \<Rightarrow> world \<Rightarrow> world result" where
  "close_usb_devices predicate reset w = kick_loop predicate reset (transport_list w) w"

section \<open>Attach and detach\<close>

text \<open>No connection of the sources overrides \<open>Connection::Attach\<close> and \<open>Connection::Detach\<close>, which refuse.\<close>

definition Connection_Attach :: "string + unit" where
  "Connection_Attach = Inl (''transport type doesn'' @ [CHR 0x27] @ ''t support attach'')"

definition Connection_Detach :: "string + unit" where
  "Connection_Detach = Inl (''transport type doesn'' @ [CHR 0x27] @ ''t support detach'')"

definition transport_Attach :: "tptr \<Rightarrow> world \<Rightarrow> (string option \<times> world) result" where
  "transport_Attach t w =
     (if \<not> should_use_libusb then Inr (Some ''attach/detach only implemented for libusb backend'', w)
      else
        bind_r (get_transport w t) (\<lambda>a.
          if connection_state a \<noteq> kCsDetached
          then Inr (Some (''transport '' @ c_str (serial a) @ '' is not detached''), w)
          else
            let w1 = put_transport t (ResetKeys a) w
            in (case Connection_Attach of
                  Inl error \<Rightarrow> Inr (Some error, w1)
                | Inr _ \<Rightarrow> bind_r (send_connect t w1) (\<lambda>w2. Inr (None, w2)))))"

definition transport_Detach :: "environment \<Rightarrow> tptr \<Rightarrow> world \<Rightarrow> (string option \<times> world) result" where
  "transport_Detach env t w =
     (if \<not> should_use_libusb then Inr (Some ''attach/detach only implemented for libusb backend'', w)
      else
        bind_r (get_transport w t) (\<lambda>a.
          if connection_state a = kCsDetached
          then Inr (Some (''transport '' @ c_str (serial a) @ '' is already detached''), w)
          else
            bind_r (handle_offline env t w) (\<lambda>w1.
              (case Connection_Detach of
                 Inl error \<Rightarrow> Inr (Some error, w1)
               | Inr _ \<Rightarrow> bind_r (SetConnectionState env t kCsDetached w1) (\<lambda>w2. Inr (None, w2))))))"

section \<open>The invariant of the server\<close>

text \<open>Changes outside what the invariant looks at.\<close>

lemma server_ok_same:
  assumes "server_ok w" "same_struct w w'" "outside w' = outside w"
  shows "server_ok w'"
  using assms heap_ok_same_struct [OF _ assms(2)] outside_listeners_ok [OF assms(3)] by (simp add: server_ok_def)

lemma registry_updates [simp]:
  "outside (w\<lparr>run_queue := q\<rparr>) = outside w"
  "same_struct w (w\<lparr>local_transports := l\<rparr>)" "outside (w\<lparr>local_transports := l\<rparr>) = outside w"
  "outside (w\<lparr>pending_list := p\<rparr>) = outside w" "run_queue (w\<lparr>pending_list := p\<rparr>) = run_queue w"
  by (simp_all add: same_struct_def same_heap_def outside_def)

lemma heap_ok_fields:
  assumes "heap_ok w" "refs_ok w'" and s: "sockets w' = sockets w"
    and l: "local_socket_list w' = local_socket_list w" "local_socket_closing_list w' = local_socket_closing_list w"
      "device_tracker_list w' = device_tracker_list w" "tracker_info w' = tracker_info w" "local_socket_next_id w' = local_socket_next_id w"
  shows "heap_ok w'"
proof -
  have "peers_ok w' = peers_ok w" by (simp only: peers_ok_def s)
  moreover have "lists_ok w' = lists_ok w" by (simp only: lists_ok_def s l)
  moreover have "ids_ok w' = ids_ok w" by (simp only: ids_ok_def s l)
  moreover have "attached_ok w' = attached_ok w" by (simp only: attached_ok_def s)
  ultimately show ?thesis using assms(1,2) s by (simp add: heap_ok_def)
qed

lemma server_ok_pending:
  assumes "server_ok w" "\<forall>t \<in> set p. transports w t \<noteq> None"
  shows "server_ok (w\<lparr>pending_list := p\<rparr>)"
proof -
  have "refs_ok (w\<lparr>pending_list := p\<rparr>)" using assms by (auto simp: server_ok_def heap_ok_def refs_ok_def)
  with assms(1) heap_ok_fields [of w "w\<lparr>pending_list := p\<rparr>"] outside_listeners_ok [of "w\<lparr>pending_list := p\<rparr>" w]
  show ?thesis by (simp add: server_ok_def)
qed

lemma server_ok_queue:
  assumes "server_ok w" "\<forall>t. Register_task t \<in> set q \<longrightarrow> transports w t \<noteq> None" "\<forall>t. Unregister_task t \<notin> set q"
  shows "server_ok (w\<lparr>run_queue := q\<rparr>)"
proof -
  have "refs_ok (w\<lparr>run_queue := q\<rparr>)" using assms by (auto simp: server_ok_def heap_ok_def refs_ok_def)
  with assms(1) heap_ok_fields [of w "w\<lparr>run_queue := q\<rparr>"] outside_listeners_ok [of "w\<lparr>run_queue := q\<rparr>" w]
  show ?thesis by (simp add: server_ok_def)
qed

lemma server_ok_queued:
  "server_ok w \<Longrightarrow> Register_task t \<in> set (run_queue w) \<Longrightarrow> transports w t \<noteq> None"
  "server_ok w \<Longrightarrow> Unregister_task t \<notin> set (run_queue w)"
  by (simp_all add: server_ok_def heap_ok_def refs_ok_def)

lemma server_ok_fresh: "server_ok w \<Longrightarrow> transports w (next_tptr w) = None"
  by (auto simp: server_ok_def heap_ok_def refs_ok_def)

lemma new_transport_ok:
  assumes "server_ok w" "new_transport a w = (t, w')" "disconnects a = []"
  shows "server_ok w'" "t = next_tptr w" "transports w' = (transports w)(t := Some (a\<lparr>t_id := next_transport_id w\<rparr>))"
    "pending_list w' = pending_list w" "transport_list w' = transport_list w" "local_transports w' = local_transports w"
proof -
  have f: "transports w (next_tptr w) = None" using server_ok_fresh [OF assms(1)] .
  have e: "transports w' = (transports w)(t := Some (a\<lparr>t_id := next_transport_id w\<rparr>))" "t = next_tptr w" "next_tptr w' = Suc (next_tptr w)"
    "sockets w' = sockets w" "listener_list w' = listener_list w" "next_lptr w' = next_lptr w" "local_socket_list w' = local_socket_list w"
    "local_socket_closing_list w' = local_socket_closing_list w" "device_tracker_list w' = device_tracker_list w" "tracker_info w' = tracker_info w"
    "local_socket_next_id w' = local_socket_next_id w" "next_sptr w' = next_sptr w" "transport_list w' = transport_list w"
    "pending_list w' = pending_list w" "local_transports w' = local_transports w" "run_queue w' = run_queue w"
    using assms(2) by (auto simp: new_transport_def)
  from e show "t = next_tptr w" "transports w' = (transports w)(t := Some (a\<lparr>t_id := next_transport_id w\<rparr>))"
    "pending_list w' = pending_list w" "transport_list w' = transport_list w" "local_transports w' = local_transports w" by auto
  have c: "callbacks w' = callbacks w" using e f assms(3) by (auto simp: callbacks_def fun_eq_iff)
  have "listeners_ok w'" using assms(1) c e by (simp add: server_ok_def listeners_ok_def)
  moreover have "refs_ok w'"
    using assms(1) e by (auto simp: server_ok_def heap_ok_def refs_ok_def intro: less_SucI)
  ultimately show "server_ok w'"
    using assms(1) e heap_ok_fields [of w w'] by (simp add: server_ok_def)
qed

text \<open>A transport nobody points to can be deleted.\<close>

lemma server_ok_delete_transport:
  assumes "server_ok w" "t \<notin> set (transport_list w) \<union> set (pending_list w)" "callbacks w t = []"
    "Register_task t \<notin> set (run_queue w)"
    "\<forall>s so. sockets w s = Some so \<and> \<not> closing so \<longrightarrow> sock_transport so \<noteq> Some t"
  shows "server_ok (delete_transport t w)"
proof -
  let ?w = "delete_transport t w"
  have c: "callbacks ?w = callbacks w" using assms(3) by (auto simp: callbacks_def delete_transport_def fun_eq_iff)
  have "l_transport l \<noteq> Some t" if "(i, l) \<in> set (listener_list w)" for i l
    using assms(1,3) that unfolding server_ok_def listeners_ok_def by force
  then have "listeners_ok ?w" using assms(1) c unfolding server_ok_def listeners_ok_def
    by (auto simp: delete_transport_def)
  moreover have "refs_ok ?w" using assms by (auto simp: server_ok_def heap_ok_def refs_ok_def delete_transport_def)
  ultimately show ?thesis
    using assms(1) heap_ok_fields [of w ?w] by (simp add: server_ok_def delete_transport_def)
qed

section \<open>Registering a socket transport\<close>

lemma serial_in_list_spec:
  "\<forall>t \<in> set ts. transports w t \<noteq> None \<Longrightarrow>
     serial_in_list w ts ser = Inr (\<exists>t \<in> set ts. \<exists>a. transports w t = Some a \<and> serial a = ser)"
  by (induction ts) (auto simp: get_transport_def)

text \<open>The object just created: nothing points to it yet.\<close>

definition pristine :: "world \<Rightarrow> world \<Rightarrow> tptr \<Rightarrow> atransport \<Rightarrow> bool" where
  "pristine w w' t a \<longleftrightarrow> server_ok w' \<and> t = next_tptr w \<and> transports w' = (transports w)(t := Some a) \<and>
     pending_list w' = pending_list w \<and> transport_list w' = transport_list w \<and> sockets w' = sockets w \<and>
     run_queue w' = run_queue w \<and> device_tracker_list w' = device_tracker_list w \<and> next_sptr w' = next_sptr w \<and> disconnects a = []"

lemma pristine_unused:
  assumes "server_ok w" "pristine w w' t a"
  shows "t \<notin> set (transport_list w') \<union> set (pending_list w')" "callbacks w' t = []" "Register_task t \<notin> set (run_queue w')"
    "\<forall>s so. sockets w' s = Some so \<and> \<not> closing so \<longrightarrow> sock_transport so \<noteq> Some t"
proof -
  have f: "transports w t = None" using server_ok_fresh [OF assms(1)] assms(2) by (simp add: pristine_def)
  then show "t \<notin> set (transport_list w') \<union> set (pending_list w')"
    using assms unfolding server_ok_def heap_ok_def refs_ok_def pristine_def by (metis)
  show "callbacks w' t = []" using assms(2) by (simp add: callbacks_def pristine_def)
  show "Register_task t \<notin> set (run_queue w')" using f server_ok_queued(1) [OF assms(1), of t] assms(2) by (auto simp: pristine_def)
  show "\<forall>s so. sockets w' s = Some so \<and> \<not> closing so \<longrightarrow> sock_transport so \<noteq> Some t"
    using f assms unfolding server_ok_def heap_ok_def refs_ok_def pristine_def by metis
qed

lemma pristine_step:
  assumes "pristine w w1 t a" "same_struct w1 w2" "outside w2 = outside w1" "transports w2 = (transports w)(t := Some b)"
    "disconnects b = []" "run_queue w2 = run_queue w1"
  shows "pristine w w2 t b"
  using assms server_ok_same [OF _ assms(2,3)] by (simp add: pristine_def same_struct_def same_heap_def)

lemma init_socket_transport_spec:
  assumes "pristine w w1 t a" "local_transports w1 = local_transports w"
  defines "b \<equiv> a\<lparr>t_type := kTransportLocal, conn_stopped := False\<rparr>"
  shows "\<exists>w2. init_socket_transport t prt emulator w1 =
      Inr (if emulator \<and> find_emulator_transport_by_adb_port prt w \<noteq> None then -1 else 0, w2) \<and> pristine w w2 t b \<and>
    local_transports w2 = (if emulator \<and> find_emulator_transport_by_adb_port prt w = None
                           then (prt, t) # local_transports w else local_transports w)"
proof -
  let ?w = "put_transport t b w1"
  have a: "transports w1 t = Some a" using assms(1) by (simp add: pristine_def)
  have ok: "server_ok ?w" using server_ok_put_transport [OF _ a, of b] assms(1) by (simp add: pristine_def b_def)
  have p: "pristine w ?w t b" using assms(1) ok by (auto simp: pristine_def put_transport_def b_def)
  have u: "upd_transport (\<lambda>a. a\<lparr>t_type := kTransportLocal, conn_stopped := False\<rparr>) t w1 = Inr ?w"
    using a by (simp add: upd_transport_def get_transport_def b_def)
  have l: "local_transports ?w = local_transports w" using assms(2) by (simp add: put_transport_def)
  have pt: "transports ?w = (transports w)(t := Some b)" "disconnects b = []" using p unfolding pristine_def by blast+
  have q: "pristine w (?w\<lparr>local_transports := x\<rparr>) t b" for x
    by (rule pristine_step [OF p]) (simp_all add: pt)
  show ?thesis using u p l q by (auto simp: init_socket_transport_def find_emulator_transport_by_adb_port_def)
qed

lemma pristine_delete:
  assumes "server_ok w" "pristine w w' t a"
  shows "server_ok (delete_transport t w')" "transports (delete_transport t w') = transports w"
    "pending_list (delete_transport t w') = pending_list w" "transport_list (delete_transport t w') = transport_list w"
    "sockets (delete_transport t w') = sockets w" "next_sptr (delete_transport t w') = next_sptr w"
proof -
  show "server_ok (delete_transport t w')"
    using server_ok_delete_transport [OF _ pristine_unused [OF assms]] assms(2) by (simp add: pristine_def)
  show "transports (delete_transport t w') = transports w"
    using assms server_ok_fresh [OF assms(1)] by (auto simp: delete_transport_def pristine_def)
qed (use assms(2) in \<open>simp_all add: delete_transport_def pristine_def\<close>)

text \<open>The object that is put on the pending list.\<close>

definition socket_transport :: "nat \<Rightarrow> string \<Rightarrow> bool \<Rightarrow> atransport" where
  "socket_transport i ser tls = (new_atransport i kCsOffline)\<lparr>use_tls := tls, serial := ser, t_type := kTransportLocal\<rparr>"

definition serial_known :: "string \<Rightarrow> world \<Rightarrow> bool" where
  "serial_known ser w \<longleftrightarrow> (\<exists>t \<in> set (pending_list w) \<union> set (transport_list w). \<exists>a. transports w t = Some a \<and> serial a = ser)"

lemma serial_in_pristine:
  assumes "server_ok w" "pristine w w2 t a" "ts = pending_list w \<or> ts = transport_list w"
  shows "serial_in_list w2 ts ser = Inr (\<exists>u \<in> set ts. \<exists>b. transports w u = Some b \<and> serial b = ser)"
proof -
  have al: "\<forall>u \<in> set ts. transports w u \<noteq> None"
    using assms(1,3) unfolding server_ok_def heap_ok_def refs_ok_def by blast
  have "t \<notin> set ts" using pristine_unused(1) [OF assms(1,2)] assms(2,3) by (auto simp: pristine_def)
  then have e: "transports w2 u = transports w u" if "u \<in> set ts" for u using that assms(2) by (auto simp: pristine_def)
  with al have "\<forall>u \<in> set ts. transports w2 u \<noteq> None" by simp
  from serial_in_list_spec [OF this, of ser] e show ?thesis by auto
qed

lemma enlist_socket_transport_spec:
  assumes "server_ok w"
  shows "\<exists>w'. enlist_socket_transport ser prt emulator tls w =
      Inr (if emulator \<and> find_emulator_transport_by_adb_port prt w \<noteq> None then Inl Other_errno
           else if serial_known ser w then Inl EALREADY else Inr (next_tptr w), w') \<and> server_ok w' \<and> sockets w' = sockets w \<and> next_sptr w' = next_sptr w \<and>
    (if emulator \<and> find_emulator_transport_by_adb_port prt w \<noteq> None \<or> serial_known ser w
     then transports w' = transports w \<and> pending_list w' = pending_list w \<and> transport_list w' = transport_list w
     else transports w' = (transports w)(next_tptr w := Some (socket_transport (next_transport_id w) ser tls)) \<and>
       pending_list w' = next_tptr w # pending_list w \<and> transport_list w' = transport_list w \<and>
       run_queue w' = run_queue w @ [Register_task (next_tptr w)] \<and> device_tracker_list w' = device_tracker_list w)"
proof -
  let ?a = "(new_atransport 0 kCsOffline)\<lparr>use_tls := tls, serial := ser\<rparr>"
  obtain t w1 where n: "new_transport ?a w = (t, w1)" by (cases "new_transport ?a w")
  let ?b = "?a\<lparr>t_id := next_transport_id w\<rparr>"
  have d: "disconnects ?a = []" by (simp add: new_atransport_def)
  have p1: "pristine w w1 t ?b" "local_transports w1 = local_transports w"
    using new_transport_ok [OF assms n d] n by (auto simp: pristine_def new_transport_def new_atransport_def)
  have c: "?b\<lparr>t_type := kTransportLocal, conn_stopped := False\<rparr> = socket_transport (next_transport_id w) ser tls"
    by (simp add: socket_transport_def new_atransport_def)
  obtain w2 where w2: "init_socket_transport t prt emulator w1 =
      Inr (if emulator \<and> find_emulator_transport_by_adb_port prt w \<noteq> None then -1 else 0, w2)"
      "pristine w w2 t (socket_transport (next_transport_id w) ser tls)"
    using init_socket_transport_spec [OF p1, of prt emulator] unfolding c by blast
  have t: "t = next_tptr w" and l: "pending_list w2 = pending_list w" "transport_list w2 = transport_list w"
    using w2(2) by (simp_all add: pristine_def)
  note del = pristine_delete [OF assms w2(2)]
  have v: "validate_transport_list ts ser t w2 =
      Inr (if \<exists>u \<in> set ts. \<exists>b. transports w u = Some b \<and> serial b = ser then (False, delete_transport t w2) else (True, w2))"
    if "ts = pending_list w \<or> ts = transport_list w" for ts
    using serial_in_pristine [OF assms w2(2) that] by (simp add: validate_transport_list_def)
  consider "emulator \<and> find_emulator_transport_by_adb_port prt w \<noteq> None"
    | "\<not> (emulator \<and> find_emulator_transport_by_adb_port prt w \<noteq> None)" "serial_known ser w"
    | "\<not> (emulator \<and> find_emulator_transport_by_adb_port prt w \<noteq> None)" "\<not> serial_known ser w" by blast
  then show ?thesis
  proof cases
    case 1
    with n w2(1) del show ?thesis by (simp add: enlist_socket_transport_def)
  next
    case 2
    from 2(1) have z: "init_socket_transport t prt emulator w1 = Inr (0, w2)" using w2(1) by auto
    show ?thesis
    proof (cases "\<exists>u \<in> set (pending_list w). \<exists>b. transports w u = Some b \<and> serial b = ser")
      case True
      with v [of "pending_list w"] 2 n z l del show ?thesis by (auto simp: enlist_socket_transport_def)
    next
      case False
      with 2(2) have "\<exists>u \<in> set (transport_list w). \<exists>b. transports w u = Some b \<and> serial b = ser" by (auto simp: serial_known_def)
      with False v [of "pending_list w"] v [of "transport_list w"] 2 n z l del show ?thesis
        by (auto simp: enlist_socket_transport_def)
    qed
  next
    case 3
    let ?w = "register_transport t (w2\<lparr>pending_list := t # pending_list w2\<rparr>)"
    have ok: "server_ok w2" and "transports w2 t \<noteq> None" using w2(2) by (simp_all add: pristine_def)
    moreover have "\<forall>u \<in> set (pending_list w2). transports w2 u \<noteq> None"
      using ok unfolding server_ok_def heap_ok_def refs_ok_def by blast
    ultimately have "server_ok (w2\<lparr>pending_list := t # pending_list w2\<rparr>)"
      using server_ok_pending [OF ok, of "t # pending_list w2"] by simp
    from server_ok_queue [OF this, of "run_queue w2 @ [Register_task t]"] have "server_ok ?w"
      using server_ok_queued [OF ok] \<open>transports w2 t \<noteq> None\<close> by (auto simp: register_transport_def)
    moreover have "enlist_socket_transport ser prt emulator tls w = Inr (Inr t, ?w)"
      using 3 v [of "pending_list w"] v [of "transport_list w"] n w2(1) l by (auto simp: enlist_socket_transport_def serial_known_def)
    ultimately show ?thesis using 3 w2(2) t by (auto simp: register_transport_def pristine_def)
  qed
qed

section \<open>The looper picks the transport up\<close>

lemma send_connect_spec:
  assumes "server_ok w" "transports w t = Some a" "conn_accepts a"
  shows "\<exists>p. send_connect t w = Inr (w\<lparr>sent := sent w @ [(t, p)]\<rparr>) \<and> command (msg p) = A_CNXN"
proof -
  let ?p = "make_packet A_CNXN A_VERSION (of_nat (max_payload a)) get_connection_string"
  have len: "length get_connection_string \<le> MAX_PAYLOAD_V1"
    by (simp add: get_connection_string_def FeatureSetToString_def supported_features_def adb_device_banner_def
        kFeatureDelayedAck_def MAX_PAYLOAD_V1_def)
  obtain q where "prepare_packet (protocol_version a) ?p = Inr q" using prepare_packet_total [OF make_packet_fits] by blast
  moreover from this have "command (msg q) = A_CNXN"
    by (auto simp: prepare_packet_def make_packet_def Let_def bind_r_eq_Inr split: if_splits)
  ultimately show ?thesis
    using assms(2,3) len by (simp add: send_connect_def get_transport_def send_packet_def) blast
qed

lemma server_ok_move_pending:
  assumes "server_ok w" "transports w t \<noteq> None"
  shows "server_ok (w\<lparr>pending_list := filter (\<lambda>x. x \<noteq> t) (pending_list w), transport_list := t # transport_list w\<rparr>)" (is "server_ok ?w")
proof -
  have "refs_ok ?w" using assms by (auto simp: server_ok_def heap_ok_def refs_ok_def)
  moreover have "outside ?w = outside w" by (simp add: outside_def)
  ultimately show ?thesis
    using assms(1) heap_ok_fields [of w ?w] outside_listeners_ok [of ?w w] by (simp add: server_ok_def)
qed

lemma fdevent_register_transport_spec:
  assumes "server_ok w" "transports w t = Some a" "conn_accepts a" "connection_state a \<noteq> kCsNoPerm" "t \<in> set (pending_list w)"
  shows "\<exists>w'. run_task env (Register_task t) w = Inr w' \<and> server_ok w' \<and> transport_list w' = t # transport_list w \<and>
    pending_list w' = filter (\<lambda>x. x \<noteq> t) (pending_list w) \<and>
    (device_tracker_list w = [] \<longrightarrow> run_queue w' = run_queue w \<and> (\<exists>p. sent w' = sent w @ [(t, p)] \<and> command (msg p) = A_CNXN))"
proof -
  obtain p where p: "send_connect t w = Inr (w\<lparr>sent := sent w @ [(t, p)]\<rparr>)" "command (msg p) = A_CNXN"
    using send_connect_spec [OF assms(1-3)] by blast
  let ?w = "w\<lparr>sent := sent w @ [(t, p)]\<rparr>"
  have ok: "server_ok ?w" using server_ok_same [OF assms(1), of ?w] by (simp add: same_struct_def same_heap_def outside_def)
  let ?v = "?w\<lparr>pending_list := filter (\<lambda>x. x \<noteq> t) (pending_list ?w), transport_list := t # transport_list ?w\<rparr>"
  have v: "server_ok ?v" using server_ok_move_pending [OF ok, of t] assms(2) by simp
  have r: "run_task env (Register_task t) w = update_transports env ?v"
    using assms(2,4,5) p(1) by (simp add: fdevent_register_transport_def usb_devices_start_detached_def should_use_libusb_def get_transport_def)
  have "heap_ok ?v" using v by (simp add: server_ok_def)
  from update_transports_spec [OF this] obtain w' where w': "update_transports env ?v = Inr w'" "heap_ok w'" "mild ?v w'" by blast
  have "server_ok w'" using w'(2) v outside_listeners_ok [OF update_transports_outside [OF w'(1)]] by (simp add: server_ok_def)
  moreover have "w' = ?v" if "device_tracker_list w = []" using that w'(1) by (simp add: update_transports_def)
  ultimately show ?thesis using r w' p(2) by (auto simp: mild_def same_heap_def)
qed



end
