(* ===== verification/Host_Service.thy ===== *)
theory Host_Service
  imports Transport
begin

text \<open>
  The text of a client's request to the server (\<open>adb/sockets.cpp\<close>): the hexadecimal length in front
  of it (\<open>unhex\<close>) and the split of \<open>host-serial:<serial>:<command>\<close> into serial number and command
  (\<open>internal::parse_host_service\<close>), with its \<open>CHECK\<close>s and its unchecked access to the first
  character as outcomes.
\<close>

unbundle bit_operations_syntax

section \<open>The length field\<close>

fun unhex_loop :: "u32 \<Rightarrow> string \<Rightarrow> nat \<Rightarrow> u32 result" where
  "unhex_loop n s 0 = Inr n"
| "unhex_loop n [] (Suc len) = Inl OutOfBounds"
| "unhex_loop n (c # s) (Suc len) =
     (case digit_val c of
        None \<Rightarrow> Inr 0xffffffff
      | Some d \<Rightarrow> unhex_loop (push_bit 4 n OR of_nat d) s len)"

definition unhex :: "string \<Rightarrow> nat \<Rightarrow> u32 result" where
  "unhex s len = unhex_loop 0 s len"

section \<open>Serial number and command\<close>

text \<open>
  The two views into the request. A nonempty \<open>serial\<close> starts where the request does, \<open>command\<close> ends
  where it ends, so the pointer comparison of \<open>consume\<close> is one of lengths.
\<close>

type_synonym views = "string \<times> string"

definition consume :: "string \<Rightarrow> nat \<Rightarrow> views \<Rightarrow> views result" where
  "consume full_service n v =
     (case v of (serial_view, cmd) \<Rightarrow>
        bind_r (check_r (n \<le> length cmd) ''count <= command.size()'') (\<lambda>_.
        bind_r (check_r (serial_view = [] \<or> length serial_view + length cmd = length full_service)
                  ''serial.data() + serial.size() == command.data()'') (\<lambda>_.
          Inr (take (length serial_view + n) full_service, drop n cmd))))"

definition finish :: "views \<Rightarrow> views option result" where
  "finish v =
     (case v of (serial_view, cmd) \<Rightarrow>
        if serial_view = [] \<or> cmd = [] then Inr None
        else bind_r (check_r (last serial_view = CHR '':'') '': == serial.back()'') (\<lambda>_.
               Inr (Some (butlast serial_view, cmd))))"

definition service_prefixes :: "string list" where
  "service_prefixes = [''usb:'', ''product:'', ''model:'', ''device:'', ''localfilesystem:'']"

abbreviation find_colon :: "string \<Rightarrow> nat option" where
  "find_colon s \<equiv> find_idx (\<lambda>c. c = CHR '':'') s"

definition parse_prefixed :: "string \<Rightarrow> string \<Rightarrow> views option result" where
  "parse_prefixed full_service prefix =
     bind_r (consume full_service (length prefix) ([], full_service)) (\<lambda>v.
       (case find_colon (snd v) of
          None \<Rightarrow> Inr None
        | Some offset \<Rightarrow> bind_r (consume full_service (offset + 1) v) finish))"

text \<open>The optional \<open>tcp:\<close> or \<open>udp:\<close> and \<open>vsock:\<close> in front of the address.\<close>

definition skip_protocol :: "string \<Rightarrow> views option result" where
  "skip_protocol full_service =
     (if StartsWith full_service ''tcp:'' \<or> StartsWith full_service ''udp:''
      then bind_r (consume full_service 4 ([], full_service)) (\<lambda>v. Inr (if snd v = [] then None else Some v))
      else Inr (Some ([], full_service)))"

definition skip_vsock :: "string \<Rightarrow> views \<Rightarrow> views option result" where
  "skip_vsock full_service v =
     (if StartsWith (snd v) ''vsock:''
      then (case find_colon (snd v) of
              None \<Rightarrow> Inr None
            | Some next_colon \<Rightarrow> bind_r (consume full_service (next_colon + 1) v) (\<lambda>v'. Inr (Some v')))
      else Inr (Some v))"

definition scan_to_colon :: "string \<Rightarrow> views \<Rightarrow> views option result" where
  "scan_to_colon full_service v =
     (case find_colon (snd v) of
        None \<Rightarrow> Inr None
      | Some offset \<Rightarrow> bind_r (consume full_service (offset + 1) v) (\<lambda>v'. Inr (Some v')))"

definition skip_address :: "string \<Rightarrow> views \<Rightarrow> views option result" where
  "skip_address full_service v =
     (case snd v of
        [] \<Rightarrow> Inl OutOfBounds
      | c # _ \<Rightarrow>
          if c = CHR ''['' then
            (case find_idx (\<lambda>c. c = CHR '']'') (snd v) of
               None \<Rightarrow> scan_to_colon full_service v
             | Some ipv6_end \<Rightarrow>
                 bind_r (consume full_service (ipv6_end + 1) v) (\<lambda>v1.
                   (case snd v1 of
                      [] \<Rightarrow> Inr None
                    | d # _ \<Rightarrow>
                        if d \<noteq> CHR '':'' then Inr None
                        else bind_r (consume full_service 1 v1) (\<lambda>v2. Inr (Some v2)))))
          else scan_to_colon full_service v)"

definition skip_port :: "string \<Rightarrow> views \<Rightarrow> views option result" where
  "skip_port full_service v =
     (case find_colon (snd v) of
        None \<Rightarrow> finish v
      | Some next_colon \<Rightarrow>
          if length (snd v) \<le> next_colon then Inr None
          else if list_all (is_digit 10) (substr (snd v) 0 next_colon)
          then bind_r (consume full_service (next_colon + 1) v) finish
          else finish v)"

definition and_then :: "'a option result \<Rightarrow> ('a \<Rightarrow> 'b option result) \<Rightarrow> 'b option result" where
  "and_then m f = bind_r m (\<lambda>r. case r of None \<Rightarrow> Inr None | Some x \<Rightarrow> f x)"

definition parse_host_service :: "string \<Rightarrow> views option result" where
  "parse_host_service full_service =
     (if full_service = [] then Inr None
      else (case find (StartsWith full_service) service_prefixes of
              Some prefix \<Rightarrow> parse_prefixed full_service prefix
            | None \<Rightarrow>
                and_then (skip_protocol full_service) (\<lambda>v.
                and_then (skip_vsock full_service v) (\<lambda>v1.
                and_then (skip_address full_service v1) (skip_port full_service)))))"

section \<open>The views stay adjacent\<close>

text \<open>The two views always cover the request, and a nonempty serial ends where a field does.\<close>

definition adjacent :: "string \<Rightarrow> views \<Rightarrow> bool" where
  "adjacent full_service v \<longleftrightarrow> fst v @ snd v = full_service"

lemma consume_adjacent:
  assumes "adjacent full v" "n \<le> length (snd v)"
  shows "consume full n v = Inr (fst v @ take n (snd v), drop n (snd v))"
    "adjacent full (fst v @ take n (snd v), drop n (snd v))"
  using assms by (auto simp: consume_def adjacent_def split: prod.splits)

lemma find_colon_split:
  assumes "find_colon s = Some i"
  shows "i < length s" "s = take i s @ '':'' @ drop (Suc i) s" "CHR '':'' \<notin> set (take i s)" "take (Suc i) s = take i s @ '':''"
proof -
  from find_idx_SomeD [OF assms] have *: "i < length s" "s ! i = CHR '':''" "CHR '':'' \<notin> set (take i s)" by auto
  then show "i < length s" "CHR '':'' \<notin> set (take i s)" by blast+
  from * show "take (Suc i) s = take i s @ '':''" by (simp add: take_Suc_conv_app_nth)
  from id_take_nth_drop [OF *(1)] * show "s = take i s @ '':'' @ drop (Suc i) s" by simp
qed

text \<open>Each step keeps the views adjacent and the serial empty or ending in a colon.\<close>

definition fields :: "string \<Rightarrow> views \<Rightarrow> bool" where
  "fields full_service v \<longleftrightarrow> adjacent full_service v \<and> (fst v = [] \<or> last (fst v) = CHR '':'')"

definition sound_step :: "string \<Rightarrow> views option result \<Rightarrow> bool" where
  "sound_step full_service r \<longleftrightarrow> (case r of Inl f \<Rightarrow> False | Inr None \<Rightarrow> True | Inr (Some v) \<Rightarrow> fields full_service v)"

lemma consume_to_colon:
  assumes "adjacent full v" "find_colon (snd v) = Some i"
  shows "consume full (i + 1) v = Inr (fst v @ take i (snd v) @ '':'', drop (Suc i) (snd v))"
    "fields full (fst v @ take i (snd v) @ '':'', drop (Suc i) (snd v))"
  using consume_adjacent [OF assms(1), of "i + 1"] find_colon_split [OF assms(2)] by (simp_all add: fields_def)

lemma finish_fields:
  assumes "fields full v"
  shows "finish v = Inr (if fst v = [] \<or> snd v = [] then None else Some (butlast (fst v), snd v))"
  using assms by (auto simp: finish_def fields_def split: prod.splits)

lemma skip_protocol_sound: "sound_step full (skip_protocol full)"
proof (cases "StartsWith full ''tcp:'' \<or> StartsWith full ''udp:''")
  case True
  then obtain p r where p: "full = p @ r" "p = ''tcp:'' \<or> p = ''udp:''"
    by (auto simp: StartsWith_iff elim!: starts_withE)
  then have "consume full 4 ([], full) = Inr (p, r)" using consume_adjacent [of full "([], full)" 4] by (auto simp: adjacent_def)
  with True p show ?thesis by (auto simp: skip_protocol_def sound_step_def fields_def adjacent_def)
next
  case False
  then show ?thesis by (simp add: skip_protocol_def sound_step_def fields_def adjacent_def)
qed

lemma scan_to_colon_sound: "fields full v \<Longrightarrow> sound_step full (scan_to_colon full v)"
  using consume_to_colon [of full v] by (auto simp: scan_to_colon_def sound_step_def fields_def split: option.splits)

lemma skip_vsock_sound: "fields full v \<Longrightarrow> sound_step full (skip_vsock full v)"
  using consume_to_colon [of full v] by (auto simp: skip_vsock_def sound_step_def fields_def split: option.splits)

lemma skip_address_eq:
  assumes "snd v \<noteq> []"
  shows "hd (snd v) \<noteq> CHR ''['' \<or> CHR '']'' \<notin> set (snd v) \<Longrightarrow> skip_address full v = scan_to_colon full v"
    "hd (snd v) = CHR ''['' \<Longrightarrow> find_idx (\<lambda>c. c = CHR '']'') (snd v) = Some i \<Longrightarrow> adjacent full v \<Longrightarrow>
      skip_address full v =
        (case drop (i + 1) (snd v) of
           [] \<Rightarrow> Inr None
         | d # r \<Rightarrow> Inr (if d \<noteq> CHR '':'' then None else Some (fst v @ take (i + 1) (snd v) @ '':'', r)))"
proof -
  obtain c cs where v: "snd v = c # cs" using assms by (cases "snd v") auto
  show "skip_address full v = scan_to_colon full v" if "hd (snd v) \<noteq> CHR ''['' \<or> CHR '']'' \<notin> set (snd v)"
  proof (cases "c = CHR ''[''")
    case True
    with that v have "find_idx (\<lambda>c. c = CHR '']'') (snd v) = None" by (auto simp: find_idx_None)
    with True v show ?thesis by (simp add: skip_address_def del: find_idx.simps)
  qed (use v in \<open>simp add: skip_address_def\<close>)
  assume h: "hd (snd v) = CHR ''[''" "find_idx (\<lambda>c. c = CHR '']'') (snd v) = Some i" "adjacent full v"
  let ?v = "(fst v @ take (i + 1) (snd v), drop (i + 1) (snd v))"
  have "i + 1 \<le> length (snd v)" using find_idx_SomeD [OF h(2)] by simp
  from consume_adjacent [OF h(3) this] have c: "consume full (i + 1) v = Inr ?v" "adjacent full ?v" .
  show "skip_address full v =
        (case drop (i + 1) (snd v) of
           [] \<Rightarrow> Inr None
         | d # r \<Rightarrow> Inr (if d \<noteq> CHR '':'' then None else Some (fst v @ take (i + 1) (snd v) @ '':'', r)))"
  proof (cases "drop (i + 1) (snd v)")
    case Nil
    with c(1) h(1,2) v show ?thesis by (simp add: skip_address_def del: find_idx.simps drop_Suc_Cons take_Suc_Cons)
  next
    case (Cons d r)
    from c(2) have "adjacent full (fst v @ take (i + 1) (snd v), d # r)" unfolding Cons .
    from consume_adjacent [OF this, of 1] have "consume full 1 ?v = Inr (fst v @ take (i + 1) (snd v) @ [d], r)"
      unfolding Cons by simp
    with Cons c(1) h(1,2) v show ?thesis
      by (auto simp: skip_address_def del: find_idx.simps drop_Suc_Cons take_Suc_Cons)
  qed
qed

lemma skip_address_sound:
  assumes "fields full v" "snd v \<noteq> []"
  shows "sound_step full (skip_address full v)"
proof (cases "hd (snd v) = CHR ''['' \<and> CHR '']'' \<in> set (snd v)")
  case False
  with skip_address_eq(1) [OF assms(2)] scan_to_colon_sound [OF assms(1)] show ?thesis by auto
next
  case True
  then obtain i where i: "find_idx (\<lambda>c. c = CHR '']'') (snd v) = Some i"
    using find_idx_None [of "\<lambda>c. c = CHR '']''" "snd v"] by (cases "find_idx (\<lambda>c. c = CHR '']'') (snd v)") auto
  have a: "adjacent full v" using assms by (simp add: fields_def)
  have "adjacent full (fst v @ take (i + 1) (snd v) @ '':'', r)" if r: "drop (i + 1) (snd v) = CHR '':'' # r" for r
  proof -
    have "take (i + 1) (snd v) @ '':'' @ r = snd v"
      using append_take_drop_id [of "i + 1" "snd v"] unfolding r by simp
    with a show ?thesis by (simp add: adjacent_def)
  qed
  with skip_address_eq(2) [OF assms(2) _ i a] True show ?thesis
    by (cases "drop (i + 1) (snd v)") (auto simp: sound_step_def fields_def)
qed

text \<open>The last step: a numeric field is part of the serial.\<close>

definition numeric_field :: "string \<Rightarrow> bool" where
  "numeric_field s \<longleftrightarrow> (case find_colon s of None \<Rightarrow> False | Some i \<Rightarrow> list_all (is_digit 10) (take i s))"

lemma skip_port_eq:
  assumes "fields full v"
  shows "\<not> numeric_field (snd v) \<Longrightarrow> skip_port full v = finish v"
    "numeric_field (snd v) \<Longrightarrow> find_colon (snd v) = Some i \<Longrightarrow>
       skip_port full v = finish (fst v @ take i (snd v) @ '':'', drop (Suc i) (snd v))"
  using consume_to_colon [of full v i] find_colon_split(1) [of "snd v"] assms
  by (auto simp: skip_port_def numeric_field_def substr_def fields_def split: option.splits dest: find_colon_split)

section \<open>What the parser returns\<close>

lemma find_service_prefix:
  assumes "find (StartsWith full) service_prefixes = Some p"
  shows "p \<in> set service_prefixes" "\<exists>r. full = p @ r"
  using assms by (auto simp: find_Some_iff StartsWith_iff starts_with_iff)

lemma service_prefix_colon: "p \<in> set service_prefixes \<Longrightarrow> last p = CHR '':'' \<and> p \<noteq> []"
  by (auto simp: service_prefixes_def)

lemma parse_prefixed_eq:
  assumes "full = p @ r"
  shows "parse_prefixed full p =
    (case find_colon r of None \<Rightarrow> Inr None
     | Some i \<Rightarrow> Inr (if drop (Suc i) r = [] then None else Some (p @ take i r, drop (Suc i) r)))"
proof -
  have c: "consume full (length p) ([], full) = Inr (p, r)"
    using consume_adjacent [of full "([], full)" "length p"] assms by (simp add: adjacent_def)
  show ?thesis
  proof (cases "find_colon r")
    case (Some i)
    have "adjacent full (p, r)" using assms by (simp add: adjacent_def)
    from consume_to_colon [OF this, of i] finish_fields Some c show ?thesis
      by (simp add: parse_prefixed_def butlast_append)
  qed (use c in \<open>simp add: parse_prefixed_def\<close>)
qed

lemma finish_sound:
  assumes "fields full v" "finish v = Inr (Some (a, b))"
  shows "full = a @ '':'' @ b" "b \<noteq> []"
proof -
  have v: "fst v \<noteq> []" "snd v \<noteq> []" "a = butlast (fst v)" "b = snd v"
    using assms(2) by (auto simp: finish_fields [OF assms(1)] split: if_splits)
  then have "a @ '':'' = fst v" using assms(1) append_butlast_last_id [of "fst v"] by (simp add: fields_def)
  with v assms(1) show "full = a @ '':'' @ b" by (metis adjacent_def append.assoc fields_def)
  show "b \<noteq> []" using v by simp
qed

lemma skip_port_sound:
  assumes "fields full v"
  shows "\<exists>v'. fields full v' \<and> skip_port full v = finish v'"
proof (cases "numeric_field (snd v)")
  case True
  then obtain i where i: "find_colon (snd v) = Some i" by (auto simp: numeric_field_def split: option.splits)
  have "adjacent full v" using assms by (simp add: fields_def)
  from consume_to_colon(2) [OF this i] skip_port_eq(2) [OF assms True i] show ?thesis by blast
qed (use skip_port_eq(1) [OF assms] assms in blast)

lemma and_then_sound:
  assumes "sound_step full m" "and_then m f = r"
  shows "r = Inr None \<or> (\<exists>v. m = Inr (Some v) \<and> fields full v \<and> f v = r)"
  using assms by (auto simp: sound_step_def and_then_def split: sum.splits option.splits)

lemma skip_protocol_form:
  assumes "skip_protocol full = Inr (Some v)" "full \<noteq> []"
  shows "snd v \<noteq> []" "full \<in> {snd v, ''tcp:'' @ snd v, ''udp:'' @ snd v}"
proof -
  have "snd v \<noteq> [] \<and> full \<in> {snd v, ''tcp:'' @ snd v, ''udp:'' @ snd v}"
  proof (cases "StartsWith full ''tcp:'' \<or> StartsWith full ''udp:''")
    case True
    then obtain p r where p: "full = p @ r" "p = ''tcp:'' \<or> p = ''udp:''" by (auto simp: StartsWith_iff elim!: starts_withE)
    then have "consume full 4 ([], full) = Inr (p, r)" using consume_adjacent [of full "([], full)" 4] by (auto simp: adjacent_def)
    with True p assms(1) show ?thesis by (auto simp: skip_protocol_def split: if_splits)
  qed (use assms in \<open>auto simp: skip_protocol_def\<close>)
  then show "snd v \<noteq> []" "full \<in> {snd v, ''tcp:'' @ snd v, ''udp:'' @ snd v}" by blast+
qed

lemma skip_vsock_form:
  assumes "skip_vsock full v = Inr (Some v1)" "adjacent full v" "snd v \<noteq> []" "snd v1 = []"
  shows "snd v = ''vsock:''"
proof -
  have st: "StartsWith (snd v) ''vsock:''" using assms(1,3,4) by (auto simp: skip_vsock_def split: if_splits)
  then obtain r where r: "snd v = ''vsock:'' @ r" by (auto simp: StartsWith_iff elim!: starts_withE)
  then have "find_colon (snd v) = Some 5" by simp
  from consume_to_colon(1) [OF assms(2) this] assms(1,4) st r show ?thesis by (auto simp: skip_vsock_def eval_nat_numeral)
qed

lemma parse_address_steps:
  assumes "full \<noteq> []" "find (StartsWith full) service_prefixes = None"
  shows "parse_host_service full = Inr None \<or>
    (\<exists>v. fields full v \<and> (snd v = [] \<longrightarrow> full \<in> {''vsock:'', ''tcp:vsock:'', ''udp:vsock:''}) \<and>
       parse_host_service full = and_then (skip_address full v) (skip_port full))"
proof -
  let ?h = "\<lambda>v. and_then (skip_address full v) (skip_port full)"
  let ?g = "\<lambda>v. and_then (skip_vsock full v) ?h"
  have p: "and_then (skip_protocol full) ?g = parse_host_service full" using assms by (simp add: parse_host_service_def)
  show ?thesis
  proof (cases "parse_host_service full = Inr None")
    case False
    with and_then_sound [OF skip_protocol_sound p] obtain v where
      v: "skip_protocol full = Inr (Some v)" "fields full v" "?g v = parse_host_service full" by blast
    from and_then_sound [OF skip_vsock_sound [OF v(2)] v(3)] False obtain v1 where
      v1: "skip_vsock full v = Inr (Some v1)" "fields full v1" "?h v1 = parse_host_service full" by blast
    have "full \<in> {''vsock:'', ''tcp:vsock:'', ''udp:vsock:''}" if "snd v1 = []"
      using skip_vsock_form [OF v1(1) _ _ that] skip_protocol_form [OF v(1) assms(1)] v(2) by (auto simp: fields_def)
    with v1 show ?thesis by metis
  qed simp
qed

text \<open>The parser stops only at the first character of an address that is missing.\<close>

lemma parse_host_service_cases:
  "parse_host_service full = Inr None \<or> parse_host_service full = Inl OutOfBounds \<or>
   (\<exists>a b. parse_host_service full = Inr (Some (a, b)) \<and> full = a @ '':'' @ b \<and> b \<noteq> [])"
proof (cases "find (StartsWith full) service_prefixes")
  case prefix: (Some p)
  obtain r where r: "full = p @ r" using find_service_prefix(2) [OF prefix] by blast
  have "full \<noteq> []" using r service_prefix_colon [OF find_service_prefix(1) [OF prefix]] by simp
  then have e: "parse_host_service full = parse_prefixed full p" using prefix by (simp add: parse_host_service_def)
  show ?thesis
  proof (cases "find_colon r")
    case None
    with e r show ?thesis by (simp add: parse_prefixed_eq)
  next
    case (Some i)
    have "full = (p @ take i r) @ '':'' @ drop (Suc i) r" using find_colon_split(2) [OF Some] r by simp
    with Some e parse_prefixed_eq [OF r] show ?thesis by (cases "drop (Suc i) r = []") auto
  qed
next
  case None
  consider "full = []" | "parse_host_service full = Inr None"
    | v where "fields full v" "parse_host_service full = and_then (skip_address full v) (skip_port full)"
    using parse_address_steps [OF _ None] by blast
  then show ?thesis
  proof cases
    case 1
    then show ?thesis by (simp add: parse_host_service_def)
  next
    case 3
    show ?thesis
    proof (cases "snd v = []")
      case True
      with 3(2) show ?thesis by (auto simp: skip_address_def and_then_def)
    next
      case False
      from and_then_sound [OF skip_address_sound [OF 3(1) False] 3(2) [symmetric]] show ?thesis
      proof
        assume "\<exists>v1. skip_address full v = Inr (Some v1) \<and> fields full v1 \<and> skip_port full v1 = parse_host_service full"
        then obtain v2 where v2: "fields full v2" "parse_host_service full = finish v2"
          using skip_port_sound [of full] by metis
        show ?thesis
        proof (cases "fst v2 = [] \<or> snd v2 = []")
          case True
          with v2 finish_fields [OF v2(1)] show ?thesis by simp
        next
          case False
          then have f: "finish v2 = Inr (Some (butlast (fst v2), snd v2))" using finish_fields [OF v2(1)] by simp
          from finish_sound [OF v2(1) f] f v2(2) show ?thesis by metis
        qed
      qed simp
    qed
  qed simp
qed

text \<open>That happens when nothing follows \<open>vsock:\<close>.\<close>

lemma parse_out_of_bounds:
  assumes "parse_host_service full = Inl f"
  shows "f = OutOfBounds \<and> full \<in> {''vsock:'', ''tcp:vsock:'', ''udp:vsock:''}"
proof -
  have f: "f = OutOfBounds" using parse_host_service_cases [of full] assms by auto
  have ne: "full \<noteq> []" using assms by (auto simp: parse_host_service_def)
  have none: "find (StartsWith full) service_prefixes = None"
  proof (cases "find (StartsWith full) service_prefixes")
    case (Some p)
    then obtain r where "full = p @ r" using find_service_prefix(2) by blast
    from parse_prefixed_eq [OF this] Some assms ne show ?thesis by (auto simp: parse_host_service_def split: option.splits)
  qed
  from parse_address_steps [OF ne none] assms obtain v where
    v: "fields full v" "snd v = [] \<longrightarrow> full \<in> {''vsock:'', ''tcp:vsock:'', ''udp:vsock:''}"
      "and_then (skip_address full v) (skip_port full) = Inl f" by auto
  have "snd v = []"
  proof (rule ccontr)
    assume "snd v \<noteq> []"
    from and_then_sound [OF skip_address_sound [OF v(1) this] v(3)] obtain v1 where
      "fields full v1" "skip_port full v1 = Inl f" by auto
    with skip_port_sound [of full v1] finish_fields show False by (metis Inl_Inr_False)
  qed
  with v(2) f show ?thesis by blast
qed

section \<open>Serial numbers the parser recognises\<close>

text \<open>
  The formats of the comment above the function. The flag tells that the serial number ends in a
  field that the parser does not extend: a port, or the name after a prefix.
\<close>

definition plain_host :: "string \<Rightarrow> bool" where
  "plain_host h \<longleftrightarrow> h \<noteq> [] \<and> CHR '':'' \<notin> set h \<and> hd h \<noteq> CHR ''[''"

inductive host_address :: "string \<Rightarrow> bool" where
  "plain_host h \<Longrightarrow> host_address h"
| "CHR '']'' \<notin> set a \<Longrightarrow> host_address (''['' @ a @ '']'')"

inductive device_serial :: "bool \<Rightarrow> string \<Rightarrow> bool" where
  prefixed: "p \<in> set service_prefixes \<Longrightarrow> CHR '':'' \<notin> set name \<Longrightarrow> device_serial True (p @ name)"
| address: "host_address h \<Longrightarrow> pre = [] \<and> h @ '':'' \<notin> set service_prefixes \<union> {''tcp:'', ''udp:'', ''vsock:''} \<or>
    pre \<in> {''tcp:'', ''udp:''} \<and> h \<noteq> ''vsock'' \<or> pre \<in> {''vsock:'', ''tcp:vsock:'', ''udp:vsock:''} \<Longrightarrow> device_serial False (pre @ h)"
| port: "device_serial False s \<Longrightarrow> list_all (is_digit 10) p \<Longrightarrow> device_serial True (s @ '':'' @ p)"

lemma find_colon_append: "CHR '':'' \<notin> set a \<Longrightarrow> find_colon (a @ CHR '':'' # b) = Some (length a)"
  by (rule find_idx_stop) auto

lemma scan_plain:
  assumes "adjacent full (s, h @ CHR '':'' # r)" "CHR '':'' \<notin> set h"
  shows "scan_to_colon full (s, h @ CHR '':'' # r) = Inr (Some (s @ h @ '':'', r))"
  using consume_to_colon(1) [OF assms(1), of "length h"] find_colon_append [OF assms(2), of r]
  by (simp add: scan_to_colon_def)

lemma skip_address_host:
  assumes "host_address h" "adjacent full (s, h @ CHR '':'' # r)"
  shows "skip_address full (s, h @ CHR '':'' # r) = Inr (Some (s @ h @ '':'', r))"
  using assms(1)
proof cases
  case 1
  then have h: "h \<noteq> []" "hd h \<noteq> CHR ''[''" "CHR '':'' \<notin> set h" by (auto simp: plain_host_def)
  have "skip_address full (s, h @ CHR '':'' # r) = scan_to_colon full (s, h @ CHR '':'' # r)"
    using h by (intro skip_address_eq(1)) auto
  with scan_plain [OF assms(2) h(3)] show ?thesis by simp
next
  case (2 a)
  have f: "find_idx (\<lambda>c. c = CHR '']'') (snd (s, h @ CHR '':'' # r)) = Some (Suc (length a))"
    using find_idx_stop [of "CHR ''['' # a" "\<lambda>c. c = CHR '']''" "CHR '']''" "CHR '':'' # r"] 2 by auto
  from skip_address_eq(2) [OF _ _ f assms(2)] 2 show ?thesis by simp
qed

lemma not_prefix_before:
  assumes "StartsWith (a @ CHR '':'' # b) (p @ '':'')" "CHR '':'' \<notin> set p"
  shows "\<exists>r. a @ '':'' = p @ '':'' @ r"
proof -
  obtain r where r: "a @ CHR '':'' # b = p @ CHR '':'' # r" using assms(1) by (auto simp: StartsWith_iff starts_with_iff)
  show ?thesis
  proof (cases "length a \<le> length p")
    case True
    with r obtain us where us: "p = a @ us" by (auto simp: append_eq_append_conv2)
    with r assms(2) have "us = []" by (cases us) auto
    with us show ?thesis by simp
  next
    case False
    with r obtain us where us: "a = p @ us" "us \<noteq> []" by (auto simp: append_eq_append_conv2)
    with r have "hd us = CHR '':''" by (cases us) auto
    with us show ?thesis by (cases us) auto
  qed
qed

lemma host_address_prefix:
  assumes "host_address h" "StartsWith (h @ CHR '':'' # r) (p @ '':'')" "CHR '':'' \<notin> set p" "p \<noteq> []" "hd p \<noteq> CHR ''[''"
  shows "h @ '':'' = p @ '':''"
  using assms(1)
proof cases
  case 1
  obtain u where u: "h @ '':'' = p @ '':'' @ u" using not_prefix_before [OF assms(2,3)] by blast
  with 1 show ?thesis by (cases u rule: rev_cases) (auto simp: plain_host_def)
next
  case (2 a)
  with assms(2,4,5) show ?thesis by (cases p) (auto simp: StartsWith_iff starts_with_def)
qed

lemma host_address_no_prefix:
  assumes "host_address h" "h @ '':'' \<notin> set ps" "\<forall>p \<in> set ps. \<exists>q. p = q @ '':'' \<and> CHR '':'' \<notin> set q \<and> q \<noteq> [] \<and> hd q \<noteq> CHR ''[''"
  shows "find (StartsWith (h @ CHR '':'' # r)) ps = None"
  unfolding find_None_iff
proof
  assume "\<exists>p. p \<in> set ps \<and> StartsWith (h @ CHR '':'' # r) p"
  then obtain p where p: "p \<in> set ps" "StartsWith (h @ CHR '':'' # r) p" by blast
  from bspec [OF assms(3) p(1)] obtain q where q: "p = q @ '':''" "CHR '':'' \<notin> set q" "q \<noteq> []" "hd q \<noteq> CHR ''[''" by blast
  from host_address_prefix [OF assms(1) p(2) [unfolded q(1)] q(2-4)] p(1) q(1) assms(2) show False by simp
qed

lemma literal_prefixes:
  "\<forall>p \<in> set (service_prefixes @ [''tcp:'', ''udp:'', ''vsock:'']). \<exists>q. p = q @ '':'' \<and> CHR '':'' \<notin> set q \<and> q \<noteq> [] \<and> hd q \<noteq> CHR ''[''"
proof -
  let ?qs = "[''usb'', ''product'', ''model'', ''device'', ''localfilesystem'', ''tcp'', ''udp'', ''vsock'']"
  have "service_prefixes @ [''tcp:'', ''udp:'', ''vsock:''] = map (\<lambda>q. q @ '':'') ?qs" by (simp add: service_prefixes_def)
  moreover have "\<forall>q \<in> set ?qs. CHR '':'' \<notin> set q \<and> q \<noteq> [] \<and> hd q \<noteq> CHR ''[''" by simp
  ultimately show ?thesis by (simp only: set_map) blast
qed

lemma consume_literal: "adjacent full (s, p @ r) \<Longrightarrow> consume full (length p) (s, p @ r) = Inr (s @ p, r)"
  using consume_adjacent(1) [of full "(s, p @ r)" "length p"] by simp

lemma skip_vsock_yes: "adjacent full (s, ''vsock:'' @ r) \<Longrightarrow> skip_vsock full (s, ''vsock:'' @ r) = Inr (Some (s @ ''vsock:'', r))"
  using consume_literal [of full s "''vsock:''" r] by (simp add: skip_vsock_def StartsWith_iff starts_with_def)

lemma skip_protocol_yes: "p \<in> {''tcp:'', ''udp:''} \<Longrightarrow> r \<noteq> [] \<Longrightarrow> skip_protocol (p @ r) = Inr (Some (p, r))"
  using consume_literal [of "p @ r" "[]" p r] by (auto simp: skip_protocol_def StartsWith_iff starts_with_def adjacent_def eval_nat_numeral)

lemma prefix_literal: "p \<in> {''tcp:'', ''udp:'', ''vsock:''} \<Longrightarrow> find (StartsWith (p @ r)) service_prefixes = None"
  by (auto simp: service_prefixes_def StartsWith_def substr_def eval_nat_numeral)

text \<open>An address without port is consumed with its protocol, and the rest is left.\<close>

lemma parse_reaches_port:
  assumes "host_address h" and pre: "pre = [] \<and> h @ '':'' \<notin> set service_prefixes \<union> {''tcp:'', ''udp:'', ''vsock:''} \<or>
    pre \<in> {''tcp:'', ''udp:''} \<and> h \<noteq> ''vsock'' \<or> pre \<in> {''vsock:'', ''tcp:vsock:'', ''udp:vsock:''}"
  defines "full \<equiv> \<lambda>r. pre @ h @ CHR '':'' # r"
  shows "parse_host_service (full r) = skip_port (full r) (pre @ h @ '':'', r)"
proof -
  let ?b = "h @ CHR '':'' # r"
  have none: "find (StartsWith ?b) (service_prefixes @ [''tcp:'', ''udp:'', ''vsock:'']) = None"
    if "h @ '':'' \<notin> set service_prefixes \<union> {''tcp:'', ''udp:'', ''vsock:''}"
    using host_address_no_prefix [OF assms(1) _ literal_prefixes, of r] that by simp
  have vs: "\<not> StartsWith ?b ''vsock:''" if "h \<noteq> ''vsock''"
    using host_address_no_prefix [OF assms(1), of "[''vsock:'']" r] literal_prefixes that by (auto simp: find_None_iff)
  have "find (StartsWith (full r)) service_prefixes = None \<and> and_then (skip_protocol (full r)) (skip_vsock (full r)) = Inr (Some (pre, ?b))"
    using pre
  proof (elim disjE)
    assume p: "pre = [] \<and> h @ '':'' \<notin> set service_prefixes \<union> {''tcp:'', ''udp:'', ''vsock:''}"
    with none show ?thesis by (auto simp: full_def find_None_iff skip_protocol_def skip_vsock_def and_then_def)
  next
    assume p: "pre \<in> {''tcp:'', ''udp:''} \<and> h \<noteq> ''vsock''"
    with vs skip_protocol_yes [of pre ?b] prefix_literal [of pre ?b] show ?thesis
      by (auto simp: full_def skip_vsock_def and_then_def)
  next
    assume p: "pre \<in> {''vsock:'', ''tcp:vsock:'', ''udp:vsock:''}"
    then consider "pre = ''vsock:''" | q where "q \<in> {''tcp:'', ''udp:''}" "pre = q @ ''vsock:''"
      by (metis append.simps insertCI insertE singletonD)
    then show ?thesis
    proof cases
      case 1
      with prefix_literal [of pre ?b] skip_vsock_yes [of "full r" "[]" ?b] show ?thesis
        by (auto simp: full_def skip_protocol_def StartsWith_def substr_def and_then_def adjacent_def)
    next
      case 2
      with prefix_literal [of q "''vsock:'' @ ?b"] skip_vsock_yes [of "full r" q ?b] skip_protocol_yes [of q "''vsock:'' @ ?b"] show ?thesis
        by (auto simp: full_def and_then_def adjacent_def)
    qed
  qed
  then have f: "find (StartsWith (full r)) service_prefixes = None" and
    s: "and_then (skip_protocol (full r)) (skip_vsock (full r)) = Inr (Some (pre, ?b))" by blast+
  have "skip_address (full r) (pre, ?b) = Inr (Some (pre @ h @ '':'', r))"
    by (rule skip_address_host [OF assms(1)]) (simp add: adjacent_def full_def)
  moreover have "parse_host_service (full r) =
      and_then (and_then (skip_protocol (full r)) (skip_vsock (full r))) (\<lambda>v. and_then (skip_address (full r) v) (skip_port (full r)))"
    using f by (simp add: parse_host_service_def full_def and_then_def bind_r_def split: sum.splits option.splits)
  ultimately show ?thesis by (simp add: s) (simp add: and_then_def)
qed

lemma finish_serial: "b \<noteq> [] \<Longrightarrow> finish (a @ '':'', b) = Inr (Some (a, b))"
  by (simp add: finish_def butlast_append)

lemma parse_prefixed_serial:
  assumes "p \<in> set service_prefixes" "CHR '':'' \<notin> set name" "b \<noteq> []"
  shows "parse_host_service ((p @ name) @ '':'' @ b) = Inr (Some (p @ name, b))"
proof -
  let ?f = "(p @ name) @ '':'' @ b"
  have "p = ''usb:'' \<or> p = ''product:'' \<or> p = ''model:'' \<or> p = ''device:'' \<or> p = ''localfilesystem:''"
    using assms(1) by (simp add: service_prefixes_def)
  then have "find (StartsWith ?f) service_prefixes = Some p"
    by (elim disjE) (simp_all add: service_prefixes_def StartsWith_def substr_def)
  moreover have "find_colon (name @ CHR '':'' # b) = Some (length name)" by (rule find_colon_append [OF assms(2)])
  ultimately show ?thesis
    using parse_prefixed_eq [of ?f p "name @ CHR '':'' # b"] assms(3) by (simp add: parse_host_service_def)
qed

lemma device_serial_roundtrip:
  assumes "device_serial extended s" "b \<noteq> []" "extended \<or> \<not> numeric_field b"
  shows "parse_host_service (s @ '':'' @ b) = Inr (Some (s, b))"
  using assms
proof cases
  case (prefixed p name)
  with parse_prefixed_serial [OF prefixed(3,4) assms(2)] show ?thesis by simp
next
  case (address h pre)
  let ?f = "pre @ h @ CHR '':'' # b"
  have "fields ?f (pre @ h @ '':'', b)" by (simp add: fields_def adjacent_def)
  from skip_port_eq(1) [OF this] parse_reaches_port [OF address(3,4), of b] assms(2,3) finish_serial [of b "pre @ h"] address
  show ?thesis by simp
next
  case (port s0 p)
  from port(3) show ?thesis
  proof cases
    case (address h pre)
    let ?f = "pre @ h @ CHR '':'' # p @ CHR '':'' # b"
    have c: "CHR '':'' \<notin> set p" using port(4) by (auto simp: list_all_iff is_digit_def digit_val_def)
    have f: "find_colon (p @ CHR '':'' # b) = Some (length p)" by (rule find_colon_append [OF c])
    have "fields ?f (pre @ h @ '':'', p @ CHR '':'' # b)" by (simp add: fields_def adjacent_def)
    from skip_port_eq(2) [OF this, of "length p"] f port(4) have
      "skip_port ?f (pre @ h @ '':'', p @ CHR '':'' # b) = finish ((pre @ h @ '':'' @ p) @ '':'', b)"
      by (simp add: numeric_field_def)
    with parse_reaches_port [OF address(2,3), of "p @ CHR '':'' # b"] finish_serial [OF assms(2), of "pre @ h @ '':'' @ p"]
      address port show ?thesis by simp
  qed simp_all
qed

section \<open>The length field\<close>

lemma or_shift_nibble: "d < 16 \<Longrightarrow> push_bit 4 (n :: u32) OR of_nat d = 16 * n + of_nat d"
proof -
  assume "d < 16"
  have "push_bit 4 n AND (of_nat d :: u32) = 0"
  proof (rule bit_word_eqI)
    fix i
    assume "i < LENGTH(32)"
    have "\<not> bit d i" if "4 \<le> i"
    proof -
      have "d < 2 ^ i" using \<open>d < 16\<close> power_increasing [OF that, of "2 :: nat"] by simp
      then show ?thesis by (simp add: bit_iff_odd)
    qed
    then show "bit (push_bit 4 n AND (of_nat d :: u32)) i = bit (0 :: u32) i"
      by (auto simp: bit_and_iff bit_push_bit_iff bit_of_nat_iff)
  qed
  then have "push_bit 4 n OR of_nat d = push_bit 4 n + (of_nat d :: u32)" by (simp add: disjunctive_add_eq_or)
  then show ?thesis by (simp add: push_bit_eq_mult mult.commute)
qed

lemma unhex_loop_digits:
  "list_all (is_digit 16) ds \<Longrightarrow>
     unhex_loop (of_nat a) (ds @ r) (length ds) =
       Inr (of_nat (foldl (\<lambda>acc c. acc * 16 + (case digit_val c of None \<Rightarrow> 0 | Some d \<Rightarrow> d)) a ds))"
proof (induction ds arbitrary: a)
  case (Cons c ds)
  then obtain d where d: "digit_val c = Some d" "d < 16" by (auto simp: is_digit_def split: option.splits)
  have "push_bit 4 (of_nat a) OR of_nat d = (of_nat (a * 16 + d) :: u32)"
    using or_shift_nibble [OF d(2), of "of_nat a"] by simp
  with Cons.IH [of "a * 16 + d"] Cons.prems d(1) show ?case by simp
qed simp

lemma unhex_digits: "list_all (is_digit 16) ds \<Longrightarrow> unhex (ds @ r) (length ds) = Inr (of_nat (digits_value 16 ds))"
  using unhex_loop_digits [of ds 0 r] by (simp add: unhex_def digits_value_def)

text \<open>
  C30: the parser of \<open>host-serial\<close> requests never fails one of its checks, whatever it returns is a
  split of the request at a colon, and the only request it reads out of bounds is one that ends
  after \<open>vsock:\<close>. It recovers serial number and command from every documented
  form of the serial number, where a serial number without port is told from the command unless the
  command itself starts with a number.
\<close>

theorem parse_host_service_correct:
  "(case parse_host_service full of
      Inr None \<Rightarrow> True
    | Inr (Some (a, b)) \<Rightarrow> full = a @ '':'' @ b \<and> b \<noteq> []
    | Inl f \<Rightarrow> f = OutOfBounds \<and> full \<in> {''vsock:'', ''tcp:vsock:'', ''udp:vsock:''}) \<and>
   (device_serial extended s \<and> c \<noteq> [] \<and> (extended \<or> \<not> numeric_field c) \<longrightarrow> parse_host_service (s @ '':'' @ c) = Inr (Some (s, c)))"
  using parse_host_service_cases [of full] parse_out_of_bounds [of full] device_serial_roundtrip [of extended s c]
  by (auto split: sum.splits option.splits)

theorem parse_host_service_correct_witness:
  "device_serial True ''tcp:h:55'' \<and> parse_host_service ''tcp:h:55:features'' = Inr (Some (''tcp:h:55'', ''features''))"
proof -
  have "device_serial False (''tcp:'' @ ''h'')"
    by (rule device_serial.address) (auto intro: host_address.intros simp: plain_host_def)
  from device_serial.port [OF this, of "''55''"] have "device_serial True ''tcp:h:55''"
    by (simp add: is_digit_def digit_val_def)
  with parse_host_service_correct [of "[]" True "''tcp:h:55''" "''features''"] show ?thesis by simp
qed

end
