(* ===== verification/Smart_Socket.thy ===== *)
theory Smart_Socket
  imports Registration Host_Service
begin

text \<open>
  Requests of clients: the smart socket that collects one (\<open>smart_socket_enqueue\<close> of
  \<open>adb/sockets.cpp\<close>), the host requests the server answers itself (\<open>handle_host_request\<close> of
  \<open>adb.cpp\<close>), the host services (\<open>host_service_to_socket\<close> of \<open>services.cpp\<close>), and the event handler
  of local sockets that reads from the client and passes the data to the peer.
\<close>

section \<open>Host requests\<close>

datatype host_request_result = Handled | SwitchedTransport | Unhandled

definition ADB_SERVER_VERSION :: nat where
  "ADB_SERVER_VERSION = 41"

definition DEFAULT_ADB_LOCAL_TRANSPORT_PORT :: int where
  "DEFAULT_ADB_LOCAL_TRANSPORT_PORT = 5555"

definition kFeatureLibusb :: string where
  "kFeatureLibusb = ''libusb''"

definition kFeaturePushSync :: string where
  "kFeaturePushSync = ''push_sync''"

definition net_address_error_text :: "net_address_error \<Rightarrow> string" where
  "net_address_error_text e =
     (case e of
        BadIPv6 a \<Rightarrow> ''bad IPv6 address '' @ [CHR 0x27] @ c_str a @ [CHR 0x27]
      | NoHost a \<Rightarrow> ''no host in '' @ [CHR 0x27] @ c_str a @ [CHR 0x27]
      | BadPort p a \<Rightarrow> ''bad port number '' @ [CHR 0x27] @ c_str p @ [CHR 0x27] @ '' in '' @ [CHR 0x27] @ c_str a @ [CHR 0x27])"

definition world_acquire :: "environment \<Rightarrow> transport_type \<Rightarrow> string option \<Rightarrow> nat \<Rightarrow> bool \<Rightarrow> world \<Rightarrow> (tptr option \<times> string) result" where
  "world_acquire env type ser tid accept_any_state w =
     bind_r (deref_transports w (transport_list w)) (\<lambda>ts.
     bind_r (acquire_one_transport (diag env) type ser tid accept_any_state ts) (\<lambda>sel.
       Inr (sel_result sel, sel_error sel)))"

text \<open>\<open>s->transport ? s->transport : acquire_one_transport(...)\<close>.\<close>

definition socket_or_acquire :: "environment \<Rightarrow> sptr \<Rightarrow> transport_type \<Rightarrow> string option \<Rightarrow> nat \<Rightarrow> bool \<Rightarrow> world \<Rightarrow> (tptr option \<times> string) result" where
  "socket_or_acquire env s type ser tid accept_any_state w =
     bind_r (get_sock w s) (\<lambda>so.
       (case sock_transport so of Some t \<Rightarrow> Inr (Some t, []) | None \<Rightarrow> world_acquire env type ser tid accept_any_state w))"

text \<open>The bytes of \<open>t->id\<close> on a little-endian machine.\<close>

definition id_bytes :: "nat \<Rightarrow> string" where
  "id_bytes n = map (\<lambda>i. char_of (n div 256 ^ i mod 256)) [0..<8]"

text \<open>What a \<open>transport\<close> or \<open>tport\<close> request selects: the type, serial number and identifier to look for.\<close>

definition transport_selector ::
    "string \<Rightarrow> string option \<Rightarrow> nat \<Rightarrow> (bool \<times> transport_type \<times> string option \<times> nat) option" where
  "transport_selector service ser tid =
     (case ConsumePrefix service ''tport:'' of
        (True, rest) \<Rightarrow>
          (case ConsumePrefix rest ''serial:'' of
             (True, sr) \<Rightarrow> Some (False, kTransportAny, Some (c_str sr), tid)
           | (False, _) \<Rightarrow>
               Some (False, if rest = ''usb'' then kTransportUsb else if rest = ''local'' then kTransportLocal else kTransportAny, ser, tid))
      | (False, _) \<Rightarrow>
          (case ConsumePrefix service ''transport-id:'' of
             (True, rest) \<Rightarrow> (case ParseUint (2 ^ 64 - 1) rest of None \<Rightarrow> None | Some n \<Rightarrow> Some (True, kTransportAny, ser, n))
           | (False, _) \<Rightarrow>
               if service = ''transport-usb'' then Some (True, kTransportUsb, ser, tid)
               else if service = ''transport-local'' then Some (True, kTransportLocal, ser, tid)
               else if service = ''transport-any'' then Some (True, kTransportAny, ser, tid)
               else (case ConsumePrefix service ''transport:'' of
                       (True, rest) \<Rightarrow> Some (True, kTransportAny, Some (c_str rest), tid)
                     | (False, _) \<Rightarrow> Some (True, kTransportAny, ser, tid))))"

definition request_transport ::
    "environment \<Rightarrow> string \<Rightarrow> string option \<Rightarrow> nat \<Rightarrow> int \<Rightarrow> sptr \<Rightarrow> world \<Rightarrow> (host_request_result \<times> world) result" where
  "request_transport env service ser tid f s w =
     (case transport_selector service ser tid of
        None \<Rightarrow> Inr (Handled, world_SendFail f ''invalid transport id'' w)
      | Some (legacy, type, ser', tid') \<Rightarrow>
          bind_r (world_acquire env type ser' tid' False w) (\<lambda>(r, error).
            (case r of
               None \<Rightarrow> Inr (Handled, world_SendFail f error w)
             | Some t \<Rightarrow>
                 bind_r (get_transport w t) (\<lambda>a.
                 bind_r (upd_sock (\<lambda>so. so\<lparr>sock_transport := Some t\<rparr>) s w) (\<lambda>w1.
                   let w2 = world_SendOkay f w1
                   in Inr (SwitchedTransport, if legacy then w2 else fd_write f (id_bytes (t_id a)) w2))))))"

text \<open>The requests that print something about one transport.\<close>

definition request_about ::
    "environment \<Rightarrow> (atransport \<Rightarrow> string) \<Rightarrow> transport_type \<Rightarrow> string option \<Rightarrow> nat \<Rightarrow> int \<Rightarrow> sptr \<Rightarrow> world \<Rightarrow>
     (host_request_result \<times> world) result" where
  "request_about env answer type ser tid f s w =
     bind_r (socket_or_acquire env s type ser tid False w) (\<lambda>(r, error).
       (case r of
          None \<Rightarrow> Inr (Handled, world_SendFail f error w)
        | Some t \<Rightarrow> bind_r (get_transport w t) (\<lambda>a. Inr (Handled, world_SendOkay_string f (answer a) w))))"

definition kick_and_reply :: "tptr \<Rightarrow> string \<Rightarrow> int \<Rightarrow> world \<Rightarrow> (host_request_result \<times> world) result" where
  "kick_and_reply t address f w =
     bind_r (kick_transport t False w) (\<lambda>w1.
       Inr (Handled, world_SendOkay_string f (''disconnected '' @ c_str address) w1))"

definition request_disconnect :: "string \<Rightarrow> int \<Rightarrow> world \<Rightarrow> (host_request_result \<times> world) result" where
  "request_disconnect address f w =
     (if address = [] then
        bind_r (kick_all_tcp_devices w) (\<lambda>w1. Inr (Handled, world_SendOkay_string f ''disconnected everything'' w1))
      else
        bind_r (world_find_transport address w) (\<lambda>r.
          (case r of
             Some t \<Rightarrow> kick_and_reply t address f w
           | None \<Rightarrow>
               bind_r (if StartsWith address ''vsock:'' \<or> StartsWith address ''localfilesystem:''
                       then Inr (Inr address)
                       else bind_r (ParseNetAddress address DEFAULT_ADB_LOCAL_TRANSPORT_PORT) (\<lambda>p.
                              Inr (case p of Inl e \<Rightarrow> Inl e | Inr a \<Rightarrow> Inr (na_canonical a)))) (\<lambda>parsed.
                 (case parsed of
                    Inl e \<Rightarrow>
                      Inr (Handled, world_SendFail f (''couldn'' @ [CHR 0x27] @ ''t parse '' @ [CHR 0x27] @ c_str address @ [CHR 0x27] @ '': '' @
                             net_address_error_text e) w)
                  | Inr ser \<Rightarrow>
                      bind_r (world_find_transport ser w) (\<lambda>r'.
                        (case r' of
                           None \<Rightarrow> Inr (Handled, world_SendFail f (''no such device '' @ [CHR 0x27] @ c_str ser @ [CHR 0x27]) w)
                         | Some t \<Rightarrow> kick_and_reply t address f w)))))))"

definition offline_line :: "atransport \<Rightarrow> string" where
  "offline_line a = (if ConnectionStateIsOnline (connection_state a) then [] else ''reconnecting '' @ serial_name a @ [CHR 0x0A])"

definition request_reconnect_offline :: "int \<Rightarrow> world \<Rightarrow> (host_request_result \<times> world) result" where
  "request_reconnect_offline f w =
     bind_r (deref_transports w (transport_list w)) (\<lambda>ts.
     bind_r (close_usb_devices (\<lambda>a. \<not> ConnectionStateIsOnline (connection_state a)) True w) (\<lambda>w1.
       let response = concat (map (\<lambda>(t, a). offline_line a) ts)
       in Inr (Handled, world_SendOkay_string f (butlast response) w1)))"

definition request_reconnect :: "environment \<Rightarrow> transport_type \<Rightarrow> string option \<Rightarrow> nat \<Rightarrow> int \<Rightarrow> sptr \<Rightarrow> world \<Rightarrow> (host_request_result \<times> world) result" where
  "request_reconnect env type ser tid f s w =
     bind_r (socket_or_acquire env s type ser tid True w) (\<lambda>(r, error).
       (case r of
          None \<Rightarrow> Inr (Handled, world_SendOkay_string f error w)
        | Some t \<Rightarrow>
            bind_r (kick_transport t True w) (\<lambda>w1.
            bind_r (get_transport w1 t) (\<lambda>a.
              Inr (Handled, world_SendOkay_string f (''reconnecting '' @ serial_name a @ '' ['' @
                     state_to_string (no_perm_short (diag env)) (connection_state a) @ '']'' @ [CHR 0x0A]) w1)))))"

definition request_attach :: "environment \<Rightarrow> bool \<Rightarrow> transport_type \<Rightarrow> string option \<Rightarrow> nat \<Rightarrow> int \<Rightarrow> sptr \<Rightarrow> world \<Rightarrow> (host_request_result \<times> world) result" where
  "request_attach env attach type ser tid f s w =
     bind_r (socket_or_acquire env s type ser tid True w) (\<lambda>(r, error).
       (case r of
          None \<Rightarrow> Inr (Handled, world_SendFail f error w)
        | Some t \<Rightarrow>
            bind_r (if attach then transport_Attach t w
                    else bind_r (upd_sock (\<lambda>so. so\<lparr>sock_transport := None\<rparr>) s w) (transport_Detach env t)) (\<lambda>(refused, w1).
            bind_r (get_transport w1 t) (\<lambda>a.
              Inr (Handled, (case refused of
                               None \<Rightarrow> world_SendOkay_string f (c_str (serial_name a) @ (if attach then '' attached'' else '' detached'')) w1
                             | Some e \<Rightarrow> world_SendFail f e w1))))))"

definition request_emulator :: "environment \<Rightarrow> string \<Rightarrow> world \<Rightarrow> (host_request_result \<times> world) result" where
  "request_emulator env text w =
     (case ParseUint (2 ^ 32 - 1) text of
        None \<Rightarrow> Inr (Handled, w)
      | Some n \<Rightarrow> bind_r (local_connect env (sint (of_nat n :: u32)) w) (\<lambda>(_, w1). Inr (Handled, w1)))"

text \<open>The acquirer of forward requests drops the error text: it fills a variable that shadows the caller's.\<close>

definition forward_acquirer :: "environment \<Rightarrow> sptr \<Rightarrow> transport_type \<Rightarrow> string option \<Rightarrow> nat \<Rightarrow> world \<Rightarrow> (tptr option \<times> string) result" where
  "forward_acquirer env s type ser tid w = bind_r (socket_or_acquire env s type ser tid False w) (\<lambda>(r, _). Inr (r, []))"

definition handle_host_request ::
    "environment \<Rightarrow> listen_fn \<Rightarrow> string \<Rightarrow> transport_type \<Rightarrow> string option \<Rightarrow> nat \<Rightarrow> int \<Rightarrow> sptr \<Rightarrow> world \<Rightarrow>
     (host_request_result \<times> world) result" where
  "handle_host_request env listen service type ser tid f s w0 =
     bind_r (if service = ''kill'' then
               (if reject_kill env then Inr (world_SendFail f ''kill-server rejected by remote server'' w0) else Inl (ProcessExit 0))
             else Inr w0) (\<lambda>w.
       if StartsWith service ''transport'' \<or> StartsWith service ''tport:'' then request_transport env service ser tid f s w
       else if service = ''devices'' \<or> service = ''devices-l'' then
         bind_r (world_list_transports env (if service = ''devices-l'' then LONG_TEXT else SHORT_TEXT) w) (\<lambda>str.
           Inr (Handled, world_SendOkay_string f str w))
       else if service = ''reconnect-offline'' then request_reconnect_offline f w
       else if service = ''features'' then request_about env (\<lambda>a. FeatureSetToString (features a)) type ser tid f s w
       else if service = ''host-features'' then
         Inr (Handled, world_SendOkay_string f (FeatureSetToString (supported_features @
                (if should_use_libusb then [kFeatureLibusb] else []) @ [kFeaturePushSync])) w)
       else if StartsWith service ''disconnect:'' then request_disconnect (drop 11 service) f w
       else if service = ''version'' then Inr (Handled, world_SendOkay_string f (pad0 4 (to_base 16 ADB_SERVER_VERSION)) w)
       else if service = ''get-serialno'' then
         request_about env (\<lambda>a. if serial a \<noteq> [] then serial a else ''unknown'') type ser tid f s w
       else if service = ''get-devpath'' then
         request_about env (\<lambda>a. if devpath a \<noteq> [] then devpath a else ''unknown'') type ser tid f s w
       else if service = ''get-state'' then
         request_about env (\<lambda>a. state_to_string (no_perm_short (diag env)) (connection_state a)) type ser tid f s w
       else if StartsWith service ''emulator:'' then request_emulator env (drop 9 service) w
       else if service = ''reconnect'' then request_reconnect env type ser tid f s w
       else if service = ''attach'' \<or> service = ''detach'' then request_attach env (service = ''attach'') type ser tid f s w
       else
         bind_r (handle_forward_request listen (c_str service) (forward_acquirer env s type ser tid w) f w) (\<lambda>(done, w1).
           Inr (if done then Handled else Unhandled, w1)))"

section \<open>Host services\<close>

text \<open>A service thread serves one end of a socket pair; the other end becomes a local socket.\<close>

definition create_service_socket :: "world \<Rightarrow> (sptr \<times> world) result" where
  "create_service_socket w =
     (case open_fd w of
        (None, w1) \<Rightarrow> Inl (CheckFailed ''fd.get() >= 0'')
      | (Some f, w1) \<Rightarrow> create_local_socket f w1)"

definition host_service_to_socket :: "string \<Rightarrow> world \<Rightarrow> (sptr option \<times> world) result" where
  "host_service_to_socket name w =
     (if name = ''track-devices'' then Inr (apfst Some (create_device_tracker SHORT_TEXT w))
      else if name = ''track-devices-l'' then Inr (apfst Some (create_device_tracker LONG_TEXT w))
      else if name = ''track-devices-proto-binary'' then Inr (apfst Some (create_device_tracker PROTOBUF w))
      else if name = ''track-devices-proto-text'' then Inr (apfst Some (create_device_tracker TEXT_PROTOBUF w))
      else if StartsWith name ''wait-for-'' \<or> StartsWith name ''connect:'' \<or>
              (StartsWith name ''pair:'' \<and> CHR '':'' \<in> set (c_str (drop 5 name))) then
        bind_r (create_service_socket w) (\<lambda>(s, w1). Inr (Some s, w1))
      else Inr (None, w))"

section \<open>The smart socket\<close>

text \<open>The kinds of request, with what follows the prefix.\<close>

datatype request = Malformed | Abandoned | Host_request string transport_type "string option" nat | Device_request

definition classify_request :: "string \<Rightarrow> request result" where
  "classify_request service =
     (case ConsumePrefix service ''host-serial:'' of
        (True, rest) \<Rightarrow>
          bind_r (parse_host_service rest) (\<lambda>r.
            Inr (case r of None \<Rightarrow> Malformed
                 | Some (ser, cmd) \<Rightarrow> Host_request cmd kTransportAny (if ser = [] then None else Some (c_str ser)) 0))
      | (False, _) \<Rightarrow>
          (case ConsumePrefix service ''host-transport-id:'' of
             (True, rest) \<Rightarrow>
               Inr (case ParseUint_remaining (2 ^ 64 - 1) rest of
                      None \<Rightarrow> Abandoned
                    | Some (tid, rest') \<Rightarrow>
                        (case ConsumePrefix rest' '':'' of
                           (False, _) \<Rightarrow> Abandoned
                         | (True, cmd) \<Rightarrow> if cmd = [] then Device_request else Host_request cmd kTransportAny None tid))
           | (False, _) \<Rightarrow>
               Inr (case ConsumePrefix service ''host-usb:'' of
                      (True, cmd) \<Rightarrow> if cmd = [] then Device_request else Host_request cmd kTransportUsb None 0
                    | (False, _) \<Rightarrow>
                        (case ConsumePrefix service ''host-local:'' of
                           (True, cmd) \<Rightarrow> if cmd = [] then Device_request else Host_request cmd kTransportLocal None 0
                         | (False, _) \<Rightarrow>
                             (case ConsumePrefix service ''host:'' of
                                (True, cmd) \<Rightarrow> if cmd = [] then Device_request else Host_request cmd kTransportAny None 0
                              | (False, _) \<Rightarrow> Device_request)))))"

definition fail_request :: "sptr \<Rightarrow> world \<Rightarrow> (int \<times> world) result" where
  "fail_request s w = bind_r (close_socket w s) (\<lambda>w1. Inr (-1, w1))"

text \<open>The peer \<open>p\<close> of the smart socket \<open>s\<close> is bound to the service socket \<open>s2\<close>.\<close>

definition bind_service :: "environment \<Rightarrow> sptr \<Rightarrow> sptr \<Rightarrow> sptr \<Rightarrow> world \<Rightarrow> (int \<times> world) result" where
  "bind_service env s p s2 w =
     bind_r (get_sock w p) (\<lambda>po.
     bind_r (upd_sock (\<lambda>so. so\<lparr>ready_m := Local_ready, shutdown_m := None, close_m := Local_close, peer := Some s2\<rparr>) p
              (world_SendOkay (fd po) w)) (\<lambda>w1.
     bind_r (upd_sock (\<lambda>so. so\<lparr>peer := Some p\<rparr>) s2 w1) (\<lambda>w2.
     bind_r (upd_sock (\<lambda>so. so\<lparr>peer := None\<rparr>) s w2) (\<lambda>w3.
     bind_r (close_socket w3 s) (\<lambda>w4.
     bind_r (call_ready env s2 w4) (\<lambda>w5. Inr (0, w5)))))))"

definition serve_host_request ::
    "environment \<Rightarrow> listen_fn \<Rightarrow> sptr \<Rightarrow> string \<Rightarrow> transport_type \<Rightarrow> string option \<Rightarrow> nat \<Rightarrow> world \<Rightarrow> (int \<times> world) result" where
  "serve_host_request env listen s service type ser tid w =
     bind_r (get_sock w s) (\<lambda>so.
     bind_r (the_ptr (peer so)) (\<lambda>p.
     bind_r (get_sock w p) (\<lambda>po.
     bind_r (handle_host_request env listen service type ser tid (fd po) s w) (\<lambda>(r, w1).
       (case r of
          Handled \<Rightarrow> fail_request s w1
        | SwitchedTransport \<Rightarrow> bind_r (upd_sock (\<lambda>so. so\<lparr>smart_socket_data := []\<rparr>) s w1) (\<lambda>w2. Inr (0, w2))
        | Unhandled \<Rightarrow>
            bind_r (host_service_to_socket service w1) (\<lambda>(r2, w2).
              (case r2 of
                 None \<Rightarrow> fail_request s (world_SendFail (fd po) (''unknown host service '' @ [CHR 0x27] @ service @ [CHR 0x27]) w2)
               | Some s2 \<Rightarrow> bind_service env s p s2 w2)))))))"

text \<open>A request for a device: the peer is turned into a socket that reports success or failure once it is connected.\<close>

definition serve_device_request :: "sptr \<Rightarrow> string \<Rightarrow> world \<Rightarrow> (int \<times> world) result" where
  "serve_device_request s destination w =
     bind_r (get_sock w s) (\<lambda>so.
     bind_r (the_ptr (peer so)) (\<lambda>p.
     bind_r (get_sock w p) (\<lambda>po.
       (case sock_transport so of
          None \<Rightarrow> fail_request s (world_SendFail (fd po) ''device offline (no transport)'' w)
        | Some t \<Rightarrow>
            bind_r (get_transport w t) (\<lambda>a.
              if \<not> ConnectionStateIsOnline (connection_state a)
              then fail_request s (world_SendFail (fd po) ''device offline (transport offline)'' w)
              else
                bind_r (upd_sock (\<lambda>so. so\<lparr>ready_m := Local_ready_notify, shutdown_m := None, close_m := Local_close_notify,
                                          peer := None, sock_transport := Some t\<rparr>) p w) (\<lambda>w1.
                bind_r (connect_to_remote p destination w1) (\<lambda>w2.
                bind_r (upd_sock (\<lambda>so. so\<lparr>peer := None\<rparr>) s w2) (\<lambda>w3.
                bind_r (close_socket w3 s) (\<lambda>w4. Inr (1, w4))))))))))"

text \<open>
  What the collected bytes amount to: not enough yet, a bad length, or a request. The byte after the
  request is overwritten with a terminator, which is inside the data when more has arrived.
\<close>

datatype frame = Incomplete | Bad_size | Frame string

definition terminate_at :: "nat \<Rightarrow> string \<Rightarrow> string" where
  "terminate_at n data = (if n < length data then data[n := CHR 0x00] else data)"

definition request_frame :: "string \<Rightarrow> frame result" where
  "request_frame data =
     (if length data < 4 then Inr Incomplete
      else bind_r (unhex data 4) (\<lambda>len.
        Inr (if len = 0 \<or> unat len > MAX_PAYLOAD then Bad_size
             else if unat len + 4 > length data then Incomplete
             else Frame (terminate_at (unat len + 4) data))))"

definition smart_socket_enqueue :: "environment \<Rightarrow> listen_fn \<Rightarrow> sptr \<Rightarrow> string \<Rightarrow> world \<Rightarrow> (int \<times> world) result" where
  "smart_socket_enqueue env listen s data w =
     bind_r (get_sock w s) (\<lambda>so.
       let collected = smart_socket_data so @ data;
           w1 = put_sock s (so\<lparr>smart_socket_data := collected\<rparr>) w
       in bind_r (request_frame collected) (\<lambda>fr.
            (case fr of
               Incomplete \<Rightarrow> Inr (0, w1)
             | Bad_size \<Rightarrow> fail_request s w1
             | Frame d \<Rightarrow>
                 let w2 = put_sock s (so\<lparr>smart_socket_data := d\<rparr>) w; service = drop 4 d
                 in bind_r (classify_request service) (\<lambda>rq.
                      (case rq of
                         Malformed \<Rightarrow> fail_request s w2
                       | Abandoned \<Rightarrow> Inr (-1, w2)
                       | Host_request cmd type ser tid \<Rightarrow> serve_host_request env listen s cmd type ser tid w2
                       | Device_request \<Rightarrow> serve_device_request s service w2)))))"

section \<open>Reading from the client\<close>

definition call_enqueue :: "environment \<Rightarrow> listen_fn \<Rightarrow> sptr \<Rightarrow> string \<Rightarrow> world \<Rightarrow> (int \<times> world) result" where
  "call_enqueue env listen s data w =
     bind_r (get_sock w s) (\<lambda>so.
       if enqueue_m so = Smart_enqueue then smart_socket_enqueue env listen s data w else enqueue_basic s data w)"

text \<open>The reading loop: what was read, and whether the descriptor is at its end or broken.\<close>

function read_loop :: "nat \<Rightarrow> read_event list \<Rightarrow> string \<times> bool \<times> read_event list" where
  "read_loop avail es =
     (if avail = 0 then ([], False, es)
      else (case adb_read es avail of
              (Got bs, es') \<Rightarrow>
                if bs = [] then ([], True, es')
                else (case read_loop (avail - length bs) es' of (more_bytes, eof, es'') \<Rightarrow> (bs @ more_bytes, eof, es''))
            | (ReadAgain, es') \<Rightarrow> ([], False, es')
            | (_, es') \<Rightarrow> ([], True, es')))"
  by pat_completeness auto
termination
  by (relation "measure fst") auto

declare read_loop.simps [simp del]

text \<open>The data that was read goes to the peer; the result says whether the socket still exists.\<close>

definition pass_to_peer :: "environment \<Rightarrow> listen_fn \<Rightarrow> sptr \<Rightarrow> asocket \<Rightarrow> sptr \<Rightarrow> string \<Rightarrow> world \<Rightarrow> (bool \<times> world) result" where
  "pass_to_peer env listen s so p data w =
     bind_r (call_enqueue env listen p data
              (put_sock s (so\<lparr>available_send_bytes := map_option (\<lambda>a. a - int (length data)) (available_send_bytes so)\<rparr>) w))
       (\<lambda>(r, w1).
          if r < 0 then Inr (False, w1)
          else if r > 0 then
            bind_r (get_sock w1 s) (\<lambda>so1.
              Inr (True, if (case available_send_bytes so1 of Some a \<Rightarrow> a \<le> 0 | None \<Rightarrow> True)
                         then put_sock s (so1\<lparr>fde_read := False\<rparr>) w1 else w1))
          else Inr (True, w1))"

definition local_socket_flush_outgoing :: "environment \<Rightarrow> listen_fn \<Rightarrow> sptr \<Rightarrow> world \<Rightarrow> (bool \<times> world) result" where
  "local_socket_flush_outgoing env listen s w =
     bind_r (get_sock w s) (\<lambda>so.
     bind_r (get_max_payload so w) (\<lambda>max_size.
       (case read_loop max_size (fd_in w (fd so)) of
          (data, is_eof, es) \<Rightarrow>
            let w1 = w\<lparr>fd_in := (fd_in w)(fd so := es)\<rparr>
            in bind_r (case peer so of
                         Some p \<Rightarrow> if data \<noteq> [] then pass_to_peer env listen s so p data w1 else Inr (True, w1)
                       | None \<Rightarrow> Inr (True, w1)) (\<lambda>(alive, w2).
                 if \<not> alive then Inr (False, w2)
                 else if is_eof then bind_r (close_socket w2 s) (\<lambda>w3. Inr (False, w3))
                 else Inr (True, w2)))))"

definition local_socket_event_func :: "environment \<Rightarrow> listen_fn \<Rightarrow> bool \<Rightarrow> bool \<Rightarrow> sptr \<Rightarrow> world \<Rightarrow> world result" where
  "local_socket_event_func env listen writable readable s w =
     bind_r (if writable then local_socket_flush_incoming s w else Inr (Completed, w)) (\<lambda>(r, w1).
       if r = Destroyed then Inr w1
       else if readable then bind_r (local_socket_flush_outgoing env listen s w1) (\<lambda>(_, w2). Inr w2)
       else Inr w1)"

end
