(* ===== verification/Smart_Safety.thy ===== *)
theory Smart_Safety
  imports Smart_Socket
begin

text \<open>
  Client requests and the invariant of the server: no request a client can send, whatever its bytes
  and however they are split into reads, makes the server follow a null or stale pointer. A
  request can end the process, by \<open>kill\<close> or by an assertion of the sources; those outcomes are
  harmless in the sense below.
\<close>

section \<open>Harmless faults\<close>

definition harmless :: "fault \<Rightarrow> bool" where
  "harmless f \<longleftrightarrow> f \<noteq> DanglingPointer \<and> f \<noteq> NullPointer \<and> f \<noteq> OutOfFuel"

named_theorems harmless_intro \<open>operations with harmless faults only\<close>

definition tame :: "'a result \<Rightarrow> bool" where
  "tame m \<longleftrightarrow> (\<forall>f. m = Inl f \<longrightarrow> harmless f)"

lemma tame_Inr [simp, harmless_intro]: "tame (Inr x)"
  by (simp add: tame_def)

lemma tame_Inl [simp]: "tame (Inl f) \<longleftrightarrow> harmless f"
  by (simp add: tame_def)

lemma harmless_simps [simp]:
  "harmless OutOfBounds" "harmless (CheckFailed s)" "harmless (FatalLog s)" "harmless (ProcessExit n)" "harmless (Undefined s)"
  "harmless (StdException s)"
  by (simp_all add: harmless_def)

lemma tame_bind [harmless_intro]: "tame m \<Longrightarrow> (\<And>x. m = Inr x \<Longrightarrow> tame (f x)) \<Longrightarrow> tame (bind_r m f)"
  by (cases m) (auto simp: tame_def)

lemma tame_if [harmless_intro]: "(b \<Longrightarrow> tame x) \<Longrightarrow> (\<not> b \<Longrightarrow> tame y) \<Longrightarrow> tame (if b then x else y)"
  by simp

lemma tame_option [harmless_intro]:
  "(v = None \<Longrightarrow> tame x) \<Longrightarrow> (\<And>a. v = Some a \<Longrightarrow> tame (f a)) \<Longrightarrow> tame (case v of None \<Rightarrow> x | Some a \<Rightarrow> f a)"
  by (cases v) auto

lemma tame_sum [harmless_intro]:
  "(\<And>a. v = Inl a \<Longrightarrow> tame (f a)) \<Longrightarrow> (\<And>b. v = Inr b \<Longrightarrow> tame (g b)) \<Longrightarrow> tame (case v of Inl a \<Rightarrow> f a | Inr b \<Rightarrow> g b)"
  by (cases v) auto

lemma tame_prod [harmless_intro]: "(\<And>a b. v = (a, b) \<Longrightarrow> tame (f a b)) \<Longrightarrow> tame (case v of (a, b) \<Rightarrow> f a b)"
  by (cases v) auto

lemma tame_list [harmless_intro]:
  "(v = [] \<Longrightarrow> tame x) \<Longrightarrow> (\<And>a as. v = a # as \<Longrightarrow> tame (f a as)) \<Longrightarrow> tame (case v of [] \<Rightarrow> x | a # as \<Rightarrow> f a as)"
  by (cases v) auto

section \<open>Choosing a transport\<close>

lemma match_ptr_tame [harmless_intro]: "tame (match_ptr m cs)"
  by (induction m cs rule: match_ptr.induct) auto

lemma qual_match_tame [harmless_intro]: "tame (qual_match a b c d)"
  unfolding qual_match_def by (intro harmless_intro) simp_all

lemma Split_tame [harmless_intro]: "ds \<noteq> [] \<Longrightarrow> tame (Split s ds)"
  using Split_total [of ds s] by auto

lemma sscanf_d_tame [harmless_intro]: "tame (sscanf_d s)"
  unfolding sscanf_d_def by (auto split: option.splits prod.splits)

lemma ParseNetAddress_tame [harmless_intro]: "tame (ParseNetAddress a p)"
proof -
  have "tame (net_address_parts a)"
    unfolding net_address_parts_def Let_def by (auto intro!: harmless_intro split: option.splits prod.splits)
  then show ?thesis unfolding ParseNetAddress_def Let_def
    by (intro harmless_intro) (auto intro!: harmless_intro)
qed

lemma MatchesTarget_tame [harmless_intro]: "tame (MatchesTarget a s)"
  unfolding MatchesTarget_def or_r_def same_endpoint_def by (intro harmless_intro)

lemma acquire_loop_tame: "tame (acquire_loop np ty ser tid ts sel)"
proof (induction ts arbitrary: sel)
  case (Cons x ts)
  obtain p t where x: "x = (p, t)" by (cases x)
  have "tame (selects ty ser t)" unfolding selects_def by (intro harmless_intro)
  with Cons x show ?case by (auto intro!: harmless_intro)
qed simp

lemma acquire_loop_result:
  "acquire_loop np ty ser tid ts sel = Inr sel' \<Longrightarrow> sel_result sel' = Some p \<Longrightarrow> sel_result sel = Some p \<or> p \<in> fst ` set ts"
proof (induction ts arbitrary: sel)
  case (Cons x ts)
  obtain q t where x: "x = (q, t)" by (cases x)
  from Cons.prems Cons.IH [of sel] Cons.IH [of "sel\<lparr>sel_error := np\<rparr>"] Cons.IH [of "sel\<lparr>sel_result := Some q\<rparr>"] x show ?case
    by (auto simp: bind_r_eq_Inr split: if_splits)
qed simp

lemma deref_transports_fst: "deref_transports w ts = Inr as \<Longrightarrow> map fst as = ts"
  by (induction ts arbitrary: as) (auto simp: bind_r_eq_Inr)

lemma world_acquire_ok:
  assumes "server_ok w"
  shows "tame (world_acquire env ty ser tid any w)"
    "world_acquire env ty ser tid any w = Inr (Some t, e) \<Longrightarrow> t \<in> set (transport_list w)"
proof -
  obtain ts where ts: "deref_transports w (transport_list w) = Inr ts"
    using deref_transports_total [of "transport_list w" w] assms unfolding server_ok_def heap_ok_def refs_ok_def by blast
  have fst: "fst ` set ts = set (transport_list w)" using deref_transports_fst [OF ts] by (metis set_map)
  let ?s = "\<lparr>sel_result = None, sel_ambiguous = False, sel_error = selection_prompt ty ser tid\<rparr>"
  have l: "tame (acquire_loop (no_perm_long (diag env)) ty ser tid ts ?s)" by (rule acquire_loop_tame)
  have r: "p \<in> set (transport_list w)" if "acquire_loop (no_perm_long (diag env)) ty ser tid ts ?s = Inr sel" "sel_result sel = Some p" for sel p
    using acquire_loop_result [OF that] fst by simp
  have m: "map_of ts p \<noteq> None" if "p \<in> set (transport_list w)" for p
    using that fst by (simp add: map_of_eq_None_iff)
  have "tame (acquire_one_transport (diag env) ty ser tid any ts)"
    unfolding acquire_one_transport_def by (intro tame_bind l) (auto intro!: harmless_intro dest!: r m split: option.splits)
  then show "tame (world_acquire env ty ser tid any w)"
    using ts unfolding world_acquire_def by (auto intro!: harmless_intro)
  show "t \<in> set (transport_list w)" if h: "world_acquire env ty ser tid any w = Inr (Some t, e)"
  proof -
    obtain sel where sel: "acquire_one_transport (diag env) ty ser tid any ts = Inr sel" "sel_result sel = Some t"
      using h ts by (auto simp: world_acquire_def bind_r_eq_Inr)
    then obtain sel0 where sel0: "acquire_loop (no_perm_long (diag env)) ty ser tid ts ?s = Inr sel0"
      by (auto simp: acquire_one_transport_def bind_r_eq_Inr)
    have "sel_result sel0 = Some t"
    proof (cases "sel_result sel0")
      case (Some p)
      with sel sel0 show ?thesis by (auto simp: acquire_one_transport_def split: option.splits if_splits)
    qed (use sel sel0 in \<open>simp add: acquire_one_transport_def\<close>)
    with sel0 show ?thesis by (rule r)
  qed
qed

lemma socket_or_acquire_ok:
  assumes "server_ok w" "sockets w s = Some so" "\<not> closing so"
  shows "tame (socket_or_acquire env s ty ser tid any w)"
    "socket_or_acquire env s ty ser tid any w = Inr (Some t, e) \<Longrightarrow> transports w t \<noteq> None"
proof -
  show "tame (socket_or_acquire env s ty ser tid any w)"
    using assms world_acquire_ok(1) by (auto simp: socket_or_acquire_def split: option.splits)
  show "transports w t \<noteq> None" if "socket_or_acquire env s ty ser tid any w = Inr (Some t, e)"
  proof (cases "sock_transport so")
    case None
    with that assms have "t \<in> set (transport_list w)" using world_acquire_ok(2) by (auto simp: socket_or_acquire_def)
    with assms(1) show ?thesis unfolding server_ok_def heap_ok_def refs_ok_def by blast
  next
    case (Some u)
    with that assms(2) have "u = t" by (simp add: socket_or_acquire_def)
    with Some heap_ok_transport [of w s so t] assms show ?thesis by (simp add: server_ok_def)
  qed
qed

section \<open>Host requests leave the sockets alone\<close>

text \<open>Only the transport of the smart socket itself may change.\<close>

definition undisturbed :: "sptr \<Rightarrow> world \<Rightarrow> world \<Rightarrow> bool" where
  "undisturbed s w w' \<longleftrightarrow> server_ok w' \<and> next_sptr w' = next_sptr w \<and> (\<forall>u. transports w u \<noteq> None \<longrightarrow> transports w' u \<noteq> None) \<and>
     (\<exists>t. sockets w' = (sockets w)(s := map_option (\<lambda>so. so\<lparr>sock_transport := t\<rparr>) (sockets w s)))"

definition request_ok :: "sptr \<Rightarrow> world \<Rightarrow> (host_request_result \<times> world) result \<Rightarrow> bool" where
  "request_ok s w r \<longleftrightarrow> (case r of Inl f \<Rightarrow> harmless f | Inr (x, w') \<Rightarrow> undisturbed s w w')"

lemma undisturbed_refl: "server_ok w \<Longrightarrow> sockets w s = Some so \<Longrightarrow> undisturbed s w w"
  unfolding undisturbed_def by (intro conjI exI [of _ "sock_transport so"]) (auto simp: fun_eq_iff)

lemma undisturbed_same_sockets:
  assumes "undisturbed s w w1" "server_ok w2" "sockets w2 = sockets w1" "next_sptr w2 = next_sptr w1" "\<forall>u. transports w1 u \<noteq> None \<longrightarrow> transports w2 u \<noteq> None"
  shows "undisturbed s w w2"
  using assms unfolding undisturbed_def by (simp only:) blast

text \<open>Replies, kicks and changes of the listener table.\<close>

definition quiet :: "world \<Rightarrow> world \<Rightarrow> bool" where
  "quiet w w' \<longleftrightarrow> same_struct w w' \<and> (listeners_ok w \<longrightarrow> listeners_ok w')"

lemma quiet_trans: "quiet a b \<Longrightarrow> quiet b c \<Longrightarrow> quiet a c"
  by (auto simp: quiet_def intro: same_struct_trans)

lemma quiet_outside: "same_struct w w' \<Longrightarrow> outside w' = outside w \<Longrightarrow> quiet w w'"
  using outside_listeners_ok [of w' w] by (simp add: quiet_def)

lemma quiet_replies [simp]:
  "quiet w w" "quiet w (world_SendOkay f w)" "quiet w (world_SendFail f r w)" "quiet w (world_SendProtocolString f r w)"
  "quiet w (world_SendOkay_string f r w)" "quiet w (fd_write f r w)"
proof -
  have "outside (fd_write f r w) = outside w" "outside (world_SendOkay_string f r w) = outside w"
    by (simp_all add: fd_write_def world_SendOkay_string_def split: prod.splits)
  then show "quiet w w" "quiet w (world_SendOkay f w)" "quiet w (world_SendFail f r w)" "quiet w (world_SendProtocolString f r w)"
    "quiet w (world_SendOkay_string f r w)" "quiet w (fd_write f r w)"
    by (auto intro!: quiet_outside simp: world_Send_same)
qed

lemma quiet_server_ok: "server_ok w \<Longrightarrow> quiet w w' \<Longrightarrow> server_ok w'"
  using heap_ok_same_struct by (auto simp: quiet_def server_ok_def)

lemma quiet_undisturbed: "undisturbed s w w1 \<Longrightarrow> quiet w1 w2 \<Longrightarrow> undisturbed s w w2"
  using undisturbed_same_sockets [of s w w1 w2] quiet_server_ok [of w1 w2]
  by (auto simp: undisturbed_def quiet_def same_struct_def same_heap_def)

lemma request_ok_quiet:
  assumes "server_ok w" "sockets w s = Some so" "quiet w w'"
  shows "request_ok s w (Inr (x, w'))"
  using quiet_undisturbed [OF undisturbed_refl [OF assms(1,2)] assms(3)] by (simp add: request_ok_def)

lemma request_ok_bind:
  assumes "tame m" "\<And>x. m = Inr x \<Longrightarrow> request_ok s w (f x)"
  shows "request_ok s w (bind_r m f)"
  using assms by (cases m) (auto simp: tame_def request_ok_def)

lemma upd_transport_quiet:
  assumes "transports w t \<noteq> None" "\<And>a. disconnects (f a) = disconnects a"
  shows "\<exists>w'. upd_transport f t w = Inr w' \<and> quiet w w'"
proof -
  obtain a where a: "transports w t = Some a" using assms(1) by auto
  have "quiet w (put_transport t (f a) w)"
    using put_transport_same [OF assms(1)] put_transport_listeners [OF _ a, of "f a"] assms(2) by (simp add: quiet_def)
  with a show ?thesis by (simp add: upd_transport_def get_transport_def)
qed

lemma kick_disconnects [simp]: "disconnects (Kick a) = disconnects a" "disconnects (transport_Reset a) = disconnects a"
  "disconnects ((if reset then transport_Reset else Kick) a) = disconnects a"
  by (simp_all add: Kick_def transport_Reset_def)

lemma kick_transport_quiet:
  assumes "server_ok w"
  shows "\<exists>w'. kick_transport t reset w = Inr w' \<and> quiet w w'"
proof (cases "t \<in> set (transport_list w)")
  case True
  then have "transports w t \<noteq> None" using assms unfolding server_ok_def heap_ok_def refs_ok_def by blast
  from upd_transport_quiet [OF this, of "if reset then transport_Reset else Kick"] True show ?thesis
    by (auto simp: kick_transport_def)
qed (simp add: kick_transport_def)

lemma kick_loop_quiet:
  "\<forall>t \<in> set ts. transports w t \<noteq> None \<Longrightarrow> \<exists>w'. kick_loop P reset ts w = Inr w' \<and> quiet w w'"
proof (induction ts arbitrary: w)
  case (Cons t ts)
  obtain a where a: "transports w t = Some a" using Cons.prems by auto
  obtain w1 where w1: "upd_transport (if reset then transport_Reset else Kick) t w = Inr w1" "quiet w w1"
    using upd_transport_quiet [of w t "if reset then transport_Reset else Kick"] a by auto
  have "\<forall>u \<in> set ts. transports w1 u \<noteq> None"
    using w1(2) Cons.prems by (auto simp: quiet_def same_struct_def same_heap_def)
  from Cons.IH [OF this] Cons.IH [of w] Cons.prems a w1 quiet_trans [OF w1(2)] show ?case
    by (cases "P a") (auto simp: get_transport_def)
qed simp

lemma kick_all_quiet: "server_ok w \<Longrightarrow> \<exists>w'. kick_loop P reset (transport_list w) w = Inr w' \<and> quiet w w'"
  by (rule kick_loop_quiet) (auto simp: server_ok_def heap_ok_def refs_ok_def)

lemma request_ok_reply:
  assumes "server_ok w" "sockets w s = Some so"
  shows "request_ok s w (Inr (x, w))" "request_ok s w (Inr (x, world_SendFail f r w))" "request_ok s w (Inr (x, world_SendOkay_string f r w))"
  by (intro request_ok_quiet [OF assms]; simp)+

lemma request_about_ok:
  assumes "server_ok w" "sockets w s = Some so" "\<not> closing so"
  shows "request_ok s w (request_about env ans ty ser tid f s w)"
  unfolding request_about_def
proof (rule request_ok_bind, goal_cases)
  case 1
  show ?case using socket_or_acquire_ok(1) [OF assms] .
next
  case (2 x)
  obtain r e where x: "x = (r, e)" by (cases x)
  show ?case
  proof (cases r)
    case (Some t)
    with socket_or_acquire_ok(2) [OF assms, of env ty ser tid False t e] 2 x obtain a where "transports w t = Some a" by auto
    with x Some show ?thesis using request_ok_reply [OF assms(1,2)] by (simp add: get_transport_def)
  qed (use x request_ok_reply [OF assms(1,2)] in simp)
qed

lemma server_ok_select:
  assumes "server_ok w" "sockets w s = Some so" "t \<in> set (transport_list w)" "\<not> is_local so \<or> \<not> closing so"
  shows "server_ok (put_sock s (so\<lparr>sock_transport := Some t\<rparr>) w)"
proof -
  have h: "heap_ok w" using assms(1) by (simp add: server_ok_def)
  have "transports w t \<noteq> None" using assms(1,3) unfolding server_ok_def heap_ok_def refs_ok_def by blast
  moreover have "object_ok (so\<lparr>sock_transport := Some t\<rparr>)"
    using heap_ok_object [OF h assms(2)] by (auto simp: object_ok_def methods_ok_def split: enqueue_fn.splits)
  ultimately have "heap_ok (put_sock s (so\<lparr>sock_transport := Some t\<rparr>) w)"
    by (intro heap_ok_put [OF h assms(2)]) auto
  with assms(1) outside_listeners_ok [of "put_sock s (so\<lparr>sock_transport := Some t\<rparr>) w" w] show ?thesis by (simp add: server_ok_def)
qed

lemma request_transport_ok:
  assumes "server_ok w" "sockets w s = Some so" "\<not> closing so"
  shows "request_ok s w (request_transport env service ser tid f s w)"
proof (cases "transport_selector service ser tid")
  case None
  then show ?thesis using request_ok_reply [OF assms(1,2)] by (simp add: request_transport_def)
next
  case (Some sel)
  obtain legacy ty ser' tid' where sel: "sel = (legacy, ty, ser', tid')" by (cases sel)
  have "request_ok s w (case x of (r, error) \<Rightarrow>
            (case r of
               None \<Rightarrow> Inr (Handled, world_SendFail f error w)
             | Some t \<Rightarrow>
                 bind_r (get_transport w t) (\<lambda>a.
                 bind_r (upd_sock (\<lambda>so. so\<lparr>sock_transport := Some t\<rparr>) s w) (\<lambda>w1.
                   let w2 = world_SendOkay f w1
                   in Inr (SwitchedTransport, if legacy then w2 else fd_write f (id_bytes (t_id a)) w2)))))"
    if x: "world_acquire env ty ser' tid' False w = Inr x" for x
  proof -
    obtain r e where re: "x = (r, e)" by (cases x)
    show ?thesis
    proof (cases r)
      case (Some t)
      have t: "t \<in> set (transport_list w)" using world_acquire_ok(2) [OF assms(1)] x re Some by simp
      then obtain a where a: "transports w t = Some a" using assms(1) unfolding server_ok_def heap_ok_def refs_ok_def by blast
      let ?w = "put_sock s (so\<lparr>sock_transport := Some t\<rparr>) w"
      have "undisturbed s w ?w"
        unfolding undisturbed_def using server_ok_select [OF assms(1,2) t] assms by (auto intro!: exI [of _ "Some t"])
      moreover have "quiet ?w (if legacy then world_SendOkay f ?w else fd_write f (id_bytes (t_id a)) (world_SendOkay f ?w))"
        by (auto intro: quiet_trans [of _ "world_SendOkay f ?w"])
      ultimately have "undisturbed s w (if legacy then world_SendOkay f ?w else fd_write f (id_bytes (t_id a)) (world_SendOkay f ?w))"
        by (rule quiet_undisturbed)
      with re Some a assms(2) show ?thesis by (simp add: request_ok_def get_transport_def upd_sock_def Let_def)
    qed (use re request_ok_reply [OF assms(1,2)] in simp)
  qed
  with Some sel world_acquire_ok(1) [OF assms(1)] show ?thesis
    unfolding request_transport_def by (auto intro!: request_ok_bind)
qed

lemma kick_and_reply_ok:
  assumes "server_ok w" "sockets w s = Some so"
  shows "request_ok s w (kick_and_reply t address f w)"
proof -
  obtain w1 where "kick_transport t False w = Inr w1" "quiet w w1" using kick_transport_quiet [OF assms(1)] by blast
  moreover have "quiet w (world_SendOkay_string f r w1)" for r using quiet_trans [OF \<open>quiet w w1\<close>] by simp
  ultimately show ?thesis using request_ok_quiet [OF assms] by (simp add: kick_and_reply_def)
qed

lemma world_find_transport_ok: "server_ok w \<Longrightarrow> tame (world_find_transport a w)"
proof -
  assume "server_ok w"
  then obtain ts where "deref_transports w (transport_list w) = Inr ts"
    using deref_transports_total [of "transport_list w" w] unfolding server_ok_def heap_ok_def refs_ok_def by blast
  then show ?thesis by (simp add: world_find_transport_def)
qed

lemma request_disconnect_ok:
  assumes "server_ok w" "sockets w s = Some so"
  shows "request_ok s w (request_disconnect address f w)"
proof (cases "address = []")
  case True
  obtain w1 where w1: "kick_all_tcp_devices w = Inr w1" "quiet w w1"
    using kick_all_quiet [OF assms(1)] by (auto simp: kick_all_tcp_devices_def)
  with True request_ok_quiet [OF assms quiet_trans [OF w1(2)]] show ?thesis by (simp add: request_disconnect_def)
next
  case False
  have p: "tame (bind_r (ParseNetAddress address n) (\<lambda>p. Inr (g p)))" for n and g :: "_ \<Rightarrow> net_address_error + string"
    by (intro harmless_intro)
  note rules = request_ok_reply [OF assms] kick_and_reply_ok [OF assms] request_ok_bind world_find_transport_ok [OF assms(1)] p
  show ?thesis unfolding request_disconnect_def using False
    by (auto intro!: rules split: option.splits sum.splits)
qed

lemma request_reconnect_offline_ok:
  assumes "server_ok w" "sockets w s = Some so"
  shows "request_ok s w (request_reconnect_offline f w)"
proof -
  obtain ts where "deref_transports w (transport_list w) = Inr ts"
    using deref_transports_total [of "transport_list w" w] assms(1) unfolding server_ok_def heap_ok_def refs_ok_def by blast
  moreover obtain w1 where w1: "close_usb_devices (\<lambda>a. \<not> ConnectionStateIsOnline (connection_state a)) True w = Inr w1" "quiet w w1"
    using kick_all_quiet [OF assms(1)] by (auto simp: close_usb_devices_def)
  ultimately show ?thesis
    using request_ok_quiet [OF assms quiet_trans [OF w1(2)]] by (simp add: request_reconnect_offline_def)
qed

lemma quiet_transports: "quiet w w' \<Longrightarrow> transports w t \<noteq> None \<Longrightarrow> transports w' t \<noteq> None"
  by (auto simp: quiet_def same_struct_def same_heap_def)

lemma request_reconnect_ok:
  assumes "server_ok w" "sockets w s = Some so" "\<not> closing so"
  shows "request_ok s w (request_reconnect env ty ser tid f s w)"
  unfolding request_reconnect_def
proof (rule request_ok_bind, goal_cases)
  case 1
  show ?case using socket_or_acquire_ok(1) [OF assms] .
next
  case (2 x)
  obtain r e where x: "x = (r, e)" by (cases x)
  show ?case
  proof (cases r)
    case (Some t)
    have t: "transports w t \<noteq> None" using socket_or_acquire_ok(2) [OF assms, of env ty ser tid True t e] 2 x Some by simp
    obtain w1 where w1: "kick_transport t True w = Inr w1" "quiet w w1" using kick_transport_quiet [OF assms(1)] by blast
    obtain a where "transports w1 t = Some a" using quiet_transports [OF w1(2) t] by auto
    with x Some w1 request_ok_quiet [OF assms(1,2) quiet_trans [OF w1(2)]] show ?thesis by (simp add: get_transport_def)
  qed (use x request_ok_reply [OF assms(1,2)] in simp)
qed

lemma server_ok_deselect:
  assumes "server_ok w" "sockets w s = Some so" "enqueue_m so \<noteq> Remote_enqueue"
  shows "undisturbed s w (put_sock s (so\<lparr>sock_transport := None\<rparr>) w)"
proof -
  have h: "heap_ok w" using assms(1) by (simp add: server_ok_def)
  have "object_ok (so\<lparr>sock_transport := None\<rparr>)"
    using heap_ok_object [OF h assms(2)] assms(3) by (auto simp: object_ok_def methods_ok_def split: enqueue_fn.splits)
  then have "heap_ok (put_sock s (so\<lparr>sock_transport := None\<rparr>) w)" by (intro heap_ok_put [OF h assms(2)]) auto
  with assms outside_listeners_ok [of "put_sock s (so\<lparr>sock_transport := None\<rparr>) w" w] show ?thesis
    by (auto simp: server_ok_def undisturbed_def intro!: exI [of _ None])
qed

lemma request_attach_ok:
  assumes "server_ok w" "sockets w s = Some so" "\<not> closing so" "enqueue_m so \<noteq> Remote_enqueue"
  shows "request_ok s w (request_attach env attach ty ser tid f s w)"
  unfolding request_attach_def
proof (rule request_ok_bind, goal_cases)
  case 1
  show ?case using socket_or_acquire_ok(1) [OF assms(1-3)] .
next
  case (2 x)
  obtain r e where x: "x = (r, e)" by (cases x)
  show ?case
  proof (cases r)
    case (Some t)
    obtain a where t: "transports w t = Some a"
      using socket_or_acquire_ok(2) [OF assms(1-3), of env ty ser tid True t e] 2 x Some by auto
    let ?w = "put_sock s (so\<lparr>sock_transport := None\<rparr>) w"
    have "undisturbed s w (world_SendFail f m ?w)" for m
      using quiet_undisturbed [OF server_ok_deselect [OF assms(1,2,4)]] by simp
    moreover have "undisturbed s w (world_SendFail f m w)" for m
      using quiet_undisturbed [OF undisturbed_refl [OF assms(1,2)]] by simp
    ultimately show ?thesis
      using x Some t assms(2)
      by (simp add: transport_Attach_def transport_Detach_def should_use_libusb_def upd_sock_def get_transport_def request_ok_def)
  qed (use x request_ok_reply [OF assms(1,2)] in simp)
qed

lemma enlist_emulator_ok:
  assumes "server_ok w" "sockets w s = Some so"
  shows "\<exists>e w'. register_socket_transport meanwhile ser prt True tls w = Inr (e, w') \<and> undisturbed s w w'"
proof -
  have f: "transports w (next_tptr w) = None" using server_ok_fresh [OF assms(1)] .
  obtain r w' where w': "enlist_socket_transport ser prt True tls w = Inr (r, w')" "server_ok w'" "sockets w' = sockets w" "next_sptr w' = next_sptr w"
    "transports w' = transports w \<or> transports w' = (transports w)(next_tptr w := Some (socket_transport (next_transport_id w) ser tls))"
    using enlist_socket_transport_spec [OF assms(1), of ser prt True tls] by (auto split: if_splits)
  have "undisturbed s w w'"
    using undisturbed_same_sockets [OF undisturbed_refl [OF assms] w'(2-4)] w'(5) by auto
  with w'(1) show ?thesis by (cases r) (auto simp: register_socket_transport_def)
qed

lemma open_fd_quiet: "open_fd w = (r, w') \<Longrightarrow> quiet w w'"
  using open_fd_same by (auto intro: quiet_outside)

lemma connect_adb_port_quiet: "connect_adb_port env w = (r, w') \<Longrightarrow> quiet w w'"
  by (auto simp: connect_adb_port_def split: prod.splits option.splits if_splits
      dest!: open_fd_quiet intro: quiet_trans)

lemma quiet_sockets: "quiet w w' \<Longrightarrow> sockets w' = sockets w"
  by (simp add: quiet_def same_struct_def)

lemma quiet_next: "quiet w w' \<Longrightarrow> next_sptr w' = next_sptr w"
  by (simp add: quiet_def same_struct_def same_heap_def)

lemma undisturbed_after_quiet: "quiet w w1 \<Longrightarrow> undisturbed s w1 w2 \<Longrightarrow> undisturbed s w w2"
  using quiet_transports [of w w1] quiet_sockets [of w w1] quiet_next [of w w1] unfolding undisturbed_def by simp

lemma request_emulator_ok:
  assumes "server_ok w" "sockets w s = Some so"
  shows "request_ok s w (request_emulator env text w)"
proof -
  have "request_ok s w (bind_r (local_connect env p w) (\<lambda>(_, w1). Inr (Handled, w1)))" for p
  proof -
    obtain known where k: "find_emulator_transport_by_console_port (p - 1) w = Inr known \<or>
        (\<exists>f. find_emulator_transport_by_console_port (p - 1) w = Inl f \<and> harmless f)"
      using world_find_transport_ok [OF assms(1)] unfolding find_emulator_transport_by_console_port_def tame_def
      by (metis obj_sumE)
    obtain fd1 w1 where c: "connect_adb_port env w = (fd1, w1)" by (cases "connect_adb_port env w")
    have q: "quiet w w1" using connect_adb_port_quiet [OF c] .
    have w1: "server_ok w1" "sockets w1 s = Some so" using quiet_server_ok [OF assms(1) q] quiet_sockets [OF q] assms(2) by simp_all
    obtain e w2 where w2: "register_socket_transport (\<lambda>x. (None, x)) (getEmulatorSerialString (p - 1)) p True False w1 = Inr (e, w2)"
      "undisturbed s w1 w2" using enlist_emulator_ok [OF w1] by blast
    have u: "undisturbed s w w" "undisturbed s w w1" "undisturbed s w w2"
      using undisturbed_refl [OF assms] quiet_undisturbed [OF undisturbed_refl [OF assms] q] undisturbed_after_quiet [OF q w2(2)] .
    from k show ?thesis
      using u w2(1) c by (auto simp: local_connect_def local_connect_arbitrary_ports_def request_ok_def split: option.splits)
  qed
  with request_ok_reply(1) [OF assms] show ?thesis by (auto simp: request_emulator_def split: option.splits)
qed

section \<open>Forward requests\<close>

lemma forward_reply_quiet: "quiet w (forward_reply f sv r e p w)"
proof -
  have "quiet w (world_SendOkay f (world_SendOkay f w))" by (rule quiet_trans [of _ "world_SendOkay f w"]) simp_all
  then show ?thesis unfolding forward_reply_def Let_def by (cases r) (auto intro: quiet_trans)
qed

definition forward_ok :: "world \<Rightarrow> (bool \<times> world) result \<Rightarrow> bool" where
  "forward_ok w r \<longleftrightarrow> (case r of Inl f \<Rightarrow> harmless f | Inr (x, w') \<Rightarrow> quiet w w')"

lemma forward_ok_Inr [simp]: "forward_ok w (Inr (x, w')) \<longleftrightarrow> quiet w w'"
  by (simp add: forward_ok_def)

lemma forward_ok_bind: "tame m \<Longrightarrow> (\<And>x. m = Inr x \<Longrightarrow> forward_ok w (f x)) \<Longrightarrow> forward_ok w (bind_r m f)"
  by (cases m) (auto simp: tame_def forward_ok_def)

lemma install_forward_ok:
  assumes "server_ok w" "transports w t \<noteq> None" "hd target \<noteq> CHR ''*''"
  shows "forward_ok w (bind_r (install_listener listen nm target (Some t) nb False w)
    (\<lambda>(r, err, resolved, w1). Inr (True, forward_reply f rest r err resolved w1)))"
proof -
  have "target \<noteq> kSmartSocketConnectTo" using assms(3) by (auto simp: kSmartSocketConnectTo_def)
  from install_listener_ok [OF _ assms(2) this] assms(1) obtain r e p w1 where
    "install_listener listen nm target (Some t) nb False w = Inr (r, e, p, w1)" "quiet w w1"
    unfolding server_ok_def quiet_def by blast
  with quiet_trans [OF this(2) forward_reply_quiet] show ?thesis by simp
qed

lemma remove_forward_ok:
  assumes "server_ok w"
  shows "forward_ok w (bind_r (remove_listener nm t w) (\<lambda>(r, w1). Inr (True, forward_reply f rest r e 0 w1)))"
proof -
  obtain r w1 where "remove_listener nm t w = Inr (r, w1)" "quiet w w1"
    using remove_listener_ok [of w nm t] assms unfolding server_ok_def quiet_def by blast
  with quiet_trans [OF this(2) forward_reply_quiet] show ?thesis by simp
qed

lemma handle_forward_request_ok:
  assumes "server_ok w" "tame acq" "\<And>t e. acq = Inr (Some t, e) \<Longrightarrow> transports w t \<noteq> None"
  shows "forward_ok w (handle_forward_request listen service acq f w)"
proof -
  have l: "listeners_ok w" using assms(1) by (simp add: server_ok_def)
  obtain ls where ls: "format_listeners w = Inr ls" using format_listeners_total [OF l] by blast
  obtain w1 where w1: "remove_all_listeners w = Inr w1" "quiet w w1" using remove_all_listeners_ok [OF l] by (auto simp: quiet_def)
  have r1: "quiet w (world_SendProtocolString f ls (world_SendOkay f w))" by (rule quiet_trans [of _ "world_SendOkay f w"]) simp_all
  have r2: "quiet w (world_SendOkay f (world_SendOkay f w1))"
    by (rule quiet_trans [OF w1(2)], rule quiet_trans [of _ "world_SendOkay f w1"]) simp_all
  have tame_split: "tame (Split x '';'')" for x by (rule Split_tame) simp
  have body: "forward_ok w (if StartsWith service ''killforward:'' then
                 (let rest = drop 12 service
                  in bind_r (Split rest '';'') (\<lambda>pieces.
                       if length pieces \<noteq> 1 \<or> pieces ! 0 = [] then Inr (True, world_SendFail f (''bad killforward: '' @ rest) w)
                       else bind_r (remove_listener (pieces ! 0) (Some t) w) (\<lambda>(r, w1).
                              Inr (True, forward_reply f rest r error 0 w1))))
               else
                 (let r8 = drop 8 service; no_rebind = StartsWith r8 ''norebind:'';
                      rest = (if no_rebind then drop 9 r8 else r8)
                  in bind_r (Split rest '';'') (\<lambda>pieces.
                       if length pieces \<noteq> 2 \<or> pieces ! 0 = [] \<or> pieces ! 1 = [] \<or> hd (pieces ! 1) = CHR ''*''
                       then Inr (True, world_SendFail f (''bad forward: '' @ rest) w)
                       else bind_r (install_listener listen (pieces ! 0) (pieces ! 1) (Some t) no_rebind False w)
                              (\<lambda>(r, err, resolved, w1). Inr (True, forward_reply f rest r err resolved w1)))))"
    if "transports w t \<noteq> None" for t error
    using remove_forward_ok [OF assms(1)] install_forward_ok [OF assms(1) that] tame_split
    unfolding Let_def by (auto intro!: forward_ok_bind)
  show ?thesis
    unfolding handle_forward_request_def
    using ls w1(1) r1 r2 assms(2,3) body by (auto intro!: forward_ok_bind split: option.splits)
qed

section \<open>All host requests\<close>

lemma handle_host_request_ok:
  assumes "server_ok w" "sockets w s = Some so" "\<not> closing so" "enqueue_m so \<noteq> Remote_enqueue"
  shows "request_ok s w (handle_host_request env listen service ty ser tid f s w)"
proof -
  let ?k = "if service = ''kill'' then
      (if reject_kill env then Inr (world_SendFail f ''kill-server rejected by remote server'' w) else Inl (ProcessExit 0)) else Inr w"
  show ?thesis
  proof (cases "service = ''kill'' \<and> \<not> reject_kill env")
    case True
    then show ?thesis by (simp add: handle_host_request_def request_ok_def)
  next
    case False
    then obtain v where v: "?k = Inr v" "quiet w v" by (cases "service = ''kill''") auto
    have sv: "server_ok v" "sockets v s = Some so" using quiet_server_ok [OF assms(1) v(2)] quiet_sockets [OF v(2)] assms(2) by simp_all
    note ok = request_transport_ok [OF sv assms(3)] request_about_ok [OF sv assms(3)] request_disconnect_ok [OF sv]
      request_reconnect_offline_ok [OF sv] request_reconnect_ok [OF sv assms(3)] request_attach_ok [OF sv assms(3,4)]
      request_emulator_ok [OF sv] request_ok_reply [OF sv]
    obtain str where list: "world_list_transports env ot v = Inr (str ot)" for ot
      using world_list_transports_total [of v env] sv(1) unfolding server_ok_def by metis
    have acq: "tame (forward_acquirer env s ty ser tid v)"
      using socket_or_acquire_ok(1) [OF sv assms(3)] unfolding forward_acquirer_def by (auto intro!: harmless_intro)
    have "transports v t \<noteq> None" if "forward_acquirer env s ty ser tid v = Inr (Some t, e)" for t e
      using socket_or_acquire_ok(2) [OF sv assms(3)] that by (auto simp: forward_acquirer_def bind_r_eq_Inr)
    then have "forward_ok v (handle_forward_request listen (c_str service) (forward_acquirer env s ty ser tid v) f v)"
      by (rule handle_forward_request_ok [OF sv(1) acq])
    then have fwd: "request_ok s v (bind_r (handle_forward_request listen (c_str service) (forward_acquirer env s ty ser tid v) f v)
        (\<lambda>(done, w1). Inr (if done then Handled else Unhandled, w1)))"
      using quiet_undisturbed [OF undisturbed_refl [OF sv]]
      by (cases "handle_forward_request listen (c_str service) (forward_acquirer env s ty ser tid v) f v")
         (auto simp: request_ok_def forward_ok_def)
    have "request_ok s v (handle_host_request env listen service ty ser tid f s w)"
      unfolding handle_host_request_def v(1) bind_r_simps list using ok fwd by (simp split: if_split)
    then show ?thesis
      using undisturbed_after_quiet [OF v(2)] by (auto simp: request_ok_def split: sum.splits prod.splits)
  qed
qed

end
