(* ===== verification/Client_Safety.thy ===== *)
theory Client_Safety
  imports Smart_Safety
begin

text \<open>
  The end of a client request: the smart socket is replaced by the service it asked for, by a socket
  of the device, or is closed; and the event handler of local sockets, through which all data of
  clients arrives. The handler never follows a null or stale pointer.
\<close>

section \<open>Results of an enqueue\<close>

text \<open>After an enqueue with a non-negative result the local socket \<open>p\<close> the data came from still exists.\<close>

definition open_local :: "sptr \<Rightarrow> world \<Rightarrow> bool" where
  "open_local p w \<longleftrightarrow> (\<exists>po. sockets w p = Some po \<and> is_local po \<and> \<not> closing po)"

text \<open>
  What every handler leaves of the sockets that existed before: none comes back after it is gone, none changes its kind, and
  the transport of one that starts closing is still allocated.
\<close>

definition evolves :: "world \<Rightarrow> world \<Rightarrow> bool" where
  "evolves w w' \<longleftrightarrow> next_sptr w \<le> next_sptr w' \<and> (\<forall>u. transports w u \<noteq> None \<longrightarrow> transports w' u \<noteq> None) \<and>
     (\<forall>x xo'. x < next_sptr w \<and> sockets w' x = Some xo' \<longrightarrow>
        (\<exists>xo. sockets w x = Some xo \<and> enqueue_m xo' = enqueue_m xo \<and>
           (closing xo' \<longrightarrow> closing xo \<and> sock_transport xo' = sock_transport xo \<or>
              (\<forall>t. sock_transport xo' = Some t \<longrightarrow> transports w' t \<noteq> None))))"

lemma evolvesI:
  assumes "next_sptr w \<le> next_sptr w'" "\<And>u. transports w u \<noteq> None \<Longrightarrow> transports w' u \<noteq> None"
    "\<And>x xo'. x < next_sptr w \<Longrightarrow> sockets w' x = Some xo' \<Longrightarrow>
       \<exists>xo. sockets w x = Some xo \<and> enqueue_m xo' = enqueue_m xo \<and>
         (closing xo' \<longrightarrow> closing xo \<and> sock_transport xo' = sock_transport xo \<or>
            (\<forall>t. sock_transport xo' = Some t \<longrightarrow> transports w' t \<noteq> None))"
  shows "evolves w w'"
  using assms unfolding evolves_def by blast

lemma evolvesD:
  assumes "evolves w w'"
  shows "next_sptr w \<le> next_sptr w'" "transports w u \<noteq> None \<Longrightarrow> transports w' u \<noteq> None"
    "x < next_sptr w \<Longrightarrow> sockets w' x = Some xo' \<Longrightarrow>
       \<exists>xo. sockets w x = Some xo \<and> enqueue_m xo' = enqueue_m xo \<and>
         (closing xo' \<longrightarrow> closing xo \<and> sock_transport xo' = sock_transport xo \<or>
            (\<forall>t. sock_transport xo' = Some t \<longrightarrow> transports w' t \<noteq> None))"
  using assms unfolding evolves_def by (blast, blast, blast)

lemma evolves_refl [simp]: "evolves w w"
  by (rule evolvesI) auto

lemma evolves_trans:
  assumes "evolves a b" "evolves b c"
  shows "evolves a c"
proof (rule evolvesI)
  show "next_sptr a \<le> next_sptr c" using evolvesD(1) [OF assms(1)] evolvesD(1) [OF assms(2)] by simp
  show "transports c u \<noteq> None" if "transports a u \<noteq> None" for u using evolvesD(2) [OF assms(2) evolvesD(2) [OF assms(1) that]] .
  fix x xo'
  assume x: "x < next_sptr a" "sockets c x = Some xo'"
  have "x < next_sptr b" using x(1) evolvesD(1) [OF assms(1)] by simp
  from evolvesD(3) [OF assms(2) this x(2)] obtain yo where yo: "sockets b x = Some yo" "enqueue_m xo' = enqueue_m yo"
    "closing xo' \<longrightarrow> closing yo \<and> sock_transport xo' = sock_transport yo \<or> (\<forall>t. sock_transport xo' = Some t \<longrightarrow> transports c t \<noteq> None)" by blast
  from evolvesD(3) [OF assms(1) x(1) yo(1)] obtain xo where xo: "sockets a x = Some xo" "enqueue_m yo = enqueue_m xo"
    "closing yo \<longrightarrow> closing xo \<and> sock_transport yo = sock_transport xo \<or> (\<forall>t. sock_transport yo = Some t \<longrightarrow> transports b t \<noteq> None)" by blast
  have "\<forall>t. transports b t \<noteq> None \<longrightarrow> transports c t \<noteq> None" using evolvesD(2) [OF assms(2)] by blast
  with xo yo show "\<exists>xo. sockets a x = Some xo \<and> enqueue_m xo' = enqueue_m xo \<and>
      (closing xo' \<longrightarrow> closing xo \<and> sock_transport xo' = sock_transport xo \<or> (\<forall>t. sock_transport xo' = Some t \<longrightarrow> transports c t \<noteq> None))"
    by auto
qed

lemma mild_evolves:
  assumes "mild w w'"
  shows "evolves w w'"
proof (rule evolvesI)
  show "next_sptr w \<le> next_sptr w'" using assms by (simp add: mild_def same_heap_def)
  show "transports w' u \<noteq> None" if "transports w u \<noteq> None" for u using assms that by (simp add: mild_def same_heap_def)
  fix x xo'
  assume "sockets w' x = Some xo'"
  then obtain xo where "sockets w x = Some xo" "core xo' = core xo" using mild_back [OF assms] by blast
  with core_eqD [OF this(2)] show "\<exists>xo. sockets w x = Some xo \<and> enqueue_m xo' = enqueue_m xo \<and>
      (closing xo' \<longrightarrow> closing xo \<and> sock_transport xo' = sock_transport xo \<or> (\<forall>t. sock_transport xo' = Some t \<longrightarrow> transports w' t \<noteq> None))"
    by auto
qed

lemma quiet_evolves: "quiet w w' \<Longrightarrow> evolves w w'"
  using same_struct_mild mild_evolves by (auto simp: quiet_def)

lemma closes_evolves:
  assumes "heap_ok w" "closes w S w'"
  shows "evolves w w'"
proof (rule evolvesI)
  have h: "same_heap w w'" using closes_same_heap [OF assms(2)] .
  then show "next_sptr w \<le> next_sptr w'" by (simp add: same_heap_def)
  show tr: "transports w' u \<noteq> None" if "transports w u \<noteq> None" for u using h that by (simp add: same_heap_def)
  fix x xo'
  assume x: "sockets w' x = Some xo'"
  have e: "sockets w' x = (if x \<in> S then (case sockets w x of None \<Rightarrow> None | Some xo \<Rightarrow> if parks xo then Some (parked xo) else None)
      else sockets w x)" using assms(2) by (simp add: closes_def)
  show "\<exists>xo. sockets w x = Some xo \<and> enqueue_m xo' = enqueue_m xo \<and>
      (closing xo' \<longrightarrow> closing xo \<and> sock_transport xo' = sock_transport xo \<or> (\<forall>t. sock_transport xo' = Some t \<longrightarrow> transports w' t \<noteq> None))"
  proof (cases "x \<in> S")
    case False
    with x e show ?thesis by auto
  next
    case True
    then obtain xo where xo: "sockets w x = Some xo" "parks xo" "xo' = parked xo" using x e by (auto split: option.splits if_splits)
    have "\<not> closing xo" using xo(2) by (simp add: parks_def)
    then have "transports w' t \<noteq> None" if "sock_transport xo = Some t" for t using tr heap_ok_transport [OF assms(1) xo(1) _ that] by blast
    with xo show ?thesis by (simp add: parked_def)
  qed
qed

lemma put_sock_evolves:
  assumes "sockets w s = Some so" "enqueue_m so' = enqueue_m so" "closing so' \<longrightarrow> closing so \<and> sock_transport so' = sock_transport so"
  shows "evolves w (put_sock s so' w)"
  by (rule evolvesI) (use assms in \<open>auto split: if_splits\<close>)

definition enqueued_ok :: "world \<Rightarrow> sptr \<Rightarrow> (int \<times> world) result \<Rightarrow> bool" where
  "enqueued_ok w p r \<longleftrightarrow>
     (case r of Inl f \<Rightarrow> harmless f | Inr (n, w') \<Rightarrow> server_ok w' \<and> evolves w w' \<and> (0 \<le> n \<longrightarrow> open_local p w'))"

lemma enqueued_ok_simps [simp]:
  "enqueued_ok w p (Inl f) \<longleftrightarrow> harmless f"
  "enqueued_ok w p (Inr (n, w')) \<longleftrightarrow> server_ok w' \<and> evolves w w' \<and> (0 \<le> n \<longrightarrow> open_local p w')"
  by (simp_all add: enqueued_ok_def)

lemma enqueued_ok_bind:
  "tame m \<Longrightarrow> (\<And>x. m = Inr x \<Longrightarrow> enqueued_ok w p (f x)) \<Longrightarrow> enqueued_ok w p (bind_r m f)"
  by (cases m) (auto simp: tame_def)

lemma enqueued_ok_before: "evolves v w \<Longrightarrow> enqueued_ok w p r \<Longrightarrow> enqueued_ok v p r"
  unfolding enqueued_ok_def using evolves_trans by (auto split: sum.splits)

lemma close_socket_safe:
  assumes "server_ok w" "sockets w s = Some so"
  shows "\<exists>w'. close_socket w s = Inr w' \<and> server_ok w' \<and> evolves w w'"
proof -
  have h: "heap_ok w" using assms(1) by (simp add: server_ok_def)
  obtain w' where w': "close_socket w s = Inr w'" "heap_ok w'" "closes w (closed_set s so) w'"
    using close_socket_closes [OF h assms(2)] by blast
  moreover have "outside w' = outside w" using close_outside(1) [OF w'(1)] .
  ultimately show ?thesis using assms(1) outside_listeners_ok [of w' w] closes_evolves [OF h] by (auto simp: server_ok_def)
qed

lemma fail_request_ok: "server_ok w \<Longrightarrow> sockets w s = Some so \<Longrightarrow> enqueued_ok w p (fail_request s w)"
  using close_socket_safe [of w s so] by (auto simp: fail_request_def)

lemma server_ok_upd:
  assumes "server_ok w" "sockets w s = Some so" "object_ok so'" "sid so' = sid so" "peer so' = peer so" "enqueue_m so' = enqueue_m so"
    "closing so' = closing so" "sock_transport so' = sock_transport so"
  shows "server_ok (put_sock s so' w)"
proof -
  have h: "heap_ok w" using assms(1) by (simp add: server_ok_def)
  have "heap_ok (put_sock s so' w)"
    using heap_ok_put [OF h assms(2,3)] assms(4-8) heap_ok_transport [OF h assms(2)] by simp
  then show ?thesis using assms(1) outside_listeners_ok [of "put_sock s so' w" w] by (simp add: server_ok_def)
qed

lemma object_ok_data: "object_ok so \<Longrightarrow> object_ok (so\<lparr>smart_socket_data := d\<rparr>)"
  by (simp add: object_ok_def methods_ok_def split: enqueue_fn.splits)

lemma server_ok_data:
  assumes "server_ok w" "sockets w s = Some so"
  shows "server_ok (put_sock s (so\<lparr>smart_socket_data := d\<rparr>) w)"
proof -
  have "heap_ok w" using assms(1) by (simp add: server_ok_def)
  then show ?thesis using heap_ok_object [OF _ assms(2)] by (intro server_ok_upd [OF assms] object_ok_data) simp_all
qed

section \<open>A smart socket and its client\<close>

definition smart_pair :: "sptr \<Rightarrow> asocket \<Rightarrow> sptr \<Rightarrow> asocket \<Rightarrow> world \<Rightarrow> bool" where
  "smart_pair s so p po w \<longleftrightarrow> server_ok w \<and> sockets w s = Some so \<and> enqueue_m so = Smart_enqueue \<and> peer so = Some p \<and>
     sockets w p = Some po \<and> is_local po \<and> \<not> closing po \<and> peer po = Some s \<and> p \<noteq> s"

lemma smart_pairD:
  assumes "smart_pair s so p po w"
  shows "server_ok w" "heap_ok w" "sockets w s = Some so" "enqueue_m so = Smart_enqueue" "peer so = Some p" "sockets w p = Some po"
    "is_local po" "\<not> closing po" "peer po = Some s" "p \<noteq> s" "\<not> closing so" "close_m so = Smart_close" "object_ok so" "object_ok po"
proof -
  show ok: "server_ok w" "heap_ok w" "sockets w s = Some so" "enqueue_m so = Smart_enqueue" "peer so = Some p" "sockets w p = Some po"
    "is_local po" "\<not> closing po" "peer po = Some s" "p \<noteq> s" using assms by (simp_all add: smart_pair_def server_ok_def)
  show "object_ok so" "object_ok po" using heap_ok_object [OF ok(2)] ok(3,6) by blast+
  then show "\<not> closing so" "close_m so = Smart_close" using ok(4) by (auto simp: object_ok_def methods_ok_def)
qed

lemma smart_pairI:
  assumes "server_ok w" "sockets w s = Some so" "enqueue_m so = Smart_enqueue"
  obtains p po where "smart_pair s so p po w"
proof -
  have h: "heap_ok w" using assms(1) by (simp add: server_ok_def)
  obtain p po where p: "peer so = Some p" "sockets w p = Some po" "is_local po" using heap_ok_attached [OF h assms(2)] assms(3) by auto
  obtain po' where "sockets w p = Some po'" "peer po' = Some s" "p \<noteq> s" using heap_ok_peer [OF h assms(2) p(1)] .
  with p heap_ok_peer_open [OF h assms(2) p(1,2)] assms that show ?thesis by (simp add: smart_pair_def)
qed

text \<open>Closing a smart socket whose peer has been taken away deletes it.\<close>

lemma close_orphan:
  assumes "sockets w s = Some so" "close_m so = Smart_close"
  shows "bind_r (upd_sock (\<lambda>so. so\<lparr>peer := None\<rparr>) s w) (\<lambda>w1. close_socket w1 s) = Inr (w\<lparr>sockets := (sockets w)(s := None)\<rparr>)"
  using assms by (simp add: upd_sock_def close_socket.simps smart_socket_close.simps delete_sock_def put_sock_def)

lemma open_local_mild:
  assumes "mild w w'" "open_local p w"
  shows "open_local p w'"
proof -
  obtain po where po: "sockets w p = Some po" "is_local po" "\<not> closing po" using assms(2) by (auto simp: open_local_def)
  obtain po' where "sockets w' p = Some po'" "core po' = core po" using mildD [OF assms(1) po(1)] .
  with po core_eqD [OF this(2)] show ?thesis by (simp add: open_local_def)
qed

lemma call_ready_tracker:
  assumes "server_ok w" "sockets w n = Some no" "ready_m no = Tracker_ready" "n \<in> set (device_tracker_list w)"
  shows "\<exists>w'. call_ready env n w = Inr w' \<and> server_ok w' \<and> evolves w w' \<and> (open_local p w \<longrightarrow> open_local p w')"
proof -
  have h: "heap_ok w" using assms(1) by (simp add: server_ok_def)
  have "tracker_info w n \<noteq> None" using h assms(4) by (simp add: heap_ok_def lists_ok_def)
  then obtain tr where tr: "tracker_info w n = Some tr" by blast
  let ?w = "w\<lparr>tracker_info := (tracker_info w)(n := Some (tr\<lparr>update_needed := False\<rparr>))\<rparr>"
  have w1: "heap_ok ?w"
  proof -
    have "lists_ok ?w" using h assms(4) unfolding heap_ok_def lists_ok_def by simp
    moreover have "peers_ok ?w = peers_ok w" "ids_ok ?w = ids_ok w" "refs_ok ?w = refs_ok w" "attached_ok ?w = attached_ok w"
      by (simp_all add: peers_ok_def ids_ok_def refs_ok_def attached_ok_def)
    ultimately show ?thesis using h by (simp add: heap_ok_def)
  qed
  obtain str where str: "world_list_transports env (output_type tr) ?w = Inr str" using world_list_transports_total [OF w1] by blast
  obtain w' where w': "device_tracker_send n str ?w = Inr w'" "heap_ok w'" "mild ?w w'"
    using device_tracker_send_spec [OF w1, of n str] assms(4) by auto
  have r: "call_ready env n w = Inr (if update_needed tr then w' else w)"
    using assms(2,3) tr str w'(1) by (simp add: call_ready_def device_tracker_ready_def)
  have "outside w' = outside w" using device_tracker_send_outside [OF w'(1)] by (simp add: outside_def)
  then have "server_ok w'" using assms(1) w'(2) outside_listeners_ok [of w' w] by (simp add: server_ok_def)
  moreover have "open_local p w \<longrightarrow> open_local p w'" using open_local_mild [OF w'(3), of p] by (simp add: open_local_def)
  moreover have "evolves w w'" using mild_evolves [OF w'(3)] by (simp add: evolves_def)
  ultimately show ?thesis using r assms(1) by (cases "update_needed tr") auto
qed

section \<open>Binding the client to a service\<close>

text \<open>The client's side once the smart socket is gone.\<close>

lemma object_ok_released: "object_ok po \<Longrightarrow> is_local po \<Longrightarrow> object_ok ((regular po)\<lparr>peer := q\<rparr>) \<longleftrightarrow> \<not> closing po \<or> q = None"
  using object_ok_regular [of po] by (auto simp: object_ok_def methods_ok_def)

lemma server_ok_released:
  assumes "smart_pair s so p po w"
  shows "server_ok (without_peer s p ((regular po)\<lparr>peer := None\<rparr>) w)"
proof -
  note d = smart_pairD [OF assms]
  have "heap_ok (without_peer s p ((regular po)\<lparr>peer := None\<rparr>) w)"
    by (rule heap_ok_without_peer [OF d(2,3) _ _ d(5,6)]) (use d object_ok_released [OF d(14,7)] heap_ok_transport [OF d(2,6)] in auto)
  moreover have "outside (without_peer s p ((regular po)\<lparr>peer := None\<rparr>) w) = outside w" by (simp add: without_peer_def outside_def)
  ultimately show ?thesis using d(1) outside_listeners_ok [of "without_peer s p ((regular po)\<lparr>peer := None\<rparr>) w" w]
    by (simp add: server_ok_def)
qed

definition bound :: "sptr \<Rightarrow> sptr \<Rightarrow> asocket \<Rightarrow> sptr \<Rightarrow> asocket \<Rightarrow> world \<Rightarrow> world" where
  "bound s p po n no w = (world_SendOkay (fd po) w)\<lparr>sockets :=
     (sockets w)(s := None, p := Some ((regular po)\<lparr>peer := Some n\<rparr>), n := Some (no\<lparr>peer := Some p\<rparr>))\<rparr>"

lemma bind_service_eq:
  assumes "sockets w s = Some so" "close_m so = Smart_close" "sockets w p = Some po" "sockets w n = Some no" "distinct [s, p, n]"
  shows "bind_service env s p n w = bind_r (call_ready env n (bound s p po n no w)) (\<lambda>w5. Inr (0, w5))"
proof -
  let ?x = "world_SendOkay (fd po) w"
  have k: "sockets ?x = sockets w" using world_Send_same(1) [of w "fd po"] by (simp add: same_struct_def)
  let ?y = "put_sock n (no\<lparr>peer := Some p\<rparr>) (put_sock p ((regular po)\<lparr>peer := Some n\<rparr>) ?x)"
  have "sockets ?y s = Some so" using assms k by simp
  from close_orphan [OF this assms(2)]
  have o: "bind_r (upd_sock (\<lambda>so. so\<lparr>peer := None\<rparr>) s ?y) (\<lambda>w1. close_socket w1 s) = Inr (bound s p po n no w)"
    using assms(5) k by (simp add: bound_def put_sock_def fun_upd_twist)
  have "bind_service env s p n w =
      bind_r (bind_r (upd_sock (\<lambda>so. so\<lparr>peer := None\<rparr>) s ?y) (\<lambda>w1. close_socket w1 s)) (\<lambda>w4. bind_r (call_ready env n w4) (\<lambda>w5. Inr (0, w5)))"
    using assms k by (simp add: bind_service_def upd_sock_def regular_def)
  then show ?thesis by (simp add: o)
qed

lemma bound_ok:
  assumes "server_ok v" "v = w\<lparr>sockets := (sockets w)(s := None, p := Some ((regular po)\<lparr>peer := Some n\<rparr>), n := Some (no\<lparr>peer := Some p\<rparr>))\<rparr>"
  shows "server_ok (bound s p po n no w)"
proof (rule quiet_server_ok [OF assms(1)])
  have "same_struct v (bound s p po n no w)"
    using world_Send_same(1) [of w "fd po"] assms(2) by (simp add: bound_def same_struct_def same_heap_def)
  moreover have "outside (x\<lparr>sockets := k\<rparr>) = outside x" for x k by (simp add: outside_def)
  then have "outside (bound s p po n no w) = outside v" by (simp add: bound_def assms(2))
  ultimately show "quiet v (bound s p po n no w)" by (rule quiet_outside)
qed

lemma bound_sockets:
  "distinct [s, p, n] \<Longrightarrow> sockets (bound s p po n no w) p = Some ((regular po)\<lparr>peer := Some n\<rparr>)"
  "sockets (bound s p po n no w) n = Some (no\<lparr>peer := Some p\<rparr>)"
  by (simp_all add: bound_def)

lemma bound_evolves:
  assumes "next_sptr w \<le> n" "sockets w p = Some po" "\<not> closing po" "\<And>x. x \<noteq> n \<Longrightarrow> sockets w2 x = sockets w x"
    "transports w2 = transports w" "next_sptr w \<le> next_sptr w2"
  shows "evolves w (bound s p po n no w2)"
proof (rule evolvesI)
  have b: "same_struct w2 (world_SendOkay (fd po) w2)" by (rule world_Send_same)
  show "next_sptr w \<le> next_sptr (bound s p po n no w2)" using b assms(6) by (simp add: bound_def same_struct_def same_heap_def)
  show "transports (bound s p po n no w2) u \<noteq> None" if "transports w u \<noteq> None" for u
    using b that assms(5) by (simp add: bound_def same_struct_def same_heap_def)
  fix x xo'
  assume x: "x < next_sptr w" "sockets (bound s p po n no w2) x = Some xo'"
  then show "\<exists>xo. sockets w x = Some xo \<and> enqueue_m xo' = enqueue_m xo \<and>
      (closing xo' \<longrightarrow> closing xo \<and> sock_transport xo' = sock_transport xo \<or>
        (\<forall>t. sock_transport xo' = Some t \<longrightarrow> transports (bound s p po n no w2) t \<noteq> None))"
    using assms(1-4) by (auto simp: bound_def split: if_splits)
qed

lemma bind_tracker_ok:
  assumes "smart_pair s so p po w" "create_device_tracker ot w = (n, w2)"
  shows "enqueued_ok w p (bind_service env s p n w2)"
proof -
  note d = smart_pairD [OF assms(1)]
  let ?no = "new_asocket Tracker_enqueue Tracker_ready None Tracker_close" and ?po = "(regular po)\<lparr>peer := None\<rparr>"
  let ?tr = "\<lparr>update_needed = True, output_type = ot\<rparr>"
  let ?a = "without_peer s p ?po w"
  have n: "n = next_sptr w" "w2 = w\<lparr>sockets := (sockets w)(n := Some ?no), next_sptr := Suc (next_sptr w),
      device_tracker_list := n # device_tracker_list w, tracker_info := (tracker_info w)(n := Some ?tr)\<rparr>"
    using assms(2) by (auto simp: create_device_tracker_def new_sock_def Let_def)
  have fresh: "distinct [s, p, n]" using fresh_sptr [OF d(2)] d(3,6,10) n(1) by auto
  have a: "server_ok ?a" "sockets ?a p = Some ?po" using server_ok_released [OF assms(1)] by (simp_all add: without_peer_def)
  let ?b = "with_tracker p ?po ?no ?tr ?a"
  have "heap_ok ?b"
    by (rule heap_ok_with_tracker [OF _ a(2)]) (use a(1) d in \<open>simp_all add: server_ok_def new_asocket_def object_ok_def methods_ok_def\<close>)
  moreover have "outside ?b = outside ?a" by (simp add: outside_def with_tracker_def with_peer_def)
  ultimately have "server_ok ?b" using a(1) outside_listeners_ok [of ?b ?a] by (simp add: server_ok_def)
  moreover have "?b = w2\<lparr>sockets := (sockets w2)(s := None, p := Some ((regular po)\<lparr>peer := Some n\<rparr>), n := Some (?no\<lparr>peer := Some p\<rparr>))\<rparr>"
    using n fresh by (simp add: with_tracker_def with_peer_def without_peer_def fun_upd_twist)
  ultimately have ok: "server_ok (bound s p po n ?no w2)" by (rule bound_ok)
  have k: "sockets w2 s = Some so" "sockets w2 p = Some po" "sockets w2 n = Some ?no" using n fresh d by auto
  have "n \<in> set (device_tracker_list (bound s p po n ?no w2))"
    using world_Send_same(1) [of w2 "fd po"] n(2) by (simp add: bound_def same_struct_def)
  moreover have "open_local p (bound s p po n ?no w2)" using bound_sockets(1) [OF fresh, of po ?no w2] d by (simp add: open_local_def)
  ultimately obtain w' where w': "call_ready env n (bound s p po n ?no w2) = Inr w'" "server_ok w'" "open_local p w'"
      "evolves (bound s p po n ?no w2) w'"
    using call_ready_tracker [OF ok bound_sockets(2), of env p] by (auto simp: new_asocket_def)
  have "evolves w (bound s p po n ?no w2)" by (rule bound_evolves) (use n d in auto)
  from evolves_trans [OF this w'(4)] w'(1-3) show ?thesis using bind_service_eq [OF k(1) d(12) k(2,3) fresh] by simp
qed

lemma bind_local_ok:
  assumes "smart_pair s so p po w" "create_local_socket f w = Inr (n, w2)"
  shows "enqueued_ok w p (bind_service env s p n w2)"
proof -
  note d = smart_pairD [OF assms(1)]
  let ?no = "local_object f (local_socket_next_id w)" and ?po = "(regular po)\<lparr>peer := None\<rparr>"
  let ?a = "without_peer s p ?po w"
  have n: "n = next_sptr w" "w2 = with_local ?no w" "local_socket_next_id w + 1 \<noteq> 0"
    using assms(2) by (auto simp: create_local_socket_eq split: if_splits)
  have fresh: "distinct [s, p, n]" using fresh_sptr [OF d(2)] d(3,6,10) n(1) by auto
  have a: "server_ok ?a" "sockets ?a p = Some ?po" using server_ok_released [OF assms(1)] by (simp_all add: without_peer_def)
  have no: "object_ok ?no" "is_local ?no" "\<not> closing ?no" "peer ?no = None" "sid ?no = local_socket_next_id w" "sock_transport ?no = None"
    "ready_m ?no = Local_ready"
    by (simp_all add: local_object_def new_asocket_def object_ok_def methods_ok_def)
  let ?b = "with_local ?no ?a"
  have b: "heap_ok ?b" "sockets ?b p = Some ?po" "sockets ?b n = Some ?no"
    using heap_ok_with_local [of ?a ?no] a n no fresh by (auto simp: server_ok_def without_peer_def with_local_def)
  let ?c = "put_sock n (?no\<lparr>peer := Some p\<rparr>) (put_sock p (?po\<lparr>peer := Some n\<rparr>) ?b)"
  have "heap_ok ?c" by (rule heap_ok_link [OF b(1,2,3)]) (use fresh no d in auto)
  moreover have "outside ?c = outside ?a" by (simp add: outside_def with_local_def put_sock_def)
  ultimately have "server_ok ?c" using a(1) outside_listeners_ok [of ?c ?a] by (simp add: server_ok_def)
  moreover have "?c = w2\<lparr>sockets := (sockets w2)(s := None, p := Some ((regular po)\<lparr>peer := Some n\<rparr>), n := Some (?no\<lparr>peer := Some p\<rparr>))\<rparr>"
    using n fresh by (simp add: with_local_def put_sock_def without_peer_def fun_upd_twist)
  ultimately have ok: "server_ok (bound s p po n ?no w2)" by (rule bound_ok)
  have k: "sockets w2 s = Some so" "sockets w2 p = Some po" "sockets w2 n = Some ?no" using n fresh d by (auto simp: with_local_def)
  have h: "heap_ok (bound s p po n ?no w2)" using ok by (simp add: server_ok_def)
  obtain w' where w': "local_socket_ready n (bound s p po n ?no w2) = Inr w'" "heap_ok w'" "mild (bound s p po n ?no w2) w'"
    using local_socket_ready_spec [OF h bound_sockets(2)] no(3) by auto
  then have r: "call_ready env n (bound s p po n ?no w2) = Inr w'" by (simp add: call_ready_def bound_sockets no)
  then have "server_ok w'" using call_ready_outside [OF r] w'(2) ok outside_listeners_ok [of w' "bound s p po n ?no w2"] by (simp add: server_ok_def)
  moreover have "open_local p w'"
    using bound_sockets(1) [OF fresh, of po ?no w2] d open_local_mild [OF w'(3), of p] by (simp add: open_local_def)
  moreover have "evolves w (bound s p po n ?no w2)" by (rule bound_evolves) (use n d in \<open>auto simp: with_local_def\<close>)
  then have "evolves w w'" using evolves_trans mild_evolves [OF w'(3)] by blast
  ultimately show ?thesis using bind_service_eq [OF k(1) d(12) k(2,3) fresh] r by simp
qed

section \<open>Parsing a request\<close>

lemma check_r_tame [harmless_intro]: "tame (check_r b m)"
  by (simp add: check_r_def)

lemma consume_tame [harmless_intro]: "tame (consume full n v)"
  unfolding consume_def by (intro harmless_intro)

lemma finish_tame [harmless_intro]: "tame (finish v)"
  unfolding finish_def by (intro harmless_intro)

lemma and_then_tame [harmless_intro]: "tame m \<Longrightarrow> (\<And>x. tame (f x)) \<Longrightarrow> tame (and_then m f)"
  unfolding and_then_def by (intro harmless_intro)

lemma scan_to_colon_tame [harmless_intro]: "tame (scan_to_colon full v)"
  unfolding scan_to_colon_def by (intro harmless_intro)

lemma skip_address_tame: "tame (skip_address full v)"
  unfolding skip_address_def by (intro harmless_intro) simp_all

lemma parse_host_service_tame [harmless_intro]: "tame (parse_host_service full)"
proof -
  have "tame (skip_protocol full)" "tame (skip_vsock full v)" "tame (skip_port full v)" "tame (parse_prefixed full q)" for v q
    unfolding skip_protocol_def skip_vsock_def skip_port_def parse_prefixed_def by (intro harmless_intro)+
  then show ?thesis unfolding parse_host_service_def by (intro harmless_intro skip_address_tame)
qed

lemma tame_bool [harmless_intro]: "tame x \<Longrightarrow> tame y \<Longrightarrow> tame (case b of True \<Rightarrow> x | False \<Rightarrow> y)"
  by (cases b) auto

lemma classify_request_tame: "tame (classify_request service)"
  unfolding classify_request_def by (intro harmless_intro)

lemma unhex_loop_tame: "tame (unhex_loop n s l)"
  by (induction n s l rule: unhex_loop.induct) (auto split: option.splits)

lemma request_frame_tame: "tame (request_frame data)"
  unfolding request_frame_def unhex_def by (intro harmless_intro unhex_loop_tame)

section \<open>Host requests\<close>

lemma smart_pair_undisturbed:
  assumes "smart_pair s so p po w" "undisturbed s w w1"
  obtains t where "smart_pair s (so\<lparr>sock_transport := t\<rparr>) p po w1"
  using assms unfolding smart_pair_def undisturbed_def by fastforce

lemma undisturbed_evolves:
  assumes "smart_pair s so p po w" "undisturbed s w w1"
  shows "evolves w w1"
proof -
  note d = smart_pairD [OF assms(1)]
  have u: "next_sptr w1 = next_sptr w" "\<And>u. transports w u \<noteq> None \<Longrightarrow> transports w1 u \<noteq> None"
    "\<And>x. x \<noteq> s \<Longrightarrow> sockets w1 x = sockets w x" "\<exists>t. sockets w1 s = Some (so\<lparr>sock_transport := t\<rparr>)"
    using assms(2) d(3) unfolding undisturbed_def by auto
  show ?thesis
  proof (rule evolvesI)
    fix x xo'
    assume "sockets w1 x = Some xo'"
    then show "\<exists>xo. sockets w x = Some xo \<and> enqueue_m xo' = enqueue_m xo \<and>
      (closing xo' \<longrightarrow> closing xo \<and> sock_transport xo' = sock_transport xo \<or> (\<forall>t. sock_transport xo' = Some t \<longrightarrow> transports w1 t \<noteq> None))"
      using u(3) [of x] u(4) d(3,11) by (cases "x = s") auto
  qed (use u in simp_all)
qed

lemma smart_pair_quiet: "smart_pair s so p po w \<Longrightarrow> quiet w w1 \<Longrightarrow> smart_pair s so p po w1"
  using quiet_server_ok [of w w1] quiet_sockets [of w w1] by (simp add: smart_pair_def)

lemma smart_pair_data:
  assumes "smart_pair s so p po w"
  shows "smart_pair s (so\<lparr>smart_socket_data := d\<rparr>) p po (put_sock s (so\<lparr>smart_socket_data := d\<rparr>) w)"
  using server_ok_data [OF smart_pairD(1,3) [OF assms], of d] assms by (simp add: smart_pair_def)

lemma smart_pair_open: "smart_pair s so p po w \<Longrightarrow> open_local p w"
  by (auto simp: smart_pair_def open_local_def)

lemma host_service_ok:
  assumes "smart_pair s so p po w"
  shows "enqueued_ok w p (bind_r (host_service_to_socket name w) (\<lambda>(r2, w2).
     case r2 of None \<Rightarrow> fail_request s (world_SendFail f reason w2) | Some s2 \<Rightarrow> bind_service env s p s2 w2))"
proof -
  let ?k = "\<lambda>(r2, w2). case r2 of None \<Rightarrow> fail_request s (world_SendFail f reason w2) | Some s2 \<Rightarrow> bind_service env s p s2 w2"
  have t: "enqueued_ok w p (?k (apfst Some (create_device_tracker ot w)))" for ot
    using bind_tracker_ok [OF assms, of ot] by (cases "create_device_tracker ot w") simp
  have "enqueued_ok w p (bind_r (create_service_socket w) (\<lambda>(s2, w1). ?k (Some s2, w1)))"
  proof -
    obtain fd1 w1 where w1: "open_fd w = (fd1, w1)" by (cases "open_fd w")
    note pair = smart_pair_quiet [OF assms open_fd_quiet [OF w1]]
    show ?thesis
    proof (cases fd1)
      case (Some f1)
      have "enqueued_ok w1 p (bind_r (create_local_socket f1 w1) (\<lambda>(s2, w1). ?k (Some s2, w1)))"
        by (rule enqueued_ok_bind) (use bind_local_ok [OF pair, of f1] in \<open>auto simp: create_local_socket_eq\<close>)
      from enqueued_ok_before [OF quiet_evolves [OF open_fd_quiet [OF w1]] this] Some w1 show ?thesis
        by (simp add: create_service_socket_def)
    qed (use w1 in \<open>simp add: create_service_socket_def\<close>)
  qed
  then have l: "enqueued_ok w p (bind_r (bind_r (create_service_socket w) (\<lambda>(s2, w1). Inr (Some s2, w1))) ?k)"
    by (cases "create_service_socket w") auto
  have "smart_pair s so p po (world_SendFail f reason w)" using smart_pair_quiet [OF assms] by simp
  from fail_request_ok [OF smart_pairD(1,3) [OF this], of p] have "enqueued_ok w p (?k (None, w))"
    using enqueued_ok_before [OF quiet_evolves [OF quiet_replies(3)]] by simp
  with t l show ?thesis unfolding host_service_to_socket_def by simp
qed

lemma serve_host_request_ok:
  assumes "smart_pair s so p po w"
  shows "enqueued_ok w p (serve_host_request env listen s service ty ser tid w)"
proof -
  note d = smart_pairD [OF assms]
  let ?h = "handle_host_request env listen service ty ser tid (fd po) s w"
  have ok: "request_ok s w ?h" by (rule handle_host_request_ok [OF d(1,3,11)]) (simp add: d(4))
  show ?thesis
  proof (cases ?h)
    case (Inl f)
    with ok d show ?thesis by (simp add: serve_host_request_def request_ok_def)
  next
    case (Inr x)
    obtain r w1 where x: "x = (r, w1)" by (cases x)
    have und: "undisturbed s w w1" using ok Inr x by (simp add: request_ok_def)
    note before = enqueued_ok_before [OF undisturbed_evolves [OF assms und]]
    from und obtain t where pair: "smart_pair s (so\<lparr>sock_transport := t\<rparr>) p po w1" using smart_pair_undisturbed [OF assms] by blast
    note d1 = smart_pairD [OF pair]
    have "enqueued_ok w1 p (bind_r (upd_sock (\<lambda>so. so\<lparr>smart_socket_data := []\<rparr>) s w1) (\<lambda>w2. Inr (0, w2)))"
      using put_sock_evolves [OF d1(3), of "so\<lparr>sock_transport := t, smart_socket_data := []\<rparr>"] smart_pairD(1) [OF smart_pair_data [OF pair, of "[]"]] smart_pair_open [OF smart_pair_data [OF pair, of "[]"]] d1(3)
      by (simp add: upd_sock_def)
    note all = before [OF this] before [OF fail_request_ok [OF d1(1,3)]] before [OF host_service_ok [OF pair]]
    from all show ?thesis using Inr x d by (cases r) (simp_all add: serve_host_request_def)
  qed
qed

section \<open>Device requests\<close>

lemma UpdateReverseConfig_tame: "tame (UpdateReverseConfig d a)"
  by (simp add: UpdateReverseConfig_eq split: reverse_request.splits)

lemma UpdateReverseConfig_disconnects: "UpdateReverseConfig d a = Inr a1 \<Longrightarrow> disconnects a1 = disconnects a"
  by (auto simp: UpdateReverseConfig_eq split: reverse_request.splits)

lemma bind_r_assoc: "bind_r (bind_r m f) g = bind_r m (\<lambda>x. bind_r (f x) g)"
  by (cases m) auto

lemma connect_to_remote_spec:
  assumes "sockets w p = Some po" "peer po = None" "sock_transport po = Some t" "transports w t = Some a"
  shows "tame (connect_to_remote p d w)"
    "connect_to_remote p d w = Inr w' \<Longrightarrow> \<exists>n. quiet (put_sock p (po\<lparr>available_send_bytes := n\<rparr>) w) w'"
proof -
  let ?r = "UpdateReverseConfig d a"
  let ?pk = "\<lambda>a1. make_packet A_OPEN (sid po) (if delayed_ack a1 then of_nat (delayed_ack_window w) else 0) (d @ [CHR 0x00])"
  let ?po = "\<lambda>a1. po\<lparr>available_send_bytes := if delayed_ack a1 then Some 0 else available_send_bytes po\<rparr>"
  let ?w = "\<lambda>a1. put_sock p (?po a1) (put_transport t a1 w)"
  let ?m = "\<lambda>a1. min MAX_PAYLOAD (max_payload a1)"
  have w2: "(if delayed_ack a1 then put_sock p (po\<lparr>available_send_bytes := Some 0\<rparr>) (put_transport t a1 w) else put_transport t a1 w) = ?w a1" for a1
    using assms(1) put_sock_same [of "put_transport t a1 w" p po] by (simp add: put_transport_def)
  have tr: "transports (put_transport t a1 w) t = Some a1" for a1 by (simp add: put_transport_def)
  have eq: "connect_to_remote p d w = bind_r ?r (\<lambda>a1.
      bind_r (check_r (unat (data_length (msg (?pk a1))) \<le> ?m a1) ''p->msg.data_length <= s->get_max_payload()'') (\<lambda>_.
        send_packet (?pk a1) (Some t) (?w a1)))"
    by (simp add: connect_to_remote_def Let_def w2 assms get_transport_def get_max_payload_def tr)
  have s: "\<exists>w'. send_packet (?pk a1) (Some t) (?w a1) = Inr w' \<and> same_struct (?w a1) w'" for a1
    by (rule send_packet_same) (simp add: put_transport_def)
  show "tame (connect_to_remote p d w)" unfolding eq
  proof (intro tame_bind UpdateReverseConfig_tame check_r_tame)
    fix a1
    show "tame (send_packet (?pk a1) (Some t) (?w a1))" using s [of a1] by auto
  qed
  show "\<exists>n. quiet (put_sock p (po\<lparr>available_send_bytes := n\<rparr>) w) w'" if c: "connect_to_remote p d w = Inr w'"
  proof -
    obtain a1 where a1: "?r = Inr a1" "send_packet (?pk a1) (Some t) (?w a1) = Inr w'" using c unfolding eq by (auto simp: bind_r_eq_Inr)
    let ?v = "put_sock p (?po a1) w"
    have k: "transports ?v t = Some a" using assms(4) by simp
    have c1: "?w a1 = put_transport t a1 ?v" by (simp add: put_sock_def put_transport_def)
    have "quiet ?v (?w a1)"
      unfolding c1 using put_transport_same [of ?v t a1] put_transport_listeners [OF _ k UpdateReverseConfig_disconnects [OF a1(1)]] k by (simp add: quiet_def)
    moreover have "quiet (?w a1) w'" using s [of a1] a1(2) send_packet_outside [OF a1(2)] by (intro quiet_outside) simp_all
    ultimately show ?thesis using quiet_trans by blast
  qed
qed

lemma quiet_delete:
  assumes "quiet v w"
  shows "quiet (v\<lparr>sockets := (sockets v)(s := None)\<rparr>) (w\<lparr>sockets := (sockets w)(s := None)\<rparr>)"
proof -
  have "listeners_ok (x\<lparr>sockets := k\<rparr>) = listeners_ok x" for x k by (simp add: listeners_ok_def callbacks_def)
  with assms show ?thesis by (simp add: quiet_def same_struct_def same_heap_def)
qed

lemma serve_device_request_ok:
  assumes "smart_pair s so p po w"
  shows "enqueued_ok w p (serve_device_request s destination w)"
proof -
  note d = smart_pairD [OF assms]
  have fail: "enqueued_ok w p (fail_request s (world_SendFail (fd po) reason w))" for reason
  proof -
    have "smart_pair s so p po (world_SendFail (fd po) reason w)" using smart_pair_quiet [OF assms] by simp
    from enqueued_ok_before [OF quiet_evolves [OF quiet_replies(3)] fail_request_ok [OF smart_pairD(1,3) [OF this]]] show ?thesis .
  qed
  show ?thesis
  proof (cases "sock_transport so")
    case None
    then show ?thesis using d fail by (simp add: serve_device_request_def)
  next
    case (Some t)
    obtain a where a: "transports w t = Some a" using heap_ok_transport [OF d(2,3) d(11) Some] by auto
    show ?thesis
    proof (cases "ConnectionStateIsOnline (connection_state a)")
      case False
      then show ?thesis using Some a d fail by (simp add: serve_device_request_def get_transport_def)
    next
      case True
      let ?po = "po\<lparr>ready_m := Local_ready_notify, shutdown_m := None, close_m := Local_close_notify, peer := None, sock_transport := Some t\<rparr>"
      let ?w1 = "put_sock p ?po w"
      note c = connect_to_remote_spec [of ?w1 p ?po t a destination, simplified, OF a]
      have e: "serve_device_request s destination w = bind_r (connect_to_remote p destination ?w1) (\<lambda>w2.
          bind_r (bind_r (upd_sock (\<lambda>so. so\<lparr>peer := None\<rparr>) s w2) (\<lambda>w3. close_socket w3 s)) (\<lambda>w4. Inr (1, w4)))"
        using True Some a d by (simp add: serve_device_request_def get_transport_def upd_sock_def bind_r_assoc)
      show ?thesis unfolding e
      proof (rule enqueued_ok_bind [OF c(1)])
        fix w2
        assume "connect_to_remote p destination ?w1 = Inr w2"
        from c(2) [OF this] obtain n where q: "quiet (put_sock p (?po\<lparr>available_send_bytes := n\<rparr>) w) w2" by auto
        let ?v = "without_peer s p (?po\<lparr>available_send_bytes := n\<rparr>) w"
        have "heap_ok ?v"
          by (rule heap_ok_without_peer [OF d(2,3) _ _ d(5,6)]) (use d a in \<open>auto simp: object_ok_def methods_ok_def\<close>)
        moreover have "outside ?v = outside w" by (simp add: outside_def without_peer_def)
        ultimately have v: "server_ok ?v" using d(1) outside_listeners_ok [of ?v w] by (simp add: server_ok_def)
        let ?u = "w2\<lparr>sockets := (sockets w2)(s := None)\<rparr>"
        have k: "sockets w2 = (sockets w)(p := Some (?po\<lparr>available_send_bytes := n\<rparr>))" using quiet_sockets [OF q] by simp
        have "quiet ?v ?u" using quiet_delete [OF q, of s] d(10) by (simp add: without_peer_def put_sock_def fun_upd_twist)
        then have "server_ok ?u" by (rule quiet_server_ok [OF v])
        moreover have "open_local p ?u" using k d by (simp add: open_local_def)
        moreover have "sockets w2 s = Some so" using k d by simp
        moreover have "evolves w ?u"
        proof (rule evolvesI)
          have "same_struct (put_sock p (?po\<lparr>available_send_bytes := n\<rparr>) w) w2" using q by (simp add: quiet_def)
          then show "next_sptr w \<le> next_sptr ?u" "\<And>u. transports w u \<noteq> None \<Longrightarrow> transports ?u u \<noteq> None"
            by (simp_all add: same_struct_def same_heap_def)
          fix x xo'
          assume "sockets ?u x = Some xo'"
          then show "\<exists>xo. sockets w x = Some xo \<and> enqueue_m xo' = enqueue_m xo \<and>
            (closing xo' \<longrightarrow> closing xo \<and> sock_transport xo' = sock_transport xo \<or> (\<forall>t. sock_transport xo' = Some t \<longrightarrow> transports ?u t \<noteq> None))"
            using k d by (auto split: if_splits)
        qed
        ultimately show "enqueued_ok w p (bind_r (bind_r (upd_sock (\<lambda>so. so\<lparr>peer := None\<rparr>) s w2) (\<lambda>w3. close_socket w3 s)) (\<lambda>w4. Inr (1, w4)))"
          using close_orphan [OF _ d(12)] by simp
      qed
    qed
  qed
qed

lemma smart_socket_enqueue_ok:
  assumes "smart_pair s so p po w"
  shows "enqueued_ok w p (smart_socket_enqueue env listen s data w)"
proof -
  note d = smart_pairD [OF assms]
  let ?w = "\<lambda>x. put_sock s (so\<lparr>smart_socket_data := x\<rparr>) w"
  note pair = smart_pair_data [OF assms]
  have ev: "evolves w (?w x)" for x using put_sock_evolves [OF d(3)] by simp
  note ok = smart_pairD(1) [OF pair] smart_pair_open [OF pair] ev
  have f: "enqueued_ok w p (fail_request s (?w x))" for x
    using enqueued_ok_before [OF ev fail_request_ok [OF smart_pairD(1,3) [OF pair]]] .
  note serve = enqueued_ok_before [OF ev serve_host_request_ok [OF pair]] enqueued_ok_before [OF ev serve_device_request_ok [OF pair]]
  have c: "enqueued_ok w p (bind_r (classify_request service) (\<lambda>rq. case rq of
       Malformed \<Rightarrow> fail_request s (?w x) | Abandoned \<Rightarrow> Inr (-1, ?w x)
     | Host_request cmd type ser tid \<Rightarrow> serve_host_request env listen s cmd type ser tid (?w x)
     | Device_request \<Rightarrow> serve_device_request s service (?w x)))" for x service
    by (rule enqueued_ok_bind [OF classify_request_tame])
       (simp add: f ok serve split: request.split)
  show ?thesis unfolding smart_socket_enqueue_def Let_def get_sock_Inr [OF d(3)] bind_r_simps
    by (rule enqueued_ok_bind [OF request_frame_tame]) (simp add: f ok c split: frame.split)
qed

section \<open>Data from a local socket\<close>

lemma open_localI: "sockets w p = Some po \<Longrightarrow> is_local po \<Longrightarrow> \<not> closing po \<Longrightarrow> open_local p w"
  by (simp add: open_local_def)

lemma server_ok_mild: "server_ok w \<Longrightarrow> heap_ok w' \<Longrightarrow> outside w' = outside w \<Longrightarrow> server_ok w'"
  using outside_listeners_ok [of w' w] by (simp add: server_ok_def)

lemma call_enqueue_ok:
  assumes "server_ok w" "sockets w p = Some po" "is_local po" "\<not> closing po" "peer po = Some q"
  shows "enqueued_ok w p (call_enqueue env listen q data w)"
proof -
  have h: "heap_ok w" using assms(1) by (simp add: server_ok_def)
  obtain qo where q: "sockets w q = Some qo" using heap_ok_peer [OF h assms(2,5)] .
  have qp: "\<not> closing qo" "peer qo = Some p" "q \<noteq> p" using heap_ok_peer_open [OF h assms(2,5) q] .
  have pl: "open_local p w" using open_localI [OF assms(2,3,4)] .
  have ok: "object_ok qo" using heap_ok_object [OF h q] .
  show ?thesis
  proof (cases "enqueue_m qo")
    case Smart_enqueue
    then have "smart_pair q qo p po w" using assms q qp by (simp add: smart_pair_def)
    from smart_socket_enqueue_ok [OF this] show ?thesis using q Smart_enqueue by (simp add: call_enqueue_def)
  next
    case Local_enqueue
    obtain b w' where w': "local_socket_enqueue q data w = Inr (if b then 1 else 0, w')" "heap_ok w'" "mild w w'"
      using local_socket_enqueue_spec [OF h q _ qp(1)] Local_enqueue by blast
    have "server_ok w'" using server_ok_mild [OF assms(1) w'(2) local_socket_enqueue_outside [OF w'(1)]] .
    then show ?thesis
      using q Local_enqueue w'(1) open_local_mild [OF w'(3) pl] mild_evolves [OF w'(3)] by (simp add: call_enqueue_def enqueue_basic_def)
  next
    case Remote_enqueue
    obtain t where t: "sock_transport qo = Some t" using ok Remote_enqueue by (auto simp: object_ok_def)
    have "transports w t \<noteq> None" using heap_ok_transport [OF h q qp(1) t] .
    then obtain w' where w': "send_packet (make_packet A_WRTE (sid po) (sid qo) data) (Some t) w = Inr w'" "same_struct w w'"
      using send_packet_same by blast
    have "server_ok w'" "open_local p w'"
      using server_ok_mild [OF assms(1) heap_ok_same_struct [OF h w'(2)] send_packet_outside [OF w'(1)]]
        open_local_mild [OF same_struct_mild [OF w'(2)] pl] .
    moreover have "evolves w w'" using mild_evolves [OF same_struct_mild [OF w'(2)]] .
    ultimately show ?thesis
      using q Remote_enqueue w'(1) t qp(2) assms(1,2) by (simp add: call_enqueue_def enqueue_basic_def remote_socket_enqueue_def)
  next
    case Tracker_enqueue
    then have "close_m qo = Tracker_close" using ok by (simp add: object_ok_def methods_ok_def)
    moreover obtain w' where "close_socket w q = Inr w'" "server_ok w'" "evolves w w'" using close_socket_safe [OF assms(1) q] by blast
    ultimately show ?thesis using q Tracker_enqueue by (simp add: call_enqueue_def enqueue_basic_def close_socket.simps [of w q])
  qed
qed

lemma pass_to_peer_ok:
  assumes "server_ok w" "sockets w s = Some so" "is_local so" "\<not> closing so" "peer so = Some q"
  shows "case pass_to_peer env listen s so q data w of Inl f \<Rightarrow> harmless f
    | Inr (alive, w') \<Rightarrow> server_ok w' \<and> evolves w w' \<and> (alive \<longrightarrow> open_local s w')"
proof -
  let ?so = "so\<lparr>available_send_bytes := map_option (\<lambda>a. a - int (length data)) (available_send_bytes so)\<rparr>"
  let ?w = "put_sock s ?so w"
  have h: "heap_ok w" using assms(1) by (simp add: server_ok_def)
  have "server_ok ?w" by (rule server_ok_upd [OF assms(1,2)]) (simp_all add: object_ok_read(2) [OF heap_ok_object [OF h assms(2)]])
  then have "enqueued_ok ?w s (call_enqueue env listen q data ?w)" using call_enqueue_ok [of ?w s ?so q] assms(3-5) by simp
  then have e: "enqueued_ok w s (call_enqueue env listen q data ?w)" using enqueued_ok_before put_sock_evolves [OF assms(2), of ?so] by simp
  show ?thesis
  proof (cases "call_enqueue env listen q data ?w")
    case (Inl f)
    with e show ?thesis by (simp add: pass_to_peer_def)
  next
    case (Inr x)
    obtain r w1 where x: "x = (r, w1)" by (cases x)
    have w1: "server_ok w1" "0 \<le> r \<Longrightarrow> open_local s w1" "evolves w w1" using e Inr x by simp_all
    show ?thesis
    proof (cases "r > 0")
      case True
      with w1(2) obtain so1 where so1: "sockets w1 s = Some so1" "is_local so1" "\<not> closing so1" by (auto simp: open_local_def)
      have "server_ok (put_sock s (so1\<lparr>fde_read := False\<rparr>) w1)"
        using w1(1) so1(1) heap_ok_object [OF _ so1(1)] by (intro server_ok_upd [OF w1(1) so1(1)] object_ok_read(1)) (simp_all add: server_ok_def)
      moreover have "evolves w (put_sock s (so1\<lparr>fde_read := False\<rparr>) w1)"
        using evolves_trans [OF w1(3) put_sock_evolves [OF so1(1)]] by simp
      ultimately show ?thesis using Inr x True so1 w1 by (simp add: pass_to_peer_def open_local_def)
    qed (use Inr x w1 in \<open>simp add: pass_to_peer_def\<close>)
  qed
qed

text \<open>A socket whose transport, if it has one, is allocated; a closing socket may outlive its transport.\<close>

definition live :: "world \<Rightarrow> asocket \<Rightarrow> bool" where
  "live w so \<longleftrightarrow> (\<forall>t. sock_transport so = Some t \<longrightarrow> transports w t \<noteq> None)"

lemma get_max_payload_ok:
  assumes "heap_ok w" "sockets w s = Some so" "live w so"
  shows "\<exists>m. get_max_payload so w = Inr m"
proof -
  have "\<exists>m. (case sock_transport so of None \<Rightarrow> Inr MAX_PAYLOAD
      | Some t \<Rightarrow> bind_r (get_transport w t) (\<lambda>a. Inr (min MAX_PAYLOAD (max_payload a)))) = Inr m"
    using assms(3) by (cases "sock_transport so") (auto simp: get_transport_def live_def)
  moreover have "\<exists>m. (case peer so of None \<Rightarrow> Inr m1 | Some p \<Rightarrow> bind_r (get_sock w p) (\<lambda>po. (case sock_transport po of
      None \<Rightarrow> Inr m1 | Some t \<Rightarrow> bind_r (get_transport w t) (\<lambda>a. Inr (min m1 (max_payload a)))))) = Inr m" for m1
  proof (cases "peer so")
    case (Some p)
    obtain po where po: "sockets w p = Some po" using heap_ok_peer [OF assms(1,2) Some] .
    have "\<not> closing po" using heap_ok_peer_open [OF assms(1,2) Some po] by blast
    with Some po show ?thesis using heap_ok_transport [OF assms(1) po] by (cases "sock_transport po") (auto simp: get_transport_def)
  qed simp
  ultimately show ?thesis unfolding get_max_payload_def by fastforce
qed

definition event_ok :: "world \<Rightarrow> world result \<Rightarrow> bool" where
  "event_ok w r \<longleftrightarrow> (case r of Inl f \<Rightarrow> harmless f | Inr w' \<Rightarrow> server_ok w' \<and> evolves w w')"

lemma flush_outgoing_ok:
  assumes "server_ok w" "sockets w s = Some so" "is_local so" "live w so"
  shows "event_ok w (bind_r (local_socket_flush_outgoing env listen s w) (\<lambda>(_, w2). Inr w2))"
proof -
  have h: "heap_ok w" using assms(1) by (simp add: server_ok_def)
  obtain m where m: "get_max_payload so w = Inr m" using get_max_payload_ok [OF h assms(2,4)] by blast
  obtain data eof es where rd: "read_loop m (fd_in w (fd so)) = (data, eof, es)" by (cases "read_loop m (fd_in w (fd so))")
  let ?w = "w\<lparr>fd_in := (fd_in w)(fd so := es)\<rparr>"
  have "same_struct w ?w" "outside ?w = outside w" by (simp_all add: same_struct_def same_heap_def outside_def)
  then have w1: "server_ok ?w" "sockets ?w s = Some so" "evolves w ?w"
    using server_ok_mild [OF assms(1) heap_ok_same_struct [OF h]] assms(2) mild_evolves [OF same_struct_mild] by simp_all
  have nc: "\<not> closing so" if "peer so = Some q" for q using heap_ok_object [OF h assms(2)] that by (auto simp: object_ok_def)
  let ?r = "case peer so of Some p \<Rightarrow> if data \<noteq> [] then pass_to_peer env listen s so p data ?w else Inr (True, ?w) | None \<Rightarrow> Inr (True, ?w)"
  have r: "case ?r of Inl f \<Rightarrow> harmless f | Inr (alive, w') \<Rightarrow> server_ok w' \<and> evolves w w' \<and> (alive \<longrightarrow> sockets w' s \<noteq> None)"
  proof (cases "\<exists>q. peer so = Some q \<and> data \<noteq> []")
    case True
    then obtain q where q: "peer so = Some q" "data \<noteq> []" by blast
    from pass_to_peer_ok [OF w1(1,2) assms(3) nc [OF q(1)] q(1), of env listen data] q evolves_trans [OF w1(3)] show ?thesis
      by (cases "pass_to_peer env listen s so q data ?w") (auto simp: open_local_def)
  qed (use w1 in \<open>auto split: option.split\<close>)
  have e: "local_socket_flush_outgoing env listen s w = bind_r ?r (\<lambda>(alive, w2).
       if \<not> alive then Inr (False, w2)
       else if eof then bind_r (close_socket w2 s) (\<lambda>w3. Inr (False, w3)) else Inr (True, w2))"
    using assms(2) m rd by (simp add: local_socket_flush_outgoing_def Let_def)
  show ?thesis
  proof (cases ?r)
    case (Inl f)
    with r e show ?thesis by (simp add: event_ok_def)
  next
    case (Inr x)
    obtain alive w2 where x: "x = (alive, w2)" by (cases x)
    have w2: "server_ok w2" "alive \<Longrightarrow> sockets w2 s \<noteq> None" "evolves w w2" using r Inr x by simp_all
    show ?thesis
    proof (cases alive)
      case True
      with w2(2) obtain so2 where "sockets w2 s = Some so2" by blast
      then obtain w3 where "close_socket w2 s = Inr w3" "server_ok w3" "evolves w2 w3" using close_socket_safe [OF w2(1)] by blast
      with Inr x True w2(1,3) evolves_trans [OF w2(3)] show ?thesis unfolding e by (simp add: event_ok_def)
    qed (use Inr x w2(1,3) in \<open>simp add: e event_ok_def\<close>)
  qed
qed

lemma event_func_ok:
  assumes "server_ok w" "sockets w s = Some so" "is_local so" "readable \<longrightarrow> live w so"
  shows "event_ok w (local_socket_event_func env listen writable readable s w)"
proof -
  have h: "heap_ok w" using assms(1) by (simp add: server_ok_def)
  have so: "object_ok so" using heap_ok_object [OF h assms(2)] .
  show ?thesis
  proof (cases writable)
    case False
    then show ?thesis using flush_outgoing_ok [OF assms(1-3)] assms(1,4)
      by (simp add: local_socket_event_func_def event_ok_def)
  next
    case True
    have "object_ok (so\<lparr>fde_write := True\<rparr>)" using so by (simp add: object_ok_def methods_ok_def split: enqueue_fn.splits)
    then have "heap_ok (put_sock s (so\<lparr>fde_write := True\<rparr>) w)" by (intro heap_ok_upd(1) [OF h assms(2)]) (simp_all add: core_def)
    then obtain r w' where r: "local_socket_flush_incoming s w = Inr (r, w')" "heap_ok w'"
      "if r = Destroyed then same_heap w w' \<and> sockets w' s = None \<and> (\<forall>x. x \<noteq> s \<longrightarrow> sockets w' x = sockets w x)
       else flushed w s so (r = TryAgain) w'"
      using local_socket_flush_incoming_spec [OF assms(2,3)] by (metis (full_types))
    have w': "server_ok w'" using server_ok_mild [OF assms(1) r(2) local_socket_flush_incoming_outside [OF r(1)]] .
    show ?thesis
    proof (cases "r = Destroyed")
      case d: True
      have "evolves w w'"
      proof (rule evolvesI)
        fix x xo'
        assume "sockets w' x = Some xo'"
        then show "\<exists>xo. sockets w x = Some xo \<and> enqueue_m xo' = enqueue_m xo \<and>
          (closing xo' \<longrightarrow> closing xo \<and> sock_transport xo' = sock_transport xo \<or> (\<forall>t. sock_transport xo' = Some t \<longrightarrow> transports w' t \<noteq> None))"
          using r(3) d by (cases "x = s") auto
      qed (use r(3) d in \<open>simp_all add: same_heap_def\<close>)
      then show ?thesis using \<open>writable\<close> d r(1) w' by (simp add: local_socket_event_func_def event_ok_def)
    next
      case False
      then have f: "flushed w s so (r = TryAgain) w'" using r(3) by simp
      have ev: "evolves w w'" using mild_evolves [OF flushed_mild [OF f assms(2) refl]] .
      obtain so' where so': "sockets w' s = Some so'" "is_local so'" "sock_transport so' = sock_transport so"
        using f assms(3) by (auto simp: flushed_def)
      have "readable \<longrightarrow> live w' so'" using assms(4) so'(3) evolvesD(2) [OF ev] by (auto simp: live_def)
      with flush_outgoing_ok [OF w' so'(1,2), of env listen] False \<open>writable\<close> r(1) w' ev evolves_trans [OF ev] show ?thesis
        by (auto simp: local_socket_event_func_def event_ok_def split: sum.splits)
    qed
  qed
qed

section \<open>A request in pieces\<close>

text \<open>The client's bytes arrive in pieces; each is enqueued as long as the smart socket asks for more.\<close>

fun feed :: "environment \<Rightarrow> listen_fn \<Rightarrow> sptr \<Rightarrow> string list \<Rightarrow> world \<Rightarrow> (int \<times> world) result" where
  "feed env listen s [] w = Inr (0, w)"
| "feed env listen s (c # cs) w =
     bind_r (smart_socket_enqueue env listen s c w) (\<lambda>(r, w1). if r \<noteq> 0 \<or> cs = [] then Inr (r, w1) else feed env listen s cs w1)"

definition framed :: "string \<Rightarrow> string \<Rightarrow> bool" where
  "framed ds body \<longleftrightarrow> length ds = 4 \<and> list_all (is_digit 16) ds \<and> digits_value 16 ds = length body \<and> 0 < length body \<and>
     length body \<le> MAX_PAYLOAD"

lemma framed_incomplete:
  assumes "framed ds body" "p @ q = ds @ body" "q \<noteq> []"
  shows "request_frame p = Inr Incomplete"
proof (cases "length p < 4")
  case False
  then have "take 4 p = take 4 (p @ q)" by simp
  also have "\<dots> = ds" using assms(1,2) by (simp add: framed_def)
  finally have r: "p = ds @ drop 4 p" by (metis append_take_drop_id)
  then have "unhex p 4 = Inr (of_nat (length body))" using unhex_digits [of ds "drop 4 p"] assms(1) by (simp add: framed_def)
  moreover have "unat (of_nat (length body) :: u32) = length body"
    using assms(1) by (simp add: framed_def MAX_PAYLOAD_def unsigned_of_nat take_bit_nat_eq_self)
  moreover have "length p < length body + 4" using arg_cong [OF assms(2), of length] assms(1,3) by (cases q) (simp_all add: framed_def)
  moreover have "of_nat (length body) \<noteq> (0 :: u32)" using calculation(2) assms(1) by (auto simp: framed_def)
  ultimately show ?thesis using False assms(1) by (simp add: request_frame_def framed_def)
qed (simp add: request_frame_def)

lemma enqueue_collects:
  assumes "sockets w s = Some so" "request_frame (smart_socket_data so @ c) = Inr Incomplete"
  shows "smart_socket_enqueue env listen s c w = Inr (0, put_sock s (so\<lparr>smart_socket_data := smart_socket_data so @ c\<rparr>) w)"
  using assms by (simp add: smart_socket_enqueue_def Let_def)

lemma enqueue_after_collect:
  assumes "sockets w s = Some so"
  shows "smart_socket_enqueue env listen s d (put_sock s (so\<lparr>smart_socket_data := smart_socket_data so @ c\<rparr>) w) =
    smart_socket_enqueue env listen s (c @ d) w"
  using assms by (simp add: smart_socket_enqueue_def Let_def)

lemma feed_incomplete:
  assumes "framed ds body" "sockets w s = Some so" "smart_socket_data so @ concat cs @ q = ds @ body" "q \<noteq> []"
  shows "feed env listen s cs w = Inr (0, put_sock s (so\<lparr>smart_socket_data := smart_socket_data so @ concat cs\<rparr>) w)"
  using assms(2-)
proof (induction cs arbitrary: w so)
  case Nil
  then show ?case by (simp add: put_sock_same)
next
  case (Cons c cs)
  let ?so = "so\<lparr>smart_socket_data := smart_socket_data so @ c\<rparr>"
  have "request_frame (smart_socket_data so @ c) = Inr Incomplete"
    using framed_incomplete [OF assms(1), of "smart_socket_data so @ c" "concat cs @ q"] Cons.prems(2,3) by simp
  from enqueue_collects [OF Cons.prems(1) this] Cons.IH [of "put_sock s ?so w" ?so] Cons.prems show ?case by simp
qed

lemma feed_eq:
  assumes "framed ds body" "sockets w s = Some so" "smart_socket_data so @ concat cs = ds @ body" "cs \<noteq> []" "last cs \<noteq> []"
  shows "feed env listen s cs w = smart_socket_enqueue env listen s (concat cs) w"
  using assms(2-)
proof (induction cs arbitrary: w so)
  case (Cons c cs)
  show ?case
  proof (cases "cs = []")
    case True
    then show ?thesis by (cases "smart_socket_enqueue env listen s c w") auto
  next
    case False
    let ?so = "so\<lparr>smart_socket_data := smart_socket_data so @ c\<rparr>"
    have "concat cs \<noteq> []" using False Cons.prems(4) by (metis concat_eq_Nil_conv last.simps last_in_set)
    then have i: "request_frame (smart_socket_data so @ c) = Inr Incomplete"
      using framed_incomplete [OF assms(1), of "smart_socket_data so @ c" "concat cs"] Cons.prems(2) by simp
    have "feed env listen s (c # cs) w = feed env listen s cs (put_sock s ?so w)"
      using enqueue_collects [OF Cons.prems(1) i] False by simp
    also have "\<dots> = smart_socket_enqueue env listen s (concat cs) (put_sock s ?so w)"
      by (rule Cons.IH [of "put_sock s ?so w" ?so]) (use Cons.prems False in auto)
    finally show ?thesis using enqueue_after_collect [OF Cons.prems(1)] by simp
  qed
qed simp

section \<open>Properties\<close>

text \<open>
  C3: No byte a client sends makes the server follow a null or stale pointer. From a state in which the socket heap and the
  forwarding table are consistent, the event handler of every local socket, for any combination of events and any data that is
  read, either ends the process (a \<open>kill\<close> request, an assertion or an out-of-range read of the request parser) or returns in a
  consistent state. This covers collecting the request, every host request, the switch to a service, a device tracker or a
  device, and closing. A read event of a socket that is only draining its queue is covered as long as its device is still there.
\<close>
theorem client_event_safe:
  assumes "server_ok w" "sockets w s = Some so" "enqueue_m so = Local_enqueue"
    "readable \<and> closing so \<longrightarrow> (\<forall>t. sock_transport so = Some t \<longrightarrow> transports w t \<noteq> None)"
  shows "case local_socket_event_func env listen writable readable s w of
      Inr w' \<Rightarrow> server_ok w'
    | Inl f \<Rightarrow> f \<noteq> DanglingPointer \<and> f \<noteq> NullPointer \<and> f \<noteq> OutOfFuel"
proof -
  have h: "heap_ok w" using assms(1) by (simp add: server_ok_def)
  have "readable \<longrightarrow> live w so" using heap_ok_transport [OF h assms(2)] assms(4) by (auto simp: live_def)
  from event_func_ok [OF assms(1-3) this, of env listen writable] show ?thesis
    by (simp add: event_ok_def harmless_def split: sum.splits)
qed

text \<open>
  C21: How the network splits a request does not matter: a request of four hexadecimal digits and as many bytes as they
  say, delivered to a smart socket in any number of pieces, has exactly the effect of its delivery in one piece. Nothing is
  done before the last byte has arrived.
\<close>
theorem request_chunking_irrelevant:
  assumes "framed ds body" "concat cs = ds @ body" "last cs \<noteq> []" "sockets w s = Some so" "smart_socket_data so = []"
  shows "feed env listen s cs w = smart_socket_enqueue env listen s (ds @ body) w \<and>
    (\<forall>k < length cs. feed env listen s (take k cs) w = Inr (0, put_sock s (so\<lparr>smart_socket_data := concat (take k cs)\<rparr>) w))"
proof -
  have ne: "cs \<noteq> []" using assms(1,2) by (auto simp: framed_def)
  have "feed env listen s (take k cs) w = Inr (0, put_sock s (so\<lparr>smart_socket_data := concat (take k cs)\<rparr>) w)" if "k < length cs" for k
  proof -
    have "last cs \<in> set (drop k cs)" using that by (metis last_drop last_in_set drop_eq_Nil linorder_not_less)
    then have "concat (drop k cs) \<noteq> []" using assms(3) by (metis concat_eq_Nil_conv)
    moreover have "concat (take k cs) @ concat (drop k cs) = ds @ body" using assms(2) by (metis append_take_drop_id concat_append)
    ultimately show ?thesis using feed_incomplete [OF assms(1,4), of "take k cs" "concat (drop k cs)"] assms(5) by simp
  qed
  moreover have "feed env listen s cs w = smart_socket_enqueue env listen s (ds @ body) w"
    using feed_eq [OF assms(1,4) _ ne assms(3)] assms(2,5) by simp
  ultimately show ?thesis by blast
qed

definition client_object :: asocket where
  "client_object = (local_object 8 1)\<lparr>peer := Some 2, fde_read := True\<rparr>"

definition smart_object :: asocket where
  "smart_object = (new_asocket Smart_enqueue Smart_ready None Smart_close)\<lparr>peer := Some 1\<rparr>"

text \<open>A client has connected and its request for the version has arrived.\<close>

definition request_server :: world where
  "request_server = example_server\<lparr>
     sockets := [1 \<mapsto> client_object, 2 \<mapsto> smart_object],
     local_socket_list := [1],
     fd_in := (\<lambda>_. [])(8 := [Chunk ''000chost:version''])\<rparr>"

lemmas request_defs = request_server_def client_object_def smart_object_def example_defs

lemma request_server_ok: "server_ok request_server"
proof -
  have "peers_ok request_server" by (auto simp: peers_ok_def request_defs split: if_splits)
  moreover have "lists_ok request_server" by (auto simp: lists_ok_def request_defs split: if_splits)
  moreover have "ids_ok request_server" by (auto simp: ids_ok_def request_defs split: if_splits)
  moreover have "refs_ok request_server" by (auto simp: refs_ok_def request_defs split: if_splits)
  moreover have "attached_ok request_server" by (auto simp: attached_ok_def request_defs split: if_splits)
  moreover have "sockets request_server s = Some so \<Longrightarrow> object_ok so" for s so
    by (auto simp: object_ok_def methods_ok_def request_defs split: if_splits)
  moreover have "listeners_ok request_server"
    by (auto simp: listeners_ok_def request_defs callbacks_def isSmartSocket_def new_atransport_def)
  ultimately show ?thesis by (simp add: server_ok_def heap_ok_def)
qed

theorem client_event_safe_witness:
  "case local_socket_event_func example_env (\<lambda>_. Inl []) True True 1 request_server of
      Inr w' \<Rightarrow> server_ok w'
    | Inl f \<Rightarrow> f \<noteq> DanglingPointer \<and> f \<noteq> NullPointer \<and> f \<noteq> OutOfFuel"
  by (rule client_event_safe [OF request_server_ok, of 1 client_object])
     (simp_all add: request_server_def client_object_def local_object_def new_asocket_def)

theorem request_chunking_irrelevant_witness:
  "feed example_env (\<lambda>_. Inl []) 2 [''00'', ''0chost:v'', ''ersion''] request_server =
     smart_socket_enqueue example_env (\<lambda>_. Inl []) 2 (''000c'' @ ''host:version'') request_server"
  using request_chunking_irrelevant [of "''000c''" "''host:version''" "[''00'', ''0chost:v'', ''ersion'']" request_server 2 smart_object
      example_env "\<lambda>_. Inl []"]
  by (simp add: framed_def is_digit_def digit_val_def digits_value_def MAX_PAYLOAD_def request_server_def smart_object_def new_asocket_def)

end
