(* ===== verification/Event_Loop.thy ===== *)
theory Event_Loop
  imports Client_Safety
begin

text \<open>
  The event loop: a batch of descriptor events is handled, an event of a descriptor that an earlier
  handler of the batch has destroyed being skipped, and then the functions queued for the looper
  run. Packets and connection errors arrive as such functions. Every state the loop reaches is
  consistent.
\<close>

section \<open>Descriptor events\<close>

text \<open>
  The objects with an \<open>fdevent\<close>: local sockets and listeners. A pointer is never reused, so a
  pointer found in the set of installed events is that of the object the event was for.
\<close>

datatype fde = Socket_fde sptr | Listener_fde nat

text \<open>An event: the \<open>fdevent\<close>, \<open>FDE_WRITE\<close> and \<open>FDE_READ\<close>.\<close>

type_synonym fdevent_event = "fde \<times> bool \<times> bool"

fun installed :: "world \<Rightarrow> fde \<Rightarrow> bool" where
  "installed w (Socket_fde s) = (case sockets w s of None \<Rightarrow> False | Some so \<Rightarrow> is_local so)"
| "installed w (Listener_fde i) = (map_of (listener_list w) i \<noteq> None)"

fun invoke_fde :: "environment \<Rightarrow> listen_fn \<Rightarrow> fdevent_event \<Rightarrow> world \<Rightarrow> world result" where
  "invoke_fde env listen (Socket_fde s, writable, readable) w = local_socket_event_func env listen writable readable s w"
| "invoke_fde env listen (Listener_fde i, writable, readable) w =
     (case map_of (listener_list w) i of
        None \<Rightarrow> Inl DanglingPointer
      | Some l \<Rightarrow>
          if \<not> readable then Inr w
          else if isSmartSocket l then ss_listener_event env w else listener_event l w)"

fun invoke_events :: "environment \<Rightarrow> listen_fn \<Rightarrow> fdevent_event list \<Rightarrow> world \<Rightarrow> world result" where
  "invoke_events env listen [] w = Inr w"
| "invoke_events env listen (e # es) w =
     (if installed w (fst e) then bind_r (invoke_fde env listen e w) (invoke_events env listen es) else invoke_events env listen es w)"

text \<open>No task queues another one, so the queue that is found bounds the number of rounds.\<close>

definition HandleEvents :: "environment \<Rightarrow> listen_fn \<Rightarrow> fdevent_event list \<Rightarrow> world \<Rightarrow> world result" where
  "HandleEvents env listen es w =
     bind_r (invoke_events env listen es w) (\<lambda>w1. FlushRunQueue (length (run_queue w1)) env w1)"

section \<open>The loop\<close>

text \<open>What the loop is given: a batch of events, a packet, or the end of a connection.\<close>

datatype looper_input = Events "fdevent_event list" | Packet_read tptr apacket | Connection_error tptr

fun looper_round :: "environment \<Rightarrow> listen_fn \<Rightarrow> looper_input \<Rightarrow> world \<Rightarrow> world result" where
  "looper_round env listen (Events es) w = HandleEvents env listen es w"
| "looper_round env listen (Packet_read t p) w =
     bind_r (HandleRead env p t w) (\<lambda>(_, w1). FlushRunQueue (length (run_queue w1)) env w1)"
| "looper_round env listen (Connection_error t) w =
     bind_r (HandleError env t w) (\<lambda>(_, w1). FlushRunQueue (length (run_queue w1)) env w1)"

section \<open>Looper tasks\<close>

lemma run_register_ok:
  assumes "server_ok w" "transports w t \<noteq> None"
  shows "\<exists>w'. run_task env (Register_task t) w = Inr w' \<and> server_ok w' \<and> run_queue w' = run_queue w"
proof -
  obtain a where a: "transports w t = Some a" using assms(2) by auto
  have len: "length get_connection_string \<le> MAX_PAYLOAD_V1"
    by (simp add: get_connection_string_def FeatureSetToString_def supported_features_def adb_device_banner_def
        kFeatureDelayedAck_def MAX_PAYLOAD_V1_def)
  obtain w0 where w0: "send_packet (make_packet A_CNXN A_VERSION (of_nat (max_payload a)) get_connection_string) (Some t) w = Inr w0"
    "same_struct w w0" using send_packet_same [OF assms(2)] by blast
  have "server_ok w0" using server_ok_same [OF assms(1) w0(2) send_packet_outside [OF w0(1)]] .
  then have c: "\<exists>w1. send_connect t w = Inr w1 \<and> server_ok w1 \<and> same_struct w w1"
    using w0 a len by (auto simp: send_connect_def get_transport_def)
  obtain w1 where w1: "(if connection_state a = kCsNoPerm then Inr w
             else if t_type a = kTransportUsb \<and> usb_devices_start_detached False then SetConnectionState env t kCsDetached w
             else send_connect t w) = Inr w1" "server_ok w1" "same_heap w w1"
    using c assms(1) by (cases "connection_state a = kCsNoPerm")
      (auto simp: usb_devices_start_detached_def should_use_libusb_def same_struct_def)
  let ?w = "if t \<in> set (pending_list w1)
          then w1\<lparr>pending_list := filter (\<lambda>x. x \<noteq> t) (pending_list w1), transport_list := t # transport_list w1\<rparr> else w1"
  have "transports w1 t \<noteq> None" using w1(3) assms(2) by (simp add: same_heap_def)
  then have ok: "server_ok ?w" using server_ok_move_pending [OF w1(2)] w1(2) by simp
  then have "heap_ok ?w" by (simp add: server_ok_def)
  then obtain w' where w': "update_transports env ?w = Inr w'" "heap_ok w'" "mild ?w w'" using update_transports_spec by blast
  have "server_ok w'" using server_ok_mild [OF ok w'(2) update_transports_outside [OF w'(1)]] .
  moreover have "run_queue w' = run_queue w" using w'(3) w1(3) by (simp add: mild_def same_heap_def split: if_splits)
  ultimately show ?thesis using a w1(1) w'(1) by (simp add: fdevent_register_transport_def get_transport_def)
qed

lemma FlushRunQueue_ok:
  "server_ok w \<Longrightarrow> length (run_queue w) \<le> n \<Longrightarrow> \<exists>w'. FlushRunQueue n env w = Inr w' \<and> server_ok w' \<and> run_queue w' = []"
proof (induction n arbitrary: w)
  case 0
  then show ?case by (simp add: FlushRunQueue.simps)
next
  case (Suc n)
  show ?case
  proof (cases "run_queue w")
    case Nil
    with Suc.prems show ?thesis by (simp add: FlushRunQueue.simps)
  next
    case (Cons k ks)
    obtain t where t: "k = Register_task t" "transports w t \<noteq> None"
      using server_ok_queued [OF Suc.prems(1)] Cons by (cases k) auto
    have ok: "server_ok (w\<lparr>run_queue := ks\<rparr>)"
      using server_ok_queued [OF Suc.prems(1)] Cons by (intro server_ok_queue [OF Suc.prems(1)]) auto
    obtain w1 where w1: "run_task env k (w\<lparr>run_queue := ks\<rparr>) = Inr w1" "server_ok w1" "run_queue w1 = ks"
      using run_register_ok [OF ok, of t env] t by auto
    from Suc.IH [OF w1(2)] w1 Cons Suc.prems(2) show ?thesis by (simp add: FlushRunQueue.simps [of "Suc n"])
  qed
qed

section \<open>Accepting a connection\<close>

lemma new_local_ok:
  assumes "server_ok w" "local_socket_next_id w + 1 \<noteq> 0"
    and w'_def: "w' = with_local (local_object f (local_socket_next_id w)) w"
  shows "server_ok w'" "evolves w w'" "transports w' = transports w"
    "sockets w' (next_sptr w) = Some (local_object f (local_socket_next_id w))"
proof -
  let ?o = "local_object f (local_socket_next_id w)"
  have h: "heap_ok w" using assms(1) by (simp add: server_ok_def)
  have "heap_ok w'" unfolding w'_def
    by (rule heap_ok_with_local [OF h assms(2)]) (simp_all add: local_object_def new_asocket_def object_ok_def methods_ok_def)
  moreover have "outside w' = outside w" by (simp add: w'_def outside_def with_local_def)
  ultimately show "server_ok w'" using server_ok_mild [OF assms(1)] by blast
  show "evolves w w'" by (rule evolvesI) (auto simp: w'_def with_local_def split: if_splits)
qed (simp_all add: w'_def with_local_def)

lemma create_local_cases:
  obtains (overflow) "create_local_socket f w = Inl (FatalLog ''local socket id overflow'')"
    | (created) "create_local_socket f w = Inr (next_sptr w, with_local (local_object f (local_socket_next_id w)) w)"
        "local_socket_next_id w + 1 \<noteq> 0"
  by (cases "local_socket_next_id w + 1 = 0") (auto simp: create_local_socket_eq)

lemma call_ready_evolves:
  assumes "server_ok w" "sockets w s = Some so" "is_local so" "\<not> closing so"
  shows "\<exists>w'. call_ready env s w = Inr w' \<and> server_ok w' \<and> evolves w w'"
proof -
  have h: "heap_ok w" using assms(1) by (simp add: server_ok_def)
  consider "ready_m so = Local_ready" | "ready_m so = Local_ready_notify"
    using heap_ok_object [OF h assms(2)] assms(3) by (auto simp: object_ok_def methods_ok_def)
  then show ?thesis
  proof cases
    case 1
    obtain w' where w': "local_socket_ready s w = Inr w'" "heap_ok w'" "mild w w'" using local_socket_ready_spec [OF h assms(2,4)] by blast
    have r: "call_ready env s w = Inr w'" using 1 w'(1) assms(2) by (simp add: call_ready_def)
    then show ?thesis using server_ok_mild [OF assms(1) w'(2) call_ready_outside [OF r]] mild_evolves [OF w'(3)] by blast
  next
    case 2
    let ?w1 = "put_sock s (regular so) w" and ?w2 = "world_SendOkay (fd so) (put_sock s (regular so) w)"
    have "server_ok ?w1"
      using object_ok_regular [OF heap_ok_object [OF h assms(2)] assms(3)] by (intro server_ok_upd [OF assms(1,2)]) simp_all
    moreover have q: "quiet ?w1 ?w2" by simp
    ultimately have ok: "server_ok ?w2" by (rule quiet_server_ok)
    have so: "sockets ?w2 s = Some (regular so)" using quiet_sockets [OF q] by simp
    have h2: "heap_ok ?w2" using ok by (simp add: server_ok_def)
    obtain w' where w': "local_socket_ready s ?w2 = Inr w'" "heap_ok w'" "mild ?w2 w'"
      using local_socket_ready_spec [OF h2 so] assms(4) by auto
    have r: "call_ready env s w = Inr w'"
      using 2 w'(1) assms(2) by (simp add: call_ready_def local_socket_ready_notify_def regular_def)
    have "evolves w ?w1" using put_sock_evolves [OF assms(2)] by simp
    then have "evolves w w'" using evolves_trans quiet_evolves [OF q] mild_evolves [OF w'(3)] by blast
    then show ?thesis using r server_ok_mild [OF assms(1) w'(2) call_ready_outside [OF r]] by blast
  qed
qed

lemma connect_to_smartsocket_ok:
  assumes "server_ok w" "sockets w s = Some so" "is_local so" "\<not> closing so" "peer so = None"
  shows "event_ok w (connect_to_smartsocket env s w)"
proof -
  let ?b = "new_asocket Smart_enqueue Smart_ready None Smart_close"
  let ?w = "with_peer s so ?b w"
  have h: "heap_ok w" using assms(1) by (simp add: server_ok_def)
  have ns: "next_sptr w \<noteq> s" using fresh_sptr [OF h] assms(2) by auto
  have "heap_ok ?w" by (rule heap_ok_with_peer [OF h assms(2-5)]) (simp_all add: new_asocket_def object_ok_def methods_ok_def)
  moreover have "outside ?w = outside w" by (simp add: outside_def with_peer_def)
  ultimately have ok: "server_ok ?w" by (rule server_ok_mild [OF assms(1)])
  have so: "sockets ?w s = Some (so\<lparr>peer := Some (next_sptr w)\<rparr>)" by (simp add: with_peer_def)
  have "evolves w ?w" by (rule evolvesI) (use assms(2,4) in \<open>auto simp: with_peer_def split: if_splits\<close>)
  moreover have "connect_to_smartsocket env s w = call_ready env s ?w"
    using assms(2) ns
    by (simp add: connect_to_smartsocket_def new_sock_def upd_sock_def get_sock_def put_sock_def with_peer_def fun_upd_twist,
        intro arg_cong [of _ _ "call_ready env s"]) simp
  moreover obtain w' where "call_ready env s ?w = Inr w'" "server_ok w'" "evolves ?w w'"
    using call_ready_evolves [OF ok so] assms(3,4) by auto
  ultimately show ?thesis using evolves_trans by (auto simp: event_ok_def)
qed

lemma event_ok_before: "evolves v w \<Longrightarrow> event_ok w r \<Longrightarrow> event_ok v r"
  unfolding event_ok_def using evolves_trans by (auto split: sum.splits)

lemma ss_listener_event_ok:
  assumes "server_ok w"
  shows "event_ok w (ss_listener_event env w)"
proof -
  obtain r w1 where w1: "open_fd w = (r, w1)" by (cases "open_fd w")
  note q = open_fd_quiet [OF w1]
  have ok: "server_ok w1" "evolves w w1" using quiet_server_ok [OF assms q] quiet_evolves [OF q] .
  show ?thesis
  proof (cases r)
    case None
    with w1 ok show ?thesis by (simp add: ss_listener_event_def event_ok_def)
  next
    case (Some f)
    show ?thesis
    proof (cases rule: create_local_cases [of f w1, case_names overflow created])
      case overflow
      with w1 Some show ?thesis by (simp add: ss_listener_event_def event_ok_def)
    next
      case created
      note n = new_local_ok [OF ok(1) created(2) refl, of f]
      have "event_ok w (connect_to_smartsocket env (next_sptr w1) (with_local (local_object f (local_socket_next_id w1)) w1))"
        using event_ok_before [OF evolves_trans [OF ok(2) n(2)] connect_to_smartsocket_ok [OF n(1,4)]]
        by (simp add: local_object_def new_asocket_def)
      with w1 Some created(1) show ?thesis by (simp add: ss_listener_event_def)
    qed
  qed
qed

lemma listener_event_ok:
  assumes "server_ok w" "l_transport l = Some t" "transports w t \<noteq> None"
  shows "event_ok w (listener_event l w)"
proof -
  obtain r w1 where w1: "open_fd w = (r, w1)" by (cases "open_fd w")
  note q = open_fd_quiet [OF w1]
  have ok: "server_ok w1" "evolves w w1" using quiet_server_ok [OF assms(1) q] quiet_evolves [OF q] .
  show ?thesis
  proof (cases r)
    case None
    with w1 ok show ?thesis by (simp add: listener_event_def event_ok_def)
  next
    case (Some f)
    show ?thesis
    proof (cases rule: create_local_cases [of f w1, case_names overflow created])
      case overflow
      with w1 Some show ?thesis by (simp add: listener_event_def event_ok_def)
    next
      case created
      let ?n = "next_sptr w1" and ?w2 = "with_local (local_object f (local_socket_next_id w1)) w1"
      let ?o = "local_object f (local_socket_next_id w1)"
      let ?ot = "?o\<lparr>sock_transport := Some t\<rparr>"
      note n = new_local_ok [OF ok(1) created(2) refl, of f]
      let ?w3 = "put_sock ?n ?ot ?w2"
      have h: "heap_ok ?w2" using n(1) by (simp add: server_ok_def)
      have t: "transports ?w2 t \<noteq> None" using evolvesD(2) [OF evolves_trans [OF ok(2) n(2)] assms(3)] .
      then obtain a where a: "transports ?w3 t = Some a" by auto
      have "heap_ok ?w3" by (rule heap_ok_put [OF h n(4) object_ok_local]) (use t in \<open>simp_all add: local_object_def new_asocket_def\<close>)
      then have ok3: "server_ok ?w3" by (rule server_ok_mild [OF n(1)]) simp
      have ev: "evolves w ?w3" using evolves_trans [OF evolves_trans [OF ok(2) n(2)] put_sock_evolves [OF n(4)]]
        by (simp add: local_object_def new_asocket_def)
      have e: "listener_event l w = connect_to_remote ?n (connect_to l) ?w3"
        using w1 Some created(1) n(4) assms(2) by (simp add: listener_event_def upd_sock_def)
      have o: "sockets ?w3 ?n = Some ?ot" "peer ?ot = None" "sock_transport ?ot = Some t" by (simp_all add: local_object_def new_asocket_def)
      note c = connect_to_remote_spec [OF o a, of "connect_to l"]
      show ?thesis
      proof (cases "connect_to_remote ?n (connect_to l) ?w3")
        case (Inl f)
        with c(1) e show ?thesis by (simp add: event_ok_def tame_def)
      next
        case (Inr w')
        from c(2) [OF this] obtain k where k: "quiet (put_sock ?n (?ot\<lparr>available_send_bytes := k\<rparr>) ?w3) w'" by blast
        have "server_ok (put_sock ?n (?ot\<lparr>available_send_bytes := k\<rparr>) ?w3)"
          by (rule server_ok_upd [OF ok3 o(1)]) (simp_all add: object_ok_read(2) [OF object_ok_local])
        then have "server_ok w'" using quiet_server_ok [OF _ k] by blast
        moreover have "evolves w w'"
          using evolves_trans [OF ev] evolves_trans [OF put_sock_evolves [OF o(1)] quiet_evolves [OF k]] by simp
        ultimately show ?thesis using e Inr by (simp add: event_ok_def)
      qed
    qed
  qed
qed

section \<open>A batch of events\<close>

text \<open>
  The kernel reports hangups for every descriptor, and the loop turns them into read events. A read
  event of a socket that drains its queue after its device is gone is left out here; it is treated
  below.
\<close>

definition event_expected :: "world \<Rightarrow> fdevent_event \<Rightarrow> bool" where
  "event_expected w e \<longleftrightarrow>
     (case e of
        (Socket_fde s, _, readable) \<Rightarrow> s < next_sptr w \<and> (readable \<longrightarrow> (\<forall>so. sockets w s = Some so \<longrightarrow> live w so))
      | (Listener_fde i, _) \<Rightarrow> True)"

lemma event_expected_evolves:
  assumes "event_expected w e" "evolves w w'" "server_ok w'"
  shows "event_expected w' e"
proof (cases e)
  case (fields f wr rd)
  show ?thesis
  proof (cases f)
    case (Socket_fde s)
    have s: "s < next_sptr w" "rd \<Longrightarrow> sockets w s = Some so \<Longrightarrow> live w so" for so
      using assms(1) fields Socket_fde by (auto simp: event_expected_def)
    have h: "heap_ok w'" using assms(3) by (simp add: server_ok_def)
    have "live w' so'" if r: "rd" "sockets w' s = Some so'" for so'
    proof (cases "closing so'")
      case False
      then show ?thesis using heap_ok_transport [OF h r(2)] by (auto simp: live_def)
    next
      case True
      from evolvesD(3) [OF assms(2) s(1) r(2)] True obtain so where so: "sockets w s = Some so"
        "sock_transport so' = sock_transport so \<or> (\<forall>t. sock_transport so' = Some t \<longrightarrow> transports w' t \<noteq> None)" by blast
      have "live w so" using s(2) r(1) so(1) by blast
      with so(2) evolvesD(2) [OF assms(2)] show ?thesis by (auto simp: live_def)
    qed
    moreover have "s < next_sptr w'" using s(1) evolvesD(1) [OF assms(2)] by simp
    ultimately show ?thesis using fields Socket_fde by (simp add: event_expected_def)
  qed (simp add: fields event_expected_def)
qed

lemma invoke_fde_ok:
  assumes "server_ok w" "event_expected w e" "installed w (fst e)"
  shows "event_ok w (invoke_fde env listen e w)"
proof (cases e)
  case (fields f wr rd)
  show ?thesis
  proof (cases f)
    case (Socket_fde s)
    then obtain so where so: "sockets w s = Some so" "is_local so" using assms(3) fields by (auto split: option.splits)
    have "rd \<longrightarrow> live w so" using assms(2) fields Socket_fde so(1) by (simp add: event_expected_def)
    from event_func_ok [OF assms(1) so this] show ?thesis using fields Socket_fde by simp
  next
    case (Listener_fde i)
    then obtain l where l: "map_of (listener_list w) i = Some l" using assms(3) fields by auto
    have lo: "listeners_ok w" using assms(1) by (simp add: server_ok_def)
    note d = listeners_okD [OF lo map_of_SomeD [OF l]]
    have "event_ok w (listener_event l w)" if ns: "\<not> isSmartSocket l"
    proof -
      obtain t where t: "l_transport l = Some t" using d(1) ns by auto
      from listener_event_ok [OF assms(1) t d(3) [OF t]] show ?thesis .
    qed
    with ss_listener_event_ok [OF assms(1)] assms(1) show ?thesis using fields Listener_fde l by (simp add: event_ok_def)
  qed
qed

lemma invoke_events_ok:
  "server_ok w \<Longrightarrow> \<forall>e \<in> set es. event_expected w e \<Longrightarrow> event_ok w (invoke_events env listen es w)"
proof (induction es arbitrary: w)
  case Nil
  then show ?case by (simp add: event_ok_def)
next
  case (Cons e es)
  show ?case
  proof (cases "installed w (fst e)")
    case False
    then show ?thesis using Cons by simp
  next
    case True
    have e: "event_ok w (invoke_fde env listen e w)" using invoke_fde_ok [OF Cons.prems(1) _ True] Cons.prems(2) by simp
    show ?thesis
    proof (cases "invoke_fde env listen e w")
      case (Inl f)
      with e True show ?thesis by (simp add: event_ok_def)
    next
      case (Inr w1)
      have w1: "server_ok w1" "evolves w w1" using e Inr by (simp_all add: event_ok_def)
      have "\<forall>e \<in> set es. event_expected w1 e" using event_expected_evolves [OF _ w1(2,1)] Cons.prems(2) by simp
      from event_ok_before [OF w1(2) Cons.IH [OF w1(1) this]] show ?thesis using True Inr by simp
    qed
  qed
qed

section \<open>One round\<close>

fun input_expected :: "world \<Rightarrow> looper_input \<Rightarrow> bool" where
  "input_expected w (Events es) \<longleftrightarrow> (\<forall>e \<in> set es. event_expected w e)"
| "input_expected w (Packet_read t p) \<longleftrightarrow> transports w t \<noteq> None"
| "input_expected w (Connection_error t) \<longleftrightarrow>
     (\<exists>a. transports w t = Some a \<and> connection_state a \<noteq> kCsOffline) \<and> t \<notin> set (pending_list w)"

definition round_ok :: "world result \<Rightarrow> bool" where
  "round_ok r \<longleftrightarrow> (case r of Inl f \<Rightarrow> harmless f | Inr w' \<Rightarrow> server_ok w' \<and> run_queue w' = [])"

lemma round_ok_Inl [simp]: "round_ok (Inl f) \<longleftrightarrow> harmless f"
  by (simp add: round_ok_def)

lemma flush_round: "server_ok w \<Longrightarrow> round_ok (FlushRunQueue (length (run_queue w)) env w)"
  using FlushRunQueue_ok [of w "length (run_queue w)" env] by (auto simp: round_ok_def)

lemma abort_reason_harmless: "abort_reason p f \<Longrightarrow> harmless f"
  by (auto simp: abort_reason_def)

lemma packet_round:
  assumes "server_ok w" "transports w t \<noteq> None" "private_keys env \<noteq> []"
  shows "round_ok (looper_round env listen (Packet_read t p) w)"
proof -
  obtain a where a: "transports w t = Some a" using assms(2) by auto
  have "case handle_packet env p t w of Inr w' \<Rightarrow> server_ok w' | Inl f \<Rightarrow> harmless f"
    using handle_packet_outcome [OF assms, of p] abort_reason_harmless by (auto split: sum.splits)
  then show ?thesis
    using a flush_round [OF assms(1)] flush_round by (cases "handle_packet env p t w") (simp_all add: HandleRead_def get_transport_def)
qed

lemma error_round:
  assumes "server_ok w" "run_queue w = []" "transports w t = Some a" "connection_state a \<noteq> kCsOffline" "t \<notin> set (pending_list w)"
  shows "round_ok (looper_round env listen (Connection_error t) w)"
proof -
  obtain w1 where w1: "handle_offline env t w = Inr w1" "server_ok w1" "transports w1 t \<noteq> None" "unreferenced w1 t"
    "pending_list w1 = pending_list w" "run_queue w1 = []"
    using handle_offline_unreferences [OF assms(1,3,4), of env] assms(2) by auto
  obtain b where b: "transports w1 t = Some b" using w1(3) by auto
  let ?w2 = "put_transport t (b\<lparr>conn_stopped := True\<rparr>) w1"
  have ok: "server_ok ?w2" using server_ok_put_transport [OF w1(2) b] by simp
  have t2: "transports ?w2 t = Some (b\<lparr>conn_stopped := True\<rparr>)" by (simp add: put_transport_def)
  have q2: "run_queue ?w2 = []" "pending_list ?w2 = pending_list w" using w1(5,6) by (simp_all add: put_transport_def)
  have u2: "upd_transport (\<lambda>a. a\<lparr>conn_stopped := True\<rparr>) t w1 = Inr ?w2" using b by (simp add: upd_transport_def get_transport_def)
  show ?thesis
  proof (cases "IsTcpDevice (b\<lparr>conn_stopped := True\<rparr>) \<and> \<not> kicked (b\<lparr>conn_stopped := True\<rparr>)")
    case True
    let ?w3 = "put_transport t (ResetKeys (b\<lparr>conn_stopped := True\<rparr>)) ?w2"
    have "server_ok ?w3" using server_ok_put_transport [OF ok t2] by (simp add: ResetKeys_def)
    moreover have "looper_round env listen (Connection_error t) w = FlushRunQueue (length (run_queue ?w3)) env ?w3"
      using w1(1) u2 t2 True by (simp add: HandleError_def transport_destroy_def get_transport_def)
    ultimately show ?thesis using flush_round by simp
  next
    case False
    let ?w4 = "?w2\<lparr>run_queue := []\<rparr>"
    have ok4: "server_ok ?w4" using server_ok_queue [OF ok, of "[]"] by simp
    have f: "sockets ?w4 = sockets w1" "local_socket_list ?w4 = local_socket_list w1" "listener_list ?w4 = listener_list w1"
      by (simp_all add: put_transport_def)
    then have "on_transport ?w4 t s = on_transport w1 t s" for s by (simp only: on_transport_def)
    then have "unreferenced ?w4 t" using w1(4) f by (simp only: unreferenced_def)
    then obtain w5 where w5: "fdevent_unregister_transport env t ?w4 = Inr w5" "server_ok w5" "run_queue w5 = []"
      using fdevent_unregister_transport_spec [OF ok4, of t env] t2 q2 assms(5) by auto
    have "looper_round env listen (Connection_error t) w = FlushRunQueue 1 env (?w2\<lparr>run_queue := [Unregister_task t]\<rparr>)"
      using w1(1) u2 t2 q2 False by (auto simp: HandleError_def transport_destroy_def get_transport_def)
    then show ?thesis using w5 by (simp add: FlushRunQueue.simps round_ok_def)
  qed
qed

lemma looper_round_ok:
  assumes "server_ok w" "run_queue w = []" "private_keys env \<noteq> []" "input_expected w i"
  shows "round_ok (looper_round env listen i w)"
proof (cases i)
  case (Events es)
  then have e: "event_ok w (invoke_events env listen es w)" using invoke_events_ok [OF assms(1)] assms(4) by simp
  show ?thesis
    using e Events flush_round by (cases "invoke_events env listen es w") (simp_all add: HandleEvents_def event_ok_def round_ok_def)
next
  case (Packet_read t p)
  with packet_round [OF assms(1) _ assms(3)] assms(4) show ?thesis by simp
next
  case (Connection_error t)
  with error_round [OF assms(1,2)] assms(4) show ?thesis by auto
qed

section \<open>Sockets that outlive their transport\<close>

text \<open>\<open>close_all_sockets\<close> parks a socket with queued data; it keeps the pointer to the transport.\<close>

lemma close_all_parks:
  "heap_ok w \<Longrightarrow> close_all_loop n t w = Inr w' \<Longrightarrow> parks xo \<Longrightarrow> sockets w x \<in> {Some xo, Some (parked xo)} \<Longrightarrow>
     sockets w' x \<in> {Some xo, Some (parked xo)} \<and> (device_tracker_list w = [] \<longrightarrow> device_tracker_list w' = [])"
proof (induction n arbitrary: w)
  case 0
  then show ?case by simp
next
  case (Suc n)
  obtain r where r: "touches_transport w t (local_socket_list w) = Inr r"
    "case r of None \<Rightarrow> \<forall>s \<in> set (local_socket_list w). \<not> on_transport w t s
      | Some s \<Rightarrow> s \<in> set (local_socket_list w) \<and> on_transport w t s"
    using touches_transport_spec [OF Suc.prems(1) order_refl] by blast
  show ?case
  proof (cases r)
    case None
    with r Suc.prems show ?thesis by auto
  next
    case (Some s)
    with r(2) have s: "s \<in> set (local_socket_list w)" by simp
    then obtain so where so: "sockets w s = Some so" "\<not> closing so" using Suc.prems(1) by (auto simp: heap_ok_def lists_ok_def)
    obtain w1 where w1: "close_socket w s = Inr w1" "closes w (closed_set s so) w1" "heap_ok w1"
      using close_socket_closes [OF Suc.prems(1) so(1)] by blast
    have e: "sockets w1 x = (if x \<in> closed_set s so then (case sockets w x of None \<Rightarrow> None | Some xo \<Rightarrow> if parks xo then Some (parked xo) else None)
      else sockets w x)" using w1(2) by (simp add: closes_def)
    have "\<not> closing yo" if "x \<in> closed_set s so" "sockets w x = Some yo" for yo
      using that so heap_ok_peer_open(1) [OF Suc.prems(1) so(1) _ that(2)] by auto
    moreover have "closing (parked xo)" by (simp add: parked_def)
    ultimately have "sockets w x \<noteq> Some (parked xo)" if "x \<in> closed_set s so" using that by blast
    then have k: "sockets w1 x \<in> {Some xo, Some (parked xo)}" using e Suc.prems(3,4) by auto
    have d: "device_tracker_list w = [] \<longrightarrow> device_tracker_list w1 = []" using w1(2) by (simp add: closes_def)
    have "close_all_loop n t w1 = Inr w'" using Suc.prems(2) r(1) Some w1(1) by simp
    from Suc.IH [OF w1(3) this Suc.prems(3) k] d show ?thesis by blast
  qed
qed

lemma handle_offline_parks:
  assumes "server_ok w" "device_tracker_list w = []" "transports w t = Some a" "connection_state a \<noteq> kCsOffline"
    "sockets w s = Some so" "parks so" "sock_transport so = Some t"
  shows "\<exists>w' b. handle_offline env t w = Inr w' \<and> sockets w' s = Some (parked so) \<and> device_tracker_list w' = [] \<and>
    transports w' t = Some b \<and> t_type b = t_type a"
proof -
  let ?a1 = "a\<lparr>connection_state := kCsOffline\<rparr>" and ?a2 = "a\<lparr>connection_state := kCsOffline, online := False\<rparr>"
  let ?w1 = "put_transport t ?a1 w" and ?w2 = "put_transport t ?a2 w"
  have st: "SetConnectionState env t kCsOffline w = Inr ?w1"
    using assms(2,3) by (simp add: SetConnectionState_def get_transport_def update_transports_def put_transport_def)
  have on: "upd_transport (\<lambda>a. a\<lparr>online := False\<rparr>) t ?w1 = Inr ?w2"
    by (simp add: upd_transport_def get_transport_def put_transport_def)
  have ok: "heap_ok ?w2" using server_ok_put_transport [OF assms(1,3), of ?a2] by (simp add: server_ok_def)
  obtain w3 where w3: "close_all_sockets t ?w2 = Inr w3" "heap_ok w3" "\<forall>s \<in> set (local_socket_list w3). \<not> on_transport w3 t s"
    using close_all_loop_spec [OF ok, of "Suc (length (local_socket_list ?w2))" t] by (auto simp: close_all_sockets_def)
  have s2: "sockets ?w2 s = Some so" "device_tracker_list ?w2 = []" "transports ?w2 t = Some ?a2" using assms(2,5) by (simp_all add: put_transport_def)
  have p: "sockets w3 s \<in> {Some so, Some (parked so)}" "device_tracker_list w3 = []"
    using close_all_parks [OF ok _ assms(6), of "Suc (length (local_socket_list ?w2))" t w3 s] w3(1) s2 by (auto simp: close_all_sockets_def)
  have "sockets w3 s \<noteq> Some so" using no_reference_left [OF w3(2,3), of s so] assms(6,7) by (auto simp: parks_def)
  then have s3: "sockets w3 s = Some (parked so)" using p(1) by simp
  have "outside w3 = outside ?w2" using close_all_loop_outside [OF w3(1) [unfolded close_all_sockets_def]] .
  then have "map_option unkicked (transports w3 t) = Some (unkicked ?a2)" using s2(3) unfolding outside_def by (metis (no_types) Pair_inject option.simps(9))
  then obtain b where b: "transports w3 t = Some b" "unkicked b = unkicked ?a2" by auto
  have tb: "t_type b = t_type a" using arg_cong [OF b(2), of t_type] by (simp add: unkicked_def)
  let ?w4 = "put_transport t (b\<lparr>disconnects := []\<rparr>) (w3\<lparr>listener_list := filter (\<lambda>x. fst x \<notin> set (disconnects b)) (listener_list w3)\<rparr>)"
  have "RunDisconnects t w3 = Inr ?w4" using b(1) by (simp add: RunDisconnects_def get_transport_def run_disconnects_eq upd_transport_def)
  then have "handle_offline env t w = Inr ?w4" using assms(3,4) st on w3(1) by (simp add: handle_offline_def get_transport_def)
  moreover have "sockets ?w4 s = Some (parked so)" "device_tracker_list ?w4 = []" "transports ?w4 t = Some (b\<lparr>disconnects := []\<rparr>)"
    using s3 p(2) by (simp_all add: put_transport_def)
  ultimately show ?thesis using tb by auto
qed

section \<open>Properties\<close>

text \<open>The states the loop reaches, round by round, on inputs as expected.\<close>

inductive looper_reachable :: "environment \<Rightarrow> listen_fn \<Rightarrow> world \<Rightarrow> world \<Rightarrow> bool" for env listen w0 where
  start: "looper_reachable env listen w0 w0"
| round: "looper_reachable env listen w0 w \<Longrightarrow> input_expected w i \<Longrightarrow> looper_round env listen i w = Inr w' \<Longrightarrow>
    looper_reachable env listen w0 w'"


text \<open>
  C18: The first of these inputs is a use after free. A client of a device that is not connected over TCP has data queued when the device's
  connection fails: the round runs through, deletes the transport and leaves the client's socket on the closing list to be
  drained. Any hangup of the client that comes without a write event, such as a client that only shuts down its sending
  side, is then delivered as a read event, and the handler follows the socket's pointer to the deleted transport.
\<close>
theorem hangup_after_device_loss:
  assumes "server_ok w" "run_queue w = []" "device_tracker_list w = []"
    and t: "transports w t = Some a" "connection_state a \<noteq> kCsOffline" "t \<notin> set (pending_list w)" "t_type a \<noteq> kTransportLocal"
    and s: "sockets w s = Some so" "enqueue_m so = Local_enqueue" "\<not> closing so" "sock_transport so = Some t" "\<not> has_write_error so"
      "IOVector_size (packet_queue so) \<noteq> 0"
  shows "\<exists>w1. looper_round env listen (Connection_error t) w = Inr w1 \<and> server_ok w1 \<and>
    looper_round env listen (Events [(Socket_fde s, False, True)]) w1 = Inl DanglingPointer"
proof -
  have pk: "parks so" using s by (simp add: parks_def)
  obtain w0 b where w0: "handle_offline env t w = Inr w0" "sockets w0 s = Some (parked so)" "device_tracker_list w0 = []"
    "transports w0 t = Some b" "t_type b = t_type a"
    using handle_offline_parks [OF assms(1,3) t(1,2) s(1) pk s(4)] by blast
  have q: "run_queue w0 = []" using handle_offline_unreferences [OF assms(1) t(1,2), of env] w0(1) assms(2) by auto
  let ?w1 = "put_transport t (b\<lparr>conn_stopped := True\<rparr>) w0"
  let ?w2 = "?w1\<lparr>transports := (transports ?w1)(t := None), transport_list := filter (\<lambda>x. x \<noteq> t) (transport_list ?w1), run_queue := []\<rparr>"
  have "HandleError env t w = Inr (Removed, ?w1\<lparr>run_queue := [Unregister_task t]\<rparr>)"
    using w0(1,4,5) q t(4) by (simp add: HandleError_def transport_destroy_def upd_transport_def get_transport_def IsTcpDevice_def put_transport_def)
  then have r: "looper_round env listen (Connection_error t) w = Inr ?w2"
    using w0(3) by (simp add: FlushRunQueue.simps fdevent_unregister_transport_def get_transport_def update_transports_def put_transport_def)
  moreover have "server_ok ?w2" using error_round [OF assms(1,2) t(1-3), of env listen] r by (simp add: round_ok_def)
  moreover have "looper_round env listen (Events [(Socket_fde s, False, True)]) ?w2 = Inl DanglingPointer"
  proof -
    have k: "sockets ?w2 s = Some (parked so)" "transports ?w2 t = None" using w0(2) by (simp_all add: put_transport_def)
    have "get_max_payload (parked so) ?w2 = Inl DanglingPointer"
      using k(2) s(4) by (simp add: get_max_payload_def get_transport_def parked_def)
    then show ?thesis using k(1) s(2)
      by (simp add: HandleEvents_def local_socket_event_func_def local_socket_flush_outgoing_def parked_def)
  qed
  ultimately show ?thesis by blast
qed


text \<open>A client with one queued byte on a USB device.\<close>

definition draining_server :: world where
  "draining_server = example_server\<lparr>
     sockets := [1 \<mapsto> (local_object 4 1)\<lparr>sock_transport := Some 7, fde_write := True,
                        packet_queue := IOVector_append IOVector_empty (Block_of ''x'')\<rparr>],
     local_socket_list := [1],
     transports := [7 \<mapsto> (new_atransport 7 kCsDevice)\<lparr>t_type := kTransportUsb, online := True\<rparr>],
     transport_list := [7]\<rparr>"

lemma draining_server_ok: "server_ok draining_server"
proof -
  note defs = draining_server_def example_defs
  have "peers_ok draining_server" by (auto simp: peers_ok_def defs split: if_splits)
  moreover have "lists_ok draining_server" by (auto simp: lists_ok_def defs split: if_splits)
  moreover have "ids_ok draining_server" by (auto simp: ids_ok_def defs split: if_splits)
  moreover have "refs_ok draining_server" by (auto simp: refs_ok_def defs split: if_splits)
  moreover have "attached_ok draining_server" by (auto simp: attached_ok_def defs split: if_splits)
  moreover have "sockets draining_server s = Some so \<Longrightarrow> object_ok so" for s so
    by (auto simp: object_ok_def methods_ok_def defs IOVector_append_correct split: if_splits)
  moreover have "listeners_ok draining_server"
    by (auto simp: listeners_ok_def defs callbacks_def isSmartSocket_def new_atransport_def)
  ultimately show ?thesis by (simp add: server_ok_def heap_ok_def)
qed

theorem hangup_after_device_loss_witness:
  "\<exists>w1. looper_round example_env (\<lambda>_. Inl []) (Connection_error 7) draining_server = Inr w1 \<and> server_ok w1 \<and>
     looper_round example_env (\<lambda>_. Inl []) (Events [(Socket_fde 1, False, True)]) w1 = Inl DanglingPointer"
proof (rule hangup_after_device_loss [OF draining_server_ok])
  show "sockets draining_server 1 = Some ((local_object 4 1)\<lparr>sock_transport := Some 7, fde_write := True,
      packet_queue := IOVector_append IOVector_empty (Block_of ''x'')\<rparr>)" by (simp add: draining_server_def)
  show "transports draining_server 7 = Some ((new_atransport 7 kCsDevice)\<lparr>t_type := kTransportUsb, online := True\<rparr>)"
    by (simp add: draining_server_def)
  show "IOVector_size (packet_queue ((local_object 4 1)\<lparr>sock_transport := Some 7, fde_write := True,
      packet_queue := IOVector_append IOVector_empty (Block_of ''x'')\<rparr>)) \<noteq> 0"
    by (simp add: IOVector_append_def IOVector_empty_def IOVector_size_def Block_of_def)
qed (simp_all add: draining_server_def example_defs new_atransport_def)

end
