(* ===== verification/Refinement.thy ===== *)
theory Refinement
  imports Prelude
begin

text \<open>
  Forward simulation between a detailed step relation and an abstract one, which may take several steps or none. A component that is a
  state machine states what it promises as an abstract relation and interprets this locale.
\<close>

locale refinement =
  fixes step :: "'c \<Rightarrow> 'c \<Rightarrow> bool" and spec :: "'a \<Rightarrow> 'a \<Rightarrow> bool" and abs_of :: "'c \<Rightarrow> 'a" and invar :: "'c \<Rightarrow> bool" and start :: 'c
  assumes invar_start: "invar start"
    and invar_step: "invar c \<Longrightarrow> step c c' \<Longrightarrow> invar c'"
    and simulates: "invar c \<Longrightarrow> step c c' \<Longrightarrow> spec\<^sup>*\<^sup>* (abs_of c) (abs_of c')"
begin

lemma reachable_invar: "step\<^sup>*\<^sup>* start c \<Longrightarrow> invar c"
  by (induction rule: rtranclp_induct) (auto intro: invar_start invar_step)

lemma reachable_spec: "step\<^sup>*\<^sup>* start c \<Longrightarrow> spec\<^sup>*\<^sup>* (abs_of start) (abs_of c)"
proof (induction rule: rtranclp_induct)
  case (step b c)
  from step.IH simulates [OF reachable_invar [OF step.hyps(1)] step.hyps(2)] show ?case by (rule rtranclp_trans)
qed simp

lemma spec_invariant:
  assumes "step\<^sup>*\<^sup>* start c" "P (abs_of start)" "\<And>x y. P x \<Longrightarrow> spec x y \<Longrightarrow> P y"
  shows "P (abs_of c)"
  using reachable_spec [OF assms(1)] by (induction rule: rtranclp_induct) (auto intro: assms(2,3))

end

end
