(* ===== verification/Connection_Adapter.thy ===== *)
theory Connection_Adapter
  imports Packet Refinement
begin

text \<open>
  The adapter that turns a blocking connection into one with a queue: a thread that reads, a thread
  that writes what has been queued, and \<open>Stop\<close> and the TLS handshake, which run on other threads.
  The threads are interleaved at the granularity of the mutex; a thread that waits for it or for
  another thread has no step.
\<close>

section \<open>State\<close>

datatype reader = R_reading | R_failed | R_done

datatype writer = W_waiting | W_sending apacket | W_failed | W_done

text \<open>How far \<open>Stop\<close> has come: not called, the flag is set, joining the threads, done.\<close>

datatype stop_state = Not_stopping | Flagged | Joining | Stopped

text \<open>
  \<open>read_thread\<close> and \<open>write_thread\<close> are the members, \<open>None\<close> when there is no thread to join;
  \<open>old_read_thread\<close> and \<open>old_write_thread\<close> are the locals of \<open>Stop\<close> they are moved to. \<open>handshaking\<close>
  says that \<open>DoTlsHandshake\<close> holds the mutex. The last four components record what has happened: the
  packets given to \<open>Write\<close>, those handed to the connection, those given to \<open>HandleRead\<close>, and the
  calls of \<open>HandleError\<close>.
\<close>

record adapter =
  started :: bool
  stopped :: bool
  write_queue :: "apacket list"
  error_flag :: bool
  read_thread :: "reader option"
  write_thread :: "writer option"
  old_read_thread :: "reader option"
  old_write_thread :: "writer option"
  stopping :: stop_state
  handshaking :: bool
  conn_closed :: bool
  queued_packets :: "apacket list"
  handed :: "apacket list"
  delivered :: "apacket list"
  errors :: "string list"

definition new_adapter :: adapter where
  "new_adapter = \<lparr>started = False, stopped = False, write_queue = [], error_flag = False, read_thread = None,
     write_thread = None, old_read_thread = None, old_write_thread = None, stopping = Not_stopping, handshaking = False,
     conn_closed = False, queued_packets = [], handed = [], delivered = [], errors = []\<rparr>"

section \<open>Operations\<close>

text \<open>\<open>call_once\<close> on the flag.\<close>

definition report :: "string \<Rightarrow> adapter \<Rightarrow> adapter" where
  "report reason a = (if error_flag a then a else a\<lparr>error_flag := True, errors := errors a @ [reason]\<rparr>)"

definition adapter_Start :: "adapter \<Rightarrow> adapter" where
  "adapter_Start a = a\<lparr>read_thread := Some R_reading, write_thread := Some W_waiting, started := True\<rparr>"

definition adapter_Write :: "apacket \<Rightarrow> adapter \<Rightarrow> adapter" where
  "adapter_Write p a = a\<lparr>write_queue := write_queue a @ [p], queued_packets := queued_packets a @ [p]\<rparr>"

inductive reader_runs :: "adapter \<Rightarrow> reader \<Rightarrow> adapter \<Rightarrow> reader \<Rightarrow> bool" where
  read_packet: "reader_runs a R_reading (a\<lparr>delivered := delivered a @ [p]\<rparr>) (if command (msg p) = A_STLS then R_done else R_reading)"
| read_fails: "reader_runs a R_reading a R_failed"
| read_reports: "reader_runs a R_failed (report ''read failed'' a) R_done"

inductive writer_runs :: "adapter \<Rightarrow> writer \<Rightarrow> adapter \<Rightarrow> writer \<Rightarrow> bool" where
  write_stops: "\<not> handshaking a \<Longrightarrow> stopped a \<Longrightarrow> writer_runs a W_waiting a W_done"
| write_takes: "\<not> handshaking a \<Longrightarrow> \<not> stopped a \<Longrightarrow> write_queue a = p # ps \<Longrightarrow>
    writer_runs a W_waiting (a\<lparr>write_queue := ps, handed := handed a @ [p]\<rparr>) (W_sending p)"
| write_succeeds: "writer_runs a (W_sending p) a W_waiting"
| write_fails: "writer_runs a (W_sending p) a W_failed"
| write_reports: "writer_runs a W_failed (report ''write failed'' a) W_done"

text \<open>
  \<open>Stop\<close> in its three parts: the flag, closing the connection and moving the threads out, and what follows
  the joins. \<open>Reset\<close> is \<open>Stop\<close> after a reset of the connection.
\<close>

definition stop_move :: "adapter \<Rightarrow> adapter" where
  "stop_move a = a\<lparr>conn_closed := True, old_read_thread := read_thread a, old_write_thread := write_thread a,
     read_thread := None, write_thread := None, stopping := Joining\<rparr>"

definition stop_finish :: "adapter \<Rightarrow> adapter" where
  "stop_finish a = report ''requested stop'' (a\<lparr>old_read_thread := None, old_write_thread := None, stopping := Stopped\<rparr>)"

text \<open>
  The steps. A second \<open>Start\<close> is fatal and has none; a handshake happens on a connection that has been started, since it
  answers a packet that was read.
\<close>

inductive adapter_step :: "adapter \<Rightarrow> adapter \<Rightarrow> bool" where
  start: "\<not> handshaking a \<Longrightarrow> \<not> started a \<Longrightarrow> adapter_step a (adapter_Start a)"
| queue_packet: "\<not> handshaking a \<Longrightarrow> adapter_step a (adapter_Write p a)"
| reader: "read_thread a = Some r \<Longrightarrow> reader_runs a r a' r' \<Longrightarrow> adapter_step a (a'\<lparr>read_thread := Some r'\<rparr>)"
| old_reader: "old_read_thread a = Some r \<Longrightarrow> reader_runs a r a' r' \<Longrightarrow> adapter_step a (a'\<lparr>old_read_thread := Some r'\<rparr>)"
| writer: "write_thread a = Some r \<Longrightarrow> writer_runs a r a' r' \<Longrightarrow> adapter_step a (a'\<lparr>write_thread := Some r'\<rparr>)"
| old_writer: "old_write_thread a = Some r \<Longrightarrow> writer_runs a r a' r' \<Longrightarrow> adapter_step a (a'\<lparr>old_write_thread := Some r'\<rparr>)"
| stop_flag: "\<not> handshaking a \<Longrightarrow> started a \<Longrightarrow> \<not> stopped a \<Longrightarrow> adapter_step a (a\<lparr>stopped := True, stopping := Flagged\<rparr>)"
| stop_threads: "\<not> handshaking a \<Longrightarrow> stopping a = Flagged \<Longrightarrow> adapter_step a (stop_move a)"
| stop_joined: "stopping a = Joining \<Longrightarrow> old_read_thread a = Some R_done \<Longrightarrow> old_write_thread a = Some W_done \<Longrightarrow>
    adapter_step a (stop_finish a)"
| handshake_begins: "\<not> handshaking a \<Longrightarrow> started a \<Longrightarrow> adapter_step a (a\<lparr>handshaking := True\<rparr>)"
| handshake_joins: "handshaking a \<Longrightarrow> read_thread a = Some R_done \<Longrightarrow> adapter_step a (a\<lparr>read_thread := None\<rparr>)"
| handshake_ends: "handshaking a \<Longrightarrow> read_thread a = None \<Longrightarrow>
    adapter_step a (a\<lparr>read_thread := Some R_reading, handshaking := False\<rparr>)"

inductive_cases reader_runsE: "reader_runs a r a' r'"
inductive_cases writer_runsE: "writer_runs a r a' r'"

abbreviation adapter_reachable :: "adapter \<Rightarrow> bool" where
  "adapter_reachable a \<equiv> adapter_step\<^sup>*\<^sup>* new_adapter a"

section \<open>The invariant\<close>

fun threads_ok :: "stop_state \<Rightarrow> adapter \<Rightarrow> bool" where
  "threads_ok Not_stopping a \<longleftrightarrow> \<not> stopped a \<and> old_read_thread a = None \<and> old_write_thread a = None \<and>
     (if started a
      then write_thread a \<noteq> None \<and> (read_thread a = None \<longrightarrow> handshaking a) \<and> (write_thread a = Some W_done \<longrightarrow> error_flag a)
      else read_thread a = None \<and> write_thread a = None \<and> \<not> handshaking a)"
| "threads_ok Flagged a \<longleftrightarrow> stopped a \<and> started a \<and> old_read_thread a = None \<and> old_write_thread a = None \<and>
     write_thread a \<noteq> None \<and> (read_thread a = None \<longrightarrow> handshaking a)"
| "threads_ok Joining a \<longleftrightarrow> stopped a \<and> started a \<and> old_read_thread a \<noteq> None \<and> old_write_thread a \<noteq> None \<and> write_thread a = None"
| "threads_ok Stopped a \<longleftrightarrow> stopped a \<and> started a \<and> old_read_thread a = None \<and> old_write_thread a = None \<and> write_thread a = None \<and>
     error_flag a"

definition adapter_ok :: "adapter \<Rightarrow> bool" where
  "adapter_ok a \<longleftrightarrow>
     handed a @ write_queue a = queued_packets a \<and> length (errors a) = (if error_flag a then 1 else 0) \<and> threads_ok (stopping a) a"

lemma report_simps [simp]:
  "started (report r a) = started a" "stopped (report r a) = stopped a" "write_queue (report r a) = write_queue a"
  "read_thread (report r a) = read_thread a" "write_thread (report r a) = write_thread a" "handed (report r a) = handed a"
  "old_read_thread (report r a) = old_read_thread a" "old_write_thread (report r a) = old_write_thread a"
  "stopping (report r a) = stopping a" "handshaking (report r a) = handshaking a" "queued_packets (report r a) = queued_packets a"
  "error_flag (report r a)"
  by (simp_all add: report_def)

lemma report_errors: "errors (report r a) = (if error_flag a then errors a else errors a @ [r])"
  by (simp add: report_def)

lemma new_adapter_ok: "adapter_ok new_adapter"
  by (simp add: adapter_ok_def new_adapter_def)

lemma adapter_ok_report: "adapter_ok a \<Longrightarrow> adapter_ok (report m a)"
  by (cases "stopping a") (simp_all add: adapter_ok_def report_errors)

lemma adapter_ok_threads:
  "adapter_ok a \<Longrightarrow> read_thread a \<noteq> None \<Longrightarrow> adapter_ok (a\<lparr>read_thread := Some r\<rparr>)"
  "adapter_ok a \<Longrightarrow> old_read_thread a \<noteq> None \<Longrightarrow> adapter_ok (a\<lparr>old_read_thread := Some r\<rparr>)"
  "adapter_ok a \<Longrightarrow> write_thread a \<noteq> None \<Longrightarrow> k = W_done \<longrightarrow> stopped a \<or> error_flag a \<Longrightarrow> adapter_ok (a\<lparr>write_thread := Some k\<rparr>)"
  "adapter_ok a \<Longrightarrow> old_write_thread a \<noteq> None \<Longrightarrow> adapter_ok (a\<lparr>old_write_thread := Some k\<rparr>)"
  by (cases "stopping a"; simp add: adapter_ok_def split: if_splits)+

lemma reader_runs_ok:
  assumes "reader_runs a r a' r'" "adapter_ok a"
  shows "adapter_ok a' \<and> read_thread a' = read_thread a \<and> old_read_thread a' = old_read_thread a"
  using assms(1)
proof cases
  case (read_packet p)
  then show ?thesis using assms(2) by (cases "stopping a") (simp_all add: adapter_ok_def)
qed (use assms(2) adapter_ok_report in simp_all)

lemma writer_runs_ok:
  assumes "writer_runs a k a' k'" "adapter_ok a"
  shows "adapter_ok a' \<and> write_thread a' = write_thread a \<and> old_write_thread a' = old_write_thread a \<and>
    (k' = W_done \<longrightarrow> stopped a' \<or> error_flag a')"
  using assms(1)
proof cases
  case (write_takes p ps)
  then show ?thesis using assms(2) by (cases "stopping a") (auto simp: adapter_ok_def)
qed (use assms(2) adapter_ok_report in simp_all)

lemma adapter_ok_step:
  assumes "adapter_step a a'" "adapter_ok a"
  shows "adapter_ok a'"
  using assms(1)
proof cases
  case (reader r b r')
  with reader_runs_ok [OF reader(3) assms(2)] adapter_ok_threads(1) show ?thesis by simp
next
  case (old_reader r b r')
  with reader_runs_ok [OF old_reader(3) assms(2)] adapter_ok_threads(2) show ?thesis by simp
next
  case (writer r b r')
  with writer_runs_ok [OF writer(3) assms(2)] adapter_ok_threads(3) show ?thesis by simp
next
  case (old_writer r b r')
  with writer_runs_ok [OF old_writer(3) assms(2)] adapter_ok_threads(4) show ?thesis by simp
next
  case start
  then show ?thesis using assms(2) by (cases "stopping a") (simp_all add: adapter_ok_def adapter_Start_def)
next
  case (queue_packet p)
  then show ?thesis using assms(2) by (cases "stopping a") (auto simp: adapter_ok_def adapter_Write_def)
next
  case stop_flag
  then show ?thesis using assms(2) by (cases "stopping a") (simp_all add: adapter_ok_def)
next
  case stop_threads
  then show ?thesis using assms(2) by (auto simp: adapter_ok_def stop_move_def)
next
  case stop_joined
  then show ?thesis using assms(2) by (simp add: adapter_ok_def stop_finish_def report_errors)
next
  case handshake_begins
  then show ?thesis using assms(2) by (cases "stopping a") (simp_all add: adapter_ok_def)
next
  case handshake_joins
  then show ?thesis using assms(2) by (cases "stopping a") (simp_all add: adapter_ok_def split: if_splits)
next
  case handshake_ends
  then show ?thesis using assms(2) by (cases "stopping a") (simp_all add: adapter_ok_def split: if_splits)
qed

section \<open>What the adapter promises\<close>

text \<open>A channel: packets leave in the order they came, and it fails at most once.\<close>

record channel =
  ch_sent :: "apacket list"
  ch_pending :: "apacket list"
  ch_failed :: "string option"

inductive channel_step :: "channel \<Rightarrow> channel \<Rightarrow> bool" where
  send: "channel_step c (c\<lparr>ch_pending := ch_pending c @ [p]\<rparr>)"
| transmit: "ch_pending c = p # ps \<Longrightarrow> channel_step c (c\<lparr>ch_pending := ps, ch_sent := ch_sent c @ [p]\<rparr>)"
| failure: "ch_failed c = None \<Longrightarrow> channel_step c (c\<lparr>ch_failed := Some m\<rparr>)"

definition channel_of :: "adapter \<Rightarrow> channel" where
  "channel_of a = \<lparr>ch_sent = handed a, ch_pending = write_queue a,
     ch_failed = (case errors a of [] \<Rightarrow> None | m # _ \<Rightarrow> Some m)\<rparr>"

lemma channel_of_report:
  assumes "adapter_ok a"
  shows "channel_step\<^sup>=\<^sup>= (channel_of a) (channel_of (report m a))"
proof (cases "error_flag a")
  case True
  then show ?thesis by (simp add: report_def)
next
  case False
  then have "errors a = []" using assms by (simp add: adapter_ok_def)
  then show ?thesis using channel_step.failure [of "channel_of a" m] False by (simp add: channel_of_def report_def)
qed

lemma channel_of_threads [simp]:
  "channel_of (a\<lparr>read_thread := x\<rparr>) = channel_of a" "channel_of (a\<lparr>write_thread := y\<rparr>) = channel_of a"
  "channel_of (a\<lparr>old_read_thread := x\<rparr>) = channel_of a" "channel_of (a\<lparr>old_write_thread := y\<rparr>) = channel_of a"
  "channel_of (a\<lparr>stopping := z\<rparr>) = channel_of a" "channel_of (a\<lparr>stopped := b\<rparr>) = channel_of a" "channel_of (a\<lparr>handshaking := b\<rparr>) = channel_of a"
  "channel_of (a\<lparr>conn_closed := b\<rparr>) = channel_of a" "channel_of (a\<lparr>started := b\<rparr>) = channel_of a" "channel_of (a\<lparr>delivered := ps\<rparr>) = channel_of a"
  by (simp_all add: channel_of_def)

lemma channel_of_reader: "adapter_ok a \<Longrightarrow> reader_runs a r a' r' \<Longrightarrow> channel_step\<^sup>=\<^sup>= (channel_of a) (channel_of a')"
  using channel_of_report by (auto elim!: reader_runsE simp del: sup2CI split: if_splits)

lemma channel_of_writer:
  assumes "adapter_ok a" "writer_runs a r a' r'"
  shows "channel_step\<^sup>=\<^sup>= (channel_of a) (channel_of a')"
  using assms(2)
proof cases
  case (write_takes p ps)
  then show ?thesis using channel_step.transmit [of "channel_of a" p ps] by (simp add: channel_of_def)
next
  case write_reports
  then show ?thesis using channel_of_report [OF assms(1)] by simp
qed simp_all

lemma channel_of_step:
  assumes "adapter_ok a" "adapter_step a a'"
  shows "channel_step\<^sup>=\<^sup>= (channel_of a) (channel_of a')"
  using assms(2)
proof cases
  case (queue_packet p)
  then show ?thesis using channel_step.send [of "channel_of a" p] by (simp add: adapter_Write_def channel_of_def)
next
  case (reader r b r')
  with channel_of_reader [OF assms(1) reader(3)] show ?thesis by simp
next
  case (old_reader r b r')
  with channel_of_reader [OF assms(1) old_reader(3)] show ?thesis by simp
next
  case (writer r b r')
  with channel_of_writer [OF assms(1) writer(3)] show ?thesis by simp
next
  case (old_writer r b r')
  with channel_of_writer [OF assms(1) old_writer(3)] show ?thesis by simp
next
  case stop_joined
  let ?b = "a\<lparr>old_read_thread := None, old_write_thread := None, stopping := Stopped\<rparr>"
  have "channel_step\<^sup>=\<^sup>= (channel_of a) (channel_of (report ''requested stop'' a))" by (rule channel_of_report [OF assms(1)])
  moreover have "channel_of (report ''requested stop'' ?b) = channel_of (report ''requested stop'' a)" by (simp add: channel_of_def report_def)
  ultimately show ?thesis using stop_joined by (simp add: stop_finish_def)
qed (simp_all add: adapter_Start_def stop_move_def)

interpretation adapter: refinement adapter_step channel_step channel_of adapter_ok new_adapter
proof
  show "adapter_ok new_adapter" by (rule new_adapter_ok)
  show "adapter_ok a'" if "adapter_ok a" "adapter_step a a'" for a a' using adapter_ok_step [OF that(2,1)] .
  show "channel_step\<^sup>*\<^sup>* (channel_of a) (channel_of a')" if "adapter_ok a" "adapter_step a a'" for a a' using channel_of_step [OF that] by auto
qed

section \<open>Stopping\<close>

lemma ok_steps: "adapter_step\<^sup>*\<^sup>* a b \<Longrightarrow> adapter_ok a \<Longrightarrow> adapter_ok b"
  by (induction rule: rtranclp_induct) (auto intro: adapter_ok_step)

lemma reader_finishes:
  assumes "read_thread a = Some r"
  shows "\<exists>b. adapter_step\<^sup>*\<^sup>* a b \<and> read_thread b = Some R_done \<and> stopping b = stopping a \<and> handshaking b = handshaking a"
proof -
  have f: "\<exists>b. adapter_step\<^sup>*\<^sup>* a b \<and> read_thread b = Some R_done \<and> stopping b = stopping a \<and> handshaking b = handshaking a"
    if "read_thread a = Some R_failed" for a
    using adapter_step.reader [OF that reader_runs.read_reports] by (intro exI [of _ "report ''read failed'' a\<lparr>read_thread := Some R_done\<rparr>"]) auto
  show ?thesis
  proof (cases r)
    case R_reading
    let ?a = "a\<lparr>read_thread := Some R_failed\<rparr>"
    have "adapter_step a ?a" using adapter_step.reader [OF assms, of a R_failed] R_reading reader_runs.read_fails by simp
    with f [of ?a] show ?thesis by (auto intro: converse_rtranclp_into_rtranclp)
  qed (use assms f in auto)
qed

lemma old_reader_finishes:
  assumes "old_read_thread a = Some r"
  shows "\<exists>b. adapter_step\<^sup>*\<^sup>* a b \<and> old_read_thread b = Some R_done \<and> old_write_thread b = old_write_thread a \<and>
    stopping b = stopping a \<and> handshaking b = handshaking a"
proof -
  have f: "\<exists>b. adapter_step\<^sup>*\<^sup>* a b \<and> old_read_thread b = Some R_done \<and> old_write_thread b = old_write_thread a \<and>
      stopping b = stopping a \<and> handshaking b = handshaking a" if "old_read_thread a = Some R_failed" for a
    using adapter_step.old_reader [OF that reader_runs.read_reports]
    by (intro exI [of _ "report ''read failed'' a\<lparr>old_read_thread := Some R_done\<rparr>"]) auto
  show ?thesis
  proof (cases r)
    case R_reading
    let ?a = "a\<lparr>old_read_thread := Some R_failed\<rparr>"
    have "adapter_step a ?a" using adapter_step.old_reader [OF assms, of a R_failed] R_reading reader_runs.read_fails by simp
    with f [of ?a] show ?thesis by (auto intro: converse_rtranclp_into_rtranclp)
  qed (use assms f in auto)
qed

lemma old_writer_finishes:
  assumes "old_write_thread a = Some k" "stopped a" "\<not> handshaking a"
  shows "\<exists>b. adapter_step\<^sup>*\<^sup>* a b \<and> old_write_thread b = Some W_done \<and> old_read_thread b = old_read_thread a \<and> stopping b = stopping a"
proof -
  have w: "\<exists>b. adapter_step\<^sup>*\<^sup>* a b \<and> old_write_thread b = Some W_done \<and> old_read_thread b = old_read_thread a \<and> stopping b = stopping a"
    if "old_write_thread a = Some W_waiting" "stopped a" "\<not> handshaking a" for a
    using adapter_step.old_writer [OF that(1) writer_runs.write_stops [OF that(3,2)]] by (intro exI [of _ "a\<lparr>old_write_thread := Some W_done\<rparr>"]) auto
  show ?thesis
  proof (cases k)
    case W_waiting
    with assms w show ?thesis by simp
  next
    case (W_sending p)
    let ?a = "a\<lparr>old_write_thread := Some W_waiting\<rparr>"
    have "adapter_step a ?a" using adapter_step.old_writer [OF assms(1), of a W_waiting] W_sending writer_runs.write_succeeds by simp
    with w [of ?a] assms(2,3) show ?thesis by (auto intro: converse_rtranclp_into_rtranclp)
  next
    case W_failed
    then show ?thesis using adapter_step.old_writer [OF assms(1), of "report ''write failed'' a" W_done] writer_runs.write_reports
      by (intro exI [of _ "report ''write failed'' a\<lparr>old_write_thread := Some W_done\<rparr>"]) auto
  qed (use assms in auto)
qed

lemma handshake_finishes:
  assumes "handshaking a"
  shows "\<exists>b. adapter_step\<^sup>*\<^sup>* a b \<and> \<not> handshaking b \<and> stopping b = stopping a"
proof -
  have e: "\<exists>b. adapter_step\<^sup>*\<^sup>* a b \<and> \<not> handshaking b \<and> stopping b = stopping a" if "handshaking a" "read_thread a = None" for a
    using adapter_step.handshake_ends [OF that] by (intro exI [of _ "a\<lparr>read_thread := Some R_reading, handshaking := False\<rparr>"]) auto
  show ?thesis
  proof (cases "read_thread a")
    case (Some r)
    obtain b where b: "adapter_step\<^sup>*\<^sup>* a b" "read_thread b = Some R_done" "stopping b = stopping a" "handshaking b"
      using reader_finishes [OF Some] assms by auto
    have "adapter_step b (b\<lparr>read_thread := None\<rparr>)" using adapter_step.handshake_joins [OF b(4,2)] .
    moreover obtain c where "adapter_step\<^sup>*\<^sup>* (b\<lparr>read_thread := None\<rparr>) c" "\<not> handshaking c" "stopping c = stopping b"
      using e [of "b\<lparr>read_thread := None\<rparr>"] b(4) by auto
    ultimately show ?thesis using b(1,3) by (metis (no_types, lifting) converse_rtranclp_into_rtranclp rtranclp_trans)
  qed (use assms e in auto)
qed

lemma joining_finishes:
  assumes "adapter_ok a" "stopping a = Joining" "\<not> handshaking a"
  shows "\<exists>b. adapter_step\<^sup>*\<^sup>* a b \<and> stopping b = Stopped"
proof -
  obtain r where r: "old_read_thread a = Some r" using assms(1,2) by (auto simp: adapter_ok_def)
  obtain b where b: "adapter_step\<^sup>*\<^sup>* a b" "old_read_thread b = Some R_done" "stopping b = Joining" "\<not> handshaking b"
    using old_reader_finishes [OF r] assms(2,3) by auto
  have ok: "adapter_ok b" using ok_steps [OF b(1) assms(1)] .
  then obtain k where k: "old_write_thread b = Some k" "stopped b" using b(3) by (auto simp: adapter_ok_def)
  obtain c where c: "adapter_step\<^sup>*\<^sup>* b c" "old_write_thread c = Some W_done" "old_read_thread c = Some R_done" "stopping c = Joining"
    using old_writer_finishes [OF k b(4)] b(2,3) by auto
  have "adapter_step c (stop_finish c)" using adapter_step.stop_joined [OF c(4,3,2)] .
  moreover have "stopping (stop_finish c) = Stopped" by (simp add: stop_finish_def)
  ultimately show ?thesis using b(1) c(1) by (meson rtranclp.rtrancl_into_rtrancl rtranclp_trans)
qed

lemma started_step: "adapter_step a b \<Longrightarrow> started a \<Longrightarrow> started b"
  by (erule adapter_step.cases) (auto simp: adapter_Start_def adapter_Write_def stop_move_def stop_finish_def elim!: reader_runsE writer_runsE)

lemma started_steps: "adapter_step\<^sup>*\<^sup>* a b \<Longrightarrow> started a \<Longrightarrow> started b"
  by (induction rule: rtranclp_induct) (auto intro: started_step)

lemma stop_possible:
  assumes "adapter_ok a" "started a"
  shows "\<exists>b. adapter_step\<^sup>*\<^sup>* a b \<and> stopping b = Stopped"
proof -
  obtain b where b: "adapter_step\<^sup>*\<^sup>* a b" "\<not> handshaking b" "stopping b = stopping a"
    using handshake_finishes [of a] by (cases "handshaking a") auto
  have ok: "adapter_ok b" using ok_steps [OF b(1) assms(1)] .
  have j: "\<exists>c. adapter_step\<^sup>*\<^sup>* b c \<and> stopping c = Stopped" if d: "adapter_step\<^sup>*\<^sup>* b d" "stopping d = Flagged" "\<not> handshaking d" for d
  proof -
    have "adapter_step d (stop_move d)" using adapter_step.stop_threads [OF d(3,2)] .
    then have s: "adapter_step\<^sup>*\<^sup>* b (stop_move d)" using d(1) by simp
    obtain c where "adapter_step\<^sup>*\<^sup>* (stop_move d) c" "stopping c = Stopped"
      using joining_finishes [OF ok_steps [OF s ok]] d(3) by (auto simp: stop_move_def)
    with s show ?thesis by (meson rtranclp_trans)
  qed
  have "\<exists>c. adapter_step\<^sup>*\<^sup>* b c \<and> stopping c = Stopped"
  proof (cases "stopping b")
    case Not_stopping
    have "started b" using started_steps [OF b(1) assms(2)] .
    moreover have "\<not> stopped b" using ok Not_stopping by (simp add: adapter_ok_def)
    ultimately have "adapter_step b (b\<lparr>stopped := True, stopping := Flagged\<rparr>)" using adapter_step.stop_flag [OF b(2)] by blast
    then show ?thesis using j [of "b\<lparr>stopped := True, stopping := Flagged\<rparr>"] b(2) by auto
  next
    case Flagged
    then show ?thesis using j [of b] b(2) by auto
  next
    case Joining
    then show ?thesis using joining_finishes [OF ok _ b(2)] by blast
  qed auto
  with b(1) show ?thesis by (meson rtranclp_trans)
qed

lemma stopped_stays:
  assumes "adapter_step\<^sup>*\<^sup>* a b" "adapter_ok a" "stopping a = Stopped"
  shows "stopping b = Stopped \<and> handed b = handed a \<and> errors b = errors a"
  using assms(1)
proof (induction rule: rtranclp_induct)
  case (step b c)
  have ok: "adapter_ok b" using ok_steps [OF step.hyps(1) assms(2)] .
  then have b: "error_flag b" "stopped b" "write_thread b = None" "old_read_thread b = None" "old_write_thread b = None" "started b"
    using step.IH by (simp_all add: adapter_ok_def)
  from step.hyps(2) have "stopping c = stopping b \<and> handed c = handed b \<and> errors c = errors b"
  proof cases
    case (reader r d r')
    from reader(3) show ?thesis by cases (use reader(1) b in \<open>simp_all add: report_def\<close>)
  qed (use b step.IH in \<open>simp_all add: adapter_Write_def adapter_Start_def\<close>)
  with step.IH show ?case by simp
qed (simp add: assms)

section \<open>Properties\<close>

text \<open>
  C12: Seen from outside the connection adapter is a channel, whatever the interleaving of its threads: every step of the
  adapter is a step of the abstract channel or invisible to it. So the packets handed to the connection are, in order and
  without loss or repetition, the first of those given to \<open>Write\<close>, and at most one failure is ever reported.
\<close>
theorem adapter_refines_channel:
  assumes "adapter_reachable a"
  shows "channel_step\<^sup>*\<^sup>* (channel_of new_adapter) (channel_of a) \<and>
    (\<forall>a'. adapter_step a a' \<longrightarrow> channel_step\<^sup>=\<^sup>= (channel_of a) (channel_of a')) \<and>
    handed a @ write_queue a = queued_packets a \<and> length (errors a) \<le> 1"
  using adapter.reachable_spec [OF assms] channel_of_step [OF adapter.reachable_invar [OF assms]] adapter.reachable_invar [OF assms]
  by (simp add: adapter_ok_def)


text \<open>
  A handshake that begins once \<open>Stop\<close> has moved the threads out starts another reading thread that nobody joins: the
  destructor of the adapter then destroys a joinable thread, which ends the process.
\<close>

lemma handshake_after_stop:
  assumes "adapter_ok a" "stopping a = Stopped" "\<not> handshaking a"
  shows "\<exists>b. adapter_step\<^sup>*\<^sup>* a b \<and> stopping b = Stopped \<and> \<not> handshaking b \<and> read_thread b \<noteq> None"
proof (cases "read_thread a")
  case None
  let ?b = "a\<lparr>handshaking := True\<rparr>"
  have "adapter_step a ?b" using adapter_step.handshake_begins [OF assms(3)] assms(1,2) by (simp add: adapter_ok_def)
  moreover have "adapter_step ?b (?b\<lparr>read_thread := Some R_reading, handshaking := False\<rparr>)"
    using adapter_step.handshake_ends [of ?b] None by simp
  ultimately show ?thesis
    using assms(2) by (intro exI [of _ "?b\<lparr>read_thread := Some R_reading, handshaking := False\<rparr>"]) auto
next
  case (Some r)
  then show ?thesis using assms by (intro exI [of _ a]) simp
qed

definition okay_packet :: apacket where
  "okay_packet = \<lparr>msg = \<lparr>command = A_OKAY, arg0 = 1, arg1 = 2, data_length = 0, data_check = 0, magic = A_OKAY XOR 0xffffffff\<rparr>, payload = []\<rparr>"

definition busy_adapter :: adapter where
  "busy_adapter = adapter_Write (okay_packet) (adapter_Start new_adapter)"

lemma busy_adapter_reachable: "adapter_reachable busy_adapter"
proof -
  have "adapter_step new_adapter (adapter_Start new_adapter)" by (rule adapter_step.start) (simp_all add: new_adapter_def)
  moreover have "adapter_step (adapter_Start new_adapter) busy_adapter"
    unfolding busy_adapter_def by (rule adapter_step.queue_packet) (simp add: new_adapter_def adapter_Start_def)
  ultimately show ?thesis by (meson rtranclp.rtrancl_into_rtrancl rtranclp.rtrancl_refl)
qed

theorem adapter_refines_channel_witness:
  "channel_step\<^sup>*\<^sup>* (channel_of new_adapter) (channel_of busy_adapter) \<and> queued_packets busy_adapter = [okay_packet] \<and>
     handed busy_adapter @ write_queue busy_adapter = [okay_packet]"
  using adapter_refines_channel [OF busy_adapter_reachable] by (simp add: busy_adapter_def adapter_Write_def adapter_Start_def new_adapter_def)


end
