(* ===== verification/Reconnect.thy ===== *)
theory Reconnect
  imports Refinement
begin

text \<open>
  The handler that tries to reconnect TCP devices: a thread works off a set of attempts ordered by
  the time they are due, gives up on devices that were kicked or have used up their attempts, and
  hands a device back once it is connected. Times are in milliseconds.
\<close>

section \<open>State\<close>

record reconnect_attempt =
  att_transport :: nat
  reconnect_time :: nat
  attempts_left :: nat

definition kDefaultTimeout :: nat where "kDefaultTimeout = 3000"
definition kMaxAttempts :: nat where "kMaxAttempts = 20"
definition kFirstDelay :: nat where "kFirstDelay = 250"

text \<open>\<open>operator<\<close>: the time first, then the address.\<close>

definition attempt_less :: "reconnect_attempt \<Rightarrow> reconnect_attempt \<Rightarrow> bool" where
  "attempt_less a b =
     (if reconnect_time a = reconnect_time b then att_transport a < att_transport b else reconnect_time a < reconnect_time b)"

text \<open>\<open>std::set::emplace\<close>: an equivalent element keeps the new one out.\<close>

fun set_emplace :: "reconnect_attempt \<Rightarrow> reconnect_attempt list \<Rightarrow> reconnect_attempt list" where
  "set_emplace a [] = [a]"
| "set_emplace a (b # bs) = (if attempt_less a b then a # b # bs else if attempt_less b a then b # set_emplace a bs else b # bs)"

text \<open>
  \<open>attempt\<close> is the attempt the thread has taken out of the queue; \<open>removed\<close> and \<open>registered\<close> record the calls
  of \<open>remove_transport\<close> and \<open>register_transport\<close>, \<open>tries\<close> how often a transport was tried since it was
  last tracked.
\<close>

record reconnector =
  running :: bool
  reconnect_queue :: "reconnect_attempt list"
  attempt :: "reconnect_attempt option"
  removed :: "nat list"
  registered :: "nat list"
  tries :: "nat \<Rightarrow> nat"

definition new_reconnector :: reconnector where
  "new_reconnector = \<lparr>running = True, reconnect_queue = [], attempt = None, removed = [], registered = [], tries = (\<lambda>_. 0)\<rparr>"

datatype reconnect_result = Retry | Success | Abort

section \<open>Operations\<close>

definition TrackTransport :: "nat \<Rightarrow> nat \<Rightarrow> reconnector \<Rightarrow> reconnector" where
  "TrackTransport t now r =
     (if \<not> running r then r
      else r\<lparr>reconnect_queue := set_emplace \<lparr>att_transport = t, reconnect_time = now + kFirstDelay, attempts_left = kMaxAttempts\<rparr> (reconnect_queue r),
             tries := (tries r)(t := 0)\<rparr>)"

text \<open>The scan for kicked transports.\<close>

definition drop_kicked :: "(nat \<Rightarrow> bool) \<Rightarrow> reconnector \<Rightarrow> reconnector" where
  "drop_kicked kicked r =
     r\<lparr>removed := removed r @ map att_transport (filter (\<lambda>a. kicked (att_transport a)) (reconnect_queue r)),
       reconnect_queue := filter (\<lambda>a. \<not> kicked (att_transport a)) (reconnect_queue r)\<rparr>"

text \<open>A round of the thread up to the reconnection, after it was woken.\<close>

definition take_attempt :: "(nat \<Rightarrow> bool) \<Rightarrow> nat \<Rightarrow> reconnector \<Rightarrow> reconnector" where
  "take_attempt kicked now r =
     (let r1 = drop_kicked kicked r
      in (case reconnect_queue r1 of
            [] \<Rightarrow> r1
          | a # as \<Rightarrow> if reconnect_time a > now then r1 else r1\<lparr>attempt := Some a, reconnect_queue := as\<rparr>))"

text \<open>What follows the reconnection.\<close>

definition finish_attempt :: "reconnect_result \<Rightarrow> nat \<Rightarrow> reconnect_attempt \<Rightarrow> reconnector \<Rightarrow> reconnector" where
  "finish_attempt res now a r =
     (let t = att_transport a; r1 = r\<lparr>attempt := None, tries := (tries r)(t := Suc (tries r t))\<rparr>
      in (case res of
            Retry \<Rightarrow>
              if attempts_left a = 0 then r1\<lparr>removed := removed r1 @ [t]\<rparr>
              else r1\<lparr>reconnect_queue :=
                     set_emplace \<lparr>att_transport = t, reconnect_time = now + kDefaultTimeout, attempts_left = attempts_left a - 1\<rparr>
                       (reconnect_queue r1)\<rparr>
          | Success \<Rightarrow> r1\<lparr>registered := registered r1 @ [t]\<rparr>
          | Abort \<Rightarrow> r1\<lparr>removed := removed r1 @ [t]\<rparr>))"

text \<open>The end of \<open>Stop\<close>, after the thread has been joined.\<close>

definition drain_queue :: "reconnector \<Rightarrow> reconnector" where
  "drain_queue r = r\<lparr>removed := removed r @ map att_transport (reconnect_queue r), reconnect_queue := []\<rparr>"

definition tracked :: "reconnector \<Rightarrow> nat set" where
  "tracked r = att_transport ` (set (reconnect_queue r) \<union> set_option (attempt r))"

text \<open>
  The steps. A transport is tracked when its connection has failed; until it is handed back there is
  no connection that could fail again.
\<close>

inductive reconnect_step :: "reconnector \<Rightarrow> reconnector \<Rightarrow> bool" where
  track: "t \<notin> tracked r \<Longrightarrow> reconnect_step r (TrackTransport t now r)"
| wake: "attempt r = None \<Longrightarrow> running r \<Longrightarrow> reconnect_step r (take_attempt kicked now r)"
| result: "attempt r = Some a \<Longrightarrow> reconnect_step r (finish_attempt res now a r)"
| stop: "reconnect_step r (r\<lparr>running := False\<rparr>)"
| stopped: "\<not> running r \<Longrightarrow> attempt r = None \<Longrightarrow> reconnect_step r (drain_queue r)"

section \<open>The ordered set\<close>

lemma attempt_less_irrefl [simp]: "\<not> attempt_less a a"
  by (simp add: attempt_less_def)

lemma attempt_less_trans: "attempt_less a b \<Longrightarrow> attempt_less b c \<Longrightarrow> attempt_less a c"
  by (auto simp: attempt_less_def split: if_splits)

lemma attempt_less_total: "\<not> attempt_less a b \<Longrightarrow> \<not> attempt_less b a \<Longrightarrow> att_transport a = att_transport b \<and> reconnect_time a = reconnect_time b"
  by (auto simp: attempt_less_def split: if_splits)

lemma set_emplace_set: "att_transport a \<notin> att_transport ` set bs \<Longrightarrow> set (set_emplace a bs) = insert a (set bs)"
  using attempt_less_total [of a] by (induction bs) auto

lemma set_emplace_subset: "set (set_emplace a bs) \<subseteq> insert a (set bs)"
  by (induction bs) auto

lemma set_emplace_sorted: "sorted_wrt attempt_less bs \<Longrightarrow> sorted_wrt attempt_less (set_emplace a bs)"
proof (induction bs)
  case (Cons b bs)
  have l: "\<forall>c \<in> set bs. attempt_less b c" using Cons.prems by simp
  consider "attempt_less a b" | "\<not> attempt_less a b" "attempt_less b a" | "\<not> attempt_less a b" "\<not> attempt_less b a" by blast
  then show ?case
  proof cases
    case 1
    then have "\<forall>c \<in> set bs. attempt_less a c" using l attempt_less_trans by blast
    with 1 Cons.prems show ?thesis by simp
  next
    case 2
    then have "\<forall>c \<in> set (set_emplace a bs). attempt_less b c" using l set_emplace_subset [of a bs] by blast
    with 2 Cons show ?thesis by simp
  qed (use Cons.prems in simp)
qed simp

lemma set_emplace_distinct:
  "att_transport a \<notin> att_transport ` set bs \<Longrightarrow> distinct (map att_transport bs) \<Longrightarrow> distinct (map att_transport (set_emplace a bs))"
  by (induction bs) (auto simp: set_emplace_set image_iff)

section \<open>The invariant\<close>

text \<open>
  The queue is an ordered set with at most one entry for a transport; what an entry has left and what has been tried add up.
\<close>

definition entry_ok :: "reconnector \<Rightarrow> reconnect_attempt \<Rightarrow> bool" where
  "entry_ok r a \<longleftrightarrow> attempts_left a + tries r (att_transport a) = kMaxAttempts"

definition reconnect_ok :: "reconnector \<Rightarrow> bool" where
  "reconnect_ok r \<longleftrightarrow> sorted_wrt attempt_less (reconnect_queue r) \<and> distinct (map att_transport (reconnect_queue r)) \<and>
     (\<forall>a. attempt r = Some a \<longrightarrow> att_transport a \<notin> att_transport ` set (reconnect_queue r)) \<and>
     (\<forall>a \<in> set (reconnect_queue r) \<union> set_option (attempt r). entry_ok r a) \<and> (\<forall>t. tries r t \<le> Suc kMaxAttempts)"

lemma sorted_wrt_filter_less: "sorted_wrt P xs \<Longrightarrow> sorted_wrt P (filter Q xs)"
  by (induction xs) auto

lemma reconnect_ok_new: "reconnect_ok new_reconnector"
  by (simp add: reconnect_ok_def new_reconnector_def)

lemma reconnect_ok_drop: "reconnect_ok r \<Longrightarrow> reconnect_ok (drop_kicked kicked r)"
  by (auto simp: drop_kicked_def reconnect_ok_def entry_ok_def sorted_wrt_filter_less distinct_map_filter)

lemma reconnect_ok_emplace:
  assumes "reconnect_ok r" "att_transport a \<notin> tracked r" "entry_ok r a"
  shows "reconnect_ok (r\<lparr>reconnect_queue := set_emplace a (reconnect_queue r)\<rparr>)"
proof -
  have q: "att_transport a \<notin> att_transport ` set (reconnect_queue r)" using assms(2) by (auto simp: tracked_def)
  have "att_transport b \<noteq> att_transport a" if "attempt r = Some b" for b using assms(2) that by (auto simp: tracked_def)
  with assms(1,3) q set_emplace_set [OF q] show ?thesis
    by (auto simp: reconnect_ok_def set_emplace_sorted set_emplace_distinct entry_ok_def)
qed

lemma reconnect_ok_tries:
  assumes "reconnect_ok r" "t \<notin> tracked r" "n \<le> Suc kMaxAttempts"
  shows "reconnect_ok (r\<lparr>tries := (tries r)(t := n)\<rparr>)"
  using assms by (auto simp: reconnect_ok_def entry_ok_def tracked_def)

lemma reconnect_ok_track:
  assumes "reconnect_ok r" "t \<notin> tracked r"
  shows "reconnect_ok (TrackTransport t now r)"
proof -
  let ?r = "r\<lparr>tries := (tries r)(t := 0)\<rparr>" and ?a = "\<lparr>att_transport = t, reconnect_time = now + kFirstDelay, attempts_left = kMaxAttempts\<rparr>"
  have "reconnect_ok ?r" using reconnect_ok_tries [OF assms] by simp
  from reconnect_ok_emplace [OF this, of ?a] have "reconnect_ok (?r\<lparr>reconnect_queue := set_emplace ?a (reconnect_queue r)\<rparr>)"
    using assms(2) by (simp add: entry_ok_def tracked_def)
  then show ?thesis using assms(1) by (simp add: TrackTransport_def reconnect_ok_def entry_ok_def)
qed

lemma reconnect_ok_take:
  assumes "reconnect_ok r" "attempt r = None"
  shows "reconnect_ok (take_attempt kicked now r)"
proof -
  let ?r = "drop_kicked kicked r"
  have ok: "reconnect_ok ?r" using reconnect_ok_drop [OF assms(1)] .
  have n: "attempt ?r = None" using assms(2) by (simp add: drop_kicked_def)
  show ?thesis
  proof (cases "reconnect_queue ?r")
    case (Cons a as)
    then have "reconnect_ok (?r\<lparr>attempt := Some a, reconnect_queue := as\<rparr>)"
      using ok n by (auto simp: reconnect_ok_def entry_ok_def)
    with ok Cons show ?thesis by (simp add: take_attempt_def Let_def)
  qed (use ok in \<open>simp add: take_attempt_def Let_def\<close>)
qed

lemma reconnect_ok_finish:
  assumes "reconnect_ok r" "attempt r = Some a"
  shows "reconnect_ok (finish_attempt res now a r)"
proof -
  let ?t = "att_transport a"
  let ?r = "r\<lparr>attempt := None, tries := (tries r)(?t := Suc (tries r ?t))\<rparr>"
  have e: "attempts_left a + tries r ?t = kMaxAttempts" using assms by (auto simp: reconnect_ok_def entry_ok_def)
  have "?t \<notin> att_transport ` set (reconnect_queue r)" using assms by (simp add: reconnect_ok_def)
  then have "\<forall>b \<in> set (reconnect_queue r). att_transport b \<noteq> ?t" by (metis imageI)
  then have ok: "reconnect_ok ?r" using assms e by (auto simp: reconnect_ok_def entry_ok_def)
  have log: "reconnect_ok (?r\<lparr>removed := d\<rparr>)" "reconnect_ok (?r\<lparr>registered := d\<rparr>)" for d
    using ok by (simp_all add: reconnect_ok_def entry_ok_def)
  let ?a = "\<lparr>att_transport = ?t, reconnect_time = now + kDefaultTimeout, attempts_left = attempts_left a - 1\<rparr>"
  have "?t \<notin> tracked ?r" using assms by (auto simp: reconnect_ok_def tracked_def)
  moreover have "entry_ok ?r ?a" if "attempts_left a \<noteq> 0" using e that by (simp add: entry_ok_def)
  ultimately have "reconnect_ok (?r\<lparr>reconnect_queue := set_emplace ?a (reconnect_queue ?r)\<rparr>)" if "attempts_left a \<noteq> 0"
    using reconnect_ok_emplace [OF ok, of ?a] that by simp
  with log show ?thesis by (cases res) (simp_all add: finish_attempt_def Let_def)
qed

lemma reconnect_ok_step: "reconnect_step r r' \<Longrightarrow> reconnect_ok r \<Longrightarrow> reconnect_ok r'"
proof (induction rule: reconnect_step.induct)
  case (stop r)
  then show ?case by (simp add: reconnect_ok_def entry_ok_def)
next
  case (stopped r)
  then show ?case by (simp add: reconnect_ok_def entry_ok_def drain_queue_def)
qed (simp_all add: reconnect_ok_track reconnect_ok_take reconnect_ok_finish)

section \<open>What the handler promises\<close>

text \<open>A transport that is handed over leaves exactly once, given up or connected again.\<close>

record custody =
  held :: "nat set"
  given_up :: "nat list"
  handed_back :: "nat list"

inductive custody_step :: "custody \<Rightarrow> custody \<Rightarrow> bool" where
  receive: "t \<notin> held c \<Longrightarrow> custody_step c (c\<lparr>held := insert t (held c)\<rparr>)"
| give_up: "t \<in> held c \<Longrightarrow> custody_step c (c\<lparr>held := held c - {t}, given_up := given_up c @ [t]\<rparr>)"
| hand_back: "t \<in> held c \<Longrightarrow> custody_step c (c\<lparr>held := held c - {t}, handed_back := handed_back c @ [t]\<rparr>)"

definition custody_of :: "reconnector \<Rightarrow> custody" where
  "custody_of r = \<lparr>held = tracked r, given_up = removed r, handed_back = registered r\<rparr>"

lemma give_up_all:
  "distinct ts \<Longrightarrow> set ts \<subseteq> held c \<Longrightarrow> custody_step\<^sup>*\<^sup>* c (c\<lparr>held := held c - set ts, given_up := given_up c @ ts\<rparr>)"
proof (induction ts arbitrary: c)
  case (Cons t ts)
  let ?c = "c\<lparr>held := held c - {t}, given_up := given_up c @ [t]\<rparr>"
  have "custody_step c ?c" using Cons.prems by (intro custody_step.give_up) simp
  moreover have "custody_step\<^sup>*\<^sup>* ?c (?c\<lparr>held := held ?c - set ts, given_up := given_up ?c @ ts\<rparr>)"
    by (rule Cons.IH) (use Cons.prems in auto)
  moreover have "held c - {t} - set ts = held c - insert t (set ts)" by blast
  then have "?c\<lparr>held := held ?c - set ts, given_up := given_up ?c @ ts\<rparr> = c\<lparr>held := held c - set (t # ts), given_up := given_up c @ t # ts\<rparr>"
    by simp
  ultimately show ?case by (metis (no_types, lifting) converse_rtranclp_into_rtranclp)
qed simp

lemma custody_drop:
  assumes "reconnect_ok r"
  shows "custody_step\<^sup>*\<^sup>* (custody_of r) (custody_of (drop_kicked kicked r))"
proof -
  let ?ts = "map att_transport (filter (\<lambda>a. kicked (att_transport a)) (reconnect_queue r))"
  have "distinct ?ts" "set ?ts \<subseteq> tracked r" using assms by (auto simp: reconnect_ok_def distinct_map_filter tracked_def)
  moreover have "tracked (drop_kicked kicked r) = tracked r - set ?ts"
    using assms by (auto simp: reconnect_ok_def tracked_def drop_kicked_def)
  ultimately show ?thesis using give_up_all [of ?ts "custody_of r"] by (simp add: custody_of_def drop_kicked_def)
qed

lemma custody_take:
  assumes "reconnect_ok r" "attempt r = None"
  shows "custody_step\<^sup>*\<^sup>* (custody_of r) (custody_of (take_attempt kicked now r))"
proof -
  let ?r = "drop_kicked kicked r"
  have "attempt ?r = None" using assms(2) by (simp add: drop_kicked_def)
  then have "custody_of (take_attempt kicked now r) = custody_of ?r"
    by (cases "reconnect_queue ?r") (auto simp: take_attempt_def Let_def custody_of_def tracked_def)
  then show ?thesis using custody_drop [OF assms(1)] by simp
qed

lemma custody_finish:
  assumes "reconnect_ok r" "attempt r = Some a"
  shows "custody_step\<^sup>*\<^sup>* (custody_of r) (custody_of (finish_attempt res now a r))"
proof -
  let ?t = "att_transport a"
  have t: "?t \<in> held (custody_of r)" using assms(2) by (simp add: custody_of_def tracked_def)
  have q: "?t \<notin> att_transport ` set (reconnect_queue r)" using assms by (simp add: reconnect_ok_def)
  have rest: "tracked r - {?t} = att_transport ` set (reconnect_queue r)" using assms(2) q by (auto simp: tracked_def)
  have out: "tracked (finish_attempt res now a r) = att_transport ` set (reconnect_queue r)"
    if "res \<noteq> Retry \<or> attempts_left a = 0" using that by (cases res) (simp_all add: finish_attempt_def Let_def tracked_def)
  show ?thesis
  proof (cases "res = Retry \<and> attempts_left a \<noteq> 0")
    case True
    then have "custody_of (finish_attempt res now a r) = custody_of r"
      using assms(2) q by (simp add: finish_attempt_def Let_def custody_of_def tracked_def set_emplace_set)
    then show ?thesis by simp
  next
    case False
    with custody_step.give_up [OF t] custody_step.hand_back [OF t] out rest show ?thesis
      by (cases res) (auto simp: custody_of_def finish_attempt_def Let_def intro!: r_into_rtranclp)
  qed
qed

lemma custody_simulates:
  assumes "reconnect_ok r" "reconnect_step r r'"
  shows "custody_step\<^sup>*\<^sup>* (custody_of r) (custody_of r')"
  using assms(2)
proof cases
  case (track t now)
  show ?thesis
  proof (cases "running r")
    case True
    let ?a = "\<lparr>att_transport = t, reconnect_time = now + kFirstDelay, attempts_left = kMaxAttempts\<rparr>"
    have "att_transport ?a \<notin> att_transport ` set (reconnect_queue r)" using track(2) by (auto simp: tracked_def)
    from set_emplace_set [OF this] have "custody_of r' = (custody_of r)\<lparr>held := insert t (held (custody_of r))\<rparr>"
      using True track(1) by (simp add: TrackTransport_def custody_of_def tracked_def)
    with custody_step.receive [of t "custody_of r"] track(2) show ?thesis by (auto simp: custody_of_def)
  qed (use track(1) in \<open>simp add: TrackTransport_def\<close>)
next
  case (stopped)
  have d: "distinct (map att_transport (reconnect_queue r))" "set (map att_transport (reconnect_queue r)) \<subseteq> tracked r"
    using assms(1) by (auto simp: reconnect_ok_def tracked_def)
  have "tracked r - set (map att_transport (reconnect_queue r)) = {}" using stopped(3) by (auto simp: tracked_def)
  moreover have "tracked (drain_queue r) = {}" using stopped(3) by (simp add: drain_queue_def tracked_def)
  ultimately show ?thesis using give_up_all [of "map att_transport (reconnect_queue r)" "custody_of r"] d stopped(1)
    by (simp add: custody_of_def drain_queue_def)
next
  case stop
  then have "custody_of r' = custody_of r" by (simp add: custody_of_def tracked_def)
  then show ?thesis by simp
qed (use assms(1) custody_take custody_finish in auto)

interpretation reconnector: refinement reconnect_step custody_step custody_of reconnect_ok new_reconnector
proof
  show "reconnect_ok new_reconnector" by (rule reconnect_ok_new)
  show "reconnect_ok r'" if "reconnect_ok r" "reconnect_step r r'" for r r' using reconnect_ok_step [OF that(2,1)] .
  show "custody_step\<^sup>*\<^sup>* (custody_of r) (custody_of r')" if "reconnect_ok r" "reconnect_step r r'" for r r' using custody_simulates [OF that] .
qed

section \<open>Attempts\<close>

text \<open>Work the handler does while no transport is added; the number counts the calls of \<open>Reconnect\<close>.\<close>

inductive reconnect_calls :: "nat \<Rightarrow> reconnector \<Rightarrow> reconnector \<Rightarrow> bool" where
  start: "reconnect_calls 0 r r"
| scan: "reconnect_calls n r r' \<Longrightarrow> attempt r' = None \<Longrightarrow> reconnect_calls n r (take_attempt kicked now r')"
| call: "reconnect_calls n r r' \<Longrightarrow> attempt r' = Some a \<Longrightarrow> reconnect_calls (Suc n) r (finish_attempt res now a r')"

definition work_left :: "reconnector \<Rightarrow> nat" where
  "work_left r = sum_list (map (\<lambda>a. Suc (attempts_left a)) (reconnect_queue r)) + (case attempt r of None \<Rightarrow> 0 | Some a \<Rightarrow> Suc (attempts_left a))"

lemma work_left_emplace:
  "sum_list (map f (set_emplace a bs)) \<le> f a + sum_list (map f bs)" for f :: "reconnect_attempt \<Rightarrow> nat"
  by (induction bs) auto

lemma work_left_filter: "sum_list (map f (filter P xs)) \<le> sum_list (map f xs)" for f :: "'a \<Rightarrow> nat"
  by (induction xs) auto

lemma work_left_take:
  assumes "attempt r = None"
  shows "work_left (take_attempt kicked now r) \<le> work_left r"
proof -
  let ?r = "drop_kicked kicked r"
  have "work_left ?r \<le> work_left r" using work_left_filter by (simp add: work_left_def drop_kicked_def)
  moreover have "work_left (take_attempt kicked now r) = work_left ?r"
    using assms by (cases "reconnect_queue ?r") (auto simp: take_attempt_def Let_def work_left_def, simp_all add: drop_kicked_def)
  ultimately show ?thesis by simp
qed

lemma work_left_finish:
  assumes "attempt r = Some a"
  shows "work_left (finish_attempt res now a r) < work_left r"
proof -
  let ?f = "\<lambda>a. Suc (attempts_left a)"
  let ?a = "\<lparr>att_transport = att_transport a, reconnect_time = now + kDefaultTimeout, attempts_left = attempts_left a - 1\<rparr>"
  have "sum_list (map ?f (set_emplace ?a (reconnect_queue r))) < ?f a + sum_list (map ?f (reconnect_queue r))" if "attempts_left a \<noteq> 0"
    using work_left_emplace [of ?f ?a "reconnect_queue r"] that by simp
  with assms show ?thesis by (cases res) (simp_all add: work_left_def finish_attempt_def Let_def add.commute)
qed

lemma reconnect_calls_work: "reconnect_calls n r r' \<Longrightarrow> n + work_left r' \<le> work_left r"
proof (induction rule: reconnect_calls.induct)
  case (scan n r r' kicked now)
  then show ?case using work_left_take [of r' kicked now] by simp
next
  case (call n r r' a res now)
  then show ?case using work_left_finish [of r' a res now] by simp
qed simp

lemma work_left_bound:
  assumes "reconnect_ok r"
  shows "work_left r \<le> Suc kMaxAttempts * card (tracked r)"
proof -
  let ?l = "reconnect_queue r @ (case attempt r of None \<Rightarrow> [] | Some a \<Rightarrow> [a])"
  have d: "distinct (map att_transport ?l)" "tracked r = set (map att_transport ?l)"
    using assms by (auto simp: reconnect_ok_def tracked_def split: option.splits)
  have "set ?l = set (reconnect_queue r) \<union> set_option (attempt r)" by (cases "attempt r") simp_all
  moreover have "attempts_left a \<le> kMaxAttempts" if "entry_ok r a" for a using that by (simp add: entry_ok_def)
  ultimately have "\<forall>a \<in> set ?l. Suc (attempts_left a) \<le> Suc kMaxAttempts" using assms by (simp add: reconnect_ok_def)
  then have "sum_list (map (\<lambda>a. Suc (attempts_left a)) ?l) \<le> Suc kMaxAttempts * length ?l"
    using sum_list_mono [of ?l "\<lambda>a. Suc (attempts_left a)" "\<lambda>_. Suc kMaxAttempts"] by (simp add: sum_list_triv algebra_simps del: sum_list_mult_const)
  moreover have "card (tracked r) = length ?l" using d distinct_card [OF d(1)] by simp
  ultimately show ?thesis by (simp add: work_left_def split: option.splits)
qed

section \<open>Properties\<close>

abbreviation reconnect_reachable :: "reconnector \<Rightarrow> bool" where
  "reconnect_reachable \<equiv> reconnect_step\<^sup>*\<^sup>* new_reconnector"


text \<open>
  C36: The handler cannot try for ever: from a reachable state, and as long as no transport is added, it calls \<open>Reconnect\<close> at
  most twenty-one times for each transport it holds, whatever the results and however often it is woken.
\<close>
theorem reconnect_calls_bounded:
  assumes "reconnect_reachable r" "reconnect_calls n r r'"
  shows "n \<le> 21 * card (tracked r)"
  using reconnect_calls_work [OF assms(2)] work_left_bound [OF reconnector.reachable_invar [OF assms(1)]]
  by (simp add: kMaxAttempts_def)

text \<open>A device that was tracked at time 0 and one at time 100; the first is due.\<close>

definition two_lost :: reconnector where
  "two_lost = TrackTransport 7 100 (TrackTransport 5 0 new_reconnector)"

lemma two_lost_reachable: "reconnect_reachable two_lost"
proof -
  have "reconnect_step new_reconnector (TrackTransport 5 0 new_reconnector)"
    by (rule reconnect_step.track) (simp add: tracked_def new_reconnector_def)
  moreover have "reconnect_step (TrackTransport 5 0 new_reconnector) two_lost"
    unfolding two_lost_def by (rule reconnect_step.track) (simp add: tracked_def new_reconnector_def TrackTransport_def)
  ultimately show ?thesis by simp
qed


theorem reconnect_calls_bounded_witness: "(1 :: nat) \<le> 21 * card (tracked two_lost)"
proof (rule reconnect_calls_bounded [OF two_lost_reachable])
  let ?r = "take_attempt (\<lambda>_. False) 260 two_lost"
  have "reconnect_calls 0 two_lost ?r" by (rule reconnect_calls.scan [OF reconnect_calls.start])
    (simp add: two_lost_def TrackTransport_def new_reconnector_def)
  moreover obtain a where "attempt ?r = Some a"
    by (simp add: two_lost_def TrackTransport_def new_reconnector_def take_attempt_def drop_kicked_def attempt_less_def kFirstDelay_def)
  ultimately have "reconnect_calls (Suc 0) two_lost (finish_attempt Retry 300 a ?r)" by (rule reconnect_calls.call)
  then show "reconnect_calls 1 two_lost (finish_attempt Retry 300 (the (attempt ?r)) ?r)" using \<open>attempt ?r = Some a\<close> by simp
qed

end
