(* ===== verification/Paths.thy ===== *)
theory Paths
  imports Prelude "HOL-Library.Sublist"
begin

text \<open>
  \<open>Basename\<close> and \<open>Dirname\<close> of \<open>system/libbase/file.cpp\<close> and \<open>mkdirs\<close> of \<open>adb/adb_utils.cpp\<close>. The path functions walk
  a pointer back from the end of the string; they are related to the list of names a path consists of.
\<close>

section \<open>Definitions\<close>

definition PATH_MAX :: nat where "PATH_MAX = 4096"

abbreviation slash :: char where "slash \<equiv> CHR ''/''"

text \<open>\<open>while (endp > path && P(*endp)) endp--\<close>.\<close>

fun back_while :: "(char \<Rightarrow> bool) \<Rightarrow> string \<Rightarrow> nat \<Rightarrow> nat" where
  "back_while P s 0 = 0"
| "back_while P s (Suc i) = (if P (s ! Suc i) then back_while P s i else Suc i)"

text \<open>\<open>while (startp > path && *(startp - 1) != '/') startp--\<close>.\<close>

fun start_of_base :: "string \<Rightarrow> nat \<Rightarrow> nat" where
  "start_of_base s 0 = 0"
| "start_of_base s (Suc i) = (if s ! i \<noteq> slash then start_of_base s i else Suc i)"

definition basename_r :: "string \<Rightarrow> string" where
  "basename_r path =
     (if path = [] then ''.''
      else let endp = back_while (\<lambda>c. c = slash) path (length path - 1)
           in if endp = 0 \<and> path ! 0 = slash then ''/''
              else let startp = start_of_base path endp in substr path startp (endp - startp + 1))"

text \<open>A name that does not fit the buffer of \<open>PATH_MAX\<close> bytes becomes the empty string.\<close>

definition Basename :: "string \<Rightarrow> string" where
  "Basename path = (let b = basename_r path in if length b > PATH_MAX - 1 then [] else b)"

definition dirname_r :: "string \<Rightarrow> string" where
  "dirname_r path =
     (if path = [] then ''.''
      else let endp = back_while (\<lambda>c. c = slash) path (length path - 1);
               endp = back_while (\<lambda>c. c \<noteq> slash) path endp
           in if endp = 0 then (if path ! 0 = slash then ''/'' else ''.'')
              else substr path 0 (back_while (\<lambda>c. c = slash) path (endp - 1) + 1))"

definition Dirname :: "string \<Rightarrow> string" where
  "Dirname path = (let d = dirname_r path in if length d + 1 > PATH_MAX then [] else d)"

section \<open>The names in a path\<close>

fun segments :: "string \<Rightarrow> string list" where
  "segments [] = [[]]"
| "segments (c # s) = (if c = slash then [] # segments s else (c # hd (segments s)) # tl (segments s))"

definition path_parts :: "string \<Rightarrow> string list" where
  "path_parts s = filter (\<lambda>p. p \<noteq> [] \<and> p \<noteq> ''.'') (segments s)"

definition is_absolute :: "string \<Rightarrow> bool" where
  "is_absolute p \<longleftrightarrow> p \<noteq> [] \<and> hd p = slash"

lemma segments_nonempty [simp]: "segments s \<noteq> []"
  by (induction s) auto

lemma segments_append: "segments (a @ slash # b) = segments a @ segments b"
  by (induction a) auto

lemma segments_name: "slash \<notin> set a \<Longrightarrow> segments a = [a]"
  by (induction a) auto

lemma path_parts_append: "path_parts (a @ slash # b) = path_parts a @ path_parts b"
  by (simp add: path_parts_def segments_append)

lemma path_parts_name: "slash \<notin> set a \<Longrightarrow> path_parts a = (if a = [] \<or> a = ''.'' then [] else [a])"
  by (simp add: path_parts_def segments_name)

lemma path_parts_simps [simp]: "path_parts [] = []" "path_parts ''.'' = []" "path_parts (slash # s) = path_parts s"
  by (simp_all add: path_parts_def)

lemma path_parts_slashes [simp]: "path_parts (a @ replicate n slash) = path_parts a"
proof (induction n)
  case (Suc n)
  have "a @ replicate (Suc n) slash = (a @ replicate n slash) @ slash # []" by (simp add: replicate_append_same)
  then have "path_parts (a @ replicate (Suc n) slash) = path_parts (a @ replicate n slash)"
    using path_parts_append [of "a @ replicate n slash" "[]"] by simp
  with Suc show ?case by simp
qed simp

lemma path_parts_slashes_append: "0 < n \<Longrightarrow> path_parts (a @ replicate n slash @ b) = path_parts a @ path_parts b"
proof -
  assume "0 < n"
  then obtain k where "n = Suc k" by (cases n) auto
  then have "a @ replicate n slash @ b = (a @ replicate k slash) @ slash # b"
    using replicate_append_same [of k slash] by (metis append_Cons append_assoc append_Nil replicate_Suc)
  then show ?thesis using path_parts_append [of "a @ replicate k slash" b] by simp
qed

lemma path_parts_no_slash: "p \<in> set (path_parts s) \<Longrightarrow> slash \<notin> set p"
proof -
  have "\<forall>p \<in> set (segments s). slash \<notin> set p"
  proof (induction s)
    case (Cons c s)
    then show ?case by (cases "segments s") auto
  qed simp
  then show "p \<in> set (path_parts s) \<Longrightarrow> slash \<notin> set p" by (simp add: path_parts_def)
qed

section \<open>The pointer loops\<close>

lemma back_while_stop:
  "xs \<noteq> [] \<Longrightarrow> \<not> P (last xs) \<Longrightarrow> \<forall>c \<in> set ys. P c \<Longrightarrow> back_while P (xs @ ys @ zs) (length xs + length ys - 1) = length xs - 1"
proof (induction ys arbitrary: zs rule: rev_induct)
  case Nil
  then show ?case by (cases "length xs - 1") (auto simp: nth_append last_conv_nth)
next
  case (snoc y ys)
  then have "back_while P (xs @ ys @ y # zs) (length xs + length ys - 1) = length xs - 1" by simp
  moreover have "(xs @ ys @ y # zs) ! (length xs + length ys) = y" by (simp add: nth_append)
  moreover obtain k where "length xs + length ys = Suc k" using snoc.prems(1) by (cases xs) auto
  ultimately show ?case using snoc.prems(3) by simp
qed

lemma back_while_all: "\<forall>c \<in> set ys. P c \<Longrightarrow> back_while P (ys @ zs) (length ys - 1) = 0"
proof (induction ys arbitrary: zs rule: rev_induct)
  case (snoc y ys)
  then show ?case by (cases ys rule: rev_cases) (auto simp: nth_append)
qed simp

lemma start_of_base_stop: "\<forall>c \<in> set ys. c \<noteq> slash \<Longrightarrow> start_of_base ((xs @ [slash]) @ ys @ zs) (length xs + Suc (length ys)) = Suc (length xs)"
proof (induction ys arbitrary: zs rule: rev_induct)
  case (snoc y ys)
  then have "start_of_base ((xs @ [slash]) @ ys @ y # zs) (length xs + Suc (length ys)) = Suc (length xs)" by simp
  moreover have "((xs @ [slash]) @ ys @ y # zs) ! (length xs + Suc (length ys)) = y" by (simp add: nth_append)
  ultimately show ?case using snoc.prems by simp
qed (simp add: nth_append)

lemma start_of_base_all: "\<forall>c \<in> set ys. c \<noteq> slash \<Longrightarrow> start_of_base (ys @ zs) (length ys) = 0"
proof (induction ys arbitrary: zs rule: rev_induct)
  case (snoc y ys)
  then show ?case by (simp add: nth_append)
qed simp

section \<open>Taking a path apart\<close>

text \<open>The four shapes of a path that is not empty.\<close>

lemma path_shapes:
  assumes "p \<noteq> []"
  obtains (slashes) n where "0 < n" "p = replicate n slash"
  | (name) b m where "b \<noteq> []" "slash \<notin> set b" "p = b @ replicate m slash"
  | (top) n b m where "0 < n" "b \<noteq> []" "slash \<notin> set b" "p = replicate n slash @ b @ replicate m slash"
  | (nested) d n b m where "d \<noteq> []" "last d \<noteq> slash" "0 < n" "b \<noteq> []" "slash \<notin> set b" "p = d @ replicate n slash @ b @ replicate m slash"
proof -
  have sp: "\<exists>n r. s = r @ replicate n slash \<and> (r \<noteq> [] \<longrightarrow> last r \<noteq> slash)" for s
  proof (induction s rule: rev_induct)
    case (snoc c s)
    then obtain n r where r: "s = r @ replicate n slash" "r \<noteq> [] \<longrightarrow> last r \<noteq> slash" by blast
    show ?case
    proof (cases "c = slash")
      case True
      then have "s @ [c] = r @ replicate (Suc n) slash" using r(1) by (simp add: replicate_append_same)
      with r(2) show ?thesis by blast
    next
      case False
      then have "s @ [c] = (s @ [c]) @ replicate 0 slash \<and> last (s @ [c]) \<noteq> slash" by simp
      then show ?thesis by blast
    qed
  qed simp
  have nm: "\<exists>b r. s = r @ b \<and> slash \<notin> set b \<and> (r \<noteq> [] \<longrightarrow> last r = slash)" for s
  proof (induction s rule: rev_induct)
    case (snoc c s)
    then obtain b r where b: "s = r @ b" "slash \<notin> set b" "r \<noteq> [] \<longrightarrow> last r = slash" by blast
    show ?case
    proof (cases "c = slash")
      case True
      then have "s @ [c] = (s @ [c]) @ [] \<and> slash \<notin> set [] \<and> (s @ [c] \<noteq> [] \<longrightarrow> last (s @ [c]) = slash)" by simp
      then show ?thesis by blast
    next
      case False
      with b have "s @ [c] = r @ (b @ [c]) \<and> slash \<notin> set (b @ [c])" by simp
      with b(3) show ?thesis by blast
    qed
  qed simp
  obtain m q where q: "p = q @ replicate m slash" "q \<noteq> [] \<longrightarrow> last q \<noteq> slash" using sp by blast
  obtain b r where b: "q = r @ b" "slash \<notin> set b" "r \<noteq> [] \<longrightarrow> last r = slash" using nm by blast
  obtain n d where d: "r = d @ replicate n slash" "d \<noteq> [] \<longrightarrow> last d \<noteq> slash" using sp by blast
  have b0: "b \<noteq> []" if "q \<noteq> []" using that q(2) b by (cases b) auto
  have n0: "0 < n" if "r \<noteq> []" using that b(3) d by (cases n) auto
  show thesis
  proof (cases "q = []")
    case True
    then show ?thesis using slashes [of m] q(1) assms by (cases m) auto
  next
    case q0: False
    show ?thesis
    proof (cases "r = []")
      case True
      then show ?thesis using name [of b m] q(1) b b0 [OF q0] by simp
    next
      case False
      then show ?thesis using top [of n b m] nested [of d n b m] q(1) b d b0 [OF q0] n0 by (cases "d = []") auto
    qed
  qed
qed

lemma taken_slashes: "0 < n \<Longrightarrow> basename_r (replicate n slash) = ''/'' \<and> dirname_r (replicate n slash) = ''/''"
  using back_while_all [of "replicate n slash" "\<lambda>c. c = slash" "[]"] by (simp add: basename_r_def dirname_r_def)

lemma taken_name:
  assumes "b \<noteq> []" "slash \<notin> set b"
  shows "basename_r (b @ replicate m slash) = b \<and> dirname_r (b @ replicate m slash) = ''.''"
proof -
  let ?p = "b @ replicate m slash"
  have s: "last b \<noteq> slash" "b ! 0 \<noteq> slash" "\<forall>c \<in> set b. c \<noteq> slash"
    using assms by (metis last_in_set, metis length_greater_0_conv nth_mem, metis)
  have e: "back_while (\<lambda>c. c = slash) ?p (length ?p - 1) = length b - 1"
    using back_while_stop [of b "\<lambda>c. c = slash" "replicate m slash" "[]"] assms(1) s(1) by simp
  have e2: "back_while (\<lambda>c. c \<noteq> slash) ?p (length b - 1) = 0" using back_while_all [of b _ "replicate m slash"] s(3) by simp
  have "\<forall>c \<in> set (butlast b). c \<noteq> slash" using s(3) by (auto dest: in_set_butlastD)
  from start_of_base_all [OF this, of "[last b] @ replicate m slash"] have "start_of_base ?p (length b - 1) = 0"
    using append_butlast_last_id [OF assms(1)] by (metis append_assoc length_butlast)
  with e e2 s(2) assms(1) show ?thesis by (simp add: basename_r_def dirname_r_def Let_def nth_append substr_def)
qed

lemma taken_base:
  assumes "0 < n" "b \<noteq> []" "slash \<notin> set b"
  shows "basename_r (d @ replicate n slash @ b @ replicate m slash) = b"
proof -
  let ?p = "d @ replicate n slash @ b @ replicate m slash" and ?q = "d @ replicate n slash @ b"
  let ?x = "d @ replicate (n - 1) slash"
  have p: "?p = (?x @ [slash]) @ b @ replicate m slash" using assms(1) by (cases n) (simp_all add: replicate_append_same)
  have "last b \<noteq> slash" using assms(2,3) by (metis last_in_set)
  then have "last ?q \<noteq> slash" using assms(2) by simp
  then have e: "back_while (\<lambda>c. c = slash) ?p (length ?p - 1) = length ?q - 1"
    using back_while_stop [of ?q "\<lambda>c. c = slash" "replicate m slash" "[]"] assms(2) by (simp add: add.assoc)
  have "\<forall>c \<in> set (butlast b). c \<noteq> slash" using assms(3) by (auto dest: in_set_butlastD)
  from start_of_base_stop [OF this, of ?x "[last b] @ replicate m slash"]
  have "start_of_base ?p (length ?x + Suc (length b - 1)) = Suc (length ?x)"
    using append_butlast_last_id [OF assms(2)] by (metis append_assoc length_butlast p)
  moreover have l: "length ?x + Suc (length b - 1) = length ?q - 1" "Suc (length ?x) = length d + n"
    "length ?q - 1 - (length d + n) + 1 = length b" "length ?q - 1 \<noteq> 0" using assms(1,2) by (cases n; cases b; simp)+
  ultimately have "start_of_base ?p (length ?q - 1) = length d + n" by (simp only: l(1,2))
  then have "basename_r ?p = substr ?p (length d + n) (length ?q - 1 - (length d + n) + 1)"
    using e l(4) assms(2) unfolding basename_r_def Let_def by (simp only: if_False append_is_Nil_conv simp_thms)
  then show ?thesis unfolding l(3) by (simp add: substr_def)
qed

lemma taken_dir:
  assumes "0 < n" "b \<noteq> []" "slash \<notin> set b" "d \<noteq> [] \<longrightarrow> last d \<noteq> slash"
  shows "dirname_r (d @ replicate n slash @ b @ replicate m slash) = (if d = [] then ''/'' else d)"
proof -
  let ?q = "d @ replicate n slash @ b" and ?p = "d @ replicate n slash @ b @ replicate m slash"
  let ?x = "d @ replicate n slash"
  have "last b \<noteq> slash" using assms(2,3) by (metis last_in_set)
  then have e: "back_while (\<lambda>c. c = slash) ?p (length ?p - 1) = length ?q - 1"
    using back_while_stop [of ?q "\<lambda>c. c = slash" "replicate m slash" "[]"] assms(2) by (simp add: add.assoc)
  have "last ?x = slash" using assms(1) by (cases n) simp_all
  then have "back_while (\<lambda>c. c \<noteq> slash) (?x @ b @ replicate m slash) (length ?x + length b - 1) = length ?x - 1"
    using assms(1,3) by (intro back_while_stop) auto
  then have e2: "back_while (\<lambda>c. c \<noteq> slash) ?p (length ?q - 1) = length ?x - 1" by (simp add: add.assoc)
  have p0: "d = [] \<Longrightarrow> ?p ! 0 = slash" using assms(1) by (simp add: nth_append)
  show ?thesis
  proof (cases "length ?x - 1 = 0")
    case True
    then have "d = []" using assms(1) by (cases d) auto
    then show ?thesis using e e2 True p0 assms(2) by (simp add: dirname_r_def Let_def)
  next
    case False
    let ?r = "replicate (n - 1) slash"
    have p: "?p = d @ ?r @ slash # b @ replicate m slash" using assms(1) by (cases n) (simp_all add: replicate_append_same)
    have l: "length ?x - 1 - 1 = length d + length ?r - 1" using assms(1) by simp
    have k: "back_while (\<lambda>c. c = slash) ?p (length ?x - 1 - 1) = (if d = [] then 0 else length d - 1)"
      using back_while_stop [of d "\<lambda>c. c = slash" ?r "slash # b @ replicate m slash"] back_while_all [of ?r "\<lambda>c. c = slash"] assms(4)
      unfolding p l by auto
    have "dirname_r ?p = substr ?p 0 ((if d = [] then 0 else length d - 1) + 1)"
      using e e2 k False assms(2) unfolding dirname_r_def Let_def by (simp only: if_False append_is_Nil_conv simp_thms)
    moreover have "take 1 ?p = ''/''" if "d = []" using assms(1) that by (cases n) simp_all
    moreover have "take (Suc (length d - 1)) ?p = d" if "d \<noteq> []" using that by simp
    ultimately show ?thesis by (cases "d = []") (simp_all add: substr_def)
  qed
qed

text \<open>Directory and name together make up the path, and the directory is absolute when the path is.\<close>

lemma dirname_basename:
  assumes "p \<noteq> []"
  shows "path_parts (dirname_r p) @ path_parts (basename_r p) = path_parts p \<and> is_absolute (dirname_r p) = is_absolute p"
  using assms
proof (cases rule: path_shapes)
  case (slashes n)
  then show ?thesis using taken_slashes [of n] path_parts_slashes [of "[]" n] by (cases n) (simp_all add: is_absolute_def)
next
  case (name b m)
  then have "b ! 0 \<noteq> slash" by (metis length_greater_0_conv nth_mem)
  with name show ?thesis using taken_name [of b m] by (simp add: is_absolute_def hd_conv_nth nth_append)
next
  case (top n b m)
  then show ?thesis using taken_dir [of n b "[]" m] taken_base [of n b "[]" m] path_parts_slashes_append [of n "[]" "b @ replicate m slash"]
    by (cases n) (simp_all add: is_absolute_def)
next
  case (nested d n b m)
  then show ?thesis using taken_dir [of n b d m] taken_base [of n b d m] path_parts_slashes_append [of n d "b @ replicate m slash"]
    by (simp add: is_absolute_def)
qed

lemma dirname_nonempty [simp]: "dirname_r p \<noteq> []"
proof (cases "p = []")
  case False
  then show ?thesis by (cases rule: path_shapes) (use taken_slashes taken_name taken_dir [where d = "[]"] taken_dir in auto)
qed (simp add: dirname_r_def)

section \<open>Creating directories\<close>

text \<open>
  \<open>mkdirs\<close>; \<open>is_dir\<close> is what \<open>stat\<close> says of a path when it is asked, \<open>mkdir_ok\<close> whether \<open>adb_mkdir\<close> creates it and \<open>exists_after\<close>
  whether the path is a directory after that failed. The second component lists the paths \<open>adb_mkdir\<close> was called with.
\<close>

lemma dirname_shorter:
  assumes "p \<noteq> []" "dirname_r p \<noteq> p"
  shows "dirname_r p = ''.'' \<or> length (dirname_r p) < length p"
  using assms(1)
proof (cases rule: path_shapes)
  case (slashes n)
  then show ?thesis using taken_slashes [of n] assms(2) by (cases n; cases "n - 1") auto
next
  case (name b m)
  then show ?thesis using taken_name [of b m] by simp
next
  case (top n b m)
  then show ?thesis using taken_dir [of n b "[]" m] by (cases n; cases b) auto
next
  case (nested d n b m)
  then show ?thesis using taken_dir [of n b d m] by simp
qed

function mkdirs :: "(string \<Rightarrow> bool) \<Rightarrow> (string \<Rightarrow> bool) \<Rightarrow> (string \<Rightarrow> bool) \<Rightarrow> string \<Rightarrow> bool \<times> string list" where
  "mkdirs is_dir mkdir_ok exists_after path =
     (if is_dir path then (True, [])
      else if Dirname path = path then (False, [])
      else case mkdirs is_dir mkdir_ok exists_after (Dirname path) of
             (False, made) \<Rightarrow> (False, made)
           | (True, made) \<Rightarrow> (mkdir_ok path \<or> exists_after path, made @ [path]))"
  by pat_completeness auto
termination
proof (relation "measure (\<lambda>(_, _, _, p). if p = ''.'' then 0 else if p = [] then 1 else length p + 1)")
  fix is_dir mkdir_ok exists_after :: "string \<Rightarrow> bool" and path :: string
  assume "Dirname path \<noteq> path"
  then show "((is_dir, mkdir_ok, exists_after, Dirname path), is_dir, mkdir_ok, exists_after, path)
    \<in> measure (\<lambda>(_, _, _, p). if p = ''.'' then 0 else if p = [] then 1 else length p + 1)"
    using dirname_shorter [of path] by (cases "path = []") (auto simp: Dirname_def Let_def dirname_r_def PATH_MAX_def split: if_splits)
qed simp

declare mkdirs.simps [simp del]

lemma Dirname_cases: "Dirname p = dirname_r p \<or> Dirname p = []"
  by (simp add: Dirname_def Let_def)

lemma Dirname_parts:
  assumes "p \<noteq> []"
  shows "prefix (path_parts (Dirname p)) (path_parts p)" "Dirname p \<noteq> [] \<Longrightarrow> is_absolute (Dirname p) = is_absolute p"
  using dirname_basename [OF assms] Dirname_cases [of p] by (auto intro: prefixI dest: sym)

lemma Dirname_empty: "Dirname [] = ''.''"
  by (simp add: Dirname_def dirname_r_def PATH_MAX_def)

text \<open>All it creates are the path and directories above it.\<close>

lemma mkdirs_above:
  "q \<in> set (snd (mkdirs is_dir mkdir_ok exists_after p)) \<Longrightarrow>
     prefix (path_parts q) (path_parts p) \<and> (path_parts q = [] \<or> is_absolute q = is_absolute p)"
proof (induction is_dir mkdir_ok exists_after p rule: mkdirs.induct)
  case (1 is_dir mkdir_ok exists_after path)
  let ?d = "Dirname path"
  from 1(2) consider "q = path" | "q \<in> set (snd (mkdirs is_dir mkdir_ok exists_after ?d))" "\<not> is_dir path" "?d \<noteq> path"
    by (subst (asm) mkdirs.simps) (auto split: if_splits prod.splits bool.splits)
  then show ?case
  proof cases
    case 2
    have q: "prefix (path_parts q) (path_parts ?d)" "path_parts q = [] \<or> is_absolute q = is_absolute ?d" using 1(1) 2 by blast+
    show ?thesis
    proof (cases "path = [] \<or> ?d = []")
      case True
      then have "path_parts ?d = []" using Dirname_empty by auto
      with q(1) show ?thesis by simp
    next
      case False
      then show ?thesis using q Dirname_parts [of path] prefix_order.trans by auto
    qed
  qed simp
qed

text \<open>Short paths, which fit the buffers.\<close>

lemma Dirname_short:
  assumes "p \<noteq> []" "length p \<le> 2000"
  shows "Dirname p = dirname_r p" "Dirname p \<noteq> []" "length (dirname_r p) \<le> 2000"
proof -
  have "length (dirname_r p) \<le> 2000" using dirname_shorter [OF assms(1)] assms(2) by (cases "dirname_r p = p") auto
  then show "Dirname p = dirname_r p" "Dirname p \<noteq> []" "length (dirname_r p) \<le> 2000" using dirname_nonempty by (simp_all add: Dirname_def PATH_MAX_def)
qed

lemma dirname_fixed:
  assumes "p \<noteq> []" "dirname_r p = p"
  shows "p = ''/'' \<or> p = ''.''"
  using assms(1)
proof (cases rule: path_shapes)
  case (slashes n)
  then show ?thesis using taken_slashes [of n] assms(2) by simp
next
  case (name b m)
  then show ?thesis using taken_name [of b m] assms(2) by simp
next
  case (top n b m)
  then show ?thesis using taken_dir [of n b "[]" m] assms(2) by simp
next
  case (nested d n b m)
  then show ?thesis using taken_dir [of n b d m] assms(2) by simp
qed

lemma basename_shorter:
  assumes "p \<noteq> []"
  shows "length (basename_r p) \<le> length p"
  using assms
proof (cases rule: path_shapes)
  case (slashes n)
  then show ?thesis using taken_slashes [of n] by simp
next
  case (name b m)
  then show ?thesis using taken_name [of b m] by simp
next
  case (top n b m)
  then show ?thesis using taken_base [of n b "[]" m] by simp
next
  case (nested d n b m)
  then show ?thesis using taken_base [of n b d m] by simp
qed

end
