(* ===== verification/Sync_Protocol.thy ===== *)
theory Sync_Protocol
  imports Transport Paths
begin

text \<open>
  The host's side of the file sync protocol, \<open>adb/file_sync_protocol.h\<close> and the class \<open>SyncConnection\<close> of
  \<open>adb/lib/src/file_sync_client.cpp\<close>: requests, file status, directory listings and the acknowledgements of files
  that have been sent. The connection is a pair of scripts, as in \<open>Adb_Io\<close>; a script that ends while the code still wants to
  write means that the call never returns (\<^const>\<open>OutOfFuel\<close>).
\<close>

section \<open>Messages\<close>

definition MKID :: "char \<Rightarrow> char \<Rightarrow> char \<Rightarrow> char \<Rightarrow> u32" where
  "MKID a b c d = of_char a OR push_bit 8 (of_char b) OR push_bit 16 (of_char c) OR push_bit 24 (of_char d)"

definition ID_LSTAT_V1 :: u32 where "ID_LSTAT_V1 = MKID (CHR ''S'') (CHR ''T'') (CHR ''A'') (CHR ''T'')"
definition ID_STAT_V2 :: u32 where "ID_STAT_V2 = MKID (CHR ''S'') (CHR ''T'') (CHR ''A'') (CHR ''2'')"
definition ID_LSTAT_V2 :: u32 where "ID_LSTAT_V2 = MKID (CHR ''L'') (CHR ''S'') (CHR ''T'') (CHR ''2'')"
definition ID_LIST_V1 :: u32 where "ID_LIST_V1 = MKID (CHR ''L'') (CHR ''I'') (CHR ''S'') (CHR ''T'')"
definition ID_LIST_V2 :: u32 where "ID_LIST_V2 = MKID (CHR ''L'') (CHR ''I'') (CHR ''S'') (CHR ''2'')"
definition ID_DENT_V1 :: u32 where "ID_DENT_V1 = MKID (CHR ''D'') (CHR ''E'') (CHR ''N'') (CHR ''T'')"
definition ID_DENT_V2 :: u32 where "ID_DENT_V2 = MKID (CHR ''D'') (CHR ''N'') (CHR ''T'') (CHR ''2'')"
definition ID_SEND_V1 :: u32 where "ID_SEND_V1 = MKID (CHR ''S'') (CHR ''E'') (CHR ''N'') (CHR ''D'')"
definition ID_SEND_V2 :: u32 where "ID_SEND_V2 = MKID (CHR ''S'') (CHR ''N'') (CHR ''D'') (CHR ''2'')"
definition ID_RECV_V1 :: u32 where "ID_RECV_V1 = MKID (CHR ''R'') (CHR ''E'') (CHR ''C'') (CHR ''V'')"
definition ID_RECV_V2 :: u32 where "ID_RECV_V2 = MKID (CHR ''R'') (CHR ''C'') (CHR ''V'') (CHR ''2'')"
definition ID_DONE :: u32 where "ID_DONE = MKID (CHR ''D'') (CHR ''O'') (CHR ''N'') (CHR ''E'')"
definition ID_DATA :: u32 where "ID_DATA = MKID (CHR ''D'') (CHR ''A'') (CHR ''T'') (CHR ''A'')"
definition ID_OKAY :: u32 where "ID_OKAY = MKID (CHR ''O'') (CHR ''K'') (CHR ''A'') (CHR ''Y'')"
definition ID_FAIL :: u32 where "ID_FAIL = MKID (CHR ''F'') (CHR ''A'') (CHR ''I'') (CHR ''L'')"
definition ID_QUIT :: u32 where "ID_QUIT = MKID (CHR ''Q'') (CHR ''U'') (CHR ''I'') (CHR ''T'')"

lemma sync_ids:
  "ID_DONE = 0x454e4f44" "ID_DATA = 0x41544144" "ID_OKAY = 0x59414b4f" "ID_FAIL = 0x4c494146" "ID_SEND_V1 = 0x444e4553"
  "ID_SEND_V2 = 0x32444e53" "ID_DENT_V1 = 0x544e4544" "ID_DENT_V2 = 0x32544e44" "ID_LSTAT_V1 = 0x54415453" "ID_STAT_V2 = 0x32415453"
  "ID_LSTAT_V2 = 0x3254534c"
  by (simp_all add: ID_DONE_def ID_DATA_def ID_OKAY_def ID_FAIL_def ID_SEND_V1_def ID_SEND_V2_def ID_DENT_V1_def ID_DENT_V2_def
    ID_LSTAT_V1_def ID_STAT_V2_def ID_LSTAT_V2_def MKID_def)

definition SYNC_DATA_MAX :: nat where "SYNC_DATA_MAX = 64 * 1024"

text \<open>Fields of a packed structure that was read.\<close>

definition le32_at :: "string \<Rightarrow> nat \<Rightarrow> u32" where
  "le32_at b i = le32_decode (take 4 (drop i b))"

definition le64_at :: "string \<Rightarrow> nat \<Rightarrow> u64" where
  "le64_at b i = of_nat (le_value (take 8 (drop i b)))"

text \<open>An identifier and a length, the layout \<open>SyncRequest\<close>, \<open>sync_data\<close> and \<open>sync_status\<close> share.\<close>

definition sync_header :: "u32 \<Rightarrow> u32 \<Rightarrow> string" where
  "sync_header mid len = le32 mid @ le32 len"

lemma sync_header_simps [simp]: "length (sync_header i n) = 8" "le32_at (sync_header i n @ r) 0 = i" "le32_at (sync_header i n @ r) 4 = n"
  by (simp_all add: sync_header_def le32_at_def)

lemma sync_header_at [simp]: "le32_at (sync_header i n) 0 = i" "le32_at (sync_header i n) 4 = n"
  using sync_header_simps(2,3) [of i n "[]"] by simp_all

section \<open>The connection\<close>

text \<open>
  The state of a \<open>SyncConnection\<close> with what surrounds it. The descriptor: \<open>fd_in\<close> and \<open>fd_out\<close> are its scripts, \<open>fd_sent\<close>
  what it has accepted, \<open>poll_ready\<close> the answers of \<open>adb_poll\<close> (nothing is ready once they are used up), \<open>os_errno\<close> the error a failing system call
  leaves in \<open>errno\<close>. The observer: whether there is one, and its answers to \<open>should_abort\<close>. The local files: their contents, \<open>touched\<close> the paths of all the calls
  that create, remove or change a file or directory, \<open>disk\<close> the script of writes to them. Both ledgers are advanced together; the one that is
  printed is left out, and so is what is printed except for the errors.
\<close>

datatype sync_error = Path_too_long nat | Copy_failed string string string | No_reason string string | Sync_error string

record sync_conn =
  fd_in :: "read_event list"
  fd_out :: "write_event list"
  fd_sent :: string
  poll_ready :: "bool list"
  errno :: int
  os_errno :: int
  observer :: bool
  aborts :: "bool list"
  have_stat_v2 :: bool
  have_ls_v2 :: bool
  have_sendrecv_v2 :: bool
  have_sendrecv_v2_brotli :: bool
  have_sendrecv_v2_lz4 :: bool
  have_sendrecv_v2_zstd :: bool
  have_sendrecv_v2_dry_run_send :: bool
  deferred_acknowledgements :: "(string \<times> string) list"
  acknowledgement_buffer :: string
  bytes_transferred :: nat
  files_transferred :: nat
  files_skipped :: nat
  sync_errors :: "sync_error list"
  files :: "string \<rightharpoonup> string"
  touched :: "string list"
  disk :: "write_event list"

text \<open>The constructor, on a descriptor and its surroundings.\<close>

definition SyncConnection :: "string list \<Rightarrow> sync_conn \<Rightarrow> sync_conn" where
  "SyncConnection fs env =
     env\<lparr>deferred_acknowledgements := [], acknowledgement_buffer := [],
       have_stat_v2 := CanUseFeature fs ''stat_v2'', have_ls_v2 := CanUseFeature fs ''ls_v2'',
       have_sendrecv_v2 := CanUseFeature fs ''sendrecv_v2'', have_sendrecv_v2_brotli := CanUseFeature fs ''sendrecv_v2_brotli'',
       have_sendrecv_v2_lz4 := CanUseFeature fs ''sendrecv_v2_lz4'', have_sendrecv_v2_zstd := CanUseFeature fs ''sendrecv_v2_zstd'',
       have_sendrecv_v2_dry_run_send := CanUseFeature fs ''sendrecv_v2_dry_run_send'',
       bytes_transferred := 0, files_transferred := 0, files_skipped := 0\<rparr>"

text \<open>Surroundings with no files, no observer and a descriptor with the given scripts.\<close>

definition plain_env :: "read_event list \<Rightarrow> write_event list \<Rightarrow> sync_conn" where
  "plain_env ins outs =
     \<lparr>fd_in = ins, fd_out = outs, fd_sent = [], poll_ready = [], errno = 0, os_errno = 5, observer = False, aborts = [],
      have_stat_v2 = False, have_ls_v2 = False, have_sendrecv_v2 = False, have_sendrecv_v2_brotli = False, have_sendrecv_v2_lz4 = False,
      have_sendrecv_v2_zstd = False, have_sendrecv_v2_dry_run_send = False, deferred_acknowledgements = [], acknowledgement_buffer = [],
      bytes_transferred = 0, files_transferred = 0, files_skipped = 0, sync_errors = [], files = Map.empty, touched = [], disk = []\<rparr>"

definition ENOENT :: int where "ENOENT = 2"
definition EIO :: int where "EIO = 5"
definition ENAMETOOLONG :: int where "ENAMETOOLONG = 36"
definition ENOPROTOOPT :: int where "ENOPROTOOPT = 92"
definition ENOTSUP :: int where "ENOTSUP = 95"
definition ECONNRESET :: int where "ECONNRESET = 104"

text \<open>The table of \<open>sysdeps/errno.cpp\<close>; on Linux the two sides have the same numbers.\<close>

definition wire_errnos :: "int list" where
  "wire_errnos = [13, 17, 14, 27, 4, 22, 5, 21, 40, 24, 36, 23, 2, 12, 28, 20, 75, 1, 30, 26]"

definition errno_from_wire :: "int \<Rightarrow> int" where
  "errno_from_wire e = (if e \<in> set wire_errnos then e else EIO)"

definition Error :: "sync_error \<Rightarrow> sync_conn \<Rightarrow> sync_conn" where
  "Error e s = s\<lparr>sync_errors := sync_errors s @ [e]\<rparr>"

definition sync_should_abort :: "sync_conn \<Rightarrow> bool \<times> sync_conn" where
  "sync_should_abort s =
     (if observer s then (case aborts s of [] \<Rightarrow> (False, s) | b # bs \<Rightarrow> (b, s\<lparr>aborts := bs\<rparr>)) else (False, s))"

text \<open>\<open>ReadFdExactly\<close> and \<open>WriteFdExactly\<close> on the connection.\<close>

definition conn_read :: "nat \<Rightarrow> sync_conn \<Rightarrow> string option \<times> sync_conn" where
  "conn_read n s =
     (case ReadFdExactly (fd_in s) n of
        (Some b, es) \<Rightarrow> (Some b, s\<lparr>fd_in := es\<rparr>)
      | (None, es) \<Rightarrow> (None, s\<lparr>fd_in := es, errno := os_errno s\<rparr>))"

definition conn_write :: "string \<Rightarrow> sync_conn \<Rightarrow> (bool \<times> sync_conn) result" where
  "conn_write bs s =
     (case WriteFdExactly (fd_out s) bs of
        (Written, out, es) \<Rightarrow> Inr (True, s\<lparr>fd_out := es, fd_sent := fd_sent s @ out\<rparr>)
      | (WriteFailed, out, es) \<Rightarrow> Inr (False, s\<lparr>fd_out := es, fd_sent := fd_sent s @ out, errno := os_errno s\<rparr>)
      | (StillWriting, _, _) \<Rightarrow> Inl OutOfFuel)"

definition SendRequest :: "u32 \<Rightarrow> string \<Rightarrow> sync_conn \<Rightarrow> (bool \<times> sync_conn) result" where
  "SendRequest mid path s =
     (if length path > 1024 then Inr (False, (Error (Path_too_long (length path)) s)\<lparr>errno := ENAMETOOLONG\<rparr>)
      else conn_write (sync_header mid (of_nat (length path)) @ path) s)"

text \<open>What failed at the other end: a status message whose text follows.\<close>

definition ReportCopyFailure :: "string \<Rightarrow> string \<Rightarrow> u32 \<Rightarrow> sync_conn \<Rightarrow> sync_conn result" where
  "ReportCopyFailure from to msglen s =
     (if msglen + 1 = 0 then Inl OutOfBounds
      else case conn_read (unat msglen) s of
             (None, s1) \<Rightarrow> Inr (Error (No_reason from to) s1)
           | (Some reason, s1) \<Rightarrow> Inr (Error (Copy_failed from to (c_str reason)) s1))"

section \<open>File status\<close>

record file_stat =
  st_dev :: u64
  st_ino :: u64
  st_mode :: u32
  st_nlink :: u32
  st_uid :: u32
  st_gid :: u32
  st_size :: int
  st_atime :: int
  st_mtime :: int
  st_ctime :: int

definition S_IFMT :: u32 where "S_IFMT = 0xf000"
definition S_IFDIR :: u32 where "S_IFDIR = 0x4000"
definition S_IFREG :: u32 where "S_IFREG = 0x8000"
definition S_ISDIR :: "u32 \<Rightarrow> bool" where "S_ISDIR m \<longleftrightarrow> m AND S_IFMT = S_IFDIR"
definition S_ISREG :: "u32 \<Rightarrow> bool" where "S_ISREG m \<longleftrightarrow> m AND S_IFMT = S_IFREG"
definition S_ISLNK :: "u32 \<Rightarrow> bool" where "S_ISLNK m \<longleftrightarrow> m AND S_IFMT = 0xa000"
definition S_ISBLK :: "u32 \<Rightarrow> bool" where "S_ISBLK m \<longleftrightarrow> m AND S_IFMT = 0x6000"
definition S_ISCHR :: "u32 \<Rightarrow> bool" where "S_ISCHR m \<longleftrightarrow> m AND S_IFMT = 0x2000"

definition should_pull_file :: "u32 \<Rightarrow> bool" where
  "should_pull_file m \<longleftrightarrow> S_ISREG m \<or> S_ISBLK m \<or> S_ISCHR m"

definition should_push_file :: "u32 \<Rightarrow> bool" where
  "should_push_file m \<longleftrightarrow> S_ISREG m \<or> S_ISLNK m"

definition SendStat :: "string \<Rightarrow> sync_conn \<Rightarrow> (bool \<times> sync_conn) result" where
  "SendStat path s = (if \<not> have_stat_v2 s then Inr (False, s\<lparr>errno := ENOTSUP\<rparr>) else SendRequest ID_STAT_V2 path s)"

definition SendLstat :: "string \<Rightarrow> sync_conn \<Rightarrow> (bool \<times> sync_conn) result" where
  "SendLstat path s = SendRequest (if have_stat_v2 s then ID_LSTAT_V2 else ID_LSTAT_V1) path s"

definition stat_v2_of :: "string \<Rightarrow> file_stat" where
  "stat_v2_of b =
     \<lparr>st_dev = le64_at b 8, st_ino = le64_at b 16, st_mode = le32_at b 24, st_nlink = le32_at b 28, st_uid = le32_at b 32,
      st_gid = le32_at b 36, st_size = sint (le64_at b 40), st_atime = sint (le64_at b 48), st_mtime = sint (le64_at b 56),
      st_ctime = sint (le64_at b 64)\<rparr>"

definition stat_v1_of :: "string \<Rightarrow> file_stat" where
  "stat_v1_of b =
     \<lparr>st_dev = 0, st_ino = 0, st_mode = le32_at b 4, st_nlink = 0, st_uid = 0, st_gid = 0, st_size = uint (le32_at b 8), st_atime = 0,
      st_mtime = uint (le32_at b 12), st_ctime = uint (le32_at b 12)\<rparr>"

definition FinishStat :: "sync_conn \<Rightarrow> (file_stat option \<times> sync_conn) result" where
  "FinishStat s =
     (if have_stat_v2 s then
        (case conn_read 72 s of
           (None, _) \<Rightarrow> Inl (FatalLog ''protocol fault: failed to read stat response'')
         | (Some b, s1) \<Rightarrow>
             if le32_at b 0 \<noteq> ID_LSTAT_V2 \<and> le32_at b 0 \<noteq> ID_STAT_V2 then Inl (FatalLog ''protocol fault: stat response has wrong message id'')
             else if le32_at b 4 \<noteq> 0 then Inr (None, s1\<lparr>errno := errno_from_wire (sint (le32_at b 4))\<rparr>)
             else Inr (Some (stat_v2_of b), s1))
      else
        (case conn_read 16 s of
           (None, _) \<Rightarrow> Inl (FatalLog ''protocol fault: failed to read stat response'')
         | (Some b, s1) \<Rightarrow>
             if le32_at b 0 \<noteq> ID_LSTAT_V1 then Inl (FatalLog ''protocol fault: stat response has wrong message id'')
             else if le32_at b 4 = 0 \<and> le32_at b 8 = 0 \<and> le32_at b 12 = 0 then Inr (None, s1\<lparr>errno := ENOPROTOOPT\<rparr>)
             else Inr (Some (stat_v1_of b), s1)))"

definition sync_stat :: "string \<Rightarrow> sync_conn \<Rightarrow> (file_stat option \<times> sync_conn) result" where
  "sync_stat path s = bind_r (SendStat path s) (\<lambda>(ok, s1). if ok then FinishStat s1 else Inr (None, s1))"

definition sync_lstat :: "string \<Rightarrow> sync_conn \<Rightarrow> (file_stat option \<times> sync_conn) result" where
  "sync_lstat path s = bind_r (SendLstat path s) (\<lambda>(ok, s1). if ok then FinishStat s1 else Inr (None, s1))"

definition sync_stat_fallback :: "string \<Rightarrow> sync_conn \<Rightarrow> (file_stat option \<times> sync_conn) result" where
  "sync_stat_fallback path s =
     bind_r (sync_stat path s) (\<lambda>(st, s1).
       if st \<noteq> None then Inr (st, s1)
       else if errno s1 \<noteq> ENOTSUP then Inr (None, s1)
       else bind_r (sync_lstat path s1) (\<lambda>(lst, s2). case lst of
              None \<Rightarrow> Inr (None, s2)
            | Some st \<Rightarrow>
                if \<not> S_ISLNK (st_mode st) then Inr (Some st, s2)
                else bind_r (sync_lstat (path @ ''/'') s2) (\<lambda>(tmp, s3).
                  Inr (Some (st\<lparr>st_size := 0, st_mode := (st_mode st AND NOT S_IFMT) OR (if tmp \<noteq> None then S_IFDIR else S_IFREG)\<rparr>), s3))))"

lemma ReadFdExactly_SomeD:
  assumes "ReadFdExactly es n = (Some b, es')"
  shows "avail_bytes es = b @ avail_bytes es' \<and> length b = n"
proof (cases "n \<le> length (avail_bytes es)")
  case True
  with ReadFdExactly_avail [of n es] assms show ?thesis by auto
next
  case False
  with ReadFdExactly_None [of es n] assms show ?thesis by simp
qed

lemma conn_read_SomeD:
  assumes "conn_read n s = (Some b, s')"
  shows "avail_bytes (fd_in s) = b @ avail_bytes (fd_in s')" "length b = n" "s' = s\<lparr>fd_in := fd_in s'\<rparr>"
  using assms ReadFdExactly_SomeD [of "fd_in s" n b] by (auto simp: conn_read_def split: prod.splits option.splits)

lemma conn_read_length: "conn_read n s = (Some b, s') \<Longrightarrow> length (avail_bytes (fd_in s)) = n + length (avail_bytes (fd_in s'))"
  using conn_read_SomeD(1,2) [of n s b s'] by simp

section \<open>Directory listings\<close>

record dent =
  dent_mode :: u32
  dent_size :: u64
  dent_mtime :: u64
  dent_name :: string

definition SendLs :: "string \<Rightarrow> sync_conn \<Rightarrow> (bool \<times> sync_conn) result" where
  "SendLs path s = SendRequest (if have_ls_v2 s then ID_LIST_V2 else ID_LIST_V1) path s"

definition dent_of :: "bool \<Rightarrow> string \<Rightarrow> string \<Rightarrow> dent" where
  "dent_of v2 b name =
     (if v2 then \<lparr>dent_mode = le32_at b 24, dent_size = le64_at b 40, dent_mtime = le64_at b 56, dent_name = name\<rparr>
      else \<lparr>dent_mode = le32_at b 4, dent_size = ucast (le32_at b 8), dent_mtime = ucast (le32_at b 12), dent_name = name\<rparr>)"

text \<open>The entries are the arguments of the calls of the callback, in order.\<close>

function FinishLsImpl :: "bool \<Rightarrow> sync_conn \<Rightarrow> bool \<times> dent list \<times> sync_conn" where
  "FinishLsImpl v2 s =
     (case conn_read (if v2 then 76 else 20) s of
        (None, s1) \<Rightarrow> (False, [], s1)
      | (Some b, s1) \<Rightarrow>
          if le32_at b 0 = ID_DONE then (True, [], s1)
          else if le32_at b 0 \<noteq> (if v2 then ID_DENT_V2 else ID_DENT_V1) then (False, [], s1)
          else if unat (le32_at b (if v2 then 72 else 16)) > 255 then (False, [], s1)
          else (case conn_read (unat (le32_at b (if v2 then 72 else 16))) s1 of
                  (None, s2) \<Rightarrow> (False, [], s2)
                | (Some buf, s2) \<Rightarrow>
                    if slash \<in> set (c_str buf) then (False, [], s2)
                    else (case FinishLsImpl v2 s2 of (ok, ds, s3) \<Rightarrow> (ok, dent_of v2 b (c_str buf) # ds, s3))))"
  by pat_completeness auto
termination
  by (relation "measure (\<lambda>(_, s). length (avail_bytes (fd_in s)))") (auto dest!: conn_read_length [OF sym])

declare FinishLsImpl.simps [simp del]

definition FinishLs :: "sync_conn \<Rightarrow> bool \<times> dent list \<times> sync_conn" where
  "FinishLs s = FinishLsImpl (have_ls_v2 s) s"

definition sync_ls :: "string \<Rightarrow> sync_conn \<Rightarrow> (bool \<times> dent list \<times> sync_conn) result" where
  "sync_ls path s = bind_r (SendLs path s) (\<lambda>(ok, s1). if ok then Inr (FinishLs s1) else Inr (False, [], s1))"

section \<open>Acknowledgements\<close>

datatype read_status = Read_success | Read_failure | Try_later

definition max_deferred_acks :: nat where "max_deferred_acks = 128"

function read_until_amount :: "bool \<Rightarrow> nat \<Rightarrow> sync_conn \<Rightarrow> read_status \<times> sync_conn" where
  "read_until_amount should_block amount s =
     (if length (acknowledgement_buffer s) \<ge> amount then (Read_success, s)
      else let ready = (should_block \<or> (poll_ready s \<noteq> [] \<and> hd (poll_ready s)));
               s = (if should_block then s else s\<lparr>poll_ready := tl (poll_ready s)\<rparr>)
           in if \<not> ready then (Try_later, s)
              else case adb_read (fd_in s) (amount - length (acknowledgement_buffer s)) of
                     (Got bs, es) \<Rightarrow>
                       if bs = [] then (Read_failure, Error (Sync_error ''failed to read copy response'') (s\<lparr>fd_in := es\<rparr>))
                       else let s1 = s\<lparr>fd_in := es, acknowledgement_buffer := acknowledgement_buffer s @ bs\<rparr>
                            in if \<not> should_block \<and> length (acknowledgement_buffer s1) < amount then (Try_later, s1)
                               else read_until_amount should_block amount s1
                   | (_, es) \<Rightarrow> (Read_failure, Error (Sync_error ''failed to read copy response'') (s\<lparr>fd_in := es\<rparr>)))"
  by pat_completeness auto
termination
  by (relation "measure (\<lambda>(_, n, s). n - length (acknowledgement_buffer s))") (auto simp flip: length_greater_0_conv split: if_splits)

declare read_until_amount.simps [simp del]

function ReadAcknowledgements :: "bool \<Rightarrow> sync_conn \<Rightarrow> bool \<times> sync_conn" where
  "ReadAcknowledgements read_all s =
     (case deferred_acknowledgements s of
        [] \<Rightarrow> (True, s)
      | (from, to) # rest \<Rightarrow>
          let should_block = (read_all \<or> length (deferred_acknowledgements s) \<ge> max_deferred_acks)
          in (case read_until_amount should_block 8 s of
                (Try_later, s1) \<Rightarrow> (True, s1)
              | (Read_failure, s1) \<Rightarrow> (False, s1)
              | (Read_success, s1) \<Rightarrow>
                  let mid = le32_at (acknowledgement_buffer s1) 0; msglen = le32_at (acknowledgement_buffer s1) 4
                  in if mid = ID_OKAY then
                       (if msglen \<noteq> 0 then (False, Error (Sync_error ''received ID_OKAY with msg_len'') (s1\<lparr>acknowledgement_buffer := []\<rparr>))
                        else ReadAcknowledgements read_all (s1\<lparr>acknowledgement_buffer := [], deferred_acknowledgements := rest\<rparr>))
                     else if mid \<noteq> ID_FAIL then (False, Error (Sync_error ''unexpected response from daemon'') s1)
                     else if unat msglen > SYNC_DATA_MAX then (False, Error (Sync_error ''too-long message length from daemon'') s1)
                     else (case read_until_amount should_block (8 + unat msglen) s1 of
                             (Try_later, s2) \<Rightarrow> (True, s2)
                           | (Read_failure, s2) \<Rightarrow> (False, s2)
                           | (Read_success, s2) \<Rightarrow>
                               (False, (Error (Copy_failed from to (c_str (drop 8 (acknowledgement_buffer s2)))) s2)
                                         \<lparr>deferred_acknowledgements := rest, acknowledgement_buffer := []\<rparr>))))"
  by pat_completeness auto
termination
  by (relation "measure (\<lambda>(_, s). length (deferred_acknowledgements s))") auto

declare ReadAcknowledgements.simps [simp del]

end
