(* ===== verification/Sync_Codec.thy ===== *)
theory Sync_Codec
  imports IOVec
begin

text \<open>
  The codecs of \<open>adb/compression_utils.h\<close>: the interfaces \<open>Decoder\<close> and \<open>Encoder\<close> as tables of operations, the contracts the file transfer relies on, and
  \<open>NullDecoder\<close> and \<open>NullEncoder\<close>, which copy. The other codecs are wrappers of external libraries.
\<close>

section \<open>Interfaces\<close>

datatype decode_result = Decode_Error | Decode_Done | Decode_NeedInput | Decode_MoreOutput

record 'd decoder_ops =
  d_append :: "string \<Rightarrow> 'd \<Rightarrow> 'd"
  d_finish :: "'d \<Rightarrow> 'd result"
  d_decode :: "'d \<Rightarrow> (decode_result \<times> string \<times> 'd) result"

datatype encode_result = Encode_Error | Encode_Done | Encode_NeedInput | Encode_MoreOutput

record 'e encoder_ops =
  e_append :: "string \<Rightarrow> 'e \<Rightarrow> 'e"
  e_finish :: "'e \<Rightarrow> 'e result"
  e_encode :: "'e \<Rightarrow> (encode_result \<times> string \<times> 'e) result"

text \<open>
  What a decoder promises: \<open>state d i o f\<close> says that \<open>d\<close> has been given \<open>i\<close>, has returned \<open>o\<close>, and whether it was
  told that the input is complete. When it is done, \<open>o\<close> is what \<open>i\<close> expands to.
\<close>

locale decoder =
  fixes ops :: "'d decoder_ops" and fresh :: 'd
    and state :: "'d \<Rightarrow> string \<Rightarrow> string \<Rightarrow> bool \<Rightarrow> bool" and expand :: "string \<Rightarrow> string option" and pending :: "'d \<Rightarrow> nat" and max_block :: nat
  assumes state_fresh: "state fresh [] [] False"
    and state_append: "state d i out f \<Longrightarrow> length b \<le> max_block \<Longrightarrow> state (d_append ops b d) (i @ b) out f"
    and state_finish: "state d i out False \<Longrightarrow> \<exists>d'. d_finish ops d = Inr d' \<and> state d' i out True"
    and state_finish_twice: "state d i out True \<Longrightarrow> \<exists>e. d_finish ops d = Inl e"
    and state_decode: "state d i out f \<Longrightarrow> \<exists>r b d'. d_decode ops d = Inr (r, b, d') \<and>
      (r \<noteq> Decode_Error \<longrightarrow> state d' i (out @ b) f) \<and> (r = Decode_Done \<longrightarrow> f \<and> expand i = Some (out @ b)) \<and>
      (r = Decode_MoreOutput \<longrightarrow> pending d' < pending d)"

text \<open>What an encoder promises, with the state of the other direction: when it is done, what it returned expands to what it was given.\<close>

locale encoder =
  fixes ops :: "'e encoder_ops" and fresh :: 'e
    and state :: "'e \<Rightarrow> string \<Rightarrow> string \<Rightarrow> bool \<Rightarrow> bool" and expand :: "string \<Rightarrow> string option" and pending :: "'e \<Rightarrow> nat" and max_block :: nat
  assumes state_fresh: "state fresh [] [] False"
    and state_append: "state e i out False \<Longrightarrow> length b \<le> max_block \<Longrightarrow> state (e_append ops b e) (i @ b) out False"
    and state_finish: "state e i out False \<Longrightarrow> \<exists>e'. e_finish ops e = Inr e' \<and> state e' i out True"
    and state_encode: "state e i out f \<Longrightarrow> \<exists>r b e'. e_encode ops e = Inr (r, b, e') \<and> length b \<le> max_block \<and>
      (r \<noteq> Encode_Error \<longrightarrow> state e' i (out @ b) f) \<and> (r = Encode_Done \<longrightarrow> f \<and> expand (out @ b) = Some i) \<and>
      (r = Encode_MoreOutput \<longrightarrow> pending e' < pending e) \<and> (r = Encode_NeedInput \<longrightarrow> \<not> f)"

section \<open>Copying\<close>

text \<open>
  The loop that moves bytes from the front of the vector to an output buffer with \<open>available_out\<close> bytes left. A front block
  without bytes would keep it from advancing for ever.
\<close>

function copy_front :: "nat \<Rightarrow> iovector \<Rightarrow> (string \<times> iovector) result" where
  "copy_front available_out v =
     (if available_out > 0 \<and> IOVector_size v \<noteq> 0 then
        bind_r (front_size v) (\<lambda>fsize.
        bind_r (front_data v) (\<lambda>fdata.
          let len = min available_out fsize
          in if len = 0 then Inl OutOfFuel
             else bind_r (IOVector_drop_front v len) (\<lambda>v1.
                  bind_r (copy_front (available_out - len) v1) (\<lambda>(out, v2).
                    Inr (take len (case fdata of None \<Rightarrow> [] | Some d \<Rightarrow> d) @ out, v2)))))
      else Inr ([], v))"
  by pat_completeness auto
termination
  by (relation "measure fst") auto

declare copy_front.simps [simp del]

record null_codec =
  input_buffer :: iovector
  finished :: bool

definition new_null_codec :: null_codec where
  "new_null_codec = \<lparr>input_buffer = IOVector_empty, finished = False\<rparr>"

definition null_append :: "string \<Rightarrow> null_codec \<Rightarrow> null_codec" where
  "null_append b d = d\<lparr>input_buffer := IOVector_append (input_buffer d) (Block_of b)\<rparr>"

definition null_finish :: "null_codec \<Rightarrow> null_codec result" where
  "null_finish d = (if finished d then Inl (FatalLog ''Decoder::Finish called while already finished?'') else Inr (d\<lparr>finished := True\<rparr>))"

definition NullDecoder_Decode :: "nat \<Rightarrow> null_codec \<Rightarrow> (decode_result \<times> string \<times> null_codec) result" where
  "NullDecoder_Decode output_size d =
     bind_r (copy_front output_size (input_buffer d)) (\<lambda>(out, v).
       Inr (if IOVector_size v = 0 then (if finished d then Decode_Done else Decode_NeedInput) else Decode_MoreOutput,
            out, d\<lparr>input_buffer := v\<rparr>))"

definition NullDecoder :: "nat \<Rightarrow> null_codec decoder_ops" where
  "NullDecoder output_size = \<lparr>d_append = null_append, d_finish = null_finish, d_decode = NullDecoder_Decode output_size\<rparr>"

definition NullEncoder_Encode :: "nat \<Rightarrow> null_codec \<Rightarrow> (encode_result \<times> string \<times> null_codec) result" where
  "NullEncoder_Encode output_block_size d =
     bind_r (copy_front output_block_size (input_buffer d)) (\<lambda>(out, v).
       Inr (if IOVector_size v = 0 then (if finished d then Encode_Done else Encode_NeedInput) else Encode_MoreOutput,
            out, d\<lparr>input_buffer := v\<rparr>))"

definition NullEncoder :: "nat \<Rightarrow> null_codec encoder_ops" where
  "NullEncoder output_block_size = \<lparr>e_append = null_append, e_finish = null_finish, e_encode = NullEncoder_Encode output_block_size\<rparr>"

section \<open>Vectors without empty blocks\<close>

text \<open>The front block always has a byte to offer.\<close>

definition iov_strict :: "iovector \<Rightarrow> bool" where
  "iov_strict v \<longleftrightarrow> iov_wf v \<and> (\<forall>b \<in> set (live v). 0 < bsize b) \<and> (live v \<noteq> [] \<longrightarrow> begin_offset v < bsize (hd (live v)))"

lemma iov_strict_empty: "iov_strict IOVector_empty"
  by (simp add: iov_strict_def)

lemma iov_strict_append: "iov_strict v \<Longrightarrow> block_wf b \<Longrightarrow> iov_strict (IOVector_append v b)"
  using IOVector_append_correct [of v b]
  by (cases "live v") (auto simp: iov_strict_def IOVector_append_def iov_wf_def)

lemma iov_strict_pop:
  assumes "iov_strict v" "start_index v < length (chain v)"
  shows "iov_strict (pop_front_block v)"
proof -
  have wf: "iov_wf (pop_front_block v)" using pop_front_block_correct assms by (simp add: iov_strict_def)
  have l: "live (pop_front_block v) = drop (Suc (start_index v)) (chain v)" "begin_offset (pop_front_block v) = 0"
    by (auto simp: pop_front_block_def trim_chain_front_def Let_def)
  have "\<forall>b \<in> set (drop (Suc (start_index v)) (chain v)). 0 < bsize b"
    using assms live_Cons [OF assms(2)] by (auto simp: iov_strict_def)
  with wf l show ?thesis by (auto simp: iov_strict_def)
qed

lemma iov_strict_drop_loop: "drop_front_loop v len dropped = Inr v' \<Longrightarrow> iov_strict v \<Longrightarrow> iov_strict v'"
proof (induction v len dropped rule: drop_front_loop.induct)
  case (1 v len dropped)
  let ?next = "bsize (chain v ! start_index v) - begin_offset v"
  show ?case
  proof (cases "dropped < len \<and> start_index v < length (chain v)")
    case True
    then have st: "start_index v < length (chain v)" by simp
    note lc = live_Cons [OF st]
    show ?thesis
    proof (cases "dropped + ?next \<le> len")
      case c: True
      then have "drop_front_loop (pop_front_block v) len ((dropped + ?next) mod 2 ^ 32) = Inr v'"
        using True 1(2) by (subst (asm) drop_front_loop.simps) (simp add: Let_def)
      then show ?thesis using 1(1) [OF _ st refl c] True iov_strict_pop [OF 1(3) st] by blast
    next
      case False
      then have "v' = v\<lparr>begin_offset := begin_offset v + (len - dropped)\<rparr>"
        using True 1(2) by (subst (asm) drop_front_loop.simps) (simp add: Let_def)
      then show ?thesis using 1(3) False True lc by (auto simp: iov_strict_def iov_wf_def)
    qed
  qed (use 1(2,3) in \<open>subst (asm) drop_front_loop.simps, auto split: if_splits\<close>)
qed

lemma iov_strict_drop: "IOVector_drop_front v n = Inr v' \<Longrightarrow> iov_strict v \<Longrightarrow> iov_strict v'"
  using iov_strict_drop_loop [of v n 0 v']
  by (auto simp: IOVector_drop_front_def IOVector_clear_def iov_strict_empty result_iff split: if_splits)

lemma iov_strict_front:
  assumes "iov_strict v" "IOVector_size v \<noteq> 0"
  obtains d where "front_size v = Inr (length d)" "front_data v = Inr (Some d)" "d \<noteq> []" "take (length d) (iov_content v) = d"
    "length d \<le> IOVector_size v"
proof -
  have wf: "iov_wf v" using assms(1) by (simp add: iov_strict_def)
  have st: "start_index v < length (chain v)" using assms(2) wf by (intro iov_nonempty_live) (simp_all add: iov_size_content)
  let ?b = "chain v ! start_index v" and ?d = "drop (begin_offset v) (Block_data (chain v ! start_index v))"
  note w = iov_wfD [OF wf st] and c = iov_content_Cons [OF wf st]
  have "begin_offset v < bsize ?b" using assms(1) live_Cons [OF st] by (simp add: iov_strict_def)
  moreover have l: "length ?d = bsize ?b - begin_offset v" using w by simp
  ultimately have ne: "?d \<noteq> []" by auto
  show thesis
  proof (rule that [of ?d])
    show "front_size v = Inr (length ?d)" "front_data v = Inr (Some ?d)" using st l by (auto simp: front_size_def front_data_def)
    show "take (length ?d) (iov_content v) = ?d" "length ?d \<le> IOVector_size v" using c wf by (simp_all add: iov_size_content)
  qed (rule ne)
qed

lemma copy_front_spec:
  "iov_strict v \<Longrightarrow> n < 2 ^ 32 \<Longrightarrow>
     \<exists>v'. copy_front n v = Inr (take n (iov_content v), v') \<and> iov_strict v' \<and> iov_content v' = drop n (iov_content v)"
proof (induction n v rule: copy_front.induct)
  case (1 n v)
  have sz: "IOVector_size v = length (iov_content v)" using 1(2) iov_size_content by (simp add: iov_strict_def)
  show ?case
  proof (cases "n > 0 \<and> IOVector_size v \<noteq> 0")
    case True
    obtain d where d: "front_size v = Inr (length d)" "front_data v = Inr (Some d)" "d \<noteq> []" "take (length d) (iov_content v) = d"
      "length d \<le> IOVector_size v" using iov_strict_front [OF 1(2)] True by blast
    let ?len = "min n (length d)"
    have l: "?len \<noteq> 0" "?len \<le> IOVector_size v" "?len < 2 ^ 32" using True d(3,5) 1(3) by auto
    obtain v1 where v1: "IOVector_drop_front v ?len = Inr v1" "iov_content v1 = drop ?len (iov_content v)"
      using IOVector_drop_front_correct [OF _ l(2,3)] 1(2) by (auto simp: iov_strict_def)
    have s1: "iov_strict v1" using iov_strict_drop [OF v1(1) 1(2)] .
    obtain v2 where v2: "copy_front (n - ?len) v1 = Inr (take (n - ?len) (iov_content v1), v2)" "iov_strict v2"
        "iov_content v2 = drop (n - ?len) (iov_content v1)"
      using 1(1) [OF True d(1,2) refl l(1) v1(1) s1] less_imp_diff_less [OF 1(3)] by blast
    have "take ?len d = take ?len (iov_content v)" using d(4) by (metis min.cobounded2 take_take min.absorb1)
    moreover have "take ?len (iov_content v) @ take (n - ?len) (drop ?len (iov_content v)) = take n (iov_content v)"
      by (metis le_add_diff_inverse min.cobounded1 take_add)
    moreover have "drop (n - ?len) (drop ?len (iov_content v)) = drop n (iov_content v)" by simp
    ultimately show ?thesis using True d(1,2) l(1) v1 v2 by (subst copy_front.simps) (simp add: Let_def)
  next
    case False
    then show ?thesis using 1(2) sz by (subst copy_front.simps) auto
  qed
qed

section \<open>The copying codecs keep the contracts\<close>

definition null_state :: "null_codec \<Rightarrow> string \<Rightarrow> string \<Rightarrow> bool \<Rightarrow> bool" where
  "null_state d i out f \<longleftrightarrow> iov_strict (input_buffer d) \<and> i = out @ iov_content (input_buffer d) \<and> finished d = f"

definition null_pending :: "null_codec \<Rightarrow> nat" where
  "null_pending d = length (iov_content (input_buffer d))"

definition codec_block :: nat where "codec_block = 65536"

lemma null_append_state: "null_state d i out f \<Longrightarrow> null_state (null_append b d) (i @ b) out f"
  using IOVector_append_correct [of "input_buffer d" "Block_of b"] iov_strict_append [of "input_buffer d" "Block_of b"]
  by (simp add: null_state_def null_append_def iov_strict_def)

lemma null_finish_state: "null_state d i out False \<Longrightarrow> \<exists>d'. null_finish d = Inr d' \<and> null_state d' i out True"
  by (simp add: null_finish_def null_state_def)

lemma null_copy:
  assumes "null_state d i out f" "0 < n" "n < 2 ^ 32"
  obtains b v where "copy_front n (input_buffer d) = Inr (b, v)" "null_state (d\<lparr>input_buffer := v\<rparr>) i (out @ b) f" "length b \<le> n"
    "IOVector_size v = 0 \<longleftrightarrow> i = out @ b" "IOVector_size v \<noteq> 0 \<longrightarrow> null_pending (d\<lparr>input_buffer := v\<rparr>) < null_pending d"
proof -
  obtain v where v: "copy_front n (input_buffer d) = Inr (take n (iov_content (input_buffer d)), v)" "iov_strict v"
      "iov_content v = drop n (iov_content (input_buffer d))"
    using copy_front_spec [of "input_buffer d" n] assms by (auto simp: null_state_def)
  have "IOVector_size v = length (iov_content v)" using v(2) iov_size_content by (simp add: iov_strict_def)
  moreover have "length (iov_content (input_buffer d)) \<le> n \<longleftrightarrow> iov_content (input_buffer d) = take n (iov_content (input_buffer d))"
    by (metis take_all_iff)
  ultimately show thesis
    by (intro that [OF v(1)]) (use v assms in \<open>auto simp: null_state_def null_pending_def\<close>)
qed

interpretation null_decoder: decoder "NullDecoder codec_block" new_null_codec null_state Some null_pending codec_block
proof unfold_locales
  show "null_state new_null_codec [] [] False" by (simp add: null_state_def new_null_codec_def iov_strict_empty)
  show "null_state (d_append (NullDecoder codec_block) b d) (i @ b) out f" if "null_state d i out f" for d i out f b
    using null_append_state [OF that] by (simp add: NullDecoder_def)
  show "\<exists>d'. d_finish (NullDecoder codec_block) d = Inr d' \<and> null_state d' i out True" if "null_state d i out False" for d i out
    using null_finish_state [OF that] by (simp add: NullDecoder_def)
  show "\<exists>e. d_finish (NullDecoder codec_block) d = Inl e" if "null_state d i out True" for d i out
    using that by (simp add: NullDecoder_def null_state_def null_finish_def)
  show "\<exists>r b d'. d_decode (NullDecoder codec_block) d = Inr (r, b, d') \<and> (r \<noteq> Decode_Error \<longrightarrow> null_state d' i (out @ b) f) \<and>
      (r = Decode_Done \<longrightarrow> f \<and> Some i = Some (out @ b)) \<and> (r = Decode_MoreOutput \<longrightarrow> null_pending d' < null_pending d)"
    if "null_state d i out f" for d i out f
    using that
  proof (rule null_copy [where n = codec_block])
    fix b v
    assume "copy_front codec_block (input_buffer d) = Inr (b, v)" "null_state (d\<lparr>input_buffer := v\<rparr>) i (out @ b) f"
      "IOVector_size v = 0 \<longleftrightarrow> i = out @ b" "IOVector_size v \<noteq> 0 \<longrightarrow> null_pending (d\<lparr>input_buffer := v\<rparr>) < null_pending d"
    then show ?thesis using that by (auto simp: NullDecoder_def NullDecoder_Decode_def null_state_def)
  qed (simp_all add: codec_block_def)
qed

interpretation null_encoder: encoder "NullEncoder codec_block" new_null_codec null_state Some null_pending codec_block
proof unfold_locales
  show "null_state new_null_codec [] [] False" by (simp add: null_state_def new_null_codec_def iov_strict_empty)
  show "null_state (e_append (NullEncoder codec_block) b d) (i @ b) out False" if "null_state d i out False" for d i out b
    using null_append_state [OF that] by (simp add: NullEncoder_def)
  show "\<exists>d'. e_finish (NullEncoder codec_block) d = Inr d' \<and> null_state d' i out True" if "null_state d i out False" for d i out
    using null_finish_state [OF that] by (simp add: NullEncoder_def)
  show "\<exists>r b d'. e_encode (NullEncoder codec_block) d = Inr (r, b, d') \<and> length b \<le> codec_block \<and> (r \<noteq> Encode_Error \<longrightarrow> null_state d' i (out @ b) f) \<and>
      (r = Encode_Done \<longrightarrow> f \<and> Some (out @ b) = Some i) \<and> (r = Encode_MoreOutput \<longrightarrow> null_pending d' < null_pending d) \<and> (r = Encode_NeedInput \<longrightarrow> \<not> f)"
    if "null_state d i out f" for d i out f
    using that
  proof (rule null_copy [where n = codec_block])
    fix b v
    assume "copy_front codec_block (input_buffer d) = Inr (b, v)" "null_state (d\<lparr>input_buffer := v\<rparr>) i (out @ b) f" "length b \<le> codec_block"
      "IOVector_size v = 0 \<longleftrightarrow> i = out @ b" "IOVector_size v \<noteq> 0 \<longrightarrow> null_pending (d\<lparr>input_buffer := v\<rparr>) < null_pending d"
    then show ?thesis using that by (auto simp: NullEncoder_def NullEncoder_Encode_def null_state_def)
  qed (simp_all add: codec_block_def)
qed

end
