(* ===== verification/Sync_Pull.thy ===== *)
theory Sync_Pull
  imports Sync_Protocol Sync_Codec
begin

text \<open>
  Pulling one file from a device: \<open>sync_recv_v1\<close> and \<open>sync_recv_v2\<close> of \<open>adb/lib/src/file_sync_client.cpp\<close>. What comes
  from the device is arbitrary.
\<close>

section \<open>Local files\<close>

text \<open>
  The answers of the local system, each as a function of the calls that have changed files before: whether a file can be created, what \<open>stat\<close> says (an error number or a status), the results \<open>mkdirs\<close>
  depends on, and whether times and permissions can be set. A file of the process can be removed.
\<close>

record host =
  creat_ok :: "string list \<Rightarrow> string \<Rightarrow> bool"
  host_stat :: "string list \<Rightarrow> string \<Rightarrow> int + file_stat"
  mkdir_ok :: "string list \<Rightarrow> string \<Rightarrow> bool"
  exists_after :: "string list \<Rightarrow> string \<Rightarrow> bool"
  attrs_ok :: "string list \<Rightarrow> string \<Rightarrow> bool"

definition adb_unlink :: "string \<Rightarrow> sync_conn \<Rightarrow> sync_conn" where
  "adb_unlink p s = s\<lparr>files := (files s)(p := None), touched := touched s @ [p]\<rparr>"

definition adb_creat :: "host \<Rightarrow> string \<Rightarrow> sync_conn \<Rightarrow> bool \<times> sync_conn" where
  "adb_creat h p s =
     (if creat_ok h (touched s) p then (True, s\<lparr>files := (files s)(p := Some []), touched := touched s @ [p]\<rparr>)
      else (False, s\<lparr>touched := touched s @ [p]\<rparr>))"

text \<open>\<open>WriteFdExactly\<close> on the local file; what was written of the data stays in it.\<close>

definition local_write :: "string \<Rightarrow> string \<Rightarrow> sync_conn \<Rightarrow> (bool \<times> sync_conn) result" where
  "local_write p d s =
     (case WriteFdExactly (disk s) d of
        (StillWriting, _, _) \<Rightarrow> Inl OutOfFuel
      | (r, out, es) \<Rightarrow>
          Inr (r = Written, s\<lparr>disk := es, files := (files s)(p := Some ((case files s p of None \<Rightarrow> [] | Some c \<Rightarrow> c) @ out))\<rparr>))"

section \<open>One file\<close>

text \<open>
  What transferring the file \<open>p\<close> may change: the file itself, the descriptors' scripts and the bookkeeping, but no other file and
  none of the features of the connection; a descriptor that blocks stays one. \<open>local_step\<close> does not read from the connection either.
\<close>

definition same_features :: "sync_conn \<Rightarrow> sync_conn \<Rightarrow> bool" where
  "same_features s s' \<longleftrightarrow> have_stat_v2 s' = have_stat_v2 s \<and> have_ls_v2 s' = have_ls_v2 s \<and> have_sendrecv_v2 s' = have_sendrecv_v2 s \<and>
     have_sendrecv_v2_brotli s' = have_sendrecv_v2_brotli s \<and> have_sendrecv_v2_lz4 s' = have_sendrecv_v2_lz4 s \<and>
     have_sendrecv_v2_zstd s' = have_sendrecv_v2_zstd s \<and> (Again \<in> set (fd_in s') \<longrightarrow> Again \<in> set (fd_in s))"

definition file_step :: "string \<Rightarrow> sync_conn \<Rightarrow> sync_conn \<Rightarrow> bool" where
  "file_step p s s' \<longleftrightarrow> (\<exists>k. touched s' = touched s @ replicate k p) \<and> (\<forall>q. q \<noteq> p \<longrightarrow> files s' q = files s q) \<and> same_features s s'"

definition local_step :: "string \<Rightarrow> sync_conn \<Rightarrow> sync_conn \<Rightarrow> bool" where
  "local_step p s s' \<longleftrightarrow> file_step p s s' \<and> fd_in s' = fd_in s"

lemma file_step_refl [simp]: "file_step p s s" "local_step p s s"
  by (auto simp: file_step_def local_step_def same_features_def intro: exI [of _ 0])

lemma same_features_trans [trans]: "same_features s s1 \<Longrightarrow> same_features s1 s2 \<Longrightarrow> same_features s s2"
  unfolding same_features_def by (elim conjE, intro conjI) simp_all

lemma file_step_trans [trans]:
  assumes "file_step p s s1" "file_step p s1 s2"
  shows "file_step p s s2"
proof -
  obtain j k where "touched s1 = touched s @ replicate j p" "touched s2 = touched s1 @ replicate k p" using assms by (auto simp: file_step_def)
  then have "touched s2 = touched s @ replicate (j + k) p" by (simp add: replicate_add)
  then show ?thesis using assms same_features_trans unfolding file_step_def by auto
qed

lemma local_step_trans [trans]: "local_step p s s1 \<Longrightarrow> local_step p s1 s2 \<Longrightarrow> local_step p s s2"
  using file_step_trans by (auto simp: local_step_def)

lemma local_step_unlink: "local_step p s (adb_unlink p s)"
  by (auto simp: local_step_def file_step_def same_features_def adb_unlink_def intro: exI [of _ 1])

lemma local_step_Error: "local_step p s (Error e s)"
  by (auto simp: local_step_def file_step_def same_features_def Error_def intro: exI [of _ 0])

lemma local_step_counts:
  "local_step p s (s\<lparr>bytes_transferred := n\<rparr>)" "local_step p s (s\<lparr>files_transferred := n\<rparr>)" "local_step p s (s\<lparr>errno := e\<rparr>)"
  by (auto simp: local_step_def file_step_def same_features_def intro: exI [of _ 0])

lemma local_step_write: "local_write p d s = Inr (b, s') \<Longrightarrow> local_step p s s'"
  by (auto simp: local_write_def local_step_def file_step_def same_features_def intro: exI [of _ 0]
      split: prod.splits write_outcome.splits)

lemmas local_steps = local_step_unlink local_step_Error local_step_counts local_step_write

lemma abort_step: "sync_should_abort s = (b, s') \<Longrightarrow> local_step p s s'"
  by (auto simp: sync_should_abort_def local_step_def file_step_def same_features_def intro: exI [of _ 0] split: list.splits if_splits)

lemma ReadFdExactly_again: "ReadFdExactly es n = (r, es') \<Longrightarrow> Again \<in> set es' \<Longrightarrow> Again \<in> set es"
proof (induction es n arbitrary: r es' rule: ReadFdExactly.induct)
  case (1 es n)
  obtain x es1 where x: "adb_read es n = (x, es1)" by fastforce
  have a: "Again \<in> set es1 \<Longrightarrow> Again \<in> set es" using x by (cases "(es, n)" rule: adb_read.cases) (auto split: if_splits)
  show ?case
  proof (cases "n = 0 \<or> (\<forall>bs. x \<noteq> Got bs) \<or> x = Got []")
    case True
    then show ?thesis using 1(2,3) x a by (subst (asm) ReadFdExactly.simps) (auto split: read_return.splits if_splits)
  next
    case False
    then obtain bs where bs: "x = Got bs" "bs \<noteq> []" "n \<noteq> 0" by auto
    obtain r2 es2 where r2: "ReadFdExactly es1 (n - length bs) = (r2, es2)" by fastforce
    then have "es2 = es'" using 1(2) x bs by (subst (asm) ReadFdExactly.simps) (auto split: option.splits)
    then show ?thesis using 1(1) [OF bs(3) x [symmetric] bs(1,2) r2] 1(3) a by simp
  qed
qed

lemma conn_read_again: "conn_read n s = (r, s') \<Longrightarrow> Again \<in> set (fd_in s') \<Longrightarrow> Again \<in> set (fd_in s)"
  using ReadFdExactly_again by (fastforce simp: conn_read_def split: prod.splits option.splits)

lemma read_step: "conn_read n s = (r, s') \<Longrightarrow> file_step p s s'"
  using conn_read_again [of n s r s']
  by (auto simp: conn_read_def file_step_def same_features_def intro: exI [of _ 0] split: prod.splits option.splits)

lemma write_step: "conn_write b s = Inr (r, s') \<Longrightarrow> local_step p s s'"
  by (auto simp: conn_write_def local_step_def file_step_def same_features_def intro: exI [of _ 0] split: prod.splits write_outcome.splits)

lemma report_step: "ReportCopyFailure a b n s = Inr s' \<Longrightarrow> file_step p s s'"
  using read_step file_step_trans local_step_Error [unfolded local_step_def]
  by (fastforce simp: ReportCopyFailure_def split: if_splits prod.splits option.splits)

text \<open>One round of the loop: it returns, or goes on.\<close>

definition recv_v1_step :: "string \<Rightarrow> string \<Rightarrow> sync_conn \<Rightarrow> ((bool \<times> sync_conn) + sync_conn) result" where
  "recv_v1_step rpath lpath s =
     (case sync_should_abort s of
        (True, s0) \<Rightarrow> Inr (Inl (False, adb_unlink lpath s0))
      | (False, s0) \<Rightarrow>
          (case conn_read 8 s0 of
             (None, s1) \<Rightarrow> Inr (Inl (False, adb_unlink lpath s1))
           | (Some b, s1) \<Rightarrow>
               if le32_at b 0 = ID_DONE then Inr (Inl (True, s1\<lparr>files_transferred := Suc (files_transferred s1)\<rparr>))
               else if le32_at b 0 \<noteq> ID_DATA then
                 bind_r (ReportCopyFailure rpath lpath (le32_at b 4) (adb_unlink lpath s1)) (\<lambda>s2. Inr (Inl (False, s2)))
               else if unat (le32_at b 4) > SYNC_DATA_MAX then Inr (Inl (False, adb_unlink lpath (Error (Sync_error ''msg.data.size too large'') s1)))
               else case conn_read (unat (le32_at b 4)) s1 of
                      (None, s2) \<Rightarrow> Inr (Inl (False, adb_unlink lpath s2))
                    | (Some d, s2) \<Rightarrow>
                        bind_r (local_write lpath d s2) (\<lambda>(ok, s3).
                          if \<not> ok then Inr (Inl (False, adb_unlink lpath (Error (Sync_error ''cannot write'') s3)))
                          else Inr (Inr (s3\<lparr>bytes_transferred := bytes_transferred s3 + length d\<rparr>)))))"

lemma recv_v1_step_consumes: "recv_v1_step rpath lpath s = Inr (Inr s') \<Longrightarrow> length (avail_bytes (fd_in s')) < length (avail_bytes (fd_in s))"
  by (auto simp: recv_v1_step_def result_iff local_step_def split: prod.splits bool.splits option.splits if_splits
      dest!: conn_read_length local_step_write abort_step [where p = lpath])

function recv_v1_loop :: "string \<Rightarrow> string \<Rightarrow> sync_conn \<Rightarrow> (bool \<times> sync_conn) result" where
  "recv_v1_loop rpath lpath s =
     (case recv_v1_step rpath lpath s of
        Inl e \<Rightarrow> Inl e
      | Inr (Inl r) \<Rightarrow> Inr r
      | Inr (Inr s') \<Rightarrow> recv_v1_loop rpath lpath s')"
  by pat_completeness auto
termination
  by (relation "measure (\<lambda>(_, _, s). length (avail_bytes (fd_in s)))") (auto dest: recv_v1_step_consumes)

declare recv_v1_loop.simps [simp del]

text \<open>Removing the old file and creating the new one.\<close>

definition open_local_file :: "host \<Rightarrow> string \<Rightarrow> sync_conn \<Rightarrow> bool \<times> sync_conn" where
  "open_local_file h lpath s =
     (case adb_creat h lpath (adb_unlink lpath s) of
        (True, s1) \<Rightarrow> (True, s1)
      | (False, s1) \<Rightarrow> (False, Error (Sync_error ''cannot create'') s1))"

definition sync_recv_v1 :: "host \<Rightarrow> string \<Rightarrow> string \<Rightarrow> sync_conn \<Rightarrow> (bool \<times> sync_conn) result" where
  "sync_recv_v1 h rpath lpath s =
     bind_r (SendRequest ID_RECV_V1 rpath s) (\<lambda>(ok, s1).
       if \<not> ok then Inr (False, s1)
       else case open_local_file h lpath s1 of
              (False, s2) \<Rightarrow> Inr (False, s2)
            | (True, s2) \<Rightarrow> recv_v1_loop rpath lpath s2)"

datatype compression = Comp_none | Comp_any | Comp_brotli | Comp_lz4 | Comp_zstd

definition ResolveCompressionType :: "sync_conn \<Rightarrow> compression \<Rightarrow> compression" where
  "ResolveCompressionType s c =
     (if c = Comp_any then
        (if have_sendrecv_v2_zstd s then Comp_zstd else if have_sendrecv_v2_lz4 s then Comp_lz4
         else if have_sendrecv_v2_brotli s then Comp_brotli else Comp_none)
      else c)"

fun sync_flag :: "compression \<Rightarrow> u32 result" where
  "sync_flag Comp_none = Inr 0"
| "sync_flag Comp_brotli = Inr 1"
| "sync_flag Comp_lz4 = Inr 2"
| "sync_flag Comp_zstd = Inr 4"
| "sync_flag Comp_any = Inl (FatalLog ''unexpected CompressionType::Any'')"

definition SendRecv2 :: "string \<Rightarrow> compression \<Rightarrow> sync_conn \<Rightarrow> (bool \<times> sync_conn) result" where
  "SendRecv2 path c s =
     (if length path > 1024 then Inr (False, (Error (Path_too_long (length path)) s)\<lparr>errno := ENAMETOOLONG\<rparr>)
      else bind_r (sync_flag c) (\<lambda>flags. conn_write (sync_header ID_RECV_V2 (of_nat (length path)) @ path @ le32 ID_RECV_V2 @ le32 flags) s))"

text \<open>The loop around \<open>Decode\<close>; the bound is on the number of outputs one message can have.\<close>

datatype drain_outcome = Drain_failed | Drain_needs_input | Drain_done

fun drain_decoder :: "'d decoder_ops \<Rightarrow> nat \<Rightarrow> string \<Rightarrow> 'd \<Rightarrow> sync_conn \<Rightarrow> (drain_outcome \<times> 'd \<times> sync_conn) result" where
  "drain_decoder ops 0 lpath d s = Inl OutOfFuel"
| "drain_decoder ops (Suc n) lpath d s =
     bind_r (d_decode ops d) (\<lambda>(r, output, d1).
       if r = Decode_Error then Inr (Drain_failed, d1, adb_unlink lpath (Error (Sync_error ''decompress failed'') s))
       else bind_r (if output \<noteq> [] then local_write lpath output s else Inr (True, s)) (\<lambda>(ok, s1).
         if \<not> ok then Inr (Drain_failed, d1, adb_unlink lpath (Error (Sync_error ''cannot write'') s1))
         else let s2 = s1\<lparr>bytes_transferred := bytes_transferred s1 + length output\<rparr>
              in if r = Decode_NeedInput then Inr (Drain_needs_input, d1, s2)
                 else if r = Decode_MoreOutput then drain_decoder ops n lpath d1 s2
                 else Inr (Drain_done, d1, s2\<lparr>files_transferred := Suc (files_transferred s2)\<rparr>)))"

lemma drain_decoder_step: "drain_decoder ops n lpath d s = Inr (r, d', s') \<Longrightarrow> local_step lpath s s'"
proof (induction n arbitrary: d s)
  case (Suc n)
  then obtain r0 out d1 where d: "d_decode ops d = Inr (r0, out, d1)" by (auto simp: result_iff)
  show ?case
  proof (cases "r0 = Decode_Error")
    case True
    then show ?thesis using Suc.prems d local_step_trans [OF local_step_Error local_step_unlink] by auto
  next
    case False
    with Suc.prems d obtain ok s1 where w: "(if out \<noteq> [] then local_write lpath out s else Inr (True, s)) = Inr (ok, s1)"
      by (auto simp: result_iff)
    have f: "local_step lpath s s1" using w local_step_write by (auto split: if_splits)
    let ?s2 = "s1\<lparr>bytes_transferred := bytes_transferred s1 + length out\<rparr>"
    have f2: "local_step lpath s ?s2" using f local_step_counts(1) by (rule local_step_trans)
    show ?thesis
    proof (cases ok)
      case False
      then show ?thesis using Suc.prems d w \<open>r0 \<noteq> Decode_Error\<close> local_step_trans [OF f local_step_trans [OF local_step_Error local_step_unlink]]
        by auto
    next
      case True
      then have e: "(if r0 = Decode_NeedInput then Inr (Drain_needs_input, d1, ?s2)
          else if r0 = Decode_MoreOutput then drain_decoder ops n lpath d1 ?s2
          else Inr (Drain_done, d1, ?s2\<lparr>files_transferred := Suc (files_transferred ?s2)\<rparr>)) = Inr (r, d', s')"
        using Suc.prems d w \<open>r0 \<noteq> Decode_Error\<close> by (simp add: Let_def)
      show ?thesis
      proof (cases r0)
        case Decode_MoreOutput
        with e Suc.IH [of d1 ?s2] show ?thesis using local_step_trans [OF f2] by simp
      next
        case Decode_Done
        with e show ?thesis using local_step_trans [OF f2 local_step_counts(2)] by auto
      qed (use e f2 \<open>r0 \<noteq> Decode_Error\<close> in simp_all)
    qed
  qed
qed simp

definition recv_v2_step :: "'d decoder_ops \<Rightarrow> nat \<Rightarrow> string \<Rightarrow> string \<Rightarrow> 'd \<Rightarrow> sync_conn \<Rightarrow> ((bool \<times> sync_conn) + ('d \<times> sync_conn)) result" where
  "recv_v2_step ops n rpath lpath d s =
     (case sync_should_abort s of
        (True, s0) \<Rightarrow> Inr (Inl (False, adb_unlink lpath s0))
      | (False, s0) \<Rightarrow>
          (case conn_read 8 s0 of
             (None, s1) \<Rightarrow> Inr (Inl (False, adb_unlink lpath s1))
           | (Some b, s1) \<Rightarrow>
               let go_on = (\<lambda>d1 s2. bind_r (drain_decoder ops n lpath d1 s2) (\<lambda>(r, d2, s3).
                     Inr (if r = Drain_failed then Inl (False, s3) else if r = Drain_done then Inl (True, s3) else Inr (d2, s3))))
               in if le32_at b 0 = ID_DONE then bind_r (d_finish ops d) (\<lambda>d1. go_on d1 s1)
                  else if le32_at b 0 \<noteq> ID_DATA then
                    bind_r (ReportCopyFailure rpath lpath (le32_at b 4) (adb_unlink lpath s1)) (\<lambda>s2. Inr (Inl (False, s2)))
                  else if unat (le32_at b 4) > SYNC_DATA_MAX then
                    Inr (Inl (False, adb_unlink lpath (Error (Sync_error ''msg.data.size too large'') s1)))
                  else case conn_read (unat (le32_at b 4)) s1 of
                         (None, s2) \<Rightarrow> Inr (Inl (False, adb_unlink lpath s2))
                       | (Some block, s2) \<Rightarrow> go_on (d_append ops block d) s2))"

lemma recv_v2_step_consumes: "recv_v2_step ops n rpath lpath d s = Inr (Inr (d', s')) \<Longrightarrow> length (avail_bytes (fd_in s')) < length (avail_bytes (fd_in s))"
  by (auto simp: recv_v2_step_def result_iff Let_def local_step_def split: prod.splits bool.splits option.splits if_splits
      dest!: conn_read_length drain_decoder_step abort_step [where p = lpath])

function recv_v2_loop :: "'d decoder_ops \<Rightarrow> nat \<Rightarrow> string \<Rightarrow> string \<Rightarrow> 'd \<Rightarrow> sync_conn \<Rightarrow> (bool \<times> sync_conn) result" where
  "recv_v2_loop ops n rpath lpath d s =
     (case recv_v2_step ops n rpath lpath d s of
        Inl e \<Rightarrow> Inl e
      | Inr (Inl r) \<Rightarrow> Inr r
      | Inr (Inr (d', s')) \<Rightarrow> recv_v2_loop ops n rpath lpath d' s')"
  by pat_completeness auto
termination
  by (relation "measure (\<lambda>(_, _, _, _, _, s). length (avail_bytes (fd_in s)))") (auto dest: recv_v2_step_consumes)

declare recv_v2_loop.simps [simp del]

definition sync_recv_v2 :: "(compression \<Rightarrow> 'd decoder_ops \<times> 'd) \<Rightarrow> nat \<Rightarrow> host \<Rightarrow> string \<Rightarrow> string \<Rightarrow> compression \<Rightarrow> sync_conn \<Rightarrow> (bool \<times> sync_conn) result" where
  "sync_recv_v2 codecs n h rpath lpath c s =
     (let c = ResolveCompressionType s c
      in bind_r (SendRecv2 rpath c s) (\<lambda>(ok, s1).
           if \<not> ok then Inr (False, s1)
           else case open_local_file h lpath s1 of
                  (False, s2) \<Rightarrow> Inr (False, s2)
                | (True, s2) \<Rightarrow> recv_v2_loop (fst (codecs c)) n rpath lpath (snd (codecs c)) s2))"

definition sync_recv :: "(compression \<Rightarrow> 'd decoder_ops \<times> 'd) \<Rightarrow> nat \<Rightarrow> host \<Rightarrow> string \<Rightarrow> string \<Rightarrow> compression \<Rightarrow> sync_conn \<Rightarrow> (bool \<times> sync_conn) result" where
  "sync_recv codecs n h rpath lpath c s =
     (if have_sendrecv_v2 s then sync_recv_v2 codecs n h rpath lpath c s else sync_recv_v1 h rpath lpath s)"

section \<open>Transferring one file\<close>

text \<open>The messages a device sends for a file.\<close>

datatype file_msg = Data_msg string | Done_msg u32

fun msg_bytes :: "file_msg \<Rightarrow> string" where
  "msg_bytes (Data_msg d) = sync_header ID_DATA (of_nat (length d)) @ d"
| "msg_bytes (Done_msg t) = sync_header ID_DONE t"

fun msg_data :: "file_msg \<Rightarrow> string" where
  "msg_data (Data_msg d) = d"
| "msg_data (Done_msg t) = []"

lemma digits_le_value: "map (\<lambda>i. char_of (le_value s div 256 ^ i mod 256)) [0..<length s] = s"
proof (induction s)
  case (Cons c s)
  have "le_value (c # s) mod 256 = byte_val c" "le_value (c # s) div 256 = le_value s" by simp_all
  moreover from this(1) have "char_of (le_value (c # s)) = c" by (metis char_of_mod_256 char_of_char)
  ultimately have "map (\<lambda>i. char_of (le_value (c # s) div 256 ^ i mod 256)) [0..<Suc (length s)] = c # map (\<lambda>i. char_of (le_value s div 256 ^ i mod 256)) [0..<length s]"
    by (simp add: upt_conv_Cons map_Suc_upt [symmetric] div_mult2_eq comp_def del: upt_Suc le_value.simps)
  with Cons show ?case by simp
qed simp

lemma le_value_bound: "le_value s < 256 ^ length s"
proof (induction s)
  case (Cons c s)
  have "byte_val c + 256 * le_value s < 256 * Suc (le_value s)" by simp
  also have "\<dots> \<le> 256 ^ length (c # s)" using Cons by (simp add: Suc_le_eq del: mult_Suc_right)
  finally show ?case by simp
qed simp

lemma le32_le32_decode: "length b = 4 \<Longrightarrow> le32 (le32_decode b) = b"
  using digits_le_value [of b] le_value_bound [of b] by (simp add: le32_def le32_decode_def unat_of_nat upt_rec)

lemma header_bytes: "length b = 8 \<Longrightarrow> sync_header (le32_at b 0) (le32_at b 4) = b"
  using le32_le32_decode [of "take 4 b"] le32_le32_decode [of "drop 4 b"] by (simp add: sync_header_def le32_at_def)

text \<open>A round of the loop either takes one message off the stream or ends the transfer.\<close>

lemma unlink_files [simp]: "files (adb_unlink p s) p = None"
  by (simp add: adb_unlink_def)

lemma report_files: "ReportCopyFailure a b n s = Inr s' \<Longrightarrow> files s' = files s"
  by (auto simp: ReportCopyFailure_def Error_def conn_read_def split: if_splits prod.splits option.splits)

lemma write_files:
  "local_write p d s = Inr (True, s') \<Longrightarrow> files s' p = Some ((case files s p of None \<Rightarrow> [] | Some c \<Rightarrow> c) @ d)"
  using WriteFdExactly_prefix [of "disk s" d] by (fastforce simp: local_write_def split: prod.splits write_outcome.splits)

lemma read_files: "conn_read n s = (r, s') \<Longrightarrow> files s' = files s"
  by (auto simp: conn_read_def split: prod.splits option.splits)

lemma abort_files: "sync_should_abort s = (b, s') \<Longrightarrow> files s' = files s"
  by (auto simp: sync_should_abort_def split: list.splits if_splits)

abbreviation contents :: "string \<Rightarrow> sync_conn \<Rightarrow> string" where
  "contents p s \<equiv> (case files s p of None \<Rightarrow> [] | Some c \<Rightarrow> c)"

lemma step_unlink: "file_step p s s1 \<Longrightarrow> file_step p s (adb_unlink p s1)" "file_step p s s1 \<Longrightarrow> file_step p s (adb_unlink p (Error e s1))"
  using file_step_trans local_step_unlink local_step_Error unfolding local_step_def by blast+

lemma recv_v1_step_cases:
  assumes "recv_v1_step rpath p s = Inr x"
  shows "case x of
      Inl (ok, s') \<Rightarrow> file_step p s s' \<and>
        (if ok then files s' p = files s p \<and> (\<exists>t. avail_bytes (fd_in s) = msg_bytes (Done_msg t) @ avail_bytes (fd_in s')) else files s' p = None)
    | Inr s' \<Rightarrow> file_step p s s' \<and> (\<exists>d. avail_bytes (fd_in s) = msg_bytes (Data_msg d) @ avail_bytes (fd_in s') \<and> files s' p = Some (contents p s @ d))"
proof -
  obtain a s0 where a: "sync_should_abort s = (a, s0)" by fastforce
  obtain r s1 where r: "conn_read 8 s0 = (r, s1)" by fastforce
  have f0: "file_step p s s0" "fd_in s0 = fd_in s" using abort_step [OF a, of p] by (simp_all add: local_step_def)
  have f1: "file_step p s s1" using f0(1) read_step [OF r] by (rule file_step_trans)
  have fl: "files s1 = files s" using abort_files [OF a] read_files [OF r] by simp
  show ?thesis
  proof (cases "a \<or> r = None")
    case True
    then show ?thesis using assms a r step_unlink(1) [OF f0(1)] step_unlink(1) [OF f1] by (cases a) (auto simp: recv_v1_step_def)
  next
    case False
    then obtain b where b: "r = Some b" by auto
    note rd = conn_read_SomeD [OF r [unfolded b]]
    have hd: "sync_header (le32_at b 0) (le32_at b 4) = b" using header_bytes rd(2) by simp
    obtain r2 s2 where r2: "conn_read (unat (le32_at b 4)) s1 = (r2, s2)" by fastforce
    have f2: "file_step p s s2" using f1 read_step [OF r2] by (rule file_step_trans)
    consider (complete) "le32_at b 0 = ID_DONE" | (fail) "le32_at b 0 \<noteq> ID_DONE" "le32_at b 0 \<noteq> ID_DATA"
      | (data) "le32_at b 0 = ID_DATA" "le32_at b 0 \<noteq> ID_DONE" by blast
    then show ?thesis
    proof cases
      case complete
      then have "x = Inl (True, s1\<lparr>files_transferred := Suc (files_transferred s1)\<rparr>)" using assms False a r b by (simp add: recv_v1_step_def)
      moreover have "b = msg_bytes (Done_msg (le32_at b 4))" using complete hd by simp
      ultimately show ?thesis using rd(1) f0(2) fl file_step_trans [OF f1] local_step_counts(2) [of p s1] by (auto simp: local_step_def simp del: msg_bytes.simps)
    next
      case fail
      then obtain s' where "ReportCopyFailure rpath p (le32_at b 4) (adb_unlink p s1) = Inr s'" "x = Inl (False, s')"
        using assms False a r b by (auto simp: recv_v1_step_def result_iff)
      then show ?thesis using file_step_trans [OF step_unlink(1) [OF f1]] report_step report_files by fastforce
    next
      case data
      show ?thesis
      proof (cases "unat (le32_at b 4) > SYNC_DATA_MAX \<or> r2 = None")
        case True
        then show ?thesis using assms False a r b data r2 step_unlink [OF f1] step_unlink(1) [OF f2] by (auto simp: recv_v1_step_def split: if_splits)
      next
        case c: False
        then obtain d where d: "r2 = Some d" by auto
        note rd2 = conn_read_SomeD [OF r2 [unfolded d]]
        have e: "bind_r (local_write p d s2) (\<lambda>(ok, s3).
            if \<not> ok then Inr (Inl (False, adb_unlink p (Error (Sync_error ''cannot write'') s3)))
            else Inr (Inr (s3\<lparr>bytes_transferred := bytes_transferred s3 + length d\<rparr>))) = Inr x"
          using assms False a r b data r2 c d by (simp add: recv_v1_step_def)
        then obtain ok s3 where w: "local_write p d s2 = Inr (ok, s3)" by (auto simp: result_iff)
        note lw = local_step_write [OF w, unfolded local_step_def]
        have f3: "file_step p s s3" using f2 lw file_step_trans by blast
        have "msg_bytes (Data_msg d) = b @ d" using hd data(1) rd2(2) by (simp add: unat_of_nat)
        then show ?thesis using e w write_files [of p d s2 s3] step_unlink(2) [OF f3] file_step_trans [OF f3] local_step_counts(1) [of p s3] lw rd(1) rd2(1) f0(2)
            read_files [OF r2] fl by (cases ok) (auto simp: local_step_def)
      qed
    qed
  qed
qed

text \<open>The same for the second version of the protocol and every decoder that keeps its contract.\<close>

context decoder
begin

lemma drain_spec:
  "drain_decoder ops n p d s = Inr (r, d', s') \<Longrightarrow> state d i out f \<Longrightarrow> files s p = Some out \<Longrightarrow>
     (case r of
        Drain_failed \<Rightarrow> files s' p = None
      | Drain_needs_input \<Rightarrow> (\<exists>c. state d' i c f \<and> files s' p = Some c)
      | Drain_done \<Rightarrow> f \<and> (\<exists>c. files s' p = Some c \<and> expand i = Some c))"
proof (induction n arbitrary: d s out)
  case (Suc n)
  obtain r0 b d1 where d: "d_decode ops d = Inr (r0, b, d1)" "r0 \<noteq> Decode_Error \<longrightarrow> state d1 i (out @ b) f"
      "r0 = Decode_Done \<longrightarrow> f \<and> expand i = Some (out @ b)"
    using state_decode [OF Suc.prems(2)] by blast
  show ?case
  proof (cases "r0 = Decode_Error")
    case True
    then show ?thesis using Suc.prems(1) d(1) by auto
  next
    case False
    with Suc.prems(1) d(1) obtain ok s1 where w: "(if b \<noteq> [] then local_write p b s else Inr (True, s)) = Inr (ok, s1)"
      by (auto simp: result_iff)
    let ?s2 = "s1\<lparr>bytes_transferred := bytes_transferred s1 + length b\<rparr>"
    show ?thesis
    proof (cases ok)
      case False
      then show ?thesis using Suc.prems(1) d(1) w \<open>r0 \<noteq> Decode_Error\<close> by auto
    next
      case True
      have fl: "files ?s2 p = Some (out @ b)" using w True write_files [of p b s s1] Suc.prems(3) by (auto split: if_splits)
      have e: "(if r0 = Decode_NeedInput then Inr (Drain_needs_input, d1, ?s2)
          else if r0 = Decode_MoreOutput then drain_decoder ops n p d1 ?s2
          else Inr (Drain_done, d1, ?s2\<lparr>files_transferred := Suc (files_transferred ?s2)\<rparr>)) = Inr (r, d', s')"
        using Suc.prems(1) d(1) w True \<open>r0 \<noteq> Decode_Error\<close> by (simp add: Let_def)
      show ?thesis
      proof (cases r0)
        case Decode_MoreOutput
        with e Suc.IH [of d1 ?s2 "out @ b"] d(2) fl show ?thesis by simp
      qed (use e d fl \<open>r0 \<noteq> Decode_Error\<close> in auto)
    qed
  qed
qed simp

lemma go_on_cases:
  assumes "bind_r (drain_decoder ops n p d s) (\<lambda>(r, d2, s3). Inr (if r = Drain_failed then Inl (False, s3) else if r = Drain_done then Inl (True, s3) else Inr (d2, s3))) = Inr x"
    "state d i out f" "files s p = Some out"
  shows "case x of
      Inl (ok, s') \<Rightarrow> local_step p s s' \<and> (if ok then f \<and> (\<exists>c. files s' p = Some c \<and> expand i = Some c) else files s' p = None)
    | Inr (d', s') \<Rightarrow> local_step p s s' \<and> (\<exists>c. state d' i c f \<and> files s' p = Some c)"
proof -
  obtain r d2 s3 where r: "drain_decoder ops n p d s = Inr (r, d2, s3)" using assms(1) by (auto simp: result_iff)
  show ?thesis using assms(1) r drain_spec [OF r assms(2,3)] drain_decoder_step [OF r] by (cases r) auto
qed

lemma recv_v2_step_cases:
  assumes "recv_v2_step ops n rpath p d s = Inr x" "state d i out f" "files s p = Some out" "SYNC_DATA_MAX \<le> max_block"
  shows "case x of
      Inl (ok, s') \<Rightarrow> file_step p s s' \<and>
        (if ok then \<exists>m c. avail_bytes (fd_in s) = msg_bytes m @ avail_bytes (fd_in s') \<and> (f \<or> (\<exists>t. m = Done_msg t)) \<and>
             files s' p = Some c \<and> expand (i @ msg_data m) = Some c
         else files s' p = None)
    | Inr (d', s') \<Rightarrow> file_step p s s' \<and>
        (\<exists>m c. avail_bytes (fd_in s) = msg_bytes m @ avail_bytes (fd_in s') \<and> state d' (i @ msg_data m) c (f \<or> (\<exists>t. m = Done_msg t)) \<and> files s' p = Some c)"
proof -
  obtain a s0 where a: "sync_should_abort s = (a, s0)" by fastforce
  obtain r s1 where r: "conn_read 8 s0 = (r, s1)" by fastforce
  have f0: "file_step p s s0" "fd_in s0 = fd_in s" using abort_step [OF a, of p] by (simp_all add: local_step_def)
  have f1: "file_step p s s1" using f0(1) read_step [OF r] by (rule file_step_trans)
  have fl: "files s1 = files s" using abort_files [OF a] read_files [OF r] by simp
  show ?thesis
  proof (cases "a \<or> r = None")
    case True
    then show ?thesis using assms(1) a r step_unlink(1) [OF f0(1)] step_unlink(1) [OF f1] by (cases a) (auto simp: recv_v2_step_def)
  next
    case False
    then obtain b where b: "r = Some b" by auto
    note rd = conn_read_SomeD [OF r [unfolded b]]
    have hd: "sync_header (le32_at b 0) (le32_at b 4) = b" using header_bytes rd(2) by simp
    obtain r2 s2 where r2: "conn_read (unat (le32_at b 4)) s1 = (r2, s2)" by fastforce
    have f2: "file_step p s s2" using f1 read_step [OF r2] by (rule file_step_trans)
    consider (complete) "le32_at b 0 = ID_DONE" | (fail) "le32_at b 0 \<noteq> ID_DONE" "le32_at b 0 \<noteq> ID_DATA"
      | (data) "le32_at b 0 = ID_DATA" "le32_at b 0 \<noteq> ID_DONE" by blast
    then show ?thesis
    proof cases
      case complete
      let ?m = "Done_msg (le32_at b 4)"
      have m: "avail_bytes (fd_in s) = msg_bytes ?m @ avail_bytes (fd_in s1)" using complete hd rd(1) f0(2) by simp
      have "\<not> f"
      proof
        assume "f"
        then obtain e where "d_finish ops d = Inl e" using state_finish_twice [of d i out] assms(2) by auto
        then show False using assms(1) False a r b complete by (simp add: recv_v2_step_def Let_def)
      qed
      then obtain d1 where d1: "d_finish ops d = Inr d1" "state d1 i out True" using state_finish [of d i out] assms(2) by auto
      have "files s1 p = Some out" using fl assms(3) by simp
      from go_on_cases [OF _ d1(2) this, of n x] show ?thesis
        using assms(1) False a r b complete d1(1) m file_step_trans [OF f1]
        by (cases x) (auto simp: recv_v2_step_def Let_def local_step_def simp del: msg_bytes.simps intro!: exI [of _ ?m])
    next
      case fail
      then obtain s' where "ReportCopyFailure rpath p (le32_at b 4) (adb_unlink p s1) = Inr s'" "x = Inl (False, s')"
        using assms False a r b by (auto simp: recv_v2_step_def result_iff)
      then show ?thesis using file_step_trans [OF step_unlink(1) [OF f1]] report_step report_files by fastforce
    next
      case data
      show ?thesis
      proof (cases "unat (le32_at b 4) > SYNC_DATA_MAX \<or> r2 = None")
        case True
        then show ?thesis using assms(1) False a r b data r2 step_unlink [OF f1] step_unlink(1) [OF f2] by (auto simp: recv_v2_step_def split: if_splits)
      next
        case c: False
        then obtain e where e: "r2 = Some e" by auto
        note rd2 = conn_read_SomeD [OF r2 [unfolded e]]
        let ?m = "Data_msg e"
        have "msg_bytes ?m = b @ e" using hd data(1) rd2(2) by (simp add: unat_of_nat)
        then have m: "avail_bytes (fd_in s) = msg_bytes ?m @ avail_bytes (fd_in s2)" using rd(1) rd2(1) f0(2) by simp
        have st: "state (d_append ops e d) (i @ e) out f" using assms(2,4) c rd2(2) by (intro state_append) auto
        have "files s2 p = Some out" using fl read_files [OF r2] assms(3) by simp
        from go_on_cases [OF _ st this, of n x] show ?thesis
          using assms(1) False a r b data r2 c e m file_step_trans [OF f2]
          by (cases x) (auto simp: recv_v2_step_def Let_def local_step_def simp del: msg_bytes.simps intro!: exI [of _ ?m])
      qed
    qed
  qed
qed

lemma recv_v2_loop_spec:
  "recv_v2_loop ops n rpath p d s = Inr (ok, s') \<Longrightarrow> state d i out f \<Longrightarrow> files s p = Some out \<Longrightarrow> SYNC_DATA_MAX \<le> max_block \<Longrightarrow>
     (if ok then \<exists>ms c. avail_bytes (fd_in s) = concat (map msg_bytes ms) @ avail_bytes (fd_in s') \<and> (f \<or> (\<exists>t. Done_msg t \<in> set ms)) \<and>
        files s' p = Some c \<and> expand (i @ concat (map msg_data ms)) = Some c
      else files s' p = None)"
proof (induction "length (avail_bytes (fd_in s))" arbitrary: d s i out f rule: less_induct)
  case less
  obtain x where x: "recv_v2_step ops n rpath p d s = Inr x" using less.prems(1) by (subst (asm) recv_v2_loop.simps) (auto split: sum.splits)
  note c = recv_v2_step_cases [OF x less.prems(2-4)]
  show ?case
  proof (cases x)
    case (Inl r)
    then have "r = (ok, s')" using less.prems(1) x by (subst (asm) recv_v2_loop.simps) simp
    then show ?thesis using c Inl by (auto intro: exI [of _ "[_]"] split: if_splits simp del: msg_bytes.simps)
  next
    case (Inr r)
    obtain d1 s1 where r: "r = (d1, s1)" by fastforce
    have l: "recv_v2_loop ops n rpath p d1 s1 = Inr (ok, s')" using less.prems(1) x Inr r by (subst (asm) recv_v2_loop.simps) simp
    obtain m e where m: "avail_bytes (fd_in s) = msg_bytes m @ avail_bytes (fd_in s1)" "state d1 (i @ msg_data m) e (f \<or> (\<exists>t. m = Done_msg t))" "files s1 p = Some e"
      using c Inr r by auto
    have "length (avail_bytes (fd_in s1)) < length (avail_bytes (fd_in s))" using recv_v2_step_consumes x Inr r by simp
    from less.hyps [OF this l m(2,3) less.prems(4)] show ?thesis
    proof (cases ok)
      case True
      assume "if ok then \<exists>ms c. avail_bytes (fd_in s1) = concat (map msg_bytes ms) @ avail_bytes (fd_in s') \<and>
            ((f \<or> (\<exists>t. m = Done_msg t)) \<or> (\<exists>t. Done_msg t \<in> set ms)) \<and> files s' p = Some c \<and> expand ((i @ msg_data m) @ concat (map msg_data ms)) = Some c
          else files s' p = None"
      with True obtain ms c where "avail_bytes (fd_in s1) = concat (map msg_bytes ms) @ avail_bytes (fd_in s')"
          "f \<or> (\<exists>t. Done_msg t \<in> set (m # ms))" "files s' p = Some c" "expand (i @ msg_data m @ concat (map msg_data ms)) = Some c" by auto
      with m(1) True show ?thesis by (auto intro!: exI [of _ "m # ms"] simp del: msg_bytes.simps)
    qed simp
  qed
qed

end

lemma recv_v1_loop_spec:
  "recv_v1_loop rpath p s = Inr (ok, s') \<Longrightarrow> files s p = Some out \<Longrightarrow>
     (if ok then \<exists>ms. avail_bytes (fd_in s) = concat (map msg_bytes ms) @ avail_bytes (fd_in s') \<and> (\<exists>t. Done_msg t \<in> set ms) \<and>
        files s' p = Some (out @ concat (map msg_data ms))
      else files s' p = None)"
proof (induction "length (avail_bytes (fd_in s))" arbitrary: s out rule: less_induct)
  case less
  obtain x where x: "recv_v1_step rpath p s = Inr x" using less.prems(1) by (subst (asm) recv_v1_loop.simps) (auto split: sum.splits)
  note c = recv_v1_step_cases [OF x]
  show ?case
  proof (cases x)
    case (Inl r)
    then have r: "r = (ok, s')" using less.prems(1) x by (subst (asm) recv_v1_loop.simps) simp
    show ?thesis
    proof (cases ok)
      case True
      with c Inl r obtain t where "avail_bytes (fd_in s) = msg_bytes (Done_msg t) @ avail_bytes (fd_in s')" "files s' p = files s p" by auto
      then show ?thesis using True less.prems(2) by (auto intro!: exI [of _ "[Done_msg t]"])
    qed (use c Inl r in auto)
  next
    case (Inr s1)
    have l: "recv_v1_loop rpath p s1 = Inr (ok, s')" using less.prems(1) x Inr by (subst (asm) recv_v1_loop.simps) simp
    obtain d where d: "avail_bytes (fd_in s) = msg_bytes (Data_msg d) @ avail_bytes (fd_in s1)" "files s1 p = Some (out @ d)"
      using c Inr less.prems(2) by auto
    have "length (avail_bytes (fd_in s1)) < length (avail_bytes (fd_in s))" using recv_v1_step_consumes x Inr by simp
    note IH = less.hyps [OF this l d(2)]
    show ?thesis
    proof (cases ok)
      case True
      with IH obtain ms where "avail_bytes (fd_in s1) = concat (map msg_bytes ms) @ avail_bytes (fd_in s')" "\<exists>t. Done_msg t \<in> set ms"
          "files s' p = Some ((out @ d) @ concat (map msg_data ms))" by auto
      then show ?thesis using True d(1) by (auto intro!: exI [of _ "Data_msg d # ms"])
    qed (use IH in auto)
  qed
qed

text \<open>Whatever the decoder does, only the file itself is touched.\<close>

lemma recv_v1_loop_step: "recv_v1_loop rpath p s = Inr (ok, s') \<Longrightarrow> file_step p s s'"
proof (induction "length (avail_bytes (fd_in s))" arbitrary: s rule: less_induct)
  case less
  obtain x where x: "recv_v1_step rpath p s = Inr x" using less.prems by (subst (asm) recv_v1_loop.simps) (auto split: sum.splits)
  note c = recv_v1_step_cases [OF x]
  show ?case
  proof (cases x)
    case (Inl r)
    then show ?thesis using less.prems x c by (subst (asm) recv_v1_loop.simps) auto
  next
    case (Inr s1)
    then have "recv_v1_loop rpath p s1 = Inr (ok, s')" using less.prems x by (subst (asm) recv_v1_loop.simps) simp
    then show ?thesis using less.hyps recv_v1_step_consumes x Inr c file_step_trans [of p s s1] by simp
  qed
qed

lemma recv_v2_step_step:
  assumes "recv_v2_step ops n rpath p d s = Inr x"
  shows "file_step p s (case x of Inl (_, s') \<Rightarrow> s' | Inr (_, s') \<Rightarrow> s')"
proof -
  obtain a s0 where a: "sync_should_abort s = (a, s0)" by fastforce
  obtain r s1 where r: "conn_read 8 s0 = (r, s1)" by fastforce
  have f0: "file_step p s s0" using abort_step [OF a, of p] by (simp add: local_step_def)
  have f1: "file_step p s s1" using f0 read_step [OF r] by (rule file_step_trans)
  have go: "file_step p s t \<Longrightarrow> bind_r (drain_decoder ops n p e t) (\<lambda>(r, d2, s3). Inr (if r = Drain_failed then Inl (False, s3) else if r = Drain_done then Inl (True, s3) else Inr (d2, s3))) = Inr x \<Longrightarrow>
      file_step p s (case x of Inl (_, s') \<Rightarrow> s' | Inr (_, s') \<Rightarrow> s')" for t e
    using drain_decoder_step [of ops n p e t] file_step_trans [of p s t] by (auto simp: result_iff local_step_def split: if_splits)
  show ?thesis
  proof (cases "a \<or> r = None")
    case True
    then show ?thesis using assms a r step_unlink(1) [OF f0] step_unlink(1) [OF f1] by (cases a) (auto simp: recv_v2_step_def)
  next
    case False
    then obtain b where b: "r = Some b" by auto
    obtain r2 s2 where r2: "conn_read (unat (le32_at b 4)) s1 = (r2, s2)" by fastforce
    have f2: "file_step p s s2" using f1 read_step [OF r2] by (rule file_step_trans)
    consider (complete) "le32_at b 0 = ID_DONE" | (fail) "le32_at b 0 \<noteq> ID_DONE" "le32_at b 0 \<noteq> ID_DATA"
      | (data) "le32_at b 0 = ID_DATA" "le32_at b 0 \<noteq> ID_DONE" by blast
    then show ?thesis
    proof cases
      case complete
      then obtain d1 where "d_finish ops d = Inr d1" using assms False a r b by (auto simp: recv_v2_step_def Let_def result_iff)
      then show ?thesis using go [OF f1, of d1] assms False a r b complete by (simp add: recv_v2_step_def Let_def)
    next
      case fail
      then obtain s' where "ReportCopyFailure rpath p (le32_at b 4) (adb_unlink p s1) = Inr s'" "x = Inl (False, s')"
        using assms False a r b by (auto simp: recv_v2_step_def result_iff)
      then show ?thesis using file_step_trans [OF step_unlink(1) [OF f1]] report_step by fastforce
    next
      case data
      show ?thesis
      proof (cases "unat (le32_at b 4) > SYNC_DATA_MAX \<or> r2 = None")
        case True
        then show ?thesis using assms False a r b data r2 step_unlink [OF f1] step_unlink(1) [OF f2] by (auto simp: recv_v2_step_def split: if_splits)
      next
        case c: False
        then obtain e where e: "r2 = Some e" by auto
        show ?thesis using go [OF f2, of "d_append ops e d"] assms False a r b data r2 c e by (simp add: recv_v2_step_def Let_def)
      qed
    qed
  qed
qed

lemma recv_v2_loop_step: "recv_v2_loop ops n rpath p d s = Inr (ok, s') \<Longrightarrow> file_step p s s'"
proof (induction "length (avail_bytes (fd_in s))" arbitrary: s d rule: less_induct)
  case less
  obtain x where x: "recv_v2_step ops n rpath p d s = Inr x" using less.prems by (subst (asm) recv_v2_loop.simps) (auto split: sum.splits)
  note c = recv_v2_step_step [OF x]
  show ?case
  proof (cases x)
    case (Inl r)
    then show ?thesis using less.prems x c by (subst (asm) recv_v2_loop.simps) auto
  next
    case (Inr r)
    obtain d1 s1 where r: "r = (d1, s1)" by fastforce
    then have "recv_v2_loop ops n rpath p d1 s1 = Inr (ok, s')" using less.prems x Inr by (subst (asm) recv_v2_loop.simps) simp
    then have "file_step p s1 s'" using less.hyps [of s1 d1] recv_v2_step_consumes [of ops n rpath p d s d1 s1] x Inr r by simp
    then show ?thesis using c Inr r file_step_trans [of p s s1] by simp
  qed
qed

lemma open_step: "open_local_file h p s = (ok, s') \<Longrightarrow> local_step p s s' \<and> (if ok then files s' p = Some [] else files s' p = None)"
  by (auto simp: open_local_file_def adb_creat_def adb_unlink_def Error_def local_step_def file_step_def same_features_def intro: exI [of _ "Suc (Suc 0)"]
      split: if_splits prod.splits bool.splits)

lemma conn_write_files: "conn_write b s = Inr (r, s') \<Longrightarrow> files s' = files s"
  by (auto simp: conn_write_def split: prod.splits write_outcome.splits)

lemma too_long_step: "local_step p s ((Error e s)\<lparr>errno := n\<rparr>)" "files ((Error e s)\<lparr>errno := n\<rparr>) = files s"
  using local_step_trans [OF local_step_Error local_step_counts(3)] by (simp_all add: Error_def)

lemma SendRequest_step: "SendRequest i path s = Inr (ok, s') \<Longrightarrow> local_step p s s' \<and> files s' = files s"
  using too_long_step conn_write_files write_step [of _ s ok s' p] by (auto simp: SendRequest_def split: if_splits)

lemma SendRecv2_step: "SendRecv2 path c s = Inr (ok, s') \<Longrightarrow> local_step p s s' \<and> files s' = files s"
  using too_long_step conn_write_files write_step [of _ s ok s' p] by (auto simp: SendRecv2_def result_iff split: if_splits)

text \<open>Both versions: a request, the new file, and the loop.\<close>

lemma recv_shape:
  assumes "bind_r send (\<lambda>(ok, s1). if \<not> ok then Inr (False, s1) else case open_local_file h p s1 of (False, s2) \<Rightarrow> Inr (False, s2) | (True, s2) \<Rightarrow> loop s2) = Inr (ok, s')"
    and send: "\<And>ok1 s1. send = Inr (ok1, s1) \<Longrightarrow> local_step p s s1 \<and> files s1 = files s"
  obtains (unsent) "\<not> ok" "files s' = files s" "file_step p s s'"
  | (uncreated) "\<not> ok" "files s' p = None" "file_step p s s'"
  | (run) s2 where "local_step p s s2" "files s2 p = Some []" "loop s2 = Inr (ok, s')"
proof -
  obtain ok1 s1 where s1: "send = Inr (ok1, s1)" using assms(1) by (auto simp: result_iff)
  obtain ok2 s2 where s2: "open_local_file h p s1 = (ok2, s2)" by fastforce
  note f1 = send [OF s1] and o2 = open_step [OF s2]
  have f2: "local_step p s s2" using f1 o2 local_step_trans by blast
  show thesis
  proof (cases "ok1 \<and> ok2")
    case True
    then show ?thesis using run [OF f2] o2 assms(1) s1 s2 by simp
  next
    case False
    then show ?thesis using assms(1) s1 s2 unsent uncreated f1 f2 o2 by (cases ok1) (auto simp: local_step_def)
  qed
qed

lemma sync_recv_cases:
  assumes "sync_recv codecs n h rpath p c s = Inr (ok, s')"
  obtains (unsent) "\<not> ok" "files s' = files s" "file_step p s s'"
  | (uncreated) "\<not> ok" "files s' p = None" "file_step p s s'"
  | (v1) s2 where "\<not> have_sendrecv_v2 s" "local_step p s s2" "files s2 p = Some []" "recv_v1_loop rpath p s2 = Inr (ok, s')"
  | (v2) s2 ops d where "codecs (ResolveCompressionType s c) = (ops, d)" "local_step p s s2" "files s2 p = Some []" "recv_v2_loop ops n rpath p d s2 = Inr (ok, s')"
proof (cases "have_sendrecv_v2 s")
  case True
  let ?ops = "fst (codecs (ResolveCompressionType s c))" and ?d = "snd (codecs (ResolveCompressionType s c))"
  have od: "codecs (ResolveCompressionType s c) = (?ops, ?d)" by simp
  have "bind_r (SendRecv2 rpath (ResolveCompressionType s c) s) (\<lambda>(ok, s1). if \<not> ok then Inr (False, s1) else case open_local_file h p s1 of
      (False, s2) \<Rightarrow> Inr (False, s2) | (True, s2) \<Rightarrow> recv_v2_loop ?ops n rpath p ?d s2) = Inr (ok, s')"
    using assms True by (simp add: sync_recv_def sync_recv_v2_def Let_def)
  then show thesis by (rule recv_shape) (use SendRecv2_step unsent uncreated v2 od in blast)+
next
  case False
  then have "bind_r (SendRequest ID_RECV_V1 rpath s) (\<lambda>(ok, s1). if \<not> ok then Inr (False, s1) else case open_local_file h p s1 of
      (False, s2) \<Rightarrow> Inr (False, s2) | (True, s2) \<Rightarrow> recv_v1_loop rpath p s2) = Inr (ok, s')"
    using assms by (simp add: sync_recv_def sync_recv_v1_def)
  then show thesis by (rule recv_shape) (use SendRequest_step unsent uncreated v1 False in blast)+
qed

lemma sync_recv_step:
  assumes "sync_recv codecs n h rpath p c s = Inr (ok, s')"
  shows "file_step p s s'"
  using assms
proof (cases rule: sync_recv_cases)
  case (v1 s2)
  then show ?thesis using recv_v1_loop_step [OF v1(4)] file_step_trans [of p s s2 s'] by (simp add: local_step_def)
next
  case (v2 s2 ops d)
  then show ?thesis using recv_v2_loop_step [OF v2(4)] file_step_trans [of p s s2 s'] by (simp add: local_step_def)
qed simp_all

section \<open>A device that answers\<close>

text \<open>The blocks can be written one after the other.\<close>

fun takes :: "write_event list \<Rightarrow> string list \<Rightarrow> bool" where
  "takes es [] = True"
| "takes es (d # ds) = (case WriteFdExactly es d of (Written, _, es') \<Rightarrow> takes es' ds | _ \<Rightarrow> False)"

lemma conn_read_take: "avail_bytes (fd_in s) = b @ r \<Longrightarrow> \<exists>es. conn_read (length b) s = (Some b, s\<lparr>fd_in := es\<rparr>) \<and> avail_bytes es = r"
  using ReadFdExactly_Some [of "fd_in s" b r] by (auto simp: conn_read_def)

lemma conn_read_msg:
  assumes "avail_bytes (fd_in s) = sync_header i k @ r"
  shows "\<exists>b es. conn_read 8 s = (Some b, s\<lparr>fd_in := es\<rparr>) \<and> le32_at b 0 = i \<and> le32_at b 4 = k \<and> avail_bytes es = r"
  using conn_read_take [OF assms] sync_header_at by auto

lemma takes_write:
  assumes "takes (disk s) (d # ds)"
  shows "\<exists>s'. local_write p d s = Inr (True, s') \<and> takes (disk s') ds \<and> files s' p = Some (contents p s @ d) \<and> fd_in s' = fd_in s \<and> observer s' = observer s \<and> fd_out s' = fd_out s"
proof -
  obtain r out es where w: "WriteFdExactly (disk s) d = (r, out, es)" by (metis prod_cases3)
  with assms have r: "r = Written" "takes es ds" by (auto split: write_outcome.splits)
  have "out = d" using WriteFdExactly_prefix [OF w] r(1) by auto
  with w r show ?thesis by (simp add: local_write_def)
qed

text \<open>What is left for the file after this one: the rest of the input, and a local disk that takes its data.\<close>

definition next_file :: "string \<Rightarrow> string list \<Rightarrow> sync_conn \<Rightarrow> sync_conn \<Rightarrow> bool" where
  "next_file rest later s s' \<longleftrightarrow> avail_bytes (fd_in s') = rest \<and> takes (disk s') later \<and> \<not> observer s' \<and> fd_out s' = fd_out s"

lemma recv_v1_progress:
  "\<not> observer s \<Longrightarrow> avail_bytes (fd_in s) = concat (map (\<lambda>d. msg_bytes (Data_msg d)) ds) @ msg_bytes (Done_msg t) @ rest \<Longrightarrow>
     \<forall>d \<in> set ds. length d \<le> SYNC_DATA_MAX \<Longrightarrow> takes (disk s) (ds @ later) \<Longrightarrow> files s p = Some out \<Longrightarrow>
     \<exists>s'. recv_v1_loop rpath p s = Inr (True, s') \<and> files s' p = Some (out @ concat ds) \<and> next_file rest later s s'"
proof (induction ds arbitrary: s out)
  case Nil
  then obtain b es where b: "conn_read 8 s = (Some b, s\<lparr>fd_in := es\<rparr>)" "le32_at b 0 = ID_DONE" "avail_bytes es = rest" using conn_read_msg [of s ID_DONE t rest] by auto
  have "recv_v1_step rpath p s = Inr (Inl (True, (s\<lparr>fd_in := es\<rparr>)\<lparr>files_transferred := Suc (files_transferred s)\<rparr>))"
    using Nil(1) b by (simp add: recv_v1_step_def sync_should_abort_def)
  then show ?case using Nil(1,4,5) b(3) by (subst recv_v1_loop.simps) (simp add: next_file_def)
next
  case (Cons d ds)
  let ?r = "concat (map (\<lambda>d. msg_bytes (Data_msg d)) ds) @ msg_bytes (Done_msg t) @ rest"
  have ld: "unat (of_nat (length d) :: u32) = length d" using Cons.prems(3) by (simp add: unat_of_nat SYNC_DATA_MAX_def)
  obtain b es where b: "conn_read 8 s = (Some b, s\<lparr>fd_in := es\<rparr>)" "le32_at b 0 = ID_DATA" "le32_at b 4 = of_nat (length d)" "avail_bytes es = d @ ?r"
    using conn_read_msg [of s ID_DATA "of_nat (length d)" "d @ ?r"] Cons.prems(2) by auto
  obtain es2 where r2: "conn_read (length d) (s\<lparr>fd_in := es\<rparr>) = (Some d, s\<lparr>fd_in := es2\<rparr>)" "avail_bytes es2 = ?r"
    using conn_read_take [of "s\<lparr>fd_in := es\<rparr>" d ?r] b(4) by auto
  obtain s3 where w: "local_write p d (s\<lparr>fd_in := es2\<rparr>) = Inr (True, s3)" "takes (disk s3) (ds @ later)" "files s3 p = Some (out @ d)" "fd_in s3 = es2" "\<not> observer s3"
      "fd_out s3 = fd_out s"
    using takes_write [of "s\<lparr>fd_in := es2\<rparr>" d "ds @ later" p] Cons.prems(1,4,5) by auto
  let ?s4 = "s3\<lparr>bytes_transferred := bytes_transferred s3 + length d\<rparr>"
  have "recv_v1_step rpath p s = Inr (Inr ?s4)"
    using Cons.prems(1,3) b(1-3) r2(1) w(1) ld by (simp add: recv_v1_step_def sync_should_abort_def sync_ids)
  moreover have "\<exists>s'. recv_v1_loop rpath p ?s4 = Inr (True, s') \<and> files s' p = Some ((out @ d) @ concat ds) \<and> next_file rest later ?s4 s'"
    by (rule Cons.IH) (use w r2(2) Cons.prems(3) in simp_all)
  moreover have "next_file rest later s s'" if "next_file rest later ?s4 s'" for s' using that w(6) by (simp add: next_file_def)
  ultimately show ?case by (subst recv_v1_loop.simps) auto
qed

lemma null_drain:
  assumes "null_state d i out f" "i = out @ b" "length b \<le> SYNC_DATA_MAX" "takes (disk s) (b # ds)" "files s p = Some out" "\<not> observer s"
  shows "\<exists>d' s'. drain_decoder (NullDecoder SYNC_DATA_MAX) (Suc n) p d s = Inr (if f then Drain_done else Drain_needs_input, d', s') \<and> null_state d' i i f \<and>
    takes (disk s') ds \<and> files s' p = Some i \<and> fd_in s' = fd_in s \<and> \<not> observer s' \<and> fd_out s' = fd_out s"
proof -
  have c: "iov_content (input_buffer d) = b" "iov_strict (input_buffer d)" "finished d = f" using assms(1,2) by (simp_all add: null_state_def)
  have big: "SYNC_DATA_MAX < 2 ^ 32" by (simp add: SYNC_DATA_MAX_def)
  obtain v where v: "copy_front SYNC_DATA_MAX (input_buffer d) = Inr (b, v)" "iov_strict v" "iov_content v = []"
    using copy_front_spec [OF c(2) big] c(1) assms(3) by auto
  then have "IOVector_size v = 0" using iov_size_content [of v] by (simp add: iov_strict_def)
  then have dec: "d_decode (NullDecoder SYNC_DATA_MAX) d = Inr (if f then Decode_Done else Decode_NeedInput, b, d\<lparr>input_buffer := v\<rparr>)"
    using v(1) c(3) by (simp add: NullDecoder_def NullDecoder_Decode_def)
  have st: "null_state (d\<lparr>input_buffer := v\<rparr>) i i f" using v c by (simp add: null_state_def)
  obtain s1 where w: "local_write p b s = Inr (True, s1)" "takes (disk s1) ds" "files s1 p = Some i" "fd_in s1 = fd_in s" "\<not> observer s1" "fd_out s1 = fd_out s"
    using takes_write [OF assms(4), of p] assms(2,5,6) by auto
  have "takes (disk s) ds" if "b = []" using assms(4) that by simp
  then show ?thesis using dec st w assms(2,5,6) by (cases "b = []"; cases f) (simp_all add: Let_def)
qed

lemma recv_v2_progress:
  "\<not> observer s \<Longrightarrow> avail_bytes (fd_in s) = concat (map (\<lambda>d. msg_bytes (Data_msg d)) ds) @ msg_bytes (Done_msg t) @ rest \<Longrightarrow>
     \<forall>d \<in> set ds. length d \<le> SYNC_DATA_MAX \<Longrightarrow> takes (disk s) (ds @ later) \<Longrightarrow> files s p = Some out \<Longrightarrow> null_state d out out False \<Longrightarrow>
     \<exists>s'. recv_v2_loop (NullDecoder SYNC_DATA_MAX) (Suc n) rpath p d s = Inr (True, s') \<and> files s' p = Some (out @ concat ds) \<and> next_file rest later s s'"
proof (induction ds arbitrary: s out d)
  case Nil
  let ?ops = "NullDecoder SYNC_DATA_MAX"
  obtain b es where b: "conn_read 8 s = (Some b, s\<lparr>fd_in := es\<rparr>)" "le32_at b 0 = ID_DONE" "avail_bytes es = rest" using conn_read_msg [of s ID_DONE t rest] Nil(2) by auto
  obtain d1 where d1: "d_finish ?ops d = Inr d1" "null_state d1 out out True" using null_finish_state [OF Nil(6)] by (auto simp: NullDecoder_def)
  obtain d2 s2 where d2: "drain_decoder ?ops (Suc n) p d1 (s\<lparr>fd_in := es\<rparr>) = Inr (Drain_done, d2, s2)" "files s2 p = Some out" "takes (disk s2) later" "fd_in s2 = es" "\<not> observer s2" "fd_out s2 = fd_out s"
    using null_drain [OF d1(2), of "[]" "s\<lparr>fd_in := es\<rparr>" later p n] Nil(1,4,5) by auto
  have "recv_v2_step ?ops (Suc n) rpath p d s = Inr (Inl (True, s2))"
    using Nil(1) b d1(1) d2(1) by (simp add: recv_v2_step_def sync_should_abort_def Let_def del: drain_decoder.simps)
  then show ?case using d2(2-6) b(3) by (subst recv_v2_loop.simps) (simp add: next_file_def)
next
  case (Cons e ds)
  let ?ops = "NullDecoder SYNC_DATA_MAX"
  let ?r = "concat (map (\<lambda>d. msg_bytes (Data_msg d)) ds) @ msg_bytes (Done_msg t) @ rest"
  have le: "unat (of_nat (length e) :: u32) = length e" using Cons.prems(3) by (simp add: unat_of_nat SYNC_DATA_MAX_def)
  obtain b es where b: "conn_read 8 s = (Some b, s\<lparr>fd_in := es\<rparr>)" "le32_at b 0 = ID_DATA" "le32_at b 4 = of_nat (length e)" "avail_bytes es = e @ ?r"
    using conn_read_msg [of s ID_DATA "of_nat (length e)" "e @ ?r"] Cons.prems(2) by auto
  obtain es2 where r2: "conn_read (length e) (s\<lparr>fd_in := es\<rparr>) = (Some e, s\<lparr>fd_in := es2\<rparr>)" "avail_bytes es2 = ?r"
    using conn_read_take [of "s\<lparr>fd_in := es\<rparr>" e ?r] b(4) by auto
  have st: "null_state (d_append ?ops e d) (out @ e) out False" using null_append_state [OF Cons.prems(6)] by (simp add: NullDecoder_def)
  obtain d2 s2 where d2: "drain_decoder ?ops (Suc n) p (d_append ?ops e d) (s\<lparr>fd_in := es2\<rparr>) = Inr (Drain_needs_input, d2, s2)"
      "null_state d2 (out @ e) (out @ e) False" "takes (disk s2) (ds @ later)" "files s2 p = Some (out @ e)" "fd_in s2 = es2" "\<not> observer s2" "fd_out s2 = fd_out s"
    using null_drain [OF st refl, of "s\<lparr>fd_in := es2\<rparr>" "ds @ later" p n] Cons.prems(1,3,4,5) by auto
  have "recv_v2_step ?ops (Suc n) rpath p d s = Inr (Inr (d2, s2))"
    using Cons.prems(1,3) b(1-3) r2(1) d2(1) le by (simp add: recv_v2_step_def sync_should_abort_def Let_def sync_ids del: drain_decoder.simps)
  moreover have "\<exists>s'. recv_v2_loop ?ops (Suc n) rpath p d2 s2 = Inr (True, s') \<and> files s' p = Some ((out @ e) @ concat ds) \<and> next_file rest later s2 s'"
    by (rule Cons.IH) (use d2 r2(2) Cons.prems(3) in simp_all)
  moreover have "next_file rest later s s'" if "next_file rest later s2 s'" for s' using that d2(7) by (simp add: next_file_def)
  ultimately show ?case by (subst recv_v2_loop.simps) auto
qed

lemma sync_recv_next:
  assumes "codecs Comp_none = (NullDecoder SYNC_DATA_MAX, new_null_codec)" "\<not> observer s" "length rpath \<le> 1024"
    "\<And>b. b \<noteq> [] \<Longrightarrow> length b \<le> length rpath + 16 \<Longrightarrow> \<exists>es. WriteFdExactly (fd_out s) b = (Written, b, es) \<and> Q es"
    "\<forall>hist. creat_ok h hist lpath" "takes (disk s) (ds @ later)" "\<forall>d \<in> set ds. length d \<le> SYNC_DATA_MAX"
    "avail_bytes (fd_in s) = concat (map (\<lambda>d. msg_bytes (Data_msg d)) ds) @ msg_bytes (Done_msg t) @ rest"
  shows "\<exists>s'. sync_recv codecs (Suc n) h rpath lpath Comp_none s = Inr (True, s') \<and> files s' lpath = Some (concat ds) \<and>
    avail_bytes (fd_in s') = rest \<and> takes (disk s') later \<and> \<not> observer s' \<and> Q (fd_out s')"
proof -
  let ?b1 = "sync_header ID_RECV_V1 (of_nat (length rpath)) @ rpath"
  let ?b2 = "sync_header ID_RECV_V2 (of_nat (length rpath)) @ rpath @ le32 ID_RECV_V2 @ le32 0"
  let ?s = "\<lambda>es b. s\<lparr>fd_out := es, fd_sent := fd_sent s @ b, files := (files s)(lpath := Some []), touched := touched s @ [lpath, lpath]\<rparr>"
  have op: "open_local_file h lpath (s\<lparr>fd_out := es, fd_sent := fd_sent s @ b\<rparr>) = (True, ?s es b)" for es b
    using assms(5) by (simp add: open_local_file_def adb_creat_def adb_unlink_def)
  have "sync_header i k \<noteq> []" for i k using sync_header_simps(1) [of i k] by (metis list.size(3) zero_neq_numeral)
  then have ne: "?b1 \<noteq> []" "?b2 \<noteq> []" by simp_all
  show ?thesis
  proof (cases "have_sendrecv_v2 s")
    case True
    obtain es where es: "WriteFdExactly (fd_out s) ?b2 = (Written, ?b2, es)" "Q es" using assms(4) [OF ne(2)] by auto
    then have "SendRecv2 rpath Comp_none s = Inr (True, s\<lparr>fd_out := es, fd_sent := fd_sent s @ ?b2\<rparr>)"
      using assms(3) by (simp add: SendRecv2_def conn_write_def)
    moreover have "\<exists>s'. recv_v2_loop (NullDecoder SYNC_DATA_MAX) (Suc n) rpath lpath new_null_codec (?s es ?b2) = Inr (True, s') \<and> files s' lpath = Some ([] @ concat ds)
        \<and> next_file rest later (?s es ?b2) s'"
      using assms null_decoder.state_fresh by (intro recv_v2_progress) simp_all
    ultimately show ?thesis using True assms(1) op es(2) by (auto simp: sync_recv_def sync_recv_v2_def ResolveCompressionType_def next_file_def)
  next
    case False
    obtain es where es: "WriteFdExactly (fd_out s) ?b1 = (Written, ?b1, es)" "Q es" using assms(4) [OF ne(1)] by auto
    then have "SendRequest ID_RECV_V1 rpath s = Inr (True, s\<lparr>fd_out := es, fd_sent := fd_sent s @ ?b1\<rparr>)"
      using assms(3) by (simp add: SendRequest_def conn_write_def)
    moreover have "\<exists>s'. recv_v1_loop rpath lpath (?s es ?b1) = Inr (True, s') \<and> files s' lpath = Some ([] @ concat ds) \<and> next_file rest later (?s es ?b1) s'"
      using assms by (intro recv_v1_progress) simp_all
    ultimately show ?thesis using False op es(2) by (auto simp: sync_recv_def sync_recv_v1_def next_file_def)
  qed
qed

text \<open>
  When the request can be sent, the local file can be created and written, and nobody aborts, a device that sends the file in blocks of at most
  64 KiB, followed by the end of the file, succeeds, with either version of the protocol.
\<close>

lemma sync_recv_progress:
  assumes "codecs Comp_none = (NullDecoder SYNC_DATA_MAX, new_null_codec)" "\<not> observer s" "length rpath \<le> 1024"
    "length rpath + 16 \<le> accepted (fd_out s)" "\<forall>hist. creat_ok h hist lpath" "takes (disk s) ds" "\<forall>d \<in> set ds. length d \<le> SYNC_DATA_MAX"
    "avail_bytes (fd_in s) = concat (map (\<lambda>d. msg_bytes (Data_msg d)) ds) @ msg_bytes (Done_msg t) @ rest"
  shows "\<exists>s'. sync_recv codecs (Suc n) h rpath lpath Comp_none s = Inr (True, s') \<and> files s' lpath = Some (concat ds)"
proof -
  have "\<exists>s'. sync_recv codecs (Suc n) h rpath lpath Comp_none s = Inr (True, s') \<and> files s' lpath = Some (concat ds) \<and>
    avail_bytes (fd_in s') = rest \<and> takes (disk s') [] \<and> \<not> observer s' \<and> True"
  proof (rule sync_recv_next)
    show "\<exists>es. WriteFdExactly (fd_out s) b = (Written, b, es) \<and> True" if "length b \<le> length rpath + 16" for b
      using WriteFdExactly_completes [of b "fd_out s"] that assms(4) by simp
    show "takes (disk s) (ds @ [])" using assms(6) by simp
  qed (fact assms)+
  then show ?thesis by auto
qed

section \<open>Properties of a single file\<close>

text \<open>
  C19: A file that is pulled without compression arrives exactly or not at all. Whatever the device sends, however it is cut into reads, and whatever happens to
  the local writes: when the transfer succeeds, the local file is the concatenation of the data in the messages the device
  sent up to its end of the file; when it fails, no part of the file is left behind, or nothing has been touched. No other
  file is changed.
\<close>
theorem pulled_file_exact:
  assumes "sync_recv codecs n h rpath lpath Comp_none s = Inr (ok, s')" "codecs Comp_none = (NullDecoder SYNC_DATA_MAX, new_null_codec)"
  shows "(if ok then \<exists>ms. avail_bytes (fd_in s) = concat (map msg_bytes ms) @ avail_bytes (fd_in s') \<and> (\<exists>t. Done_msg t \<in> set ms) \<and>
            files s' lpath = Some (concat (map msg_data ms))
          else files s' lpath = None \<or> files s' = files s) \<and> (\<forall>q. q \<noteq> lpath \<longrightarrow> files s' q = files s q)"
proof -
  have frame: "\<forall>q. q \<noteq> lpath \<longrightarrow> files s' q = files s q" using sync_recv_step [OF assms(1)] by (simp add: file_step_def)
  have blk: "SYNC_DATA_MAX = codec_block" by (simp add: SYNC_DATA_MAX_def codec_block_def)
  from assms(1) show ?thesis
  proof (cases rule: sync_recv_cases)
    case (v1 s2)
    from recv_v1_loop_spec [OF v1(4,3)] v1(2) frame show ?thesis by (auto simp: local_step_def split: if_splits)
  next
    case (v2 s2 ops d)
    then have d: "ops = NullDecoder codec_block" "d = new_null_codec" using assms(2) blk by (simp_all add: ResolveCompressionType_def)
    from null_decoder.recv_v2_loop_spec [OF v2(4) [unfolded d] null_decoder.state_fresh v2(3)] v2(2) frame blk show ?thesis
      by (auto simp: local_step_def split: if_splits)
  qed (use frame in simp_all)
qed

text \<open>A device that sends eight bytes in two blocks, and the reads cut the messages elsewhere.\<close>

definition sample_host :: host where
  "sample_host = \<lparr>creat_ok = (\<lambda>_ _. True), host_stat = (\<lambda>_ _. Inl ENOENT), mkdir_ok = (\<lambda>_ _. True), exists_after = (\<lambda>_ _. False), attrs_ok = (\<lambda>_ _. True)\<rparr>"

definition sample_messages :: string where
  "sample_messages = concat (map (\<lambda>d. msg_bytes (Data_msg d)) [''hello'', ''abc'']) @ msg_bytes (Done_msg 0)"

definition sample_pull :: sync_conn where
  "sample_pull = (plain_env [Chunk (take 9 sample_messages), Chunk (drop 9 sample_messages)] [Took 100])\<lparr>disk := [Took 5, Took 3]\<rparr>"

lemma sample_messages_length: "length sample_messages = 32"
  by (simp add: sample_messages_def)

lemma sample_pull_simps:
  "avail_bytes (fd_in sample_pull) = concat (map (\<lambda>d. msg_bytes (Data_msg d)) [''hello'', ''abc'']) @ msg_bytes (Done_msg 0) @ []"
  "\<not> observer sample_pull" "accepted (fd_out sample_pull) = 100" "takes (disk sample_pull) [''hello'', ''abc'']" "files sample_pull = Map.empty"
proof -
  have "take 9 sample_messages \<noteq> []" "drop 9 sample_messages \<noteq> []"
    using sample_messages_length take_eq_Nil [of 9 sample_messages] drop_eq_Nil [of 9 sample_messages] by (metis list.size(3) zero_neq_numeral, simp)
  then have "avail_bytes [Chunk (take 9 sample_messages), Chunk (drop 9 sample_messages)] = sample_messages" by simp
  then show "avail_bytes (fd_in sample_pull) = concat (map (\<lambda>d. msg_bytes (Data_msg d)) [''hello'', ''abc'']) @ msg_bytes (Done_msg 0) @ []"
    by (simp add: sample_pull_def plain_env_def sample_messages_def del: msg_bytes.simps avail_bytes.simps)
qed (simp_all add: sample_pull_def plain_env_def)

abbreviation null_codecs :: "compression \<Rightarrow> null_codec decoder_ops \<times> null_codec" where
  "null_codecs \<equiv> (\<lambda>_. (NullDecoder SYNC_DATA_MAX, new_null_codec))"

lemma sample_pull_runs: "\<exists>s'. sync_recv null_codecs (Suc 0) sample_host ''/sdcard/f'' ''f'' Comp_none sample_pull = Inr (True, s') \<and> files s' ''f'' = Some (concat [''hello'', ''abc''])"
  by (rule sync_recv_progress [where t = 0 and rest = "[]"]) (simp_all add: sample_pull_simps sample_host_def SYNC_DATA_MAX_def del: msg_bytes.simps takes.simps)

theorem pulled_file_exact_witness:
  "\<exists>s'. sync_recv null_codecs (Suc 0) sample_host ''/sdcard/f'' ''f'' Comp_none sample_pull = Inr (True, s') \<and> files s' ''f'' = Some ''helloabc'' \<and>
     (\<exists>ms. sample_messages = concat (map msg_bytes ms) @ avail_bytes (fd_in s') \<and> concat (map msg_data ms) = ''helloabc'') \<and> files s' ''g'' = None"
proof -
  obtain s' where s': "sync_recv null_codecs (Suc 0) sample_host ''/sdcard/f'' ''f'' Comp_none sample_pull = Inr (True, s')" "files s' ''f'' = Some (concat [''hello'', ''abc''])"
    using sample_pull_runs by blast
  from pulled_file_exact [OF s'(1) refl] obtain ms where "avail_bytes (fd_in sample_pull) = concat (map msg_bytes ms) @ avail_bytes (fd_in s')"
      "files s' ''f'' = Some (concat (map msg_data ms))" "files s' ''g'' = files sample_pull ''g''" by auto
  moreover have "avail_bytes (fd_in sample_pull) = sample_messages" by (simp add: sample_pull_simps sample_messages_def)
  ultimately show ?thesis using s' by (auto simp: sample_pull_simps(5))
qed

end
