(* ===== verification/Sync_Pull_Dir.thy ===== *)
theory Sync_Pull_Dir
  imports Sync_Pull
begin

text \<open>
  Pulling directories from a device: \<open>remote_build_list\<close>, \<open>copy_remote_dir_local\<close> and \<open>do_sync_pull_fd\<close> of
  \<open>adb/lib/src/file_sync_client.cpp\<close>. The names of the files come from the device, which is not trusted.
\<close>

section \<open>Lists of files\<close>

record copyinfo =
  ci_lpath :: string
  ci_rpath :: string
  ci_time :: u64
  ci_mode :: u32
  ci_size :: u64
  ci_skip :: bool

definition with_separator :: "string \<Rightarrow> string" where
  "with_separator p = (if last p = slash then p else p @ [slash])"

text \<open>The last character of an empty string is taken without a check.\<close>

definition ensure_trailing_separators :: "string \<Rightarrow> string \<Rightarrow> (string \<times> string) result" where
  "ensure_trailing_separators l r =
     (if l = [] \<or> r = [] then Inl (Undefined ''back() of an empty string'') else Inr (with_separator l, with_separator r))"

definition new_copyinfo :: "string \<Rightarrow> string \<Rightarrow> string \<Rightarrow> u32 \<Rightarrow> copyinfo result" where
  "new_copyinfo local_path remote_path name mode =
     bind_r (ensure_trailing_separators local_path remote_path) (\<lambda>(l, r).
       bind_r (if S_ISDIR mode then ensure_trailing_separators (l @ name) (r @ name) else Inr (l @ name, r @ name)) (\<lambda>(l, r).
         Inr \<lparr>ci_lpath = l, ci_rpath = r, ci_time = 0, ci_mode = mode, ci_size = 0, ci_skip = False\<rparr>))"

definition IsDotOrDotDot :: "string \<Rightarrow> bool" where
  "IsDotOrDotDot name \<longleftrightarrow> name = ''.'' \<or> name = ''..''"

text \<open>The callback of \<open>remote_build_list\<close>, on the lists of files, directories and links.\<close>

definition list_entry :: "string \<Rightarrow> string \<Rightarrow> dent \<Rightarrow> copyinfo list \<times> copyinfo list \<times> copyinfo list \<Rightarrow> (copyinfo list \<times> copyinfo list \<times> copyinfo list) result" where
  "list_entry rpath lpath e = (\<lambda>(file_list, dirlist, linklist).
     if IsDotOrDotDot (dent_name e) then Inr (file_list, dirlist, linklist)
     else bind_r (new_copyinfo lpath rpath (dent_name e) (dent_mode e)) (\<lambda>ci.
       if S_ISDIR (dent_mode e) then Inr (file_list, dirlist @ [ci], linklist)
       else if S_ISLNK (dent_mode e) then Inr (file_list, dirlist, linklist @ [ci])
       else Inr (file_list @ [ci\<lparr>ci_skip := \<not> should_pull_file (ci_mode ci), ci_time := dent_mtime e, ci_size := dent_size e\<rparr>], dirlist, linklist)))"

primrec list_entries :: "string \<Rightarrow> string \<Rightarrow> dent list \<Rightarrow> copyinfo list \<times> copyinfo list \<times> copyinfo list \<Rightarrow> (copyinfo list \<times> copyinfo list \<times> copyinfo list) result" where
  "list_entries rpath lpath [] ls = Inr ls"
| "list_entries rpath lpath (e # es) ls = bind_r (list_entry rpath lpath e ls) (list_entries rpath lpath es)"

text \<open>Links to directories are followed.\<close>

primrec check_links :: "copyinfo list \<Rightarrow> copyinfo list \<Rightarrow> copyinfo list \<Rightarrow> sync_conn \<Rightarrow> (copyinfo list \<times> copyinfo list \<times> sync_conn) result" where
  "check_links [] file_list dirlist s = Inr (file_list, dirlist, s)"
| "check_links (l # ls) file_list dirlist s =
     bind_r (sync_stat_fallback (ci_rpath l) s) (\<lambda>(st, s1). case st of
       None \<Rightarrow> check_links ls file_list dirlist s1
     | Some st \<Rightarrow>
         if S_ISDIR (st_mode st) then check_links ls file_list (dirlist @ [l]) s1
         else check_links ls (file_list @ [l]) dirlist s1)"

text \<open>The recursive calls, in order.\<close>

primrec build_dirs :: "(string \<Rightarrow> string \<Rightarrow> copyinfo list \<Rightarrow> sync_conn \<Rightarrow> (bool \<times> copyinfo list \<times> sync_conn) result)
    \<Rightarrow> copyinfo list \<Rightarrow> copyinfo list \<Rightarrow> sync_conn \<Rightarrow> (bool \<times> copyinfo list \<times> sync_conn) result" where
  "build_dirs build [] file_list s = Inr (True, file_list, s)"
| "build_dirs build (c # cs) file_list s =
     bind_r (build (ci_rpath c) (ci_lpath c) file_list s) (\<lambda>(ok, file_list, s1).
       if \<not> ok then Inr (False, file_list, s1) else build_dirs build cs file_list s1)"

definition build_list_body :: "(string \<Rightarrow> string \<Rightarrow> copyinfo list \<Rightarrow> sync_conn \<Rightarrow> (bool \<times> copyinfo list \<times> sync_conn) result)
    \<Rightarrow> string \<Rightarrow> string \<Rightarrow> copyinfo list \<Rightarrow> sync_conn \<Rightarrow> (bool \<times> copyinfo list \<times> sync_conn) result" where
  "build_list_body build rpath lpath file_list s =
     bind_r (new_copyinfo (Dirname lpath) (Dirname rpath) (Basename lpath) S_IFDIR) (\<lambda>ci.
     bind_r (sync_ls rpath s) (\<lambda>(ok, es, s1).
     bind_r (list_entries rpath lpath es (file_list @ [ci], [], [])) (\<lambda>(file_list, dirlist, linklist).
       if \<not> ok then Inr (False, file_list, s1)
       else bind_r (check_links linklist file_list dirlist s1) (\<lambda>(file_list, dirlist, s2).
         build_dirs build (rev dirlist) file_list s2))))"

text \<open>The recursion is bounded by what there is to read: each level reads the end of a listing.\<close>

primrec build_list_fuel :: "nat \<Rightarrow> string \<Rightarrow> string \<Rightarrow> copyinfo list \<Rightarrow> sync_conn \<Rightarrow> (bool \<times> copyinfo list \<times> sync_conn) result" where
  "build_list_fuel 0 rpath lpath file_list s = Inl OutOfFuel"
| "build_list_fuel (Suc k) rpath lpath file_list s = build_list_body (build_list_fuel k) rpath lpath file_list s"

definition remote_build_list :: "string \<Rightarrow> string \<Rightarrow> copyinfo list \<Rightarrow> sync_conn \<Rightarrow> (bool \<times> copyinfo list \<times> sync_conn) result" where
  "remote_build_list rpath lpath file_list s = build_list_fuel (Suc (length (avail_bytes (fd_in s)))) rpath lpath file_list s"

section \<open>Copying\<close>

definition set_time_and_mode :: "host \<Rightarrow> string \<Rightarrow> sync_conn \<Rightarrow> bool \<times> sync_conn" where
  "set_time_and_mode h p s = (attrs_ok h (touched s) p, s\<lparr>touched := touched s @ [p, p]\<rparr>)"

definition is_directory :: "host \<Rightarrow> string list \<Rightarrow> string \<Rightarrow> bool" where
  "is_directory h hist p = (case host_stat h hist p of Inl _ \<Rightarrow> False | Inr st \<Rightarrow> S_ISDIR (st_mode st))"

definition make_dirs :: "host \<Rightarrow> string \<Rightarrow> sync_conn \<Rightarrow> bool \<times> sync_conn" where
  "make_dirs h p s =
     (case mkdirs (is_directory h (touched s)) (mkdir_ok h (touched s)) (exists_after h (touched s)) p of
        (ok, made) \<Rightarrow> (ok, s\<lparr>touched := touched s @ made\<rparr>))"

primrec copy_files :: "(compression \<Rightarrow> 'd decoder_ops \<times> 'd) \<Rightarrow> nat \<Rightarrow> host \<Rightarrow> bool \<Rightarrow> compression \<Rightarrow> copyinfo list \<Rightarrow> nat \<Rightarrow> sync_conn \<Rightarrow> (bool \<times> nat \<times> sync_conn) result" where
  "copy_files codecs n h copy_attrs c [] skipped s = Inr (True, skipped, s)"
| "copy_files codecs n h copy_attrs c (ci # cis) skipped s =
     (if ci_skip ci then copy_files codecs n h copy_attrs c cis (Suc skipped) s
      else if S_ISDIR (ci_mode ci) then
        (case make_dirs h (ci_lpath ci) s of
           (False, s1) \<Rightarrow> Inr (False, skipped, Error (Sync_error ''failed to create directory'') s1)
         | (True, s1) \<Rightarrow> copy_files codecs n h copy_attrs c cis skipped s1)
      else bind_r (sync_recv codecs n h (ci_rpath ci) (ci_lpath ci) c s) (\<lambda>(ok, s1).
        if \<not> ok then Inr (False, skipped, s1)
        else if copy_attrs then
          (case set_time_and_mode h (ci_lpath ci) s1 of
             (False, s2) \<Rightarrow> Inr (False, skipped, s2)
           | (True, s2) \<Rightarrow> copy_files codecs n h copy_attrs c cis skipped s2)
        else copy_files codecs n h copy_attrs c cis skipped s1))"

definition copy_remote_dir_local :: "(compression \<Rightarrow> 'd decoder_ops \<times> 'd) \<Rightarrow> nat \<Rightarrow> host \<Rightarrow> string \<Rightarrow> string \<Rightarrow> bool \<Rightarrow> compression \<Rightarrow> sync_conn \<Rightarrow> (bool \<times> sync_conn) result" where
  "copy_remote_dir_local codecs n h rpath lpath copy_attrs c s =
     bind_r (ensure_trailing_separators lpath rpath) (\<lambda>(lpath, rpath).
     bind_r (remote_build_list rpath lpath [] s) (\<lambda>(ok, file_list, s1).
       if \<not> ok then Inr (False, s1)
       else bind_r (copy_files codecs n h copy_attrs c file_list 0 s1) (\<lambda>(ok, skipped, s2).
         if \<not> ok then Inr (False, s2) else Inr (True, s2\<lparr>files_skipped := files_skipped s2 + skipped\<rparr>))))"

section \<open>Pulling\<close>

text \<open>\<open>ReadOrderlyShutdown\<close> waits for the peer to close; the destructor of the connection ends with it.\<close>

definition ReadOrderlyShutdown :: "read_event list \<Rightarrow> (bool \<times> read_event list) result" where
  "ReadOrderlyShutdown es =
     (case adb_read es 16 of
        (ReadAgain, _) \<Rightarrow> Inl (CheckFailed ''errno != EAGAIN'')
      | (ReadFailed, es') \<Rightarrow> Inr (False, es')
      | (ReadClosed, es') \<Rightarrow> Inr (True, es')
      | (Got _, es') \<Rightarrow> Inr (False, es'))"

definition SendQuit :: "sync_conn \<Rightarrow> (bool \<times> sync_conn) result" where
  "SendQuit s = SendRequest ID_QUIT [] s"

definition destroy_SyncConnection :: "sync_conn \<Rightarrow> sync_conn result" where
  "destroy_SyncConnection s =
     bind_r (SendQuit s) (\<lambda>(ok, s1).
       if ok then bind_r (ReadOrderlyShutdown (fd_in s1)) (\<lambda>(_, es). Inr (s1\<lparr>fd_in := es\<rparr>)) else Inr s1)"

text \<open>
  The checks before anything is transferred: \<^const>\<open>None\<close> is an error, otherwise whether the destination exists and whether it is
  a directory. The last character of the destination is read even if it is empty.
\<close>

definition check_destination :: "host \<Rightarrow> string list \<Rightarrow> string \<Rightarrow> sync_conn \<Rightarrow> ((bool \<times> bool) option \<times> sync_conn) result" where
  "check_destination h srcs dst s =
     (let hist = touched s;
          dst_exists = (case host_stat h hist dst of Inl _ \<Rightarrow> False | Inr _ \<Rightarrow> True);
          parent_exists = (case host_stat h hist (Dirname dst) of Inl _ \<Rightarrow> False | Inr _ \<Rightarrow> True);
          dst_isdir = is_directory h hist dst
      in if \<not> dst_exists \<and> \<not> (length srcs = 1 \<and> host_stat h hist dst = Inl ENOENT)
         then Inr (None, Error (Sync_error ''failed to access'') s)
         else if \<not> dst_exists \<and> \<not> parent_exists then Inr (None, Error (Sync_error ''cannot create file/directory'') s)
         else if dst_isdir then Inr (Some (dst_exists, True), s)
         else if length srcs > 1 then Inr (None, Error (Sync_error ''target is not a directory'') s)
         else if dst = [] then Inl OutOfBounds
         else if last dst = slash \<and> dst_exists then Inr (None, Error (Sync_error ''failed to access: Not a directory'') s)
         else Inr (Some (dst_exists, False), s))"

text \<open>One source: \<^const>\<open>None\<close> returns false at once, otherwise what the source adds to \<open>success\<close>.\<close>

definition pull_source :: "(compression \<Rightarrow> 'd decoder_ops \<times> 'd) \<Rightarrow> nat \<Rightarrow> host \<Rightarrow> string \<Rightarrow> bool \<Rightarrow> bool \<Rightarrow> bool \<Rightarrow> compression \<Rightarrow> string \<Rightarrow> sync_conn \<Rightarrow> (bool option \<times> sync_conn) result" where
  "pull_source codecs n h dst dst_exists dst_isdir copy_attrs c src s =
     bind_r (sync_stat_fallback src s) (\<lambda>(st, s1). case st of
       None \<Rightarrow> Inr (Some False, Error (Sync_error (if errno s1 = ENOPROTOOPT then ''remote object does not exist'' else ''failed to stat remote object'')) s1)
     | Some st \<Rightarrow>
         if S_ISDIR (st_mode st) then
           (if dst_exists \<and> \<not> dst_isdir then Inr (None, Error (Sync_error ''target is not a directory'') s1)
            else if dst_exists \<and> dst = [] then Inl (Undefined ''back() of an empty string'')
            else bind_r (copy_remote_dir_local codecs n h src (if dst_exists then with_separator dst @ Basename src else dst) copy_attrs c s1)
                   (\<lambda>(ok, s2). Inr (Some ok, s2)))
         else if \<not> should_pull_file (st_mode st) then Inr (Some True, s1)
         else let dst_path = (if dst_isdir then dst @ slash # Basename src else dst)
              in bind_r (sync_recv codecs n h src dst_path c s1) (\<lambda>(ok, s2).
                   if \<not> ok then Inr (Some False, s2)
                   else if copy_attrs then (case set_time_and_mode h dst_path s2 of (ok3, s3) \<Rightarrow> Inr (Some ok3, s3))
                   else Inr (Some True, s2)))"

primrec pull_sources :: "(compression \<Rightarrow> 'd decoder_ops \<times> 'd) \<Rightarrow> nat \<Rightarrow> host \<Rightarrow> string \<Rightarrow> bool \<Rightarrow> bool \<Rightarrow> bool \<Rightarrow> compression \<Rightarrow> string list \<Rightarrow> bool \<Rightarrow> sync_conn \<Rightarrow> (bool option \<times> sync_conn) result" where
  "pull_sources codecs n h dst dst_exists dst_isdir copy_attrs c [] success s = Inr (Some success, s)"
| "pull_sources codecs n h dst dst_exists dst_isdir copy_attrs c (src # srcs) success s =
     bind_r (pull_source codecs n h dst dst_exists dst_isdir copy_attrs c src s) (\<lambda>(r, s1). case r of
       None \<Rightarrow> Inr (None, s1)
     | Some ok \<Rightarrow> pull_sources codecs n h dst dst_exists dst_isdir copy_attrs c srcs (success \<and> ok) s1)"

text \<open>The result, the number of bytes reported to the caller, and the state once the connection is gone.\<close>

definition do_sync_pull_fd :: "(compression \<Rightarrow> 'd decoder_ops \<times> 'd) \<Rightarrow> nat \<Rightarrow> host \<Rightarrow> bool \<Rightarrow> string list \<Rightarrow> string list \<Rightarrow> string \<Rightarrow> bool \<Rightarrow> compression \<Rightarrow> sync_conn \<Rightarrow> (bool \<times> nat \<times> sync_conn) result" where
  "do_sync_pull_fd codecs n h valid_fd feats srcs dst copy_attrs c env =
     (if \<not> valid_fd then Inr (False, 0, SyncConnection feats env)
      else bind_r (check_destination h srcs dst (SyncConnection feats env)) (\<lambda>(d, s).
             bind_r (case d of
                 None \<Rightarrow> Inr (None, s)
               | Some (dst_exists, dst_isdir) \<Rightarrow> pull_sources codecs n h dst dst_exists dst_isdir copy_attrs c srcs True s) (\<lambda>(r, s1).
               bind_r (destroy_SyncConnection s1) (\<lambda>s2.
                 Inr (r = Some True, if r = None then 0 else bytes_transferred s1, s2)))))"

section \<open>The recursion ends\<close>

lemma SendRequest_in: "SendRequest i path s = Inr (ok, s') \<Longrightarrow> fd_in s' = fd_in s"
  using SendRequest_step [of i path s ok s' "[]"] by (simp add: local_step_def)

lemma FinishStat_avail: "FinishStat s = Inr (r, s') \<Longrightarrow> length (avail_bytes (fd_in s')) \<le> length (avail_bytes (fd_in s))"
  by (auto simp: FinishStat_def split: if_splits prod.splits option.splits dest!: conn_read_length)

lemma sync_stat_avail:
  "sync_stat path s = Inr (r, s') \<Longrightarrow> length (avail_bytes (fd_in s')) \<le> length (avail_bytes (fd_in s))"
  "sync_lstat path s = Inr (r, s') \<Longrightarrow> length (avail_bytes (fd_in s')) \<le> length (avail_bytes (fd_in s))"
  by (auto simp: sync_stat_def sync_lstat_def SendStat_def SendLstat_def result_iff split: if_splits dest!: SendRequest_in FinishStat_avail)

lemma sync_stat_fallback_avail:
  assumes "sync_stat_fallback path s = Inr (r, s')"
  shows "length (avail_bytes (fd_in s')) \<le> length (avail_bytes (fd_in s))"
proof -
  obtain st s1 where 1: "sync_stat path s = Inr (st, s1)" using assms by (auto simp: sync_stat_fallback_def result_iff)
  note a1 = sync_stat_avail(1) [OF 1]
  show ?thesis
  proof (cases "st = None \<and> errno s1 = ENOTSUP")
    case False
    then show ?thesis using assms 1 a1 by (auto simp: sync_stat_fallback_def split: if_splits)
  next
    case True
    then obtain l s2 where 2: "sync_lstat path s1 = Inr (l, s2)" using assms 1 by (auto simp: sync_stat_fallback_def result_iff)
    note a2 = sync_stat_avail(2) [OF 2]
    from True assms 1 2 a1 a2 show ?thesis
      by (auto simp: sync_stat_fallback_def result_iff split: option.splits if_splits dest!: sync_stat_avail(2))
  qed
qed

lemma check_links_avail:
  "check_links ls fs ds s = Inr (fs', ds', s') \<Longrightarrow> length (avail_bytes (fd_in s')) \<le> length (avail_bytes (fd_in s))"
proof (induction ls arbitrary: fs ds s)
  case (Cons l ls)
  from Cons.prems obtain st s1 where 1: "sync_stat_fallback (ci_rpath l) s = Inr (st, s1)" by (auto simp: result_iff)
  then obtain fs1 ds1 where "check_links ls fs1 ds1 s1 = Inr (fs', ds', s')" using Cons.prems by (auto split: option.splits if_splits)
  then show ?case using Cons.IH sync_stat_fallback_avail [OF 1] by (meson le_trans)
qed simp

lemma FinishLsImpl_avail: "FinishLsImpl v2 s = (True, es, s') \<Longrightarrow> length (avail_bytes (fd_in s')) < length (avail_bytes (fd_in s))"
proof (induction v2 s arbitrary: es rule: FinishLsImpl.induct)
  case (1 v2 s)
  obtain r s1 where r: "conn_read (if v2 then 76 else 20) s = (r, s1)" by fastforce
  with 1(2) obtain b where b: "r = Some b" by (subst (asm) FinishLsImpl.simps) (auto split: option.splits)
  have a: "length (avail_bytes (fd_in s1)) < length (avail_bytes (fd_in s))" using conn_read_length [OF r [unfolded b]] by simp
  show ?case
  proof (cases "le32_at b 0 = ID_DONE")
    case True
    then show ?thesis using 1(2) r b a by (subst (asm) FinishLsImpl.simps) simp
  next
    case False
    let ?n = "unat (le32_at b (if v2 then 72 else 16))"
    from False 1(2) r b obtain buf s2 where c: "le32_at b 0 = (if v2 then ID_DENT_V2 else ID_DENT_V1)" "\<not> 255 < ?n" "conn_read ?n s1 = (Some buf, s2)" "slash \<notin> set (c_str buf)"
      by (subst (asm) FinishLsImpl.simps) (auto split: option.splits prod.splits if_splits)
    obtain ok3 es3 s3 where f: "FinishLsImpl v2 s2 = (ok3, es3, s3)" by (metis prod_cases3)
    have "ok3 \<and> s3 = s'" using 1(2) r b c f False by (subst (asm) FinishLsImpl.simps) simp
    then have "length (avail_bytes (fd_in s')) < length (avail_bytes (fd_in s2))"
      using 1(1) [OF r [symmetric] b False _ c(2) c(3) [symmetric] refl c(4)] c(1) f by simp
    then show ?thesis using a conn_read_length [OF c(3)] by simp
  qed
qed

lemma sync_ls_avail: "sync_ls path s = Inr (True, es, s') \<Longrightarrow> length (avail_bytes (fd_in s')) < length (avail_bytes (fd_in s))"
  by (auto simp: sync_ls_def SendLs_def FinishLs_def result_iff split: if_splits dest!: SendRequest_in FinishLsImpl_avail)

text \<open>An argument for all calls of one level, for the two lemmas that follow.\<close>

definition shrinks :: "(string \<Rightarrow> string \<Rightarrow> copyinfo list \<Rightarrow> sync_conn \<Rightarrow> (bool \<times> copyinfo list \<times> sync_conn) result) \<Rightarrow> bool" where
  "shrinks build \<longleftrightarrow> (\<forall>r l fs s fs' s'. build r l fs s = Inr (True, fs', s') \<longrightarrow> length (avail_bytes (fd_in s')) \<le> length (avail_bytes (fd_in s)))"

lemma build_dirs_avail:
  "shrinks build \<Longrightarrow> build_dirs build cs fs s = Inr (True, fs', s') \<Longrightarrow> length (avail_bytes (fd_in s')) \<le> length (avail_bytes (fd_in s))"
proof (induction cs arbitrary: fs s)
  case (Cons c cs)
  from Cons.prems(2) obtain fs1 s1 where "build (ci_rpath c) (ci_lpath c) fs s = Inr (True, fs1, s1)" "build_dirs build cs fs1 s1 = Inr (True, fs', s')"
    by (auto simp: result_iff split: if_splits)
  with Cons show ?case unfolding shrinks_def by (meson le_trans)
qed simp

lemma body_shrinks: "shrinks build \<Longrightarrow> shrinks (build_list_body build)"
  unfolding shrinks_def [of "build_list_body build"]
proof (intro allI impI)
  fix r l fs s fs' s'
  assume sh: "shrinks build" and "build_list_body build r l fs s = Inr (True, fs', s')"
  then obtain es s1 fs1 ls ds ds2 fs2 s2 where "sync_ls r s = Inr (True, es, s1)" "check_links ls fs1 ds s1 = Inr (fs2, ds2, s2)"
      "build_dirs build (rev ds2) fs2 s2 = Inr (True, fs', s')"
    by (auto simp: build_list_body_def result_iff split: if_splits)
  then show "length (avail_bytes (fd_in s')) \<le> length (avail_bytes (fd_in s))"
    using sync_ls_avail [of r s es s1] check_links_avail [of ls fs1 ds s1 fs2 ds2 s2] build_dirs_avail [OF sh, of "rev ds2" fs2 s2 fs' s'] by simp
qed

lemma build_list_shrinks: "shrinks (build_list_fuel k)"
proof (induction k)
  case (Suc k)
  then show ?case using body_shrinks [of "build_list_fuel k"] by (simp add: shrinks_def)
qed (simp add: shrinks_def)

lemma build_dirs_cong:
  assumes "shrinks f" "\<And>r l fs s. length (avail_bytes (fd_in s)) < k \<Longrightarrow> f r l fs s = g r l fs s"
  shows "length (avail_bytes (fd_in s)) < k \<Longrightarrow> build_dirs f cs fs s = build_dirs g cs fs s"
proof (induction cs arbitrary: fs s)
  case (Cons c cs)
  have eq: "f (ci_rpath c) (ci_lpath c) fs s = g (ci_rpath c) (ci_lpath c) fs s" using assms(2) Cons.prems by simp
  have "build_dirs f cs fs1 s1 = build_dirs g cs fs1 s1" if "g (ci_rpath c) (ci_lpath c) fs s = Inr (True, fs1, s1)" for fs1 s1
  proof (rule Cons.IH)
    have "f (ci_rpath c) (ci_lpath c) fs s = Inr (True, fs1, s1)" using that eq by simp
    then have "length (avail_bytes (fd_in s1)) \<le> length (avail_bytes (fd_in s))" using assms(1) unfolding shrinks_def by blast
    then show "length (avail_bytes (fd_in s1)) < k" using Cons.prems by simp
  qed
  then show ?case unfolding build_dirs.simps eq by (intro bind_r_cong refl) (auto split: prod.splits)
qed simp

lemma body_cong:
  assumes "shrinks f" "\<And>r l fs s. length (avail_bytes (fd_in s)) < k \<Longrightarrow> f r l fs s = g r l fs s" "length (avail_bytes (fd_in s)) \<le> k"
  shows "build_list_body f r l fs s = build_list_body g r l fs s"
proof -
  have "build_dirs f cs fs2 s2 = build_dirs g cs fs2 s2"
    if "sync_ls r s = Inr (True, es, s1)" "check_links ls fs1 ds s1 = Inr (fs2, ds2, s2)" for es s1 ls fs1 ds fs2 ds2 s2 cs
  proof (rule build_dirs_cong [OF assms(1,2)])
    show "length (avail_bytes (fd_in s2)) < k" using sync_ls_avail [OF that(1)] check_links_avail [OF that(2)] assms(3) by simp
  qed
  then show ?thesis unfolding build_list_body_def by (intro bind_r_cong refl) (auto intro!: bind_r_cong split: prod.splits)
qed

lemma build_list_enough:
  "length (avail_bytes (fd_in s)) < k \<Longrightarrow> length (avail_bytes (fd_in s)) < k' \<Longrightarrow> build_list_fuel k r l fs s = build_list_fuel k' r l fs s"
proof (induction k arbitrary: k' r l fs s)
  case (Suc k)
  then obtain j where j: "k' = Suc j" by (cases k') auto
  let ?n = "length (avail_bytes (fd_in s))"
  have "build_list_body (build_list_fuel k) r l fs s = build_list_body (build_list_fuel j) r l fs s"
  proof (rule body_cong [where k = ?n, OF build_list_shrinks])
    fix r' l' fs' and s' :: sync_conn
    assume "length (avail_bytes (fd_in s')) < ?n"
    then show "build_list_fuel k r' l' fs' s' = build_list_fuel j r' l' fs' s'" using Suc.prems j by (intro Suc.IH) simp_all
  qed simp
  then show ?case using j by simp
qed simp

text \<open>So the function is the one the code defines, for any input.\<close>

lemma remote_build_list_rec: "remote_build_list = build_list_body remote_build_list"
proof (intro ext)
  fix r l fs and s :: sync_conn
  let ?n = "length (avail_bytes (fd_in s))"
  have "build_list_body (build_list_fuel ?n) r l fs s = build_list_body remote_build_list r l fs s"
  proof (rule body_cong [where k = ?n, OF build_list_shrinks])
    fix r' l' fs' and s' :: sync_conn
    assume "length (avail_bytes (fd_in s')) < ?n"
    then show "build_list_fuel ?n r' l' fs' s' = remote_build_list r' l' fs' s'" unfolding remote_build_list_def by (intro build_list_enough) simp_all
  qed simp
  then show "remote_build_list r l fs s = build_list_body remote_build_list r l fs s" by (simp add: remote_build_list_def)
qed

section \<open>Where files are written\<close>

text \<open>The paths at or below a directory, whose further names do not lead up again, and the paths above it.\<close>

definition below :: "string \<Rightarrow> string \<Rightarrow> bool" where
  "below root p \<longleftrightarrow> p \<noteq> [] \<and> is_absolute p = is_absolute root \<and> (\<exists>names. path_parts p = path_parts root @ names \<and> ''..'' \<notin> set names)"

definition above :: "string \<Rightarrow> string \<Rightarrow> bool" where
  "above root p \<longleftrightarrow> prefix (path_parts p) (path_parts root) \<and> (path_parts p = [] \<or> is_absolute p = is_absolute root)"

lemma with_separator_parts:
  assumes "p \<noteq> []"
  shows "path_parts (with_separator p @ name) = path_parts p @ path_parts name" "is_absolute (with_separator p @ name) = is_absolute p" "with_separator p \<noteq> []"
proof -
  show "path_parts (with_separator p @ name) = path_parts p @ path_parts name"
  proof (cases "last p = slash")
    case True
    then have p: "p = butlast p @ slash # []" using append_butlast_last_id [OF assms] by simp
    have "path_parts (p @ name) = path_parts (butlast p) @ path_parts name" using path_parts_append [of "butlast p" name] p by (metis append_Cons append_Nil append_assoc)
    moreover have "path_parts p = path_parts (butlast p)" using path_parts_append [of "butlast p" "[]"] p by simp
    ultimately show ?thesis using True by (simp add: with_separator_def)
  next
    case False
    then show ?thesis using path_parts_append [of p name] by (simp add: with_separator_def)
  qed
qed (use assms in \<open>simp_all add: with_separator_def is_absolute_def\<close>)

definition entry_path :: "string \<Rightarrow> string \<Rightarrow> u32 \<Rightarrow> string" where
  "entry_path l name mode = (if S_ISDIR mode then with_separator (with_separator l @ name) else with_separator l @ name)"

lemma new_copyinfo_eq:
  assumes "l \<noteq> []" "r \<noteq> []"
  shows "new_copyinfo l r name mode =
    Inr \<lparr>ci_lpath = entry_path l name mode, ci_rpath = entry_path r name mode, ci_time = 0, ci_mode = mode, ci_size = 0, ci_skip = False\<rparr>"
  using assms with_separator_parts(3) by (cases "S_ISDIR mode") (simp_all add: new_copyinfo_def ensure_trailing_separators_def entry_path_def)

lemma entry_path_parts:
  assumes "l \<noteq> []"
  shows "path_parts (entry_path l name mode) = path_parts l @ path_parts name" "is_absolute (entry_path l name mode) = is_absolute l" "entry_path l name mode \<noteq> []"
proof -
  let ?p = "with_separator l @ name"
  have p: "?p \<noteq> []" using with_separator_parts(3) assms by simp
  show "path_parts (entry_path l name mode) = path_parts l @ path_parts name" "is_absolute (entry_path l name mode) = is_absolute l" "entry_path l name mode \<noteq> []"
    using with_separator_parts(1,2) [OF assms, of name] with_separator_parts(1,2) [OF p, of "[]"] with_separator_parts(3) [OF p] p by (simp_all add: entry_path_def)
qed

lemma new_copyinfo_parts:
  assumes "new_copyinfo l r name mode = Inr ci"
  shows "path_parts (ci_lpath ci) = path_parts l @ path_parts name" "is_absolute (ci_lpath ci) = is_absolute l" "ci_lpath ci \<noteq> []" "l \<noteq> []" "ci_mode ci = mode"
proof -
  have lr: "l \<noteq> []" "r \<noteq> []" using assms by (auto simp: new_copyinfo_def ensure_trailing_separators_def split: if_splits)
  then show "path_parts (ci_lpath ci) = path_parts l @ path_parts name" "is_absolute (ci_lpath ci) = is_absolute l" "ci_lpath ci \<noteq> []" "l \<noteq> []" "ci_mode ci = mode"
    using assms new_copyinfo_eq [OF lr] entry_path_parts [OF lr(1)] by auto
qed

lemma below_refl: "p \<noteq> [] \<Longrightarrow> below p p"
  by (simp add: below_def)

lemma below_entry:
  assumes "new_copyinfo l r name mode = Inr ci" "below root l" "slash \<notin> set name" "name \<noteq> ''..''"
  shows "below root (ci_lpath ci)"
proof -
  obtain names where n: "path_parts l = path_parts root @ names" "''..'' \<notin> set names" using assms(2) by (auto simp: below_def)
  have "path_parts (ci_lpath ci) = path_parts root @ (names @ path_parts name)" using new_copyinfo_parts(1) [OF assms(1)] n(1) by simp
  moreover have "''..'' \<notin> set (names @ path_parts name)" using n(2) path_parts_name [OF assms(3)] assms(4) by simp
  ultimately show ?thesis using new_copyinfo_parts(2,3) [OF assms(1)] assms(2) unfolding below_def by blast
qed

lemma above_or_below:
  assumes "below root q" "prefix (path_parts p) (path_parts q)" "path_parts p = [] \<or> is_absolute p = is_absolute q" "p \<noteq> []"
  shows "above root p \<or> below root p"
proof -
  obtain names where n: "path_parts q = path_parts root @ names" "''..'' \<notin> set names" "is_absolute q = is_absolute root" using assms(1) by (auto simp: below_def)
  from assms(2) n(1) have "prefix (path_parts p) (path_parts root @ names)" by simp
  then consider "prefix (path_parts p) (path_parts root)" | ns where "path_parts p = path_parts root @ ns" "prefix ns names" by (auto simp: prefix_append)
  then show ?thesis
  proof cases
    case 2
    then have "''..'' \<notin> set ns" using n(2) set_mono_prefix by blast
    then show ?thesis using 2 assms(3,4) n(3) unfolding above_def below_def by fastforce
  qed (use assms(3) n(3) in \<open>simp add: above_def\<close>)
qed

text \<open>The entry for the directory itself.\<close>

lemma above_or_below_self:
  assumes "new_copyinfo (Dirname l) r (Basename l) mode = Inr ci" "below root l"
  shows "above root (ci_lpath ci) \<or> below root (ci_lpath ci)"
proof -
  have l: "l \<noteq> []" "Dirname l \<noteq> []" using assms new_copyinfo_parts(4) by (auto simp: below_def)
  then have d: "Dirname l = dirname_r l" using Dirname_cases by blast
  have "Basename l = basename_r l \<or> Basename l = []" by (simp add: Basename_def Let_def)
  then have "prefix (path_parts (Dirname l) @ path_parts (Basename l)) (path_parts l)" using dirname_basename [OF l(1)] d prefixI by (metis append_Nil2 path_parts_simps(1) prefix_order.refl)
  then show ?thesis using new_copyinfo_parts [OF assms(1)] dirname_basename [OF l(1)] d by (intro above_or_below [OF assms(2)]) simp_all
qed

definition entry_ok :: "string \<Rightarrow> copyinfo \<Rightarrow> bool" where
  "entry_ok root ci \<longleftrightarrow> below root (ci_lpath ci) \<or> (S_ISDIR (ci_mode ci) \<and> above root (ci_lpath ci))"

definition link_ok :: "string \<Rightarrow> copyinfo \<Rightarrow> bool" where
  "link_ok root ci \<longleftrightarrow> below root (ci_lpath ci)"

lemma link_entry_ok: "link_ok root ci \<Longrightarrow> entry_ok root ci"
  by (simp add: link_ok_def entry_ok_def)

lemma FinishLsImpl_names: "FinishLsImpl v2 s = (ok, es, s') \<Longrightarrow> \<forall>e \<in> set es. slash \<notin> set (dent_name e)"
proof (induction v2 s arbitrary: ok es s' rule: FinishLsImpl.induct)
  case (1 v2 s)
  show ?case
  proof (cases "es = []")
    case False
    then obtain b s1 buf s2 where c: "conn_read (if v2 then 76 else 20) s = (Some b, s1)" "le32_at b 0 \<noteq> ID_DONE" "le32_at b 0 = (if v2 then ID_DENT_V2 else ID_DENT_V1)"
        "\<not> 255 < unat (le32_at b (if v2 then 72 else 16))" "conn_read (unat (le32_at b (if v2 then 72 else 16))) s1 = (Some buf, s2)" "slash \<notin> set (c_str buf)"
      using 1(2) by (subst (asm) FinishLsImpl.simps) (auto split: option.splits prod.splits if_splits)
    obtain ok3 es3 s3 where f: "FinishLsImpl v2 s2 = (ok3, es3, s3)" by (metis prod_cases3)
    have "\<forall>e \<in> set es3. slash \<notin> set (dent_name e)"
      using 1(1) [OF c(1) [symmetric] refl c(2) _ c(4) c(5) [symmetric] refl c(6) f] c(3) by simp
    moreover have "es = dent_of v2 b (c_str buf) # es3" using 1(2) c f by (subst (asm) FinishLsImpl.simps) simp
    ultimately show ?thesis using c(6) by (simp add: dent_of_def)
  qed simp
qed

lemma sync_ls_names: "sync_ls path s = Inr (ok, es, s') \<Longrightarrow> \<forall>e \<in> set es. slash \<notin> set (dent_name e)"
  by (auto simp: sync_ls_def FinishLs_def result_iff split: if_splits dest!: FinishLsImpl_names)

lemma list_entry_ok:
  assumes "list_entry r l e (fs, ds, ls) = Inr (fs', ds', ls')" "below root l" "slash \<notin> set (dent_name e)"
    "\<forall>c \<in> set fs. entry_ok root c" "\<forall>c \<in> set ds \<union> set ls. link_ok root c"
  shows "(\<forall>c \<in> set fs'. entry_ok root c) \<and> (\<forall>c \<in> set ds' \<union> set ls'. link_ok root c)"
proof (cases "IsDotOrDotDot (dent_name e)")
  case False
  then obtain ci where ci: "new_copyinfo l r (dent_name e) (dent_mode e) = Inr ci" using assms(1) by (auto simp: list_entry_def result_iff)
  have "below root (ci_lpath ci)" using below_entry [OF ci assms(2,3)] False by (simp add: IsDotOrDotDot_def)
  then show ?thesis using assms(1,4,5) ci False by (auto simp: list_entry_def link_ok_def entry_ok_def split: if_splits)
qed (use assms in \<open>auto simp: list_entry_def\<close>)

lemma list_entries_ok:
  "list_entries r l es (fs, ds, ls) = Inr (fs', ds', ls') \<Longrightarrow> below root l \<Longrightarrow> \<forall>e \<in> set es. slash \<notin> set (dent_name e) \<Longrightarrow>
     \<forall>c \<in> set fs. entry_ok root c \<Longrightarrow> \<forall>c \<in> set ds \<union> set ls. link_ok root c \<Longrightarrow>
     (\<forall>c \<in> set fs'. entry_ok root c) \<and> (\<forall>c \<in> set ds' \<union> set ls'. link_ok root c)"
proof (induction es arbitrary: fs ds ls)
  case (Cons e es)
  from Cons.prems(1) obtain fs1 ds1 ls1 where 1: "list_entry r l e (fs, ds, ls) = Inr (fs1, ds1, ls1)" "list_entries r l es (fs1, ds1, ls1) = Inr (fs', ds', ls')"
    by (auto simp: result_iff)
  have n: "slash \<notin> set (dent_name e)" "\<forall>e \<in> set es. slash \<notin> set (dent_name e)" using Cons.prems(3) by simp_all
  note ok = list_entry_ok [OF 1(1) Cons.prems(2) n(1) Cons.prems(4,5)]
  show ?case by (rule Cons.IH [OF 1(2) Cons.prems(2) n(2) conjunct1 [OF ok] conjunct2 [OF ok]])
qed simp

lemma check_links_ok:
  "check_links ls fs ds s = Inr (fs', ds', s') \<Longrightarrow> \<forall>c \<in> set fs. entry_ok root c \<Longrightarrow> \<forall>c \<in> set ds \<union> set ls. link_ok root c \<Longrightarrow>
     (\<forall>c \<in> set fs'. entry_ok root c) \<and> (\<forall>c \<in> set ds'. link_ok root c)"
proof (induction ls arbitrary: fs ds s)
  case (Cons l ls)
  have l: "link_ok root l" "\<forall>c \<in> set ds \<union> set ls. link_ok root c" using Cons.prems(3) by simp_all
  from Cons.prems(1) obtain st s1 where 1: "sync_stat_fallback (ci_rpath l) s = Inr (st, s1)" by (auto simp: result_iff)
  then consider "check_links ls fs ds s1 = Inr (fs', ds', s')" | "check_links ls fs (ds @ [l]) s1 = Inr (fs', ds', s')" | "check_links ls (fs @ [l]) ds s1 = Inr (fs', ds', s')"
    using Cons.prems(1) by (auto split: option.splits if_splits)
  then show ?case
  proof cases
    case 1
    then show ?thesis using Cons.IH Cons.prems(2) l(2) by blast
  next
    case 2
    have "\<forall>c \<in> set (ds @ [l]) \<union> set ls. link_ok root c" using l by auto
    then show ?thesis using Cons.IH [OF 2 Cons.prems(2)] by blast
  next
    case 3
    have "\<forall>c \<in> set (fs @ [l]). entry_ok root c" using l(1) Cons.prems(2) link_entry_ok by auto
    then show ?thesis using Cons.IH [OF 3 _ l(2)] by blast
  qed
qed simp

text \<open>Building the list keeps the paths in it where they belong, and changes no files.\<close>

definition calm :: "sync_conn \<Rightarrow> sync_conn \<Rightarrow> bool" where
  "calm s s' \<longleftrightarrow> touched s' = touched s \<and> files s' = files s \<and> disk s' = disk s \<and> observer s' = observer s \<and> same_features s s'"

definition builds :: "string \<Rightarrow> (string \<Rightarrow> string \<Rightarrow> copyinfo list \<Rightarrow> sync_conn \<Rightarrow> (bool \<times> copyinfo list \<times> sync_conn) result) \<Rightarrow> bool" where
  "builds root build \<longleftrightarrow> (\<forall>r l fs s ok fs' s'. build r l fs s = Inr (ok, fs', s') \<longrightarrow> below root l \<longrightarrow> (\<forall>c \<in> set fs. entry_ok root c) \<longrightarrow>
     (\<forall>c \<in> set fs'. entry_ok root c) \<and> calm s s')"

lemma calm_refl [simp]: "calm s s"
  by (simp add: calm_def same_features_def)

lemma calm_trans [trans]: "calm s s1 \<Longrightarrow> calm s1 s2 \<Longrightarrow> calm s s2"
  using same_features_trans by (auto simp: calm_def)

lemma calm_read: "conn_read n s = (r, s') \<Longrightarrow> calm s s'"
  using conn_read_again [of n s r s'] by (auto simp: conn_read_def calm_def same_features_def split: prod.splits option.splits)

lemma calm_errno: "calm s s1 \<Longrightarrow> calm s (s1\<lparr>errno := e\<rparr>)"
  by (simp add: calm_def same_features_def)

lemma calm_request: "SendRequest i path s = Inr (ok, s') \<Longrightarrow> calm s s'"
  by (auto simp: SendRequest_def conn_write_def Error_def calm_def same_features_def split: if_splits prod.splits write_outcome.splits)

lemma calm_FinishStat: "FinishStat s = Inr (r, s') \<Longrightarrow> calm s s'"
  by (auto simp: FinishStat_def calm_errno split: if_splits prod.splits option.splits dest!: calm_read)

lemma calm_stat: "sync_stat path s = Inr (r, s') \<Longrightarrow> calm s s'" "sync_lstat path s = Inr (r, s') \<Longrightarrow> calm s s'"
  by (auto simp: sync_stat_def sync_lstat_def SendStat_def SendLstat_def result_iff calm_errno split: if_splits dest!: calm_request calm_FinishStat intro: calm_trans)

lemma calm_fallback:
  assumes "sync_stat_fallback path s = Inr (r, s')"
  shows "calm s s'"
proof -
  obtain st s1 where 1: "sync_stat path s = Inr (st, s1)" using assms by (auto simp: sync_stat_fallback_def result_iff)
  note q1 = calm_stat(1) [OF 1]
  show ?thesis
  proof (cases "st = None \<and> errno s1 = ENOTSUP")
    case False
    then show ?thesis using assms 1 q1 by (auto simp: sync_stat_fallback_def split: if_splits)
  next
    case True
    then obtain l s2 where 2: "sync_lstat path s1 = Inr (l, s2)" using assms 1 by (auto simp: sync_stat_fallback_def result_iff)
    have "calm s s2" using q1 calm_stat(2) [OF 2] calm_trans by blast
    with True assms 1 2 show ?thesis
      by (auto simp: sync_stat_fallback_def result_iff split: option.splits if_splits dest!: calm_stat(2) intro: calm_trans)
  qed
qed

lemma calm_links: "check_links ls fs ds s = Inr (fs', ds', s') \<Longrightarrow> calm s s'"
proof (induction ls arbitrary: fs ds s)
  case (Cons l ls)
  from Cons.prems obtain st s1 where 1: "sync_stat_fallback (ci_rpath l) s = Inr (st, s1)" by (auto simp: result_iff)
  then obtain fs1 ds1 where "check_links ls fs1 ds1 s1 = Inr (fs', ds', s')" using Cons.prems by (auto split: option.splits if_splits)
  then show ?case using Cons.IH calm_fallback [OF 1] calm_trans by blast
qed simp

lemma calm_FinishLsImpl: "FinishLsImpl v2 s = (ok, es, s') \<Longrightarrow> calm s s'"
proof (induction v2 s arbitrary: ok es s' rule: FinishLsImpl.induct)
  case (1 v2 s)
  obtain r s1 where r: "conn_read (if v2 then 76 else 20) s = (r, s1)" by fastforce
  note q1 = calm_read [OF r]
  show ?case
  proof (cases r)
    case None
    then show ?thesis using 1(2) r q1 by (subst (asm) FinishLsImpl.simps) simp
  next
    case (Some b)
    let ?n = "unat (le32_at b (if v2 then 72 else 16))"
    obtain r2 s2 where r2: "conn_read ?n s1 = (r2, s2)" by fastforce
    have q2: "calm s s2" using q1 calm_read [OF r2] calm_trans by blast
    show ?thesis
    proof (cases "le32_at b 0 = ID_DONE \<or> le32_at b 0 \<noteq> (if v2 then ID_DENT_V2 else ID_DENT_V1) \<or> 255 < ?n \<or> r2 = None \<or> slash \<in> set (c_str (the r2))")
      case True
      then show ?thesis using 1(2) r r2 Some q1 q2 by (subst (asm) FinishLsImpl.simps) (auto split: if_splits option.splits)
    next
      case False
      then obtain buf where b: "r2 = Some buf" "slash \<notin> set (c_str buf)" by auto
      obtain ok3 es3 s3 where f: "FinishLsImpl v2 s2 = (ok3, es3, s3)" by (metis prod_cases3)
      have "calm s2 s3" using 1(1) [OF r [symmetric] Some _ _ _ r2 [symmetric] b(1,2) f] False by simp
      moreover have "s' = s3" using 1(2) r r2 Some b f False by (subst (asm) FinishLsImpl.simps) simp
      ultimately show ?thesis using q2 calm_trans by blast
    qed
  qed
qed

lemma calm_ls: "sync_ls path s = Inr (ok, es, s') \<Longrightarrow> calm s s'"
  by (auto simp: sync_ls_def SendLs_def FinishLs_def result_iff split: if_splits dest!: calm_request calm_FinishLsImpl intro: calm_trans)

lemma build_dirs_builds:
  "builds root build \<Longrightarrow> build_dirs build cs fs s = Inr (ok, fs', s') \<Longrightarrow> \<forall>c \<in> set cs. link_ok root c \<Longrightarrow> \<forall>c \<in> set fs. entry_ok root c \<Longrightarrow>
     (\<forall>c \<in> set fs'. entry_ok root c) \<and> calm s s'"
proof (induction cs arbitrary: fs s)
  case (Cons c cs)
  from Cons.prems(2) obtain ok1 fs1 s1 where 1: "build (ci_rpath c) (ci_lpath c) fs s = Inr (ok1, fs1, s1)" by (auto simp: result_iff)
  have c: "below root (ci_lpath c)" "\<forall>c \<in> set cs. link_ok root c" using Cons.prems(3) by (simp_all add: link_ok_def)
  have b: "(\<forall>c \<in> set fs1. entry_ok root c) \<and> calm s s1" using Cons.prems(1,4) 1 c(1) unfolding builds_def by blast
  show ?case
  proof (cases ok1)
    case True
    then have "build_dirs build cs fs1 s1 = Inr (ok, fs', s')" using Cons.prems(2) 1 by simp
    from Cons.IH [OF Cons.prems(1) this c(2) conjunct1 [OF b]] b calm_trans show ?thesis by blast
  next
    case False
    then show ?thesis using Cons.prems(2) 1 b by simp
  qed
qed simp

lemma body_builds: "builds root build \<Longrightarrow> builds root (build_list_body build)"
  unfolding builds_def [of root "build_list_body build"]
proof (intro allI impI)
  fix r l fs s ok fs' s'
  assume b: "builds root build" and run: "build_list_body build r l fs s = Inr (ok, fs', s')" and l: "below root l" and fs: "\<forall>c \<in> set fs. entry_ok root c"
  obtain ci ok1 es s1 fs1 ds ls where c: "new_copyinfo (Dirname l) (Dirname r) (Basename l) S_IFDIR = Inr ci" "sync_ls r s = Inr (ok1, es, s1)"
      "list_entries r l es (fs @ [ci], [], []) = Inr (fs1, ds, ls)"
    using run by (auto simp: build_list_body_def result_iff)
  have "entry_ok root ci" using above_or_below_self [OF c(1) l] new_copyinfo_parts(5) [OF c(1)] by (auto simp: entry_ok_def S_ISDIR_def S_IFDIR_def S_IFMT_def)
  then have "\<forall>c \<in> set (fs @ [ci]). entry_ok root c" using fs by auto
  from list_entries_ok [OF c(3) l sync_ls_names [OF c(2)] this] have ok1: "\<forall>c \<in> set fs1. entry_ok root c" "\<forall>c \<in> set ds \<union> set ls. link_ok root c" by auto
  note q1 = calm_ls [OF c(2)]
  show "(\<forall>c \<in> set fs'. entry_ok root c) \<and> calm s s'"
  proof (cases ok1)
    case True
    then obtain fs2 ds2 s2 where 2: "check_links ls fs1 ds s1 = Inr (fs2, ds2, s2)" "build_dirs build (rev ds2) fs2 s2 = Inr (ok, fs', s')"
      using run c by (auto simp: build_list_body_def result_iff)
    note o2 = check_links_ok [OF 2(1) ok1] and q2 = calm_links [OF 2(1)]
    have "\<forall>c \<in> set (rev ds2). link_ok root c" using o2 by simp
    from build_dirs_builds [OF b 2(2) this conjunct1 [OF o2]] q1 q2 calm_trans show ?thesis by blast
  next
    case False
    then show ?thesis using run c ok1(1) q1 by (simp add: build_list_body_def)
  qed
qed

lemma remote_build_list_builds: "builds root remote_build_list"
proof -
  have "builds root (build_list_fuel k)" for k
  proof (induction k)
    case (Suc k)
    then show ?case using body_builds [of root "build_list_fuel k"] by (simp add: builds_def)
  qed (simp add: builds_def)
  then show ?thesis unfolding builds_def remote_build_list_def by blast
qed

text \<open>What copying does to the local files.\<close>

definition contained :: "string \<Rightarrow> sync_conn \<Rightarrow> sync_conn \<Rightarrow> bool" where
  "contained root s s' \<longleftrightarrow> (\<exists>ps. touched s' = touched s @ ps \<and> (\<forall>p \<in> set ps. above root p \<or> below root p)) \<and>
     (\<forall>p. files s' p \<noteq> files s p \<longrightarrow> below root p)"

lemma contained_refl [simp]: "contained root s s"
  by (simp add: contained_def)

lemma contained_trans [trans]: "contained root s s1 \<Longrightarrow> contained root s1 s2 \<Longrightarrow> contained root s s2"
proof -
  assume a: "contained root s s1" and b: "contained root s1 s2"
  from a obtain ps where ps: "touched s1 = touched s @ ps" "\<forall>p \<in> set ps. above root p \<or> below root p" by (auto simp: contained_def)
  from b obtain qs where qs: "touched s2 = touched s1 @ qs" "\<forall>p \<in> set qs. above root p \<or> below root p" by (auto simp: contained_def)
  have "touched s2 = touched s @ (ps @ qs)" "\<forall>p \<in> set (ps @ qs). above root p \<or> below root p" using ps qs by auto
  moreover have "\<forall>p. files s2 p \<noteq> files s p \<longrightarrow> below root p" using a b unfolding contained_def by metis
  ultimately show "contained root s s2" unfolding contained_def by blast
qed

lemma contained_calm: "calm s s' \<Longrightarrow> contained root s s'"
  by (simp add: calm_def contained_def)

lemma contained_file: "file_step p s s' \<Longrightarrow> below root p \<Longrightarrow> contained root s s'"
  unfolding file_step_def contained_def by (metis in_set_replicate)

lemma contained_dirs:
  assumes "make_dirs h p s = (ok, s')" "above root p \<or> below root p"
  shows "contained root s s'"
proof -
  obtain made where m: "mkdirs (is_directory h (touched s)) (mkdir_ok h (touched s)) (exists_after h (touched s)) p = (ok, made)" "s' = s\<lparr>touched := touched s @ made\<rparr>"
    using assms(1) by (auto simp: make_dirs_def split: prod.splits)
  have "above root q \<or> below root q" if q: "q \<in> set made" for q
  proof -
    have a: "prefix (path_parts q) (path_parts p)" "path_parts q = [] \<or> is_absolute q = is_absolute p" using mkdirs_above [of q] m(1) q by (metis snd_conv)+
    show ?thesis
    proof (cases "below root p \<and> q \<noteq> []")
      case True
      then show ?thesis using above_or_below a by blast
    next
      case False
      then show ?thesis using a assms(2) prefix_order.trans by (fastforce simp: above_def)
    qed
  qed
  then show ?thesis using m(2) by (simp add: contained_def)
qed

lemma copy_files_contained:
  "copy_files codecs n h attrs c cis k s = Inr (ok, k', s') \<Longrightarrow> \<forall>ci \<in> set cis. entry_ok root ci \<Longrightarrow> contained root s s'"
proof (induction cis arbitrary: k s)
  case (Cons ci cis)
  have e: "entry_ok root ci" and cis: "\<forall>ci \<in> set cis. entry_ok root ci" using Cons.prems(2) by simp_all
  consider (skip) "ci_skip ci" | (dir) "\<not> ci_skip ci" "S_ISDIR (ci_mode ci)" | (regular) "\<not> ci_skip ci" "\<not> S_ISDIR (ci_mode ci)" by blast
  then show ?case
  proof cases
    case skip
    then show ?thesis using Cons cis by simp
  next
    case dir
    obtain ok1 s1 where 1: "make_dirs h (ci_lpath ci) s = (ok1, s1)" by fastforce
    have c1: "contained root s s1" using contained_dirs [OF 1] e by (auto simp: entry_ok_def)
    have c2: "contained root s1 (Error m s1)" for m by (simp add: contained_def Error_def)
    show ?thesis
    proof (cases ok1)
      case True
      then have "copy_files codecs n h attrs c cis k s1 = Inr (ok, k', s')" using Cons.prems(1) dir 1 by simp
      from Cons.IH [OF this cis] show ?thesis by (rule contained_trans [OF c1])
    next
      case False
      then show ?thesis using Cons.prems(1) dir 1 contained_trans [OF c1 c2] by auto
    qed
  next
    case regular
    then have b: "below root (ci_lpath ci)" using e by (simp add: entry_ok_def)
    obtain ok1 s1 where 1: "sync_recv codecs n h (ci_rpath ci) (ci_lpath ci) c s = Inr (ok1, s1)" using Cons.prems(1) regular by (auto simp: result_iff)
    have q1: "contained root s s1" using contained_file [OF sync_recv_step [OF 1] b] .
    obtain ok2 s2 where 2: "set_time_and_mode h (ci_lpath ci) s1 = (ok2, s2)" by fastforce
    then have "contained root s1 s2" using b by (auto simp: set_time_and_mode_def contained_def)
    with q1 have q2: "contained root s s2" using contained_trans by blast
    show ?thesis
    proof (cases "ok1 \<and> (attrs \<longrightarrow> ok2)")
      case True
      then have "copy_files codecs n h attrs c cis k (if attrs then s2 else s1) = Inr (ok, k', s')" using Cons.prems(1) regular 1 2 by (cases attrs) auto
      from Cons.IH [OF this cis] show ?thesis using contained_trans [OF q1] contained_trans [OF q2] by (cases attrs) simp_all
    next
      case False
      then show ?thesis using Cons.prems(1) regular 1 2 q1 q2 by (auto split: if_splits)
    qed
  qed
qed simp

lemma copy_remote_dir_local_contained:
  assumes "copy_remote_dir_local codecs n h rpath lpath copy_attrs c s = Inr (ok, s')"
  shows "contained (with_separator lpath) s s' \<and> lpath \<noteq> []"
proof -
  let ?l = "with_separator lpath" and ?r = "with_separator rpath"
  have ne: "lpath \<noteq> []" "rpath \<noteq> []" using assms by (auto simp: copy_remote_dir_local_def ensure_trailing_separators_def split: if_splits)
  then obtain ok1 fs s1 where 1: "remote_build_list ?r ?l [] s = Inr (ok1, fs, s1)"
    using assms by (auto simp: copy_remote_dir_local_def ensure_trailing_separators_def result_iff)
  have l: "?l \<noteq> []" "path_parts ?l = path_parts lpath" "is_absolute ?l = is_absolute lpath" using with_separator_parts(1,2) [OF ne(1), of "[]"] with_separator_parts(3) [OF ne(1)] by simp_all
  have "(\<forall>c \<in> set fs. entry_ok ?l c) \<and> calm s s1" using remote_build_list_builds [of ?l] 1 below_refl [OF l(1)] unfolding builds_def by fastforce
  then have fs: "\<forall>c \<in> set fs. entry_ok ?l c" and q1: "contained ?l s s1" using contained_calm by blast+
  show ?thesis
  proof (cases ok1)
    case True
    then obtain ok2 k s2 where 2: "copy_files codecs n h copy_attrs c fs 0 s1 = Inr (ok2, k, s2)"
      using assms ne 1 by (auto simp: copy_remote_dir_local_def ensure_trailing_separators_def result_iff)
    then have s': "s' = (if ok2 then s2\<lparr>files_skipped := files_skipped s2 + k\<rparr> else s2)"
      using assms ne 1 True by (auto simp: copy_remote_dir_local_def ensure_trailing_separators_def split: if_splits)
    have "contained ?l s s2" using q1 copy_files_contained [OF 2 fs] contained_trans by blast
    then show ?thesis using s' ne by (auto simp: contained_def)
  next
    case False
    then show ?thesis using assms ne 1 q1 by (simp add: copy_remote_dir_local_def ensure_trailing_separators_def)
  qed
qed

text \<open>With several roots.\<close>

definition contained_in :: "string set \<Rightarrow> sync_conn \<Rightarrow> sync_conn \<Rightarrow> bool" where
  "contained_in R s s' \<longleftrightarrow> (\<exists>ps. touched s' = touched s @ ps \<and> (\<forall>p \<in> set ps. \<exists>root \<in> R. above root p \<or> below root p)) \<and>
     (\<forall>p. files s' p \<noteq> files s p \<longrightarrow> (\<exists>root \<in> R. below root p))"

lemma contained_in_refl [simp]: "contained_in R s s"
  by (simp add: contained_in_def)

lemma contained_in_trans [trans]:
  assumes "contained_in R s s1" "contained_in R s1 s2"
  shows "contained_in R s s2"
proof -
  from assms(1) obtain ps where ps: "touched s1 = touched s @ ps" "\<forall>p \<in> set ps. \<exists>root \<in> R. above root p \<or> below root p" by (auto simp: contained_in_def)
  from assms(2) obtain qs where qs: "touched s2 = touched s1 @ qs" "\<forall>p \<in> set qs. \<exists>root \<in> R. above root p \<or> below root p" by (auto simp: contained_in_def)
  have "touched s2 = touched s @ (ps @ qs)" "\<forall>p \<in> set (ps @ qs). \<exists>root \<in> R. above root p \<or> below root p" using ps qs by auto
  moreover have "\<forall>p. files s2 p \<noteq> files s p \<longrightarrow> (\<exists>root \<in> R. below root p)" using assms unfolding contained_in_def by metis
  ultimately show ?thesis unfolding contained_in_def by blast
qed

lemma contained_in_calm: "calm s s' \<Longrightarrow> contained_in R s s'"
  by (simp add: calm_def contained_in_def)

lemma contained_in_root: "contained root s s' \<Longrightarrow> root' \<in> R \<Longrightarrow> path_parts root = path_parts root' \<Longrightarrow> is_absolute root = is_absolute root' \<Longrightarrow> contained_in R s s'"
proof -
  assume "path_parts root = path_parts root'" "is_absolute root = is_absolute root'"
  then have "above root = above root'" "below root = below root'" by (simp_all add: above_def below_def fun_eq_iff)
  then show "contained root s s' \<Longrightarrow> root' \<in> R \<Longrightarrow> contained_in R s s'" unfolding contained_in_def contained_def by auto
qed

lemma pull_source_contained:
  assumes "pull_source codecs n h dst ex isdir attrs c src s = Inr (r, s')" "dst \<noteq> []" "dst \<in> R" "dst @ slash # Basename src \<in> R"
  shows "contained_in R s s'"
proof -
  obtain st s1 where 1: "sync_stat_fallback src s = Inr (st, s1)" using assms(1) by (auto simp: pull_source_def result_iff)
  note q1 = contained_in_calm [OF calm_fallback [OF 1], of R]
  have err: "contained_in R s1 (Error m s1)" for m by (simp add: contained_in_def Error_def)
  let ?root = "dst @ slash # Basename src" and ?dir = "with_separator dst @ Basename src"
  have parts: "path_parts ?root = path_parts dst @ path_parts (Basename src)" "is_absolute ?root = is_absolute dst"
    using path_parts_append assms(2) by (simp_all add: is_absolute_def)
  consider (no) "st = None \<or> (ex \<and> \<not> isdir \<and> (\<exists>t. st = Some t \<and> S_ISDIR (st_mode t))) \<or> (\<exists>t. st = Some t \<and> \<not> S_ISDIR (st_mode t) \<and> \<not> should_pull_file (st_mode t))"
    | (dir) t where "st = Some t" "S_ISDIR (st_mode t)" "\<not> (ex \<and> \<not> isdir)"
    | (plain) t where "st = Some t" "\<not> S_ISDIR (st_mode t)" "should_pull_file (st_mode t)" by fastforce
  then show ?thesis
  proof cases
    case no
    then show ?thesis using assms(1) 1 q1 err contained_in_trans by (auto simp: pull_source_def split: option.splits)
  next
    case dir
    let ?d = "if ex then ?dir else dst"
    obtain ok s2 where 2: "copy_remote_dir_local codecs n h src ?d attrs c s1 = Inr (ok, s2)" "s' = s2"
      using assms(1,2) 1 dir by (auto simp: pull_source_def result_iff split: if_splits)
    note c = copy_remote_dir_local_contained [OF 2(1)]
    have "path_parts (with_separator ?d) = path_parts (if ex then ?root else dst)" "is_absolute (with_separator ?d) = is_absolute (if ex then ?root else dst)"
      using c with_separator_parts(1,2) [of ?d "[]"] with_separator_parts(1,2) [OF assms(2), of "Basename src"] parts by (simp_all split: if_splits)
    then have "contained_in R s1 s2" using contained_in_root [OF conjunct1 [OF c], of "if ex then ?root else dst" R] assms(3,4) by auto
    then show ?thesis using q1 2(2) contained_in_trans by blast
  next
    case plain
    let ?p = "if isdir then ?root else dst"
    obtain ok s2 where 2: "sync_recv codecs n h src ?p c s1 = Inr (ok, s2)" using assms(1) 1 plain by (auto simp: pull_source_def Let_def result_iff)
    have b: "below ?p ?p" "?p \<in> R" using assms(2-4) below_refl by simp_all
    have "contained_in R s1 s2" using contained_in_root [OF contained_file [OF sync_recv_step [OF 2] b(1)] b(2)] by simp
    moreover have "contained_in R s2 (snd (set_time_and_mode h ?p s2))" using b by (auto simp: set_time_and_mode_def contained_in_def)
    moreover have "s' = s2 \<or> s' = snd (set_time_and_mode h ?p s2)" using assms(1) 1 2 plain by (auto simp: pull_source_def Let_def split: if_splits prod.splits)
    ultimately show ?thesis using q1 contained_in_trans by blast
  qed
qed

lemma pull_sources_contained:
  "pull_sources codecs n h dst ex isdir attrs c srcs b s = Inr (r, s') \<Longrightarrow> dst \<noteq> [] \<Longrightarrow> dst \<in> R \<Longrightarrow> (\<lambda>src. dst @ slash # Basename src) ` set srcs \<subseteq> R \<Longrightarrow>
     contained_in R s s'"
proof (induction srcs arbitrary: b s)
  case (Cons src srcs)
  from Cons.prems(1) obtain r1 s1 where 1: "pull_source codecs n h dst ex isdir attrs c src s = Inr (r1, s1)" by (auto simp: result_iff)
  have R: "dst @ slash # Basename src \<in> R" "(\<lambda>src. dst @ slash # Basename src) ` set srcs \<subseteq> R" using Cons.prems(4) by simp_all
  note q1 = pull_source_contained [OF 1 Cons.prems(2,3) R(1)]
  show ?case
  proof (cases r1)
    case None
    then show ?thesis using Cons.prems(1) 1 q1 by simp
  next
    case (Some ok)
    then have "pull_sources codecs n h dst ex isdir attrs c srcs (b \<and> ok) s1 = Inr (r, s')" using Cons.prems(1) 1 by simp
    from Cons.IH [OF this Cons.prems(2,3) R(2)] show ?thesis using contained_in_trans [OF q1] by blast
  qed
qed simp

lemma destroy_calm: "destroy_SyncConnection s = Inr s' \<Longrightarrow> touched s' = touched s \<and> files s' = files s"
  by (auto simp: destroy_SyncConnection_def SendQuit_def result_iff calm_def split: if_splits dest!: calm_request)

lemma do_sync_pull_fd_contained:
  assumes "do_sync_pull_fd codecs n h valid feats srcs dst attrs c env = Inr (ok, bytes, s')" "dst \<noteq> []"
  shows "contained_in (set (dst # map (\<lambda>src. dst @ slash # Basename src) srcs)) env s'"
proof (cases valid)
  case False
  then show ?thesis using assms(1) by (auto simp: do_sync_pull_fd_def SyncConnection_def contained_in_def)
next
  case True
  let ?R = "set (dst # map (\<lambda>src. dst @ slash # Basename src) srcs)" and ?s = "SyncConnection feats env"
  have 0: "contained_in ?R env ?s" by (simp add: SyncConnection_def contained_in_def)
  obtain d s0 where d: "check_destination h srcs dst ?s = Inr (d, s0)" using assms(1) True by (auto simp: do_sync_pull_fd_def result_iff)
  then have "contained_in ?R ?s s0" by (auto simp: check_destination_def Let_def contained_in_def Error_def split: if_splits)
  with 0 have c0: "contained_in ?R env s0" using contained_in_trans by blast
  obtain r s1 where 1: "(case d of None \<Rightarrow> Inr (None, s0) | Some (ex, isdir) \<Rightarrow> pull_sources codecs n h dst ex isdir attrs c srcs True s0) = Inr (r, s1)"
      "destroy_SyncConnection s1 = Inr s'"
    using assms(1) True d by (auto simp: do_sync_pull_fd_def result_iff)
  have "contained_in ?R s0 s1" using 1(1) assms(2) by (cases d) (auto intro: pull_sources_contained)
  then have "contained_in ?R env s1" using c0 contained_in_trans by blast
  then show ?thesis using destroy_calm [OF 1(2)] by (simp add: contained_in_def)
qed

end
