(* ===== verification/Sync_Tree.thy ===== *)
theory Sync_Tree
  imports Sync_Pull_Dir
begin

text \<open>
  A whole directory tree: what a device sends for it, and that pulling it reproduces it. The tree is described apart from the
  code; the device lists the directories and sends the files in the order in which it is asked.
\<close>

section \<open>Trees\<close>

text \<open>The entries of a directory in the order of its listing, with their names and the headers the device sends for them.\<close>

datatype tree = Tree "tree_entry list"
  and tree_entry = Tree_dot string string | Tree_file string string "string list" | Tree_dir string string tree

fun entry_name :: "tree_entry \<Rightarrow> string" where
  "entry_name (Tree_dot n _) = n"
| "entry_name (Tree_file n _ _) = n"
| "entry_name (Tree_dir n _ _) = n"

fun entry_header :: "tree_entry \<Rightarrow> string" where
  "entry_header (Tree_dot _ hdr) = hdr"
| "entry_header (Tree_file _ hdr _) = hdr"
| "entry_header (Tree_dir _ hdr _) = hdr"

definition header_ok :: "bool \<Rightarrow> string \<Rightarrow> string \<Rightarrow> bool" where
  "header_ok v2 name hdr \<longleftrightarrow> length hdr = (if v2 then 76 else 20) \<and> le32_at hdr 0 = (if v2 then ID_DENT_V2 else ID_DENT_V1) \<and>
     le32_at hdr (if v2 then 72 else 16) = of_nat (length name) \<and> length name \<le> 255 \<and> slash \<notin> set name \<and> CHR 0x00 \<notin> set name"

definition header_mode :: "bool \<Rightarrow> string \<Rightarrow> u32" where
  "header_mode v2 hdr = le32_at hdr (if v2 then 24 else 4)"

text \<open>A tree the device at \<open>r\<close> may have, to be copied to \<open>l\<close>.\<close>

fun tree_ok :: "bool \<Rightarrow> string \<Rightarrow> string \<Rightarrow> tree \<Rightarrow> bool" and entries_ok :: "bool \<Rightarrow> string \<Rightarrow> string \<Rightarrow> tree_entry list \<Rightarrow> bool" where
  "tree_ok v r l (Tree es) \<longleftrightarrow> length r \<le> 1024 \<and> length l \<le> 2000 \<and> entries_ok v r l es"
| "entries_ok v r l [] \<longleftrightarrow> True"
| "entries_ok v r l (Tree_dot n hdr # es) \<longleftrightarrow> header_ok v n hdr \<and> IsDotOrDotDot n \<and> entries_ok v r l es"
| "entries_ok v r l (Tree_file n hdr ds # es) \<longleftrightarrow> header_ok v n hdr \<and> n \<noteq> [] \<and> \<not> IsDotOrDotDot n \<and> should_pull_file (header_mode v hdr) \<and> length (r @ n) \<le> 1024 \<and>
     (\<forall>d \<in> set ds. length d \<le> SYNC_DATA_MAX) \<and> entries_ok v r l es"
| "entries_ok v r l (Tree_dir n hdr t # es) \<longleftrightarrow> header_ok v n hdr \<and> n \<noteq> [] \<and> \<not> IsDotOrDotDot n \<and> S_ISDIR (header_mode v hdr) \<and> tree_ok v (r @ n @ ''/'') (l @ n @ ''/'') t \<and> entries_ok v r l es"

text \<open>The files in it: their paths below \<open>l\<close>, and the blocks of their contents.\<close>

fun tree_files :: "string \<Rightarrow> tree \<Rightarrow> (string \<times> string list) list" and sub_files :: "string \<Rightarrow> tree_entry list \<Rightarrow> (string \<times> string list) list"
  and dir_files :: "string \<Rightarrow> tree_entry list \<Rightarrow> (string \<times> string list) list" where
  "tree_files l (Tree es) = dir_files l es @ sub_files l es"
| "sub_files l [] = []"
| "sub_files l (Tree_dir n _ t # es) = sub_files l es @ tree_files (l @ n @ ''/'') t"
| "sub_files l (_ # es) = sub_files l es"
| "dir_files l [] = []"
| "dir_files l (Tree_file n _ ds # es) = (l @ n, ds) # dir_files l es"
| "dir_files l (_ # es) = dir_files l es"

fun tree_dirs :: "tree \<Rightarrow> nat" and sub_dirs :: "tree_entry list \<Rightarrow> nat" where
  "tree_dirs (Tree es) = Suc (sub_dirs es)"
| "sub_dirs [] = 0"
| "sub_dirs (Tree_dir _ _ t # es) = sub_dirs es + tree_dirs t"
| "sub_dirs (_ # es) = sub_dirs es"

section \<open>What the device sends\<close>

definition done_bytes :: "bool \<Rightarrow> string" where
  "done_bytes v2 = le32 ID_DONE @ replicate (if v2 then 72 else 16) (CHR 0x00)"

fun list_stream :: "bool \<Rightarrow> tree \<Rightarrow> string" and sub_streams :: "bool \<Rightarrow> tree_entry list \<Rightarrow> string" where
  "list_stream v (Tree es) = concat (map (\<lambda>e. entry_header e @ entry_name e) es) @ done_bytes v @ sub_streams v es"
| "sub_streams v [] = []"
| "sub_streams v (Tree_dir _ _ t # es) = sub_streams v es @ list_stream v t"
| "sub_streams v (_ # es) = sub_streams v es"

definition file_stream :: "string list \<Rightarrow> string" where
  "file_stream ds = concat (map (\<lambda>d. msg_bytes (Data_msg d)) ds) @ msg_bytes (Done_msg 0)"

text \<open>The next writes each take a whole request.\<close>

fun writes_ok :: "nat \<Rightarrow> write_event list \<Rightarrow> bool" where
  "writes_ok 0 es = True"
| "writes_ok (Suc n) (Took k # es) = (1040 \<le> k \<and> writes_ok n es)"
| "writes_ok (Suc n) _ = False"

lemma writes_ok_write:
  assumes "writes_ok (Suc n) es" "b \<noteq> []" "length b \<le> 1040"
  shows "\<exists>es'. WriteFdExactly es b = (Written, b, es') \<and> writes_ok n es'"
proof -
  obtain k es' where "es = Took k # es'" "1040 \<le> k" "writes_ok n es'" using assms(1) by (cases "(Suc n, es)" rule: writes_ok.cases) auto
  then show ?thesis using assms(2,3) by (cases b) simp_all
qed

lemma SendRequest_ok:
  assumes "writes_ok (Suc n) (fd_out s)" "length path \<le> 1024"
  shows "\<exists>s'. SendRequest i path s = Inr (True, s') \<and> fd_in s' = fd_in s \<and> writes_ok n (fd_out s')"
proof -
  let ?b = "sync_header i (of_nat (length path)) @ path"
  have "?b \<noteq> []" using sync_header_simps(1) [of i "of_nat (length path)"] by (metis append_is_Nil_conv list.size(3) zero_neq_numeral)
  then obtain es where "WriteFdExactly (fd_out s) ?b = (Written, ?b, es)" "writes_ok n es" using writes_ok_write [OF assms(1), of ?b] assms(2) by auto
  then show ?thesis using assms(2) by (simp add: SendRequest_def conn_write_def)
qed

section \<open>Listing\<close>

lemma done_bytes_simps: "length (done_bytes v) = (if v then 76 else 20)" "le32_at (done_bytes v) 0 = ID_DONE"
  by (simp_all add: done_bytes_def le32_at_def)

lemma FinishLsImpl_entries:
  "\<forall>e \<in> set es. header_ok v (entry_name e) (entry_header e) \<Longrightarrow> avail_bytes (fd_in s) = concat (map (\<lambda>e. entry_header e @ entry_name e) es) @ done_bytes v @ rest \<Longrightarrow>
     \<exists>s'. FinishLsImpl v s = (True, map (\<lambda>e. dent_of v (entry_header e) (entry_name e)) es, s') \<and> avail_bytes (fd_in s') = rest \<and> fd_out s' = fd_out s"
proof (induction es arbitrary: s)
  case Nil
  then obtain es where "conn_read (if v then 76 else 20) s = (Some (done_bytes v), s\<lparr>fd_in := es\<rparr>)" "avail_bytes es = rest"
    using conn_read_take [of s "done_bytes v" rest] by (auto simp: done_bytes_simps)
  then show ?case by (subst FinishLsImpl.simps) (simp add: done_bytes_simps)
next
  case (Cons e es)
  let ?h = "entry_header e" and ?n = "entry_name e"
  let ?r = "concat (map (\<lambda>e. entry_header e @ entry_name e) es) @ done_bytes v @ rest"
  have h: "length ?h = (if v then 76 else 20)" "le32_at ?h 0 = (if v then ID_DENT_V2 else ID_DENT_V1)" "le32_at ?h (if v then 72 else 16) = of_nat (length ?n)"
    "length ?n \<le> 255" "slash \<notin> set ?n" "CHR 0x00 \<notin> set ?n" using Cons.prems(1) by (simp_all add: header_ok_def)
  have un: "unat (of_nat (length ?n) :: u32) = length ?n" using h(4) by (simp add: unat_of_nat)
  have c: "c_str ?n = ?n" using h(6) by (auto simp: c_str_def takeWhile_eq_all_conv)
  obtain es1 where 1: "conn_read (if v then 76 else 20) s = (Some ?h, s\<lparr>fd_in := es1\<rparr>)" "avail_bytes es1 = ?n @ ?r"
    using conn_read_take [of s ?h "?n @ ?r"] Cons.prems(2) h(1) by auto
  obtain es2 where 2: "conn_read (length ?n) (s\<lparr>fd_in := es1\<rparr>) = (Some ?n, s\<lparr>fd_in := es2\<rparr>)" "avail_bytes es2 = ?r"
    using conn_read_take [of "s\<lparr>fd_in := es1\<rparr>" ?n ?r] 1(2) by auto
  obtain s' where s': "FinishLsImpl v (s\<lparr>fd_in := es2\<rparr>) = (True, map (\<lambda>e. dent_of v (entry_header e) (entry_name e)) es, s')" "avail_bytes (fd_in s') = rest" "fd_out s' = fd_out s"
    using Cons.IH [of "s\<lparr>fd_in := es2\<rparr>"] Cons.prems(1) 2(2) by auto
  have nd: "(if v then ID_DENT_V2 else ID_DENT_V1) \<noteq> ID_DONE" by (simp add: sync_ids)
  have "FinishLsImpl v s = (True, dent_of v ?h ?n # map (\<lambda>e. dent_of v (entry_header e) (entry_name e)) es, s')"
    using 1(1) 2(1) s'(1) h(2-5) un c nd by (subst FinishLsImpl.simps) (simp del: FinishLsImpl.simps split del: if_split)
  then show ?case using s'(2,3) by simp
qed

text \<open>The list of files the code builds for a tree, each with the blocks of its contents.\<close>

definition dir_item :: "string \<Rightarrow> string \<Rightarrow> copyinfo \<times> string list" where
  "dir_item r l = (\<lparr>ci_lpath = entry_path (Dirname l) (Basename l) S_IFDIR, ci_rpath = entry_path (Dirname r) (Basename l) S_IFDIR, ci_time = 0,
     ci_mode = S_IFDIR, ci_size = 0, ci_skip = False\<rparr>, [])"

definition file_item :: "bool \<Rightarrow> string \<Rightarrow> string \<Rightarrow> string \<Rightarrow> string \<Rightarrow> string list \<Rightarrow> copyinfo \<times> string list" where
  "file_item v r l n hdr ds = (\<lparr>ci_lpath = l @ n, ci_rpath = r @ n, ci_time = dent_mtime (dent_of v hdr n), ci_mode = header_mode v hdr,
     ci_size = dent_size (dent_of v hdr n), ci_skip = False\<rparr>, ds)"

fun dir_items :: "bool \<Rightarrow> string \<Rightarrow> string \<Rightarrow> tree_entry list \<Rightarrow> (copyinfo \<times> string list) list" where
  "dir_items v r l [] = []"
| "dir_items v r l (Tree_file n hdr ds # es) = file_item v r l n hdr ds # dir_items v r l es"
| "dir_items v r l (_ # es) = dir_items v r l es"

fun sub_cis :: "bool \<Rightarrow> string \<Rightarrow> string \<Rightarrow> tree_entry list \<Rightarrow> copyinfo list" where
  "sub_cis v r l [] = []"
| "sub_cis v r l (Tree_dir n hdr t # es) =
     \<lparr>ci_lpath = l @ n @ ''/'', ci_rpath = r @ n @ ''/'', ci_time = 0, ci_mode = header_mode v hdr, ci_size = 0, ci_skip = False\<rparr> # sub_cis v r l es"
| "sub_cis v r l (_ # es) = sub_cis v r l es"

fun tree_items :: "bool \<Rightarrow> string \<Rightarrow> string \<Rightarrow> tree \<Rightarrow> (copyinfo \<times> string list) list" and sub_items :: "bool \<Rightarrow> string \<Rightarrow> string \<Rightarrow> tree_entry list \<Rightarrow> (copyinfo \<times> string list) list" where
  "tree_items v r l (Tree es) = dir_item r l # dir_items v r l es @ sub_items v r l es"
| "sub_items v r l [] = []"
| "sub_items v r l (Tree_dir n hdr t # es) = sub_items v r l es @ tree_items v (r @ n @ ''/'') (l @ n @ ''/'') t"
| "sub_items v r l (_ # es) = sub_items v r l es"

abbreviation slashed :: "string \<Rightarrow> bool" where
  "slashed p \<equiv> p \<noteq> [] \<and> last p = slash"

lemma entry_path_slashed:
  assumes "slashed l" "n \<noteq> []" "slash \<notin> set n"
  shows "entry_path l n m = (if S_ISDIR m then l @ n @ ''/'' else l @ n)"
proof -
  have "last n \<noteq> slash" using assms(2,3) by (metis last_in_set)
  then show ?thesis using assms by (simp add: entry_path_def with_separator_def)
qed

lemma should_pull_modes: "should_pull_file m \<Longrightarrow> \<not> S_ISDIR m \<and> \<not> S_ISLNK m"
  by (auto simp: should_pull_file_def S_ISREG_def S_ISBLK_def S_ISCHR_def S_ISDIR_def S_ISLNK_def S_IFREG_def S_IFDIR_def)

lemma header_mode_name [simp]: "dent_mode (dent_of v hdr n) = header_mode v hdr" "dent_name (dent_of v hdr n) = n"
  by (simp_all add: dent_of_def header_mode_def)

lemma list_entries_tree:
  "entries_ok v r l es \<Longrightarrow> slashed r \<Longrightarrow> slashed l \<Longrightarrow>
     list_entries r l (map (\<lambda>e. dent_of v (entry_header e) (entry_name e)) es) (fs, ds, ls) = Inr (fs @ map fst (dir_items v r l es), ds @ sub_cis v r l es, ls)"
proof (induction es arbitrary: fs ds)
  case (Cons e es)
  show ?case
  proof (cases e)
    case (Tree_dot n hdr)
    then show ?thesis using Cons by (simp add: list_entry_def)
  next
    case (Tree_file n hdr bs)
    have n: "n \<noteq> []" "slash \<notin> set n" "\<not> IsDotOrDotDot n" "should_pull_file (header_mode v hdr)" "entries_ok v r l es" using Cons.prems(1) Tree_file by (simp_all add: header_ok_def)
    have m: "\<not> S_ISDIR (header_mode v hdr)" "\<not> S_ISLNK (header_mode v hdr)" using should_pull_modes n(4) by blast+
    have "list_entry r l (dent_of v hdr n) (fs, ds, ls) = Inr (fs @ [fst (file_item v r l n hdr bs)], ds, ls)"
      using n m Cons.prems(2,3) by (simp add: list_entry_def new_copyinfo_eq entry_path_slashed file_item_def)
    then show ?thesis using Tree_file Cons.IH [OF n(5) Cons.prems(2,3)] by simp
  next
    case (Tree_dir n hdr t)
    have n: "n \<noteq> []" "slash \<notin> set n" "\<not> IsDotOrDotDot n" "S_ISDIR (header_mode v hdr)" "entries_ok v r l es" using Cons.prems(1) Tree_dir by (simp_all add: header_ok_def)
    have "list_entry r l (dent_of v hdr n) (fs, ds, ls) = Inr (fs, ds @ [hd (sub_cis v r l (e # es))], ls)"
      using n Cons.prems(2,3) Tree_dir by (simp add: list_entry_def new_copyinfo_eq entry_path_slashed)
    then show ?thesis using Tree_dir Cons.IH [OF n(5) Cons.prems(2,3)] by simp
  qed
qed simp

lemma entries_header_ok: "entries_ok v r l es \<Longrightarrow> \<forall>e \<in> set es. header_ok v (entry_name e) (entry_header e)"
  by (induction v r l es rule: tree_ok_entries_ok.induct(2) [where P = "\<lambda>_ _ _ _. True"]) simp_all

lemma build_dirs_append:
  "build_dirs f (xs @ ys) fs s = bind_r (build_dirs f xs fs s) (\<lambda>(ok, fs1, s1). if \<not> ok then Inr (False, fs1, s1) else build_dirs f ys fs1 s1)"
proof (induction xs arbitrary: fs s)
  case (Cons x xs)
  then show ?case by (cases "f (ci_rpath x) (ci_lpath x) fs s") (auto split: prod.splits)
qed simp

definition listed :: "string \<Rightarrow> nat \<Rightarrow> sync_conn \<Rightarrow> sync_conn \<Rightarrow> bool" where
  "listed rest k s s' \<longleftrightarrow> avail_bytes (fd_in s') = rest \<and> calm s s' \<and> writes_ok k (fd_out s')"

lemma listed_trans: "listed rest k s s1 \<Longrightarrow> listed rest' k' s1 s2 \<Longrightarrow> listed rest' k' s s2"
  by (auto simp: listed_def intro: calm_trans)

lemma sync_ls_tree:
  assumes "entries_ok v r l es" "length r \<le> 1024" "have_ls_v2 s = v" "writes_ok (Suc k) (fd_out s)"
    "avail_bytes (fd_in s) = concat (map (\<lambda>e. entry_header e @ entry_name e) es) @ done_bytes v @ rest"
  shows "\<exists>s'. sync_ls r s = Inr (True, map (\<lambda>e. dent_of v (entry_header e) (entry_name e)) es, s') \<and> listed rest k s s'"
proof -
  obtain s1 where 0: "SendRequest (if have_ls_v2 s then ID_LIST_V2 else ID_LIST_V1) r s = Inr (True, s1)" "fd_in s1 = fd_in s" "writes_ok k (fd_out s1)"
    using SendRequest_ok [OF assms(4,2)] by blast
  then have 1: "SendLs r s = Inr (True, s1)" "fd_in s1 = fd_in s" "writes_ok k (fd_out s1)" "have_ls_v2 s1 = v"
    using calm_request [OF 0(1)] assms(3) by (simp_all add: SendLs_def calm_def same_features_def)
  obtain s2 where 2: "FinishLsImpl v s1 = (True, map (\<lambda>e. dent_of v (entry_header e) (entry_name e)) es, s2)" "avail_bytes (fd_in s2) = rest" "fd_out s2 = fd_out s1"
    using FinishLsImpl_entries [OF entries_header_ok [OF assms(1)], of s1 rest] assms(5) 1(2) by auto
  have "sync_ls r s = Inr (True, map (\<lambda>e. dent_of v (entry_header e) (entry_name e)) es, s2)" using 1 2(1) by (simp add: sync_ls_def FinishLs_def)
  then show ?thesis using calm_ls 1(3) 2(2,3) by (auto simp: listed_def)
qed

lemma remote_build_list_tree:
  "tree_ok v r l t \<Longrightarrow> slashed r \<Longrightarrow> slashed l \<Longrightarrow> have_ls_v2 s = v \<Longrightarrow> writes_ok (tree_dirs t + k) (fd_out s) \<Longrightarrow> avail_bytes (fd_in s) = list_stream v t @ rest \<Longrightarrow>
     \<exists>s'. remote_build_list r l fs s = Inr (True, fs @ map fst (tree_items v r l t), s') \<and> listed rest k s s'"
  "entries_ok v r l es \<Longrightarrow> slashed r \<Longrightarrow> slashed l \<Longrightarrow> have_ls_v2 s = v \<Longrightarrow> writes_ok (sub_dirs es + k) (fd_out s) \<Longrightarrow> avail_bytes (fd_in s) = sub_streams v es @ rest \<Longrightarrow>
     \<exists>s'. build_dirs remote_build_list (rev (sub_cis v r l es)) fs s = Inr (True, fs @ map fst (sub_items v r l es), s') \<and> listed rest k s s'"
proof (induction v r l t and v r l es arbitrary: s fs k rest and s fs k rest rule: tree_ok_entries_ok.induct)
  case (1 v r l es)
  have r: "length r \<le> 1024" "length l \<le> 2000" "entries_ok v r l es" using "1.prems"(1) by simp_all
  obtain s1 where 1: "sync_ls r s = Inr (True, map (\<lambda>e. dent_of v (entry_header e) (entry_name e)) es, s1)" "listed (sub_streams v es @ rest) (sub_dirs es + k) s s1"
    using sync_ls_tree [OF r(3,1) "1.prems"(4), of "sub_dirs es + k"] "1.prems"(5,6) by auto
  have v: "have_ls_v2 s1 = v" using 1(2) "1.prems"(4) by (simp add: listed_def calm_def same_features_def)
  obtain s2 where 2: "build_dirs remote_build_list (rev (sub_cis v r l es)) ((fs @ [fst (dir_item r l)]) @ map fst (dir_items v r l es)) s1
      = Inr (True, ((fs @ [fst (dir_item r l)]) @ map fst (dir_items v r l es)) @ map fst (sub_items v r l es), s2)" "listed rest k s1 s2"
    using "1.IH" [OF r(3) "1.prems"(2,3) v, where fs = "(fs @ [fst (dir_item r l)]) @ map fst (dir_items v r l es)" and k = k and rest = rest] 1(2) unfolding listed_def by blast
  have d: "new_copyinfo (Dirname l) (Dirname r) (Basename l) S_IFDIR = Inr (fst (dir_item r l))"
    using Dirname_short(2) [of l] Dirname_short(2) [of r] "1.prems"(2,3) r by (simp add: new_copyinfo_eq dir_item_def)
  have "remote_build_list r l fs s = Inr (True, ((fs @ [fst (dir_item r l)]) @ map fst (dir_items v r l es)) @ map fst (sub_items v r l es), s2)"
    using d 1(1) list_entries_tree [OF r(3) "1.prems"(2,3)] 2(1) by (subst remote_build_list_rec) (simp add: build_list_body_def)
  then show ?case using listed_trans [OF 1(2) 2(2)] by simp
next
  case (5 v r l n hdr t es)
  let ?c = "hd (sub_cis v r l (Tree_dir n hdr t # es))"
  have e: "tree_ok v (r @ n @ ''/'') (l @ n @ ''/'') t" "entries_ok v r l es" using "5.prems"(1) by simp_all
  obtain s1 where 1: "build_dirs remote_build_list (rev (sub_cis v r l es)) fs s = Inr (True, fs @ map fst (sub_items v r l es), s1)" "listed (list_stream v t @ rest) (tree_dirs t + k) s s1"
    using "5.IH"(2) [OF e(2) "5.prems"(2-4), of "tree_dirs t + k" "list_stream v t @ rest"] "5.prems"(5,6) by (auto simp: add.assoc)
  have v: "have_ls_v2 s1 = v" using 1(2) "5.prems"(4) by (simp add: listed_def calm_def same_features_def)
  obtain s2 where 2: "remote_build_list (r @ n @ ''/'') (l @ n @ ''/'') (fs @ map fst (sub_items v r l es)) s1
      = Inr (True, (fs @ map fst (sub_items v r l es)) @ map fst (tree_items v (r @ n @ ''/'') (l @ n @ ''/'') t), s2)" "listed rest k s1 s2"
    using "5.IH"(1) [OF e(1) _ _ v, where fs = "fs @ map fst (sub_items v r l es)" and k = k and rest = rest] 1(2) by (auto simp: listed_def)
  have "build_dirs remote_build_list (rev (sub_cis v r l es) @ [?c]) fs s = Inr (True, (fs @ map fst (sub_items v r l es)) @ map fst (tree_items v (r @ n @ ''/'') (l @ n @ ''/'') t), s2)"
    unfolding build_dirs_append using 1(1) 2(1) by simp
  then show ?case using listed_trans [OF 1(2) 2(2)] by simp
qed (simp_all add: listed_def)

section \<open>Copying\<close>

text \<open>A local system on which files and directories can be created.\<close>

definition host_ready :: "host \<Rightarrow> bool" where
  "host_ready h \<longleftrightarrow> (\<forall>hist p. creat_ok h hist p \<and> mkdir_ok h hist p \<and> attrs_ok h hist p \<and> is_directory h hist ''.'' \<and> is_directory h hist ''/'')"

lemma mkdirs_ok:
  "is_dir ''.'' \<Longrightarrow> is_dir ''/'' \<Longrightarrow> (\<And>q. mk q) \<Longrightarrow> p \<noteq> [] \<Longrightarrow> length p < PATH_MAX \<Longrightarrow> fst (mkdirs is_dir mk ex p)"
proof (induction is_dir mk ex p rule: mkdirs.induct)
  case (1 is_dir mk ex p)
  have short: "length (dirname_r p) < PATH_MAX" using dirname_shorter [OF "1.prems"(4)] "1.prems"(5) by (cases "dirname_r p = p") (auto simp: PATH_MAX_def)
  then have d: "Dirname p = dirname_r p" by (simp add: Dirname_def Let_def PATH_MAX_def)
  show ?case
  proof (cases "is_dir p")
    case False
    then have "dirname_r p \<noteq> p" using dirname_fixed [OF "1.prems"(4)] "1.prems"(1,2) by auto
    then have "fst (mkdirs is_dir mk ex (Dirname p))" 
      by (intro "1.IH" [OF False]) (use "1.prems"(1-3) d short in simp_all)
    then show ?thesis using "1.prems"(3) d \<open>dirname_r p \<noteq> p\<close> by (subst mkdirs.simps) (auto split: prod.splits bool.splits)
  qed (subst mkdirs.simps, simp)
qed

definition items_files :: "(copyinfo \<times> string list) list \<Rightarrow> (string \<times> string list) list" where
  "items_files ps = map (\<lambda>(ci, ds). (ci_lpath ci, ds)) (filter (\<lambda>(ci, _). \<not> S_ISDIR (ci_mode ci)) ps)"

definition item_ok :: "copyinfo \<times> string list \<Rightarrow> bool" where
  "item_ok = (\<lambda>(ci, ds). \<not> ci_skip ci \<and> ci_lpath ci \<noteq> [] \<and>
     (if S_ISDIR (ci_mode ci) then length (ci_lpath ci) < PATH_MAX else length (ci_rpath ci) \<le> 1024 \<and> (\<forall>d \<in> set ds. length d \<le> SYNC_DATA_MAX)))"

abbreviation all_files :: "(string \<times> string list) list \<Rightarrow> string \<rightharpoonup> string" where
  "all_files fs \<equiv> map_of (rev (map (\<lambda>(p, ds). (p, concat ds)) fs))"

definition pulled :: "string \<Rightarrow> nat \<Rightarrow> sync_conn \<Rightarrow> sync_conn \<Rightarrow> bool" where
  "pulled rest j s s' \<longleftrightarrow> avail_bytes (fd_in s') = rest \<and> writes_ok j (fd_out s') \<and> same_features s s'"

lemma pulled_trans: "same_features s s1 \<Longrightarrow> pulled rest j s1 s2 \<Longrightarrow> pulled rest j s s2"
  using same_features_trans by (auto simp: pulled_def)

lemma copy_files_items:
  assumes "codecs Comp_none = (NullDecoder SYNC_DATA_MAX, new_null_codec)" "host_ready h"
  shows "\<forall>p \<in> set ps. item_ok p \<Longrightarrow> \<not> observer s \<Longrightarrow> writes_ok (length (items_files ps) + j) (fd_out s) \<Longrightarrow> takes (disk s) (concat (map snd (items_files ps))) \<Longrightarrow>
     avail_bytes (fd_in s) = concat (map (\<lambda>f. file_stream (snd f)) (items_files ps)) @ rest \<Longrightarrow>
     \<exists>s'. copy_files codecs (Suc n) h attrs Comp_none (map fst ps) k s = Inr (True, k, s') \<and> files s' = files s ++ all_files (items_files ps) \<and> pulled rest j s s'"
proof (induction ps arbitrary: s)
  case (Cons p ps)
  obtain ci ds where p: "p = (ci, ds)" by fastforce
  have ok: "\<not> ci_skip ci" "ci_lpath ci \<noteq> []" "\<forall>p \<in> set ps. item_ok p" using Cons.prems(1) p by (auto simp: item_ok_def)
  show ?case
  proof (cases "S_ISDIR (ci_mode ci)")
    case True
    then have f: "items_files (p # ps) = items_files ps" using p by (simp add: items_files_def)
    obtain ok1 s1 where 1: "make_dirs h (ci_lpath ci) s = (ok1, s1)" by fastforce
    have "length (ci_lpath ci) < PATH_MAX" using Cons.prems(1) p True by (simp add: item_ok_def)
    then have "fst (mkdirs (is_directory h (touched s)) (mkdir_ok h (touched s)) (exists_after h (touched s)) (ci_lpath ci))"
      using assms(2) ok(2) by (intro mkdirs_ok) (simp_all add: host_ready_def)
    then have ok1 and s1: "observer s1 = observer s" "fd_out s1 = fd_out s" "disk s1 = disk s" "fd_in s1 = fd_in s" "files s1 = files s"
        "same_features s s1" using 1 by (auto simp: make_dirs_def same_features_def split: prod.splits)
    have "\<exists>s'. copy_files codecs (Suc n) h attrs Comp_none (map fst ps) k s1 = Inr (True, k, s') \<and> files s' = files s1 ++ all_files (items_files ps) \<and> pulled rest j s1 s'"
      by (rule Cons.IH [OF ok(3)]) (use Cons.prems(2-5) s1 f in simp_all)
    then show ?thesis using p True ok(1) 1 \<open>ok1\<close> f s1(5) pulled_trans [OF s1(6)] by auto
  next
    case False
    let ?rest = "concat (map (\<lambda>f. file_stream (snd f)) (items_files ps)) @ rest"
    have f: "items_files (p # ps) = (ci_lpath ci, ds) # items_files ps" using p False by (simp add: items_files_def)
    have c: "length (ci_rpath ci) \<le> 1024" "\<forall>d \<in> set ds. length d \<le> SYNC_DATA_MAX" using Cons.prems(1) p False by (simp_all add: item_ok_def)
    have "\<exists>s'. sync_recv codecs (Suc n) h (ci_rpath ci) (ci_lpath ci) Comp_none s = Inr (True, s') \<and> files s' (ci_lpath ci) = Some (concat ds) \<and>
        avail_bytes (fd_in s') = ?rest \<and> takes (disk s') (concat (map snd (items_files ps))) \<and> \<not> observer s' \<and> writes_ok (length (items_files ps) + j) (fd_out s')"
    proof (rule sync_recv_next [where t = 0])
      show "\<exists>es. WriteFdExactly (fd_out s) b = (Written, b, es) \<and> writes_ok (length (items_files ps) + j) es" if "b \<noteq> []" "length b \<le> length (ci_rpath ci) + 16" for b
        using writes_ok_write [of "length (items_files ps) + j" "fd_out s" b] Cons.prems(3) f that c(1) by simp
    qed (use assms Cons.prems(2,4,5) c f in \<open>simp_all add: host_ready_def file_stream_def\<close>)
    then obtain s1 where 1: "sync_recv codecs (Suc n) h (ci_rpath ci) (ci_lpath ci) Comp_none s = Inr (True, s1)" "files s1 (ci_lpath ci) = Some (concat ds)"
        "avail_bytes (fd_in s1) = ?rest" "takes (disk s1) (concat (map snd (items_files ps)))" "\<not> observer s1" "writes_ok (length (items_files ps) + j) (fd_out s1)" by blast
    have fs: "files s1 = (files s)(ci_lpath ci \<mapsto> concat ds)" "same_features s s1" using sync_recv_step [OF 1(1)] 1(2) by (auto simp: file_step_def fun_eq_iff)
    let ?s2 = "if attrs then s1\<lparr>touched := touched s1 @ [ci_lpath ci, ci_lpath ci]\<rparr> else s1"
    have "copy_files codecs (Suc n) h attrs Comp_none (map fst (p # ps)) k s = copy_files codecs (Suc n) h attrs Comp_none (map fst ps) k ?s2"
      using p False ok(1) 1(1) assms(2) by (simp add: set_time_and_mode_def host_ready_def)
    moreover have "\<exists>s'. copy_files codecs (Suc n) h attrs Comp_none (map fst ps) k ?s2 = Inr (True, k, s') \<and> files s' = files ?s2 ++ all_files (items_files ps) \<and> pulled rest j ?s2 s'"
      by (rule Cons.IH [OF ok(3)]) (use 1(3-6) in \<open>simp_all split: if_splits\<close>)
    moreover have "files ?s2 ++ all_files (items_files ps) = files s ++ all_files (items_files (p # ps))" using fs(1) f by simp
    moreover have "same_features s ?s2" using fs(2) by (simp add: same_features_def)
    ultimately show ?thesis using pulled_trans by auto
  qed
qed (simp add: items_files_def pulled_def same_features_def)

lemma items_files_append: "items_files (a @ b) = items_files a @ items_files b"
  by (simp add: items_files_def)

lemma dir_item_files: "items_files (dir_item r l # ps) = items_files ps"
  by (simp add: items_files_def dir_item_def S_ISDIR_def S_IFDIR_def S_IFMT_def)

lemma dir_items_files: "entries_ok v r l es \<Longrightarrow> items_files (dir_items v r l es) = dir_files l es"
proof (induction es)
  case (Cons e es)
  then show ?case by (cases e) (auto simp: items_files_def file_item_def dest: should_pull_modes)
qed (simp add: items_files_def)

lemma tree_items_files:
  "tree_ok v r l t \<Longrightarrow> items_files (tree_items v r l t) = tree_files l t"
  "entries_ok v r l es \<Longrightarrow> items_files (sub_items v r l es) = sub_files l es"
proof (induction v r l t and v r l es rule: tree_ok_entries_ok.induct)
  case (1 v r l es)
  then show ?case using dir_items_files [of v r l es] by (simp add: dir_item_files items_files_append)
qed (simp_all add: items_files_append items_files_def [of "[]"])

lemma dir_item_ok:
  assumes "l \<noteq> []" "length l \<le> 2000"
  shows "item_ok (dir_item r l)"
proof -
  have "length (Basename l) \<le> 2000" using basename_shorter [OF assms(1)] assms(2) by (simp add: Basename_def Let_def)
  then show ?thesis using Dirname_short [OF assms] entry_path_parts(3) [OF Dirname_short(2) [OF assms]]
    by (auto simp: item_ok_def dir_item_def entry_path_def with_separator_def PATH_MAX_def S_ISDIR_def S_IFDIR_def S_IFMT_def)
qed

lemma dir_items_ok: "entries_ok v r l es \<Longrightarrow> \<forall>p \<in> set (dir_items v r l es). item_ok p"
proof (induction es)
  case (Cons e es)
  then show ?case by (cases e) (auto simp: item_ok_def file_item_def dest: should_pull_modes)
qed simp

lemma tree_items_ok:
  "tree_ok v r l t \<Longrightarrow> slashed l \<Longrightarrow> \<forall>p \<in> set (tree_items v r l t). item_ok p"
  "entries_ok v r l es \<Longrightarrow> slashed l \<Longrightarrow> \<forall>p \<in> set (sub_items v r l es). item_ok p"
proof (induction v r l t and v r l es rule: tree_ok_entries_ok.induct)
  case (1 v r l es)
  then show ?case using dir_items_ok [of v r l es] dir_item_ok [of l r] by auto
qed auto

lemma copy_tree:
  assumes "codecs Comp_none = (NullDecoder SYNC_DATA_MAX, new_null_codec)" "\<not> observer s" "host_ready h" "rpath \<noteq> []" "lpath \<noteq> []"
    "tree_ok (have_ls_v2 s) (with_separator rpath) (with_separator lpath) t"
    "writes_ok (tree_dirs t + (length (tree_files (with_separator lpath) t) + j)) (fd_out s)"
    "takes (disk s) (concat (map snd (tree_files (with_separator lpath) t)))"
    "avail_bytes (fd_in s) = list_stream (have_ls_v2 s) t @ concat (map (\<lambda>f. file_stream (snd f)) (tree_files (with_separator lpath) t)) @ rest"
  shows "\<exists>s'. copy_remote_dir_local codecs (Suc n) h rpath lpath attrs Comp_none s = Inr (True, s') \<and>
    files s' = files s ++ all_files (tree_files (with_separator lpath) t) \<and> pulled rest j s s'"
proof -
  let ?l = "with_separator lpath" and ?r = "with_separator rpath" and ?v = "have_ls_v2 s"
  let ?rest = "concat (map (\<lambda>f. file_stream (snd f)) (tree_files ?l t)) @ rest"
  have sl: "slashed ?l" "slashed ?r" using assms(4,5) by (simp_all add: with_separator_def)
  obtain s1 where 1: "remote_build_list ?r ?l [] s = Inr (True, map fst (tree_items ?v ?r ?l t), s1)" "listed ?rest (length (tree_files ?l t) + j) s s1"
    using remote_build_list_tree(1) [OF assms(6) sl(2,1) refl assms(7,9), of "[]"] by auto
  have q: "\<not> observer s1" "disk s1 = disk s" "files s1 = files s" "same_features s s1" using 1(2) assms(2) by (simp_all add: listed_def calm_def)
  have f: "items_files (tree_items ?v ?r ?l t) = tree_files ?l t" using tree_items_files(1) [OF assms(6)] .
  obtain s2 where 2: "copy_files codecs (Suc n) h attrs Comp_none (map fst (tree_items ?v ?r ?l t)) 0 s1 = Inr (True, 0, s2)" "files s2 = files s1 ++ all_files (tree_files ?l t)"
      "pulled rest j s1 s2"
    using copy_files_items [of codecs h "tree_items ?v ?r ?l t" s1 j rest n attrs 0] assms(1,3,8) tree_items_ok(1) [OF assms(6) sl(1)] q(1,2) 1(2) f
    by (auto simp: listed_def)
  have "copy_remote_dir_local codecs (Suc n) h rpath lpath attrs Comp_none s = Inr (True, s2)"
    using 1(1) 2(1) assms(4,5) by (simp add: copy_remote_dir_local_def ensure_trailing_separators_def)
  then show ?thesis using 2(2) q(3) pulled_trans [OF q(4) 2(3)] by simp
qed

section \<open>The whole pull\<close>

text \<open>The answer to the request for the status of a directory.\<close>

definition stat_reply :: "bool \<Rightarrow> string \<Rightarrow> bool" where
  "stat_reply v2 b \<longleftrightarrow> length b = (if v2 then 72 else 16) \<and> le32_at b 0 = (if v2 then ID_STAT_V2 else ID_LSTAT_V1) \<and>
     (v2 \<longrightarrow> le32_at b 4 = 0) \<and> S_ISDIR (le32_at b (if v2 then 24 else 4))"

lemma FinishStat_reply:
  assumes "stat_reply (have_stat_v2 s) b" "avail_bytes (fd_in s) = b @ rest"
  shows "\<exists>st s'. FinishStat s = Inr (Some st, s') \<and> S_ISDIR (st_mode st) \<and> avail_bytes (fd_in s') = rest \<and> fd_out s' = fd_out s"
proof -
  obtain es where es: "conn_read (length b) s = (Some b, s\<lparr>fd_in := es\<rparr>)" "avail_bytes es = rest" using conn_read_take [OF assms(2)] by blast
  have "\<not> S_ISDIR 0" by (simp add: S_ISDIR_def S_IFDIR_def)
  then have "le32_at b 4 \<noteq> 0" if "\<not> have_stat_v2 s" using assms(1) that by (auto simp: stat_reply_def)
  then show ?thesis using es assms(1)
    by (cases "have_stat_v2 s") (auto simp: FinishStat_def stat_reply_def stat_v2_of_def stat_v1_of_def)
qed

lemma sync_stat_fallback_reply:
  assumes "stat_reply (have_stat_v2 s) b" "avail_bytes (fd_in s) = b @ rest" "length path \<le> 1024" "writes_ok (Suc k) (fd_out s)"
  shows "\<exists>st s'. sync_stat_fallback path s = Inr (Some st, s') \<and> S_ISDIR (st_mode st) \<and> listed rest k s s'"
proof -
  let ?s = "if have_stat_v2 s then s else s\<lparr>errno := ENOTSUP\<rparr>"
  have f: "fd_out ?s = fd_out s" "fd_in ?s = fd_in s" by simp_all
  obtain s1 where 0: "SendRequest (if have_stat_v2 s then ID_STAT_V2 else ID_LSTAT_V1) path ?s = Inr (True, s1)" "fd_in s1 = fd_in s" "writes_ok k (fd_out s1)"
    using SendRequest_ok [of k ?s path "if have_stat_v2 s then ID_STAT_V2 else ID_LSTAT_V1"] assms(3,4) unfolding f by blast
  then have v: "have_stat_v2 s1 = have_stat_v2 s" using calm_request [OF 0(1)] by (simp add: calm_def same_features_def split: if_splits)
  obtain st s2 where 2: "FinishStat s1 = Inr (Some st, s2)" "S_ISDIR (st_mode st)" "avail_bytes (fd_in s2) = rest" "fd_out s2 = fd_out s1"
    using FinishStat_reply [of s1 b rest] assms(1,2) 0(2) v by auto
  have "\<not> S_ISLNK (st_mode st)" using 2(2) by (auto simp: S_ISDIR_def S_ISLNK_def S_IFDIR_def)
  then have "sync_stat_fallback path s = Inr (Some st, s2)" using 0(1) 2(1)
    by (cases "have_stat_v2 s") (simp_all add: sync_stat_fallback_def sync_stat_def sync_lstat_def SendStat_def SendLstat_def)
  then show ?thesis using 0(3) 2(2-4) calm_fallback unfolding listed_def by metis
qed

lemma destroy_ok:
  assumes "writes_ok (Suc k) (fd_out s)" "Again \<notin> set (fd_in s)"
  shows "\<exists>s'. destroy_SyncConnection s = Inr s'"
proof -
  obtain s1 where 1: "SendRequest ID_QUIT [] s = Inr (True, s1)" "fd_in s1 = fd_in s" using SendRequest_ok [OF assms(1), of "[]" ID_QUIT] by auto
  obtain r es where "adb_read (fd_in s) 16 = (r, es)" by fastforce
  moreover from this have "r \<noteq> ReadAgain" using assms(2) by (cases "(fd_in s, 16 :: nat)" rule: adb_read.cases) (auto split: if_splits)
  ultimately show ?thesis using 1 by (cases r) (simp_all add: destroy_SyncConnection_def SendQuit_def ReadOrderlyShutdown_def)
qed

text \<open>Where the files of a source directory go.\<close>

definition pull_root :: "host \<Rightarrow> sync_conn \<Rightarrow> string \<Rightarrow> string \<Rightarrow> string" where
  "pull_root h env src dst = (if is_directory h (touched env) dst then with_separator dst @ Basename src else dst)"

definition destination_ok :: "host \<Rightarrow> sync_conn \<Rightarrow> string \<Rightarrow> bool" where
  "destination_ok h env dst \<longleftrightarrow> dst \<noteq> [] \<and> (is_directory h (touched env) dst \<or>
     (host_stat h (touched env) dst = Inl ENOENT \<and> is_directory h (touched env) (Dirname dst)))"

lemma check_destination_ok:
  assumes "destination_ok h s dst"
  shows "check_destination h [src] dst s = Inr (Some (is_directory h (touched s) dst, is_directory h (touched s) dst), s)"
  using assms by (auto simp: destination_ok_def check_destination_def is_directory_def Let_def split: sum.splits)

lemma pull_tree:
  fixes feats env h src dst
  defines "l \<equiv> with_separator (pull_root h env src dst)"
  assumes "codecs Comp_none = (NullDecoder SYNC_DATA_MAX, new_null_codec)" "\<not> observer env" "host_ready h" "destination_ok h env dst" "src \<noteq> []" "length src \<le> 1024"
    "tree_ok (CanUseFeature feats ''ls_v2'') (with_separator src) l t" "stat_reply (CanUseFeature feats ''stat_v2'') st"
    "writes_ok (tree_dirs t + length (tree_files l t) + 2) (fd_out env)" "takes (disk env) (concat (map snd (tree_files l t)))" "Again \<notin> set (fd_in env)"
    "avail_bytes (fd_in env) = st @ list_stream (CanUseFeature feats ''ls_v2'') t @ concat (map (\<lambda>f. file_stream (snd f)) (tree_files l t)) @ rest"
  shows "\<exists>b s'. do_sync_pull_fd codecs (Suc n) h True feats [src] dst attrs Comp_none env = Inr (True, b, s') \<and> files s' = files env ++ all_files (tree_files l t)"
proof -
  let ?s = "SyncConnection feats env" and ?d = "is_directory h (touched env) dst" and ?r = "pull_root h env src dst"
  let ?files = "concat (map (\<lambda>f. file_stream (snd f)) (tree_files l t))"
  have s: "observer ?s = observer env" "touched ?s = touched env" "fd_in ?s = fd_in env" "fd_out ?s = fd_out env" "disk ?s = disk env" "files ?s = files env"
    "have_ls_v2 ?s = CanUseFeature feats ''ls_v2''" "have_stat_v2 ?s = CanUseFeature feats ''stat_v2''" by (simp_all add: SyncConnection_def)
  have dst: "dst \<noteq> []" "destination_ok h ?s dst" using assms(5) s by (simp_all add: destination_ok_def)
  have w: "writes_ok (Suc (tree_dirs t + (length (tree_files l t) + 1))) (fd_out ?s)" using assms(10) s(4) by (simp add: numeral_2_eq_2)
  have re: "stat_reply (have_stat_v2 ?s) st" "avail_bytes (fd_in ?s) = st @ list_stream (CanUseFeature feats ''ls_v2'') t @ ?files @ rest" using assms(9,13) s by simp_all
  obtain sb s1 where 1: "sync_stat_fallback src ?s = Inr (Some sb, s1)" "S_ISDIR (st_mode sb)"
      "listed (list_stream (CanUseFeature feats ''ls_v2'') t @ ?files @ rest) (tree_dirs t + (length (tree_files l t) + 1)) ?s s1"
    using sync_stat_fallback_reply [OF re assms(7) w] by blast
  have q: "\<not> observer s1" "disk s1 = disk env" "files s1 = files env" "have_ls_v2 s1 = CanUseFeature feats ''ls_v2''" "Again \<notin> set (fd_in s1)" "touched s1 = touched env"
    using 1(3) assms(3,12) s by (auto simp: listed_def calm_def same_features_def)
  have r: "?r \<noteq> []" using dst(1) by (simp add: pull_root_def with_separator_def)
  obtain s2 where 2: "copy_remote_dir_local codecs (Suc n) h src ?r attrs Comp_none s1 = Inr (True, s2)" "files s2 = files s1 ++ all_files (tree_files l t)" "pulled rest 1 s1 s2"
    using copy_tree [of codecs s1 h src ?r t 1 rest n attrs] assms(2,4,6,8,11) r q 1(3) unfolding listed_def l_def by auto
  have "Again \<notin> set (fd_in s2)" using 2(3) q(5) by (auto simp: pulled_def same_features_def)
  then obtain s3 where 3: "destroy_SyncConnection s2 = Inr s3" using destroy_ok [of 0 s2] 2(3) by (auto simp: pulled_def)
  have "pull_source codecs (Suc n) h dst ?d ?d attrs Comp_none src ?s = Inr (Some True, s2)"
    using 1(1,2) 2(1) dst(1) by (simp add: pull_source_def pull_root_def split: if_splits)
  then have "do_sync_pull_fd codecs (Suc n) h True feats [src] dst attrs Comp_none env = Inr (True, bytes_transferred s2, s3)"
    using check_destination_ok [OF dst(2), of src] 3 s(2) by (simp add: do_sync_pull_fd_def)
  then show ?thesis using 2(2) q(3) destroy_calm [OF 3] by simp
qed

text \<open>
  C7: Whatever a device answers when files and directories are pulled - malformed listings, names such as ".." or "../x", links, names with
  embedded NUL characters - nothing outside the destination is created, removed, written or given other attributes. Every path that
  is touched consists of the names of the destination, or of the source's name in it, followed by names none of which is "..",
  or it is a directory on the way there that is created.
\<close>
theorem pull_contained:
  assumes "do_sync_pull_fd codecs n h valid_fd feats srcs dst copy_attrs c env = Inr (ok, bytes, s')" "dst \<noteq> []"
  shows "(\<exists>ps. touched s' = touched env @ ps \<and> (\<forall>p \<in> set ps. \<exists>root \<in> set (dst # map (\<lambda>src. dst @ ''/'' @ Basename src) srcs).
       (is_absolute p = is_absolute root \<and> (\<exists>names. path_parts p = path_parts root @ names \<and> ''..'' \<notin> set names)) \<or>
       (prefix (path_parts p) (path_parts root) \<and> (path_parts p = [] \<or> is_absolute p = is_absolute root)))) \<and>
    (\<forall>p. files s' p \<noteq> files env p \<longrightarrow> (\<exists>root \<in> set (dst # map (\<lambda>src. dst @ ''/'' @ Basename src) srcs).
       is_absolute p = is_absolute root \<and> (\<exists>names. path_parts p = path_parts root @ names \<and> ''..'' \<notin> set names)))"
  using do_sync_pull_fd_contained [OF assms] unfolding contained_in_def above_def below_def append_Cons append_Nil by blast


section \<open>An example\<close>

text \<open>
  A directory with "." and "..", a file and a directory with another file. The device answers with the first versions of the messages; the local
  system has the current directory and the root.
\<close>

definition v1_header :: "string \<Rightarrow> u32 \<Rightarrow> string" where
  "v1_header name m = le32 ID_DENT_V1 @ le32 m @ le32 0 @ le32 0 @ le32 (of_nat (length name))"

definition sample_tree :: tree where
  "sample_tree = Tree [Tree_dot ''.'' (v1_header ''.'' 0x41ed), Tree_dir ''d'' (v1_header ''d'' 0x41ed) (Tree [Tree_file ''g'' (v1_header ''g'' 0x81a4) [''abc'']]),
     Tree_dot ''..'' (v1_header ''..'' 0x41ed), Tree_file ''f'' (v1_header ''f'' 0x81a4) [''hello'']]"

definition sample_stat :: string where
  "sample_stat = le32 ID_LSTAT_V1 @ le32 0x41ed @ le32 0 @ le32 1"

definition sample_local :: host where
  "sample_local = \<lparr>creat_ok = (\<lambda>_ _. True), host_stat = (\<lambda>_ p. if p = ''.'' \<or> p = ''/'' then Inr (stat_v1_of sample_stat) else Inl ENOENT),
     mkdir_ok = (\<lambda>_ _. True), exists_after = (\<lambda>_ _. False), attrs_ok = (\<lambda>_ _. True)\<rparr>"

definition sample_stream :: string where
  "sample_stream = sample_stat @ list_stream False sample_tree @ concat (map (\<lambda>f. file_stream (snd f)) (tree_files ''out/'' sample_tree))"

definition sample_env :: sync_conn where
  "sample_env = (plain_env [Chunk (take 30 sample_stream), Chunk (drop 30 sample_stream)] (replicate 6 (Took 2000)))\<lparr>disk := [Took 5, Took 3]\<rparr>"

lemma v1_header_simps [simp]:
  "length (v1_header n m) = 20" "le32_at (v1_header n m) 0 = ID_DENT_V1" "le32_at (v1_header n m) 4 = m" "le32_at (v1_header n m) 16 = of_nat (length n)"
  by (simp_all add: v1_header_def le32_at_def)

lemma sample_stat_simps [simp]: "length sample_stat = 16" "le32_at sample_stat 0 = ID_LSTAT_V1" "le32_at sample_stat 4 = 0x41ed"
  by (simp_all add: sample_stat_def le32_at_def)

lemma sample_dirs [simp]: "S_ISDIR 0x41ed" "\<not> S_ISDIR 0x81a4" "should_pull_file 0x81a4"
  by (simp_all add: S_ISDIR_def S_IFDIR_def S_IFMT_def should_pull_file_def S_ISREG_def S_IFREG_def)

lemma sample_root [simp]: "with_separator (pull_root sample_local env src ''out'') = ''out/''"
  by (simp add: pull_root_def is_directory_def sample_local_def with_separator_def)

lemma sample_files: "tree_files ''out/'' sample_tree = [(''out/f'', [''hello'']), (''out/d/g'', [''abc''])]"
  by (simp add: sample_tree_def)

lemma sample_ready: "host_ready sample_local"
  by (simp add: host_ready_def is_directory_def sample_local_def stat_v1_of_def)

lemma sample_destination: "destination_ok sample_local sample_env ''out''"
proof -
  have "Dirname ''out'' = ''.''" using taken_name [of "''out''" 0] by (simp add: Dirname_def PATH_MAX_def)
  then show ?thesis using sample_ready by (simp add: destination_ok_def host_ready_def) (simp add: sample_local_def)
qed

lemma sample_tree_ok: "tree_ok False (with_separator ''/sdcard/x'') ''out/'' sample_tree"
  by (simp add: sample_tree_def header_ok_def header_mode_def IsDotOrDotDot_def with_separator_def SYNC_DATA_MAX_def)

lemma sample_reply: "stat_reply False sample_stat"
  by (simp add: stat_reply_def)

lemma sample_env_simps:
  "\<not> observer sample_env" "Again \<notin> set (fd_in sample_env)" "takes (disk sample_env) [''hello'', ''abc'']" "writes_ok 6 (fd_out sample_env)" "files sample_env = Map.empty" "touched sample_env = []"
  by (simp_all add: sample_env_def plain_env_def numeral_eq_Suc)

lemma sample_env_stream: "avail_bytes (fd_in sample_env) = sample_stream"
proof -
  have "30 < length sample_stream" by (simp add: sample_stream_def sample_tree_def file_stream_def done_bytes_def)
  then have "take 30 sample_stream \<noteq> []" "drop 30 sample_stream \<noteq> []" by auto
  then show ?thesis by (simp add: sample_env_def plain_env_def)
qed

lemma sample_counts: "tree_dirs sample_tree = 2"
  by (simp add: sample_tree_def)

lemma sample_features: "CanUseFeature [] f = False"
  by (simp add: CanUseFeature_def)

abbreviation sample_l :: string where
  "sample_l \<equiv> with_separator (pull_root sample_local sample_env ''/sdcard/x'' ''out'')"

lemma sample_hyps:
  "null_codecs Comp_none = (NullDecoder SYNC_DATA_MAX, new_null_codec)" "\<not> observer sample_env" "host_ready sample_local" "destination_ok sample_local sample_env ''out''"
  "''/sdcard/x'' \<noteq> []" "length ''/sdcard/x'' \<le> 1024" "tree_ok (CanUseFeature [] ''ls_v2'') (with_separator ''/sdcard/x'') sample_l sample_tree"
  "stat_reply (CanUseFeature [] ''stat_v2'') sample_stat" "writes_ok (tree_dirs sample_tree + length (tree_files sample_l sample_tree) + 2) (fd_out sample_env)"
  "takes (disk sample_env) (concat (map snd (tree_files sample_l sample_tree)))" "Again \<notin> set (fd_in sample_env)"
  "avail_bytes (fd_in sample_env) = sample_stat @ list_stream (CanUseFeature [] ''ls_v2'') sample_tree @ concat (map (\<lambda>f. file_stream (snd f)) (tree_files sample_l sample_tree)) @ []"
  unfolding sample_root sample_features sample_counts sample_env_stream sample_stream_def sample_files using sample_ready sample_destination sample_tree_ok sample_reply sample_env_simps
  by (simp_all del: takes.simps)

theorem pull_contained_witness:
  "\<exists>b s' ps. do_sync_pull_fd null_codecs (Suc 0) sample_local True [] [''/sdcard/x''] ''out'' False Comp_none sample_env = Inr (True, b, s') \<and> touched s' = ps \<and>
     (\<forall>p \<in> set ps. \<exists>root \<in> {''out'', ''out/x''}. (is_absolute p = is_absolute root \<and> (\<exists>names. path_parts p = path_parts root @ names \<and> ''..'' \<notin> set names)) \<or>
       (prefix (path_parts p) (path_parts root) \<and> (path_parts p = [] \<or> is_absolute p = is_absolute root)))"
proof -
  obtain b s' where run: "do_sync_pull_fd null_codecs (Suc 0) sample_local True [] [''/sdcard/x''] ''out'' False Comp_none sample_env = Inr (True, b, s')"
    using pull_tree [where codecs = null_codecs, OF sample_hyps] by blast
  have "Basename ''/sdcard/x'' = ''x''" using taken_base [of 1 "''x''" "''/sdcard''" 0] by (simp add: Basename_def PATH_MAX_def)
  then show ?thesis using pull_contained [OF run] run sample_env_simps(6) by simp
qed


end
