(* ===== verification/Sync_Acks.thy ===== *)
theory Sync_Acks
  imports Sync_Protocol
begin

text \<open>
  The acknowledgements of the files that have been sent: whatever the reads and the polls return, the responses of the
  device are matched with the files in the order they were sent.
\<close>

section \<open>Responses\<close>

datatype ack = Ack_okay | Ack_fail string

fun ack_bytes :: "ack \<Rightarrow> string" where
  "ack_bytes Ack_okay = sync_header ID_OKAY 0"
| "ack_bytes (Ack_fail m) = sync_header ID_FAIL (of_nat (length m)) @ m"

fun ack_ok :: "ack \<Rightarrow> bool" where
  "ack_ok Ack_okay = True"
| "ack_ok (Ack_fail m) = (length m \<le> SYNC_DATA_MAX)"

text \<open>The bytes of responses that have not been used, in the buffer or still to come.\<close>

definition ack_stream :: "sync_conn \<Rightarrow> string" where
  "ack_stream s = acknowledgement_buffer s @ avail_bytes (fd_in s)"

text \<open>
  The responses to come are \<open>as\<close>; the buffer holds less than one of them.
\<close>

definition responses :: "sync_conn \<Rightarrow> ack list \<Rightarrow> bool" where
  "responses s as \<longleftrightarrow> ack_stream s = concat (map ack_bytes as) \<and> (\<forall>a \<in> set as. ack_ok a) \<and>
     (case as of [] \<Rightarrow> True | a # _ \<Rightarrow> length (acknowledgement_buffer s) < length (ack_bytes a))"

lemma ack_bytes_length: "length (ack_bytes a) = 8 + (case a of Ack_okay \<Rightarrow> 0 | Ack_fail m \<Rightarrow> length m)"
  by (cases a) simp_all

section \<open>Filling the buffer\<close>

text \<open>What filling the buffer leaves alone.\<close>

definition only_reads :: "sync_conn \<Rightarrow> sync_conn \<Rightarrow> bool" where
  "only_reads s s' \<longleftrightarrow> s' = s\<lparr>fd_in := fd_in s', poll_ready := poll_ready s', acknowledgement_buffer := acknowledgement_buffer s', sync_errors := sync_errors s'\<rparr>"

lemma only_reads_trans: "only_reads s s1 \<Longrightarrow> only_reads s1 s2 \<Longrightarrow> only_reads s s2"
  unfolding only_reads_def by (cases s; cases s1; cases s2) simp

lemma read_until_amount_spec:
  "read_until_amount should_block n s = (st, s') \<Longrightarrow> only_reads s s' \<and>
     (case st of
        Read_success \<Rightarrow> ack_stream s' = ack_stream s \<and> length (acknowledgement_buffer s') = max n (length (acknowledgement_buffer s)) \<and> sync_errors s' = sync_errors s
      | Try_later \<Rightarrow> ack_stream s' = ack_stream s \<and> \<not> should_block \<and> length (acknowledgement_buffer s') < n \<and> sync_errors s' = sync_errors s
      | Read_failure \<Rightarrow> length (ack_stream s) < n)"
proof (induction should_block n s rule: read_until_amount.induct)
  case (1 should_block n s)
  let ?s = "if should_block then s else s\<lparr>poll_ready := tl (poll_ready s)\<rparr>"
  let ?n = "n - length (acknowledgement_buffer s)"
  have o: "only_reads s ?s" by (simp add: only_reads_def)
  show ?case
  proof (cases "length (acknowledgement_buffer s) \<ge> n \<or> \<not> (should_block \<or> (poll_ready s \<noteq> [] \<and> hd (poll_ready s)))")
    case True
    with 1(2) show ?thesis by (subst (asm) read_until_amount.simps) (auto simp: only_reads_def ack_stream_def Let_def max_def split: if_splits)
  next
    case False
    then have n: "0 < ?n" by simp
    obtain x es where x: "adb_read (fd_in s) ?n = (x, es)" by fastforce
    have r: "case x of Got bs \<Rightarrow> bs \<noteq> [] \<and> length bs \<le> ?n \<and> avail_bytes (fd_in s) = bs @ avail_bytes es | _ \<Rightarrow> avail_bytes (fd_in s) = []"
      using adb_read_avail [OF n, of "fd_in s"] x by (auto split: read_return.splits)
    have f: "st = Read_failure \<and> only_reads s s'" if "\<forall>bs. x \<noteq> Got bs"
      using 1(2) False x that
      by (subst (asm) read_until_amount.simps) (auto simp: Let_def only_reads_def Error_def split: read_return.splits if_splits)
    show ?thesis
    proof (cases x)
      case (Got bs)
      let ?t = "?s\<lparr>fd_in := es, acknowledgement_buffer := acknowledgement_buffer s @ bs\<rparr>"
      have t: "only_reads s ?t" "ack_stream ?t = ack_stream s" "length (acknowledgement_buffer ?t) \<le> n" "sync_errors ?t = sync_errors s"
        using r Got n by (auto simp: only_reads_def ack_stream_def)
      have e: "read_until_amount should_block n s =
          (if \<not> should_block \<and> length (acknowledgement_buffer ?t) < n then (Try_later, ?t) else read_until_amount should_block n ?t)"
        using False x Got r by (subst read_until_amount.simps) (simp add: Let_def)
      show ?thesis
      proof (cases "\<not> should_block \<and> length (acknowledgement_buffer ?t) < n")
        case True
        with e 1(2) have "st = Try_later" "s' = ?t" by simp_all
        with True t show ?thesis by simp
      next
        case c: False
        have u: "read_until_amount should_block n ?t = (st, s')" using e [unfolded if_not_P [OF c]] 1(2) by (rule subst)
        have "only_reads ?t s' \<and>
           (case st of
              Read_success \<Rightarrow> ack_stream s' = ack_stream ?t \<and> length (acknowledgement_buffer s') = max n (length (acknowledgement_buffer ?t)) \<and> sync_errors s' = sync_errors ?t
            | Try_later \<Rightarrow> ack_stream s' = ack_stream ?t \<and> \<not> should_block \<and> length (acknowledgement_buffer s') < n \<and> sync_errors s' = sync_errors ?t
            | Read_failure \<Rightarrow> length (ack_stream ?t) < n)"
          by (rule 1(1) [of _ ?s x es bs ?t]) (use False x Got r c u in \<open>auto split: if_splits\<close>)
        with t n only_reads_trans [OF t(1)] show ?thesis by (cases st) (auto simp: max_def)
      qed
    qed (use f r n in \<open>simp_all add: ack_stream_def\<close>)
  qed
qed

section \<open>Matching responses with files\<close>

lemma concat_acks_Cons: "concat (map ack_bytes as) = b @ r \<Longrightarrow> as \<noteq> [] \<Longrightarrow> length b = length (ack_bytes (hd as)) \<Longrightarrow>
    b = ack_bytes (hd as) \<and> r = concat (map ack_bytes (tl as))"
  by (cases as) (auto simp: append_eq_append_conv)

text \<open>The outcome of reading acknowledgements when the responses \<open>as\<close> are to come.\<close>

definition acks_outcome :: "bool \<Rightarrow> sync_conn \<Rightarrow> ack list \<Rightarrow> nat \<Rightarrow> bool \<Rightarrow> sync_conn \<Rightarrow> bool" where
  "acks_outcome read_all s as k ok s' \<longleftrightarrow> k \<le> length as \<and> deferred_acknowledgements s' = drop k (deferred_acknowledgements s) \<and>
    (if ok then set (take k as) \<subseteq> {Ack_okay} \<and> responses s' (drop k as) \<and> sync_errors s' = sync_errors s \<and>
        length (deferred_acknowledgements s') < max_deferred_acks \<and> (read_all \<longrightarrow> deferred_acknowledgements s' = [])
     else (\<exists>j m from to. k = Suc j \<and> set (take j as) \<subseteq> {Ack_okay} \<and> as ! j = Ack_fail m \<and> deferred_acknowledgements s ! j = (from, to) \<and>
             responses s' (drop k as) \<and> sync_errors s' = sync_errors s @ [Copy_failed from to (c_str m)]) \<or>
          (k = length as \<and> set as \<subseteq> {Ack_okay} \<and> k < length (deferred_acknowledgements s)))"

lemma acks_outcome_Cons:
  assumes "acks_outcome read_all t as k ok s'" "deferred_acknowledgements s = d # deferred_acknowledgements t" "sync_errors t = sync_errors s"
  shows "acks_outcome read_all s (Ack_okay # as) (Suc k) ok s'"
  using assms unfolding acks_outcome_def by (auto split: if_splits)

lemma only_reads_deferred: "only_reads s s' \<Longrightarrow> deferred_acknowledgements s' = deferred_acknowledgements s"
  by (cases s; cases s') (simp add: only_reads_def)

lemma responses_later:
  assumes "responses s as" "ack_stream s' = ack_stream s" "as \<noteq> [] \<longrightarrow> length (acknowledgement_buffer s') < length (ack_bytes (hd as))"
  shows "responses s' as"
  using assms by (auto simp: responses_def split: list.splits)

text \<open>What the header in the buffer says about the next response.\<close>

lemma responses_header:
  assumes "ack_stream s = concat (map ack_bytes as)" "\<forall>a \<in> set as. ack_ok a" "length (acknowledgement_buffer s) \<ge> 8"
  obtains a bs r where "as = a # bs" "acknowledgement_buffer s = take 8 (ack_bytes a) @ r"
    "le32_at (acknowledgement_buffer s) 0 = (case a of Ack_okay \<Rightarrow> ID_OKAY | Ack_fail _ \<Rightarrow> ID_FAIL)"
    "unat (le32_at (acknowledgement_buffer s) 4) = (case a of Ack_okay \<Rightarrow> 0 | Ack_fail m \<Rightarrow> length m)"
proof -
  have st: "acknowledgement_buffer s @ avail_bytes (fd_in s) = concat (map ack_bytes as)" using assms(1) by (simp add: ack_stream_def)
  then obtain a bs where a: "as = a # bs" using assms(3) by (cases as) auto
  have ok: "ack_ok a" "8 \<le> length (ack_bytes a)" using assms(2) a by (simp_all add: ack_bytes_length)
  have t8: "take 8 (acknowledgement_buffer s) = take 8 (ack_bytes a)"
    using arg_cong [OF st, of "take 8"] assms(3) ok(2) a by simp
  then have b: "acknowledgement_buffer s = take 8 (ack_bytes a) @ drop 8 (acknowledgement_buffer s)" by (metis append_take_drop_id)
  have h: "take 8 (ack_bytes a) = sync_header (case a of Ack_okay \<Rightarrow> ID_OKAY | Ack_fail _ \<Rightarrow> ID_FAIL) (case a of Ack_okay \<Rightarrow> 0 | Ack_fail m \<Rightarrow> of_nat (length m))"
    by (cases a) simp_all
  have "unat (of_nat (length m) :: u32) = length m" if "a = Ack_fail m" for m
    using ok(1) that by (simp add: SYNC_DATA_MAX_def unat_of_nat)
  moreover have "le32_at (acknowledgement_buffer s) 0 = (case a of Ack_okay \<Rightarrow> ID_OKAY | Ack_fail _ \<Rightarrow> ID_FAIL)"
    by (subst b) (simp add: h)
  moreover have "le32_at (acknowledgement_buffer s) 4 = (case a of Ack_okay \<Rightarrow> 0 | Ack_fail m \<Rightarrow> of_nat (length m))"
    by (subst b) (simp add: h)
  ultimately show thesis using that [OF a b] by (cases a) simp_all
qed

lemma acks_taken:
  assumes "ack_stream s = concat (map ack_bytes (a # bs))" "\<forall>a \<in> set bs. ack_ok a" "length (acknowledgement_buffer s) = length (ack_bytes a)"
    "fd_in t = fd_in s" "acknowledgement_buffer t = []"
  shows "responses t bs"
  using assms by (auto simp: responses_def ack_stream_def append_eq_append_conv ack_bytes_length split: list.split)

lemma ReadAcknowledgements_spec:
  "responses s as \<Longrightarrow> length as \<le> length (deferred_acknowledgements s) \<Longrightarrow> ReadAcknowledgements read_all s = (ok, s') \<Longrightarrow>
     \<exists>k. acks_outcome read_all s as k ok s'"
proof (induction read_all s arbitrary: as rule: ReadAcknowledgements.induct)
  case (1 read_all s)
  show ?case
  proof (cases "deferred_acknowledgements s")
    case Nil
    then have "ok" "s' = s" "as = []" using 1(2-) by (simp_all add: ReadAcknowledgements.simps)
    then have "acks_outcome read_all s as 0 ok s'" using Nil 1(2) by (simp add: acks_outcome_def max_deferred_acks_def)
    then show ?thesis ..
  next
    case (Cons d rest)
    obtain fr dst where d: "d = (fr, dst)" by fastforce
    let ?block = "read_all \<or> length (deferred_acknowledgements s) \<ge> max_deferred_acks"
    obtain st s1 where r: "read_until_amount ?block 8 s = (st, s1)" by fastforce
    note sp = read_until_amount_spec [OF r]
    have def1: "deferred_acknowledgements s1 = d # rest" using only_reads_deferred [OF conjunct1 [OF sp]] Cons by simp
    show ?thesis
    proof (cases st)
      case Try_later
      then have "ok" "s' = s1" "\<not> ?block" using 1(4) Cons d r sp by (auto simp: ReadAcknowledgements.simps [of read_all s] Let_def)
      moreover have "responses s1 as" using sp Try_later 1(2) ack_bytes_length by (intro responses_later [OF 1(2)]) auto
      ultimately have "acks_outcome read_all s as 0 ok s'" using sp Try_later def1 Cons by (simp add: acks_outcome_def)
      then show ?thesis ..
    next
      case Read_failure
      have "as = []"
      proof (rule ccontr)
        assume "as \<noteq> []"
        then have "8 \<le> length (ack_stream s)" using 1(2) by (cases as) (auto simp: responses_def ack_bytes_length)
        with sp Read_failure show False by simp
      qed
      moreover have "\<not> ok" "s' = s1" using 1(4) Cons d r Read_failure by (auto simp: ReadAcknowledgements.simps [of read_all s] Let_def)
      ultimately have "acks_outcome read_all s as 0 ok s'" using def1 Cons by (simp add: acks_outcome_def)
      then show ?thesis ..
    next
      case Read_success
      have s1: "ack_stream s1 = concat (map ack_bytes as)" "\<forall>a \<in> set as. ack_ok a" "length (acknowledgement_buffer s1) \<ge> 8"
        using sp Read_success 1(2) by (auto simp: responses_def)
      obtain a bs q where a: "as = a # bs" "acknowledgement_buffer s1 = take 8 (ack_bytes a) @ q"
        "le32_at (acknowledgement_buffer s1) 0 = (case a of Ack_okay \<Rightarrow> ID_OKAY | Ack_fail _ \<Rightarrow> ID_FAIL)"
        "unat (le32_at (acknowledgement_buffer s1) 4) = (case a of Ack_okay \<Rightarrow> 0 | Ack_fail m \<Rightarrow> length m)"
        by (rule responses_header [OF s1])
      have len: "length (acknowledgement_buffer s1) = max 8 (length (acknowledgement_buffer s))"
        "length (acknowledgement_buffer s) < length (ack_bytes a)" "sync_errors s1 = sync_errors s"
        using sp Read_success 1(2) a(1) by (auto simp: responses_def)
      show ?thesis
      proof (cases a)
        case Ack_okay
        let ?t = "s1\<lparr>acknowledgement_buffer := [], deferred_acknowledgements := rest\<rparr>"
        have "responses ?t bs" using Ack_okay a(1) s1 len by (intro acks_taken [of s1 a bs]) simp_all
        moreover have z: "le32_at (acknowledgement_buffer s1) 4 = 0" using a(4) Ack_okay by (simp add: unat_eq_0)
        have "ReadAcknowledgements read_all s = ReadAcknowledgements read_all ?t"
          using Cons d r Read_success a(3) z Ack_okay by (simp add: ReadAcknowledgements.simps [of read_all s] Let_def)
        moreover have "length bs \<le> length rest" using 1(3) a(1) Cons by simp
        ultimately have "\<exists>k. acks_outcome read_all ?t bs k ok s'"
          by (intro 1(1) [of d rest fr dst ?block st s1 "le32_at (acknowledgement_buffer s1) 0" "le32_at (acknowledgement_buffer s1) 4"])
            (use Cons d r Read_success a(3) z Ack_okay 1(4) in simp_all)
        then show ?thesis using acks_outcome_Cons [of read_all ?t bs _ ok s' s d] Cons len(3) a(1) Ack_okay by auto
      next
        case (Ack_fail m)
        let ?n = "8 + unat (le32_at (acknowledgement_buffer s1) 4)"
        have n: "?n = length (ack_bytes a)" "unat (le32_at (acknowledgement_buffer s1) 4) \<le> SYNC_DATA_MAX"
          using a(1,4) s1(2) Ack_fail by simp_all
        obtain st2 s2 where r2: "read_until_amount ?block ?n s1 = (st2, s2)" by fastforce
        note sp2 = read_until_amount_spec [OF r2]
        have def2: "deferred_acknowledgements s2 = d # rest" using only_reads_deferred [OF conjunct1 [OF sp2]] def1 by simp
        have e: "ReadAcknowledgements read_all s =
            (case st2 of Try_later \<Rightarrow> (True, s2) | Read_failure \<Rightarrow> (False, s2)
             | Read_success \<Rightarrow> (False, (Error (Copy_failed fr dst (c_str (drop 8 (acknowledgement_buffer s2)))) s2)
                 \<lparr>deferred_acknowledgements := rest, acknowledgement_buffer := []\<rparr>))"
          using Cons d r Read_success a(3) Ack_fail r2 n(2)
          by (simp add: ReadAcknowledgements.simps [of read_all s] Let_def sync_ids split: read_status.split)
        have m: "max ?n (length (acknowledgement_buffer s1)) = length (ack_bytes a)" using n(1) len by simp
        show ?thesis
        proof (cases st2)
          case Try_later
          have "responses s2 as" using sp2 Try_later s1(1) 1(2) n(1) a(1) sp Read_success by (intro responses_later [OF 1(2)]) auto
          then have "acks_outcome read_all s as 0 ok s'"
            using e 1(4) Try_later sp2 def2 Cons len(3) by (auto simp: acks_outcome_def)
          then show ?thesis ..
        next
          case Read_failure
          then have "length (ack_stream s1) < length (ack_bytes a)" using sp2 n(1) by simp
          then show ?thesis using s1(1) a(1) by simp
        next
          case Read_success
          have st: "ack_stream s2 = concat (map ack_bytes (a # bs))" "length (acknowledgement_buffer s2) = length (ack_bytes a)" "sync_errors s2 = sync_errors s"
            using sp2 Read_success s1(1) a(1) m len(3) by simp_all
          then have b2: "acknowledgement_buffer s2 = ack_bytes a" by (simp add: ack_stream_def append_eq_append_conv)
          have s': "\<not> ok" "s' = (Error (Copy_failed fr dst (c_str m)) s2)\<lparr>deferred_acknowledgements := rest, acknowledgement_buffer := []\<rparr>"
            using e 1(4) Read_success b2 Ack_fail by auto
          have "responses s' bs" using st s1(2) a(1) s'(2) by (intro acks_taken [of s2 a bs]) (simp_all add: Error_def)
          then have "acks_outcome read_all s as 1 ok s'" using s' a(1) Ack_fail Cons d st(3) by (simp add: acks_outcome_def Error_def)
          then show ?thesis ..
        qed
      qed
    qed
  qed
qed

section \<open>The size of the buffer\<close>

lemma read_until_amount_size:
  "read_until_amount should_block n s = (st, s') \<Longrightarrow> length (acknowledgement_buffer s') \<le> max n (length (acknowledgement_buffer s))"
proof (induction should_block n s rule: read_until_amount.induct)
  case (1 should_block n s)
  let ?s = "if should_block then s else s\<lparr>poll_ready := tl (poll_ready s)\<rparr>"
  let ?n = "n - length (acknowledgement_buffer s)"
  obtain x es where x: "adb_read (fd_in s) ?n = (x, es)" by fastforce
  show ?case
  proof (cases "length (acknowledgement_buffer s) \<ge> n \<or> \<not> (should_block \<or> (poll_ready s \<noteq> [] \<and> hd (poll_ready s))) \<or> (\<forall>bs. x = Got bs \<longrightarrow> bs = [])")
    case True
    with 1(2) x show ?thesis
      by (subst (asm) read_until_amount.simps) (auto simp: Let_def Error_def split: if_splits read_return.splits)
  next
    case False
    then obtain bs where bs: "x = Got bs" "bs \<noteq> []" by blast
    have n: "0 < ?n" using False by simp
    then have l: "length bs \<le> ?n" using adb_read_avail [OF n, of "fd_in s"] x bs by simp
    let ?t = "?s\<lparr>fd_in := es, acknowledgement_buffer := acknowledgement_buffer s @ bs\<rparr>"
    have e: "read_until_amount should_block n s =
        (if \<not> should_block \<and> length (acknowledgement_buffer ?t) < n then (Try_later, ?t) else read_until_amount should_block n ?t)"
      using False x bs by (subst read_until_amount.simps) (simp add: Let_def)
    show ?thesis
    proof (cases "\<not> should_block \<and> length (acknowledgement_buffer ?t) < n")
      case True
      with e 1(2) have "s' = ?t" by simp
      with True show ?thesis by simp
    next
      case c: False
      have u: "read_until_amount should_block n ?t = (st, s')" using e [unfolded if_not_P [OF c]] 1(2) by (rule subst)
      have "length (acknowledgement_buffer s') \<le> max n (length (acknowledgement_buffer ?t))"
        by (rule 1(1) [of _ ?s x es bs ?t]) (use False x bs c u in \<open>auto split: if_splits\<close>)
      with l n show ?thesis by simp
    qed
  qed
qed

lemma ReadAcknowledgements_size:
  "ReadAcknowledgements read_all s = (ok, s') \<Longrightarrow> length (acknowledgement_buffer s) \<le> 8 + SYNC_DATA_MAX \<Longrightarrow>
     length (acknowledgement_buffer s') \<le> 8 + SYNC_DATA_MAX"
proof (induction read_all s rule: ReadAcknowledgements.induct)
  case (1 read_all s)
  show ?case
  proof (cases "deferred_acknowledgements s")
    case Nil
    then show ?thesis using 1(2,3) by (simp add: ReadAcknowledgements.simps)
  next
    case (Cons d rest)
    obtain fr dst where d: "d = (fr, dst)" by fastforce
    let ?block = "read_all \<or> length (deferred_acknowledgements s) \<ge> max_deferred_acks"
    obtain st s1 where r: "read_until_amount ?block 8 s = (st, s1)" by fastforce
    let ?id = "le32_at (acknowledgement_buffer s1) 0" and ?len = "le32_at (acknowledgement_buffer s1) 4"
    let ?t = "s1\<lparr>acknowledgement_buffer := [], deferred_acknowledgements := rest\<rparr>"
    obtain st2 s2 where r2: "read_until_amount ?block (8 + unat ?len) s1 = (st2, s2)" by fastforce
    have l: "length (acknowledgement_buffer s1) \<le> 8 + SYNC_DATA_MAX" using read_until_amount_size [OF r] 1(3) by simp
    have l2: "length (acknowledgement_buffer s2) \<le> 8 + SYNC_DATA_MAX" if "unat ?len \<le> SYNC_DATA_MAX"
      using read_until_amount_size [OF r2] l that by simp
    show ?thesis
    proof (cases "st = Read_success \<and> ?id = ID_OKAY \<and> ?len = 0")
      case True
      then have "ReadAcknowledgements read_all ?t = (ok, s')"
        using 1(2) Cons d r by (simp add: ReadAcknowledgements.simps [of read_all s] Let_def)
      then show ?thesis by (intro 1(1) [of d rest fr dst ?block st s1 ?id ?len]) (use Cons d r True in simp_all)
    next
      case False
      then show ?thesis using 1(2) Cons d r r2 l l2
        by (auto simp: ReadAcknowledgements.simps [of read_all s] Let_def Error_def split: read_status.splits if_splits)
    qed
  qed
qed

section \<open>Properties\<close>

text \<open>
  C20: The responses of the device are matched with the files that were sent, in order, whatever the reads and the polls
  return: while the calls succeed, exactly the files the device confirmed leave the list, fewer than 128 stay unconfirmed, and
  none when all are to be read. A failure report names the file the device refused and hands over its message; the only other failure is that the
  connection ended. For every device, the buffer never outgrows what was allocated for it.
\<close>
theorem acknowledgements_in_order:
  assumes "ReadAcknowledgements read_all s = (ok, s')"
  shows "(length (acknowledgement_buffer s) \<le> 8 + SYNC_DATA_MAX \<longrightarrow> length (acknowledgement_buffer s') \<le> 8 + SYNC_DATA_MAX) \<and>
    (responses s as \<and> length as \<le> length (deferred_acknowledgements s) \<longrightarrow>
      (\<exists>k \<le> length as. deferred_acknowledgements s' = drop k (deferred_acknowledgements s) \<and>
         (if ok then set (take k as) \<subseteq> {Ack_okay} \<and> responses s' (drop k as) \<and> sync_errors s' = sync_errors s \<and>
            length (deferred_acknowledgements s') < 128 \<and> (read_all \<longrightarrow> deferred_acknowledgements s' = [])
          else (\<exists>j m from to. k = Suc j \<and> set (take j as) \<subseteq> {Ack_okay} \<and> as ! j = Ack_fail m \<and> deferred_acknowledgements s ! j = (from, to) \<and>
                  responses s' (drop k as) \<and> sync_errors s' = sync_errors s @ [Copy_failed from to (c_str m)]) \<or>
               (k = length as \<and> set as \<subseteq> {Ack_okay} \<and> k < length (deferred_acknowledgements s)))))"
  using ReadAcknowledgements_spec [OF _ _ assms] ReadAcknowledgements_size [OF assms]
  unfolding acks_outcome_def max_deferred_acks_def by blast

text \<open>Two files were sent; the device confirms the first and refuses the second, in reads that split the messages.\<close>

definition two_files_sent :: sync_conn where
  "two_files_sent =
     (let b = ack_bytes Ack_okay @ ack_bytes (Ack_fail ''full'')
      in (plain_env [Chunk (take 11 b), Chunk (drop 11 b)] [])\<lparr>deferred_acknowledgements := [(''a'', ''/a''), (''b'', ''/b'')]\<rparr>)"

lemma two_files_responses: "responses two_files_sent [Ack_okay, Ack_fail ''full'']"
proof -
  let ?b = "ack_bytes Ack_okay @ ack_bytes (Ack_fail ''full'')"
  have "length ?b = 20" by simp
  then have "take 11 ?b \<noteq> []" "drop 11 ?b \<noteq> []" using take_eq_Nil [of 11 ?b] drop_eq_Nil [of 11 ?b] by (metis list.size(3) zero_neq_numeral, simp)
  then have "avail_bytes [Chunk (take 11 ?b), Chunk (drop 11 ?b)] = ?b"
    by (simp only: avail_bytes.simps if_False append_take_drop_id append_Nil2)
  then have "ack_stream two_files_sent = ?b" "acknowledgement_buffer two_files_sent = []"
    by (simp_all add: two_files_sent_def plain_env_def ack_stream_def Let_def del: ack_bytes.simps avail_bytes.simps take_append drop_append)
  then show ?thesis by (simp add: responses_def SYNC_DATA_MAX_def)
qed

theorem acknowledgements_in_order_witness:
  "fst (ReadAcknowledgements True two_files_sent) = False \<and>
     deferred_acknowledgements (snd (ReadAcknowledgements True two_files_sent)) = [] \<and>
     sync_errors (snd (ReadAcknowledgements True two_files_sent)) = [Copy_failed ''b'' ''/b'' ''full'']"
proof -
  let ?as = "[Ack_okay, Ack_fail ''full'']" and ?d = "[(''a'', ''/a''), (''b'', ''/b'')]"
  obtain ok s' where r: "ReadAcknowledgements True two_files_sent = (ok, s')" by fastforce
  have d: "deferred_acknowledgements two_files_sent = ?d" "sync_errors two_files_sent = []"
    by (simp_all add: two_files_sent_def plain_env_def Let_def)
  have "length ?as \<le> length (deferred_acknowledgements two_files_sent)" by (simp add: d)
  with acknowledgements_in_order [OF r, of ?as] two_files_responses obtain k where
    k: "k \<le> length ?as" "deferred_acknowledgements s' = drop k ?d" "ok \<longrightarrow> set (take k ?as) \<subseteq> {Ack_okay} \<and> deferred_acknowledgements s' = []"
    "\<not> ok \<longrightarrow> (\<exists>j m from to. k = Suc j \<and> ?as ! j = Ack_fail m \<and> ?d ! j = (from, to) \<and> sync_errors s' = [] @ [Copy_failed from to (c_str m)]) \<or> set ?as \<subseteq> {Ack_okay}"
    unfolding d by (metis (no_types, lifting))
  from k(1) consider "k = 0" | "k = 1" | "k = 2" by force
  then show ?thesis using k(2-) r by cases (auto simp: c_str_def)
qed

end
