(* ===== verification/Sync_Push.thy ===== *)
theory Sync_Push
  imports Sync_Pull_Dir Sync_Acks
begin

text \<open>
  Pushing files to a device: \<open>SendSmallFile\<close>, \<open>SendLargeFile\<close>, \<open>SendLargeFileLegacy\<close>, \<open>sync_send\<close>, \<open>local_build_list\<close>,
  \<open>copy_local_dir_remote\<close> and \<open>do_sync_push_fd\<close> of \<open>adb/lib/src/file_sync_client.cpp\<close>.
\<close>

section \<open>Sending one file\<close>

text \<open>
  The local files: what \<open>stat\<close>, \<open>lstat\<close> and \<open>readlink\<close> say of a path, the script of reads of a file that is opened, and the names in
  a directory.
\<close>

record local_fs =
  fs_stat :: "string \<Rightarrow> int + file_stat"
  fs_lstat :: "string \<Rightarrow> int + file_stat"
  fs_link :: "string \<Rightarrow> string option"
  fs_open :: "string \<Rightarrow> read_event list option"
  fs_list :: "string \<Rightarrow> string list option"

text \<open>How much is left of a script of reads.\<close>

fun script_size :: "read_event list \<Rightarrow> nat" where
  "script_size [] = 0"
| "script_size (Chunk bs # es) = Suc (length bs) + script_size es"
| "script_size (_ # es) = Suc (script_size es)"

lemma adb_read_size:
  "adb_read es n = (Got bs, es') \<Longrightarrow> 0 < n \<Longrightarrow> script_size es' < script_size es"
  "adb_read es n = (ReadClosed, es') \<Longrightarrow> script_size es' \<le> script_size es"
  by (cases "(es, n)" rule: adb_read.cases; force split: if_splits)+

function ReadFdToString :: "read_event list \<Rightarrow> string option" where
  "ReadFdToString es =
     (case adb_read es 4096 of
        (Got bs, es') \<Rightarrow> map_option (\<lambda>rest. bs @ rest) (ReadFdToString es')
      | (ReadClosed, _) \<Rightarrow> Some []
      | _ \<Rightarrow> None)"
  by pat_completeness auto
termination
  by (relation "measure script_size") (auto dest: adb_read_size(1) [OF sym])

declare ReadFdToString.simps [simp del]

definition ReadFileToString :: "local_fs \<Rightarrow> string \<Rightarrow> string option" where
  "ReadFileToString fs path = (case fs_open fs path of None \<Rightarrow> None | Some es \<Rightarrow> ReadFdToString es)"

definition WriteOrDie :: "string \<Rightarrow> string \<Rightarrow> string \<Rightarrow> sync_conn \<Rightarrow> (bool \<times> sync_conn) result" where
  "WriteOrDie from to data s =
     bind_r (conn_write data s) (\<lambda>(ok, s1).
       if ok then Inr (True, s1)
       else bind_r
         (if errno s1 = ECONNRESET then
            (case conn_read 8 s1 of
               (None, s2) \<Rightarrow> Inr (Error (Sync_error ''no response'') s2)
             | (Some b, s2) \<Rightarrow>
                 if le32_at b 0 \<noteq> ID_FAIL then Inr (Error (Sync_error ''not ID_FAIL'') s2)
                 else ReportCopyFailure from to (le32_at b 4) s2)
          else if \<not> observer s1 then Inr (Error (Sync_error ''write failed'') s1)
          else Inr s1) (\<lambda>s3.
           if \<not> observer s3 then Inl (ProcessExit 1) else Inr (False, s3)))"

definition RecordFileSent :: "string \<Rightarrow> string \<Rightarrow> sync_conn \<Rightarrow> sync_conn" where
  "RecordFileSent from to s =
     s\<lparr>files_transferred := Suc (files_transferred s), deferred_acknowledgements := deferred_acknowledgements s @ [(from, to)]\<rparr>"

definition RecordBytesTransferred :: "nat \<Rightarrow> sync_conn \<Rightarrow> sync_conn" where
  "RecordBytesTransferred n s = s\<lparr>bytes_transferred := bytes_transferred s + n\<rparr>"

definition path_and_mode :: "string \<Rightarrow> u32 \<Rightarrow> string" where
  "path_and_mode path mode = c_str path @ '','' @ to_dec_int (sint mode)"

definition data_message :: "string \<Rightarrow> string" where
  "data_message d = sync_header ID_DATA (of_nat (length d)) @ d"

text \<open>The end of both kinds of large files.\<close>

definition finish_file :: "string \<Rightarrow> string \<Rightarrow> u32 \<Rightarrow> sync_conn \<Rightarrow> (bool \<times> sync_conn) result" where
  "finish_file lpath rpath mtime s = WriteOrDie lpath rpath (sync_header ID_DONE mtime) (RecordFileSent lpath rpath s)"

definition open_source :: "local_fs \<Rightarrow> string \<Rightarrow> sync_conn \<Rightarrow> read_event list option \<times> sync_conn" where
  "open_source fs lpath s =
     (case fs_stat fs lpath of
        Inl _ \<Rightarrow> (None, Error (Sync_error ''cannot stat'') s)
      | Inr _ \<Rightarrow> (case fs_open fs lpath of
                    None \<Rightarrow> (None, Error (Sync_error ''opening locally failed'') s)
                  | Some es \<Rightarrow> (Some es, s)))"

subsection \<open>The first version of the protocol\<close>

text \<open>A round of the loop: it ends, with whether the file was read to its end, or goes on.\<close>

definition legacy_step :: "string \<Rightarrow> string \<Rightarrow> read_event list \<Rightarrow> sync_conn \<Rightarrow> ((bool \<times> sync_conn) + (read_event list \<times> sync_conn)) result" where
  "legacy_step lpath rpath es s =
     (case sync_should_abort s of
        (True, s0) \<Rightarrow> Inr (Inl (False, s0))
      | (False, s0) \<Rightarrow>
          (case adb_read es SYNC_DATA_MAX of
             (Got bs, es') \<Rightarrow>
               bind_r (WriteOrDie lpath rpath (data_message bs) s0) (\<lambda>(ok, s1).
                 if \<not> ok then Inr (Inl (False, s1)) else Inr (Inr (es', RecordBytesTransferred (length bs) s1)))
           | (ReadClosed, _) \<Rightarrow> Inr (Inl (True, s0))
           | _ \<Rightarrow> Inr (Inl (False, Error (Sync_error ''reading locally failed'') s0))))"

lemma legacy_step_size: "legacy_step lpath rpath es s = Inr (Inr (es', s')) \<Longrightarrow> script_size es' < script_size es"
  by (auto simp: legacy_step_def result_iff SYNC_DATA_MAX_def split: prod.splits bool.splits read_return.splits if_splits dest: adb_read_size(1))

function legacy_loop :: "string \<Rightarrow> string \<Rightarrow> read_event list \<Rightarrow> sync_conn \<Rightarrow> (bool \<times> sync_conn) result" where
  "legacy_loop lpath rpath es s =
     (case legacy_step lpath rpath es s of
        Inl e \<Rightarrow> Inl e
      | Inr (Inl r) \<Rightarrow> Inr r
      | Inr (Inr (es', s')) \<Rightarrow> legacy_loop lpath rpath es' s')"
  by pat_completeness auto
termination
  by (relation "measure (\<lambda>(_, _, es, _). script_size es)") (auto dest: legacy_step_size)

declare legacy_loop.simps [simp del]

definition SendLargeFileLegacy :: "local_fs \<Rightarrow> string \<Rightarrow> u32 \<Rightarrow> string \<Rightarrow> string \<Rightarrow> u32 \<Rightarrow> sync_conn \<Rightarrow> (bool \<times> sync_conn) result" where
  "SendLargeFileLegacy fs path mode lpath rpath mtime s =
     bind_r (SendRequest ID_SEND_V1 (path_and_mode path mode) s) (\<lambda>(ok, s1).
       if \<not> ok then Inr (False, Error (Sync_error ''failed to send ID_SEND_V1 message'') s1)
       else case open_source fs lpath s1 of
              (None, s2) \<Rightarrow> Inr (False, s2)
            | (Some es, s2) \<Rightarrow>
                bind_r (legacy_loop lpath rpath es s2) (\<lambda>(ok, s3).
                  if \<not> ok then Inr (False, s3) else finish_file lpath rpath mtime s3))"

subsection \<open>The second version\<close>

definition kSyncFlagDryRun :: u32 where "kSyncFlagDryRun = 0x80000000"

definition SendSend2 :: "string \<Rightarrow> u32 \<Rightarrow> compression \<Rightarrow> bool \<Rightarrow> sync_conn \<Rightarrow> (bool \<times> sync_conn) result" where
  "SendSend2 path mode c dry_run s =
     (if length path > 1024 then Inr (False, (Error (Path_too_long (length path)) s)\<lparr>errno := ENAMETOOLONG\<rparr>)
      else bind_r (sync_flag c) (\<lambda>flags.
        conn_write (sync_header ID_SEND_V2 (of_nat (length path)) @ path @
          le32 ID_SEND_V2 @ le32 mode @ le32 (if dry_run then flags OR kSyncFlagDryRun else flags)) s))"

text \<open>
  The loop around \<open>Encode\<close>; the bound is on the number of outputs one input can have. An output that does not fit the buffer of the message would be
  written past its end.
\<close>

fun drain_encoder :: "'e encoder_ops \<Rightarrow> nat \<Rightarrow> string \<Rightarrow> string \<Rightarrow> 'e \<Rightarrow> sync_conn \<Rightarrow> (drain_outcome \<times> 'e \<times> sync_conn) result" where
  "drain_encoder ops 0 lpath rpath e s = Inl OutOfFuel"
| "drain_encoder ops (Suc n) lpath rpath e s =
     bind_r (e_encode ops e) (\<lambda>(r, output, e1).
       if r = Encode_Error then Inr (Drain_failed, e1, Error (Sync_error ''compressing locally failed'') s)
       else if length output > SYNC_DATA_MAX then Inl OutOfBounds
       else bind_r (if output \<noteq> [] then WriteOrDie lpath rpath (data_message output) s else Inr (True, s)) (\<lambda>(ok, s1).
         if \<not> ok then Inr (Drain_failed, e1, s1)
         else if r = Encode_Done then Inr (Drain_done, e1, s1)
         else if r = Encode_NeedInput then Inr (Drain_needs_input, e1, s1)
         else drain_encoder ops n lpath rpath e1 s1))"

text \<open>What the encoder has is sent, then the loop goes on with the rest of the file unless the encoder is done.\<close>

definition large_send :: "'e encoder_ops \<Rightarrow> nat \<Rightarrow> string \<Rightarrow> string \<Rightarrow> bool \<Rightarrow> read_event list \<Rightarrow> 'e \<Rightarrow> sync_conn
    \<Rightarrow> ((bool \<times> sync_conn) + (bool \<times> read_event list \<times> 'e \<times> sync_conn)) result" where
  "large_send ops n lpath rpath fin es e s =
     bind_r (drain_encoder ops n lpath rpath e s) (\<lambda>(r, e1, s1).
       Inr (case r of
              Drain_failed \<Rightarrow> Inl (False, s1)
            | Drain_done \<Rightarrow> Inl (True, s1)
            | Drain_needs_input \<Rightarrow> Inr (fin, es, e1, s1)))"

text \<open>\<open>fin\<close> is the \<open>finished_\<close> of the encoder: \<open>Finish\<close> is fatal when it is called again.\<close>

definition large_step :: "'e encoder_ops \<Rightarrow> nat \<Rightarrow> string \<Rightarrow> string \<Rightarrow> bool \<Rightarrow> read_event list \<Rightarrow> 'e \<Rightarrow> sync_conn
    \<Rightarrow> ((bool \<times> sync_conn) + (bool \<times> read_event list \<times> 'e \<times> sync_conn)) result" where
  "large_step ops n lpath rpath fin es e s =
     (case sync_should_abort s of
        (True, s0) \<Rightarrow> Inr (Inl (False, s0))
      | (False, s0) \<Rightarrow>
          (case adb_read es SYNC_DATA_MAX of
             (Got bs, es') \<Rightarrow> large_send ops n lpath rpath fin es' (e_append ops bs e) (RecordBytesTransferred (length bs) s0)
           | (ReadClosed, es') \<Rightarrow>
               if fin then Inl (FatalLog ''Decoder::Finish called while already finished?'')
               else bind_r (e_finish ops e) (\<lambda>e1. large_send ops n lpath rpath True es' e1 s0)
           | _ \<Rightarrow> Inr (Inl (False, Error (Sync_error ''reading locally failed'') s0))))"

lemma large_send_same: "large_send ops n lpath rpath fin es e s = Inr (Inr (fin', es', e', s')) \<Longrightarrow> fin' = fin \<and> es' = es"
proof -
  assume a: "large_send ops n lpath rpath fin es e s = Inr (Inr (fin', es', e', s'))"
  then obtain r e1 s1 where "drain_encoder ops n lpath rpath e s = Inr (r, e1, s1)" by (auto simp: large_send_def result_iff)
  with a show ?thesis by (cases r) (simp_all add: large_send_def)
qed

lemma large_step_size:
  "large_step ops n lpath rpath fin es e s = Inr (Inr (fin', es', e', s')) \<Longrightarrow> script_size es' < script_size es \<or> (script_size es' \<le> script_size es \<and> \<not> fin \<and> fin')"
  by (auto simp: large_step_def result_iff SYNC_DATA_MAX_def split: prod.splits bool.splits read_return.splits if_splits
      dest!: large_send_same dest: adb_read_size)

function large_loop :: "'e encoder_ops \<Rightarrow> nat \<Rightarrow> string \<Rightarrow> string \<Rightarrow> bool \<Rightarrow> read_event list \<Rightarrow> 'e \<Rightarrow> sync_conn \<Rightarrow> (bool \<times> sync_conn) result" where
  "large_loop ops n lpath rpath fin es e s =
     (case large_step ops n lpath rpath fin es e s of
        Inl e \<Rightarrow> Inl e
      | Inr (Inl r) \<Rightarrow> Inr r
      | Inr (Inr (fin', es', e', s')) \<Rightarrow> large_loop ops n lpath rpath fin' es' e' s')"
  by pat_completeness auto
termination
  by (relation "measures [\<lambda>(_, _, _, _, fin, es, _, _). script_size es, \<lambda>(_, _, _, _, fin, es, _, _). if fin then 0 else 1]")
    (auto dest!: large_step_size)

declare large_loop.simps [simp del]

definition SendLargeFile :: "(compression \<Rightarrow> 'e encoder_ops \<times> 'e) \<Rightarrow> nat \<Rightarrow> local_fs \<Rightarrow> string \<Rightarrow> u32 \<Rightarrow> string \<Rightarrow> string \<Rightarrow> u32 \<Rightarrow> compression \<Rightarrow> bool \<Rightarrow> sync_conn \<Rightarrow> (bool \<times> sync_conn) result" where
  "SendLargeFile codecs n fs path mode lpath rpath mtime c dry_run s =
     (if dry_run \<and> \<not> have_sendrecv_v2_dry_run_send s then Inr (False, Error (Sync_error ''dry-run not supported by the device'') s)
      else if \<not> have_sendrecv_v2 s then SendLargeFileLegacy fs path mode lpath rpath mtime s
      else let c = ResolveCompressionType s c
           in bind_r (SendSend2 path mode c dry_run s) (\<lambda>(ok, s1).
                if \<not> ok then Inr (False, Error (Sync_error ''failed to send ID_SEND_V2 message'') s1)
                else case open_source fs lpath s1 of
                       (None, s2) \<Rightarrow> Inr (False, s2)
                     | (Some es, s2) \<Rightarrow>
                         bind_r (large_loop (fst (codecs c)) n lpath rpath False es (snd (codecs c)) s2) (\<lambda>(ok, s3).
                           if \<not> ok then Inr (False, s3) else finish_file lpath rpath mtime s3)))"

subsection \<open>Small files\<close>

definition SendSmallFile :: "(compression \<Rightarrow> 'e encoder_ops \<times> 'e) \<Rightarrow> nat \<Rightarrow> local_fs \<Rightarrow> string \<Rightarrow> u32 \<Rightarrow> string \<Rightarrow> string \<Rightarrow> u32 \<Rightarrow> string \<Rightarrow> bool \<Rightarrow> sync_conn \<Rightarrow> (bool \<times> sync_conn) result" where
  "SendSmallFile codecs n fs path mode lpath rpath mtime data dry_run s =
     (if dry_run then SendLargeFile codecs n fs path mode lpath rpath mtime Comp_none dry_run s
      else let pm = path_and_mode path mode
           in if length pm > 1024 then Inr (False, (Error (Path_too_long (length pm)) s)\<lparr>errno := ENAMETOOLONG\<rparr>)
              else bind_r (WriteOrDie lpath rpath (sync_header ID_SEND_V1 (of_nat (length pm)) @ pm @ data_message data @ sync_header ID_DONE mtime) s) (\<lambda>(ok, s1).
                     if \<not> ok then Inr (False, s1)
                     else Inr (True, RecordBytesTransferred (length data) (RecordFileSent lpath rpath s1))))"

text \<open>\<open>readlink\<close> fills at most \<open>PATH_MAX - 1\<close> bytes; the terminator is sent as well.\<close>

definition send_contents :: "(compression \<Rightarrow> 'e encoder_ops \<times> 'e) \<Rightarrow> nat \<Rightarrow> local_fs \<Rightarrow> string \<Rightarrow> string \<Rightarrow> u32 \<Rightarrow> u32 \<Rightarrow> compression \<Rightarrow> bool \<Rightarrow> sync_conn \<Rightarrow> (bool \<times> sync_conn) result" where
  "send_contents codecs n fs lpath rpath mtime mode c dry_run s =
     (if S_ISLNK mode then
        (case fs_link fs lpath of
           None \<Rightarrow> Inr (False, Error (Sync_error ''readlink failed'') s)
         | Some target \<Rightarrow> SendSmallFile codecs n fs rpath mode lpath rpath mtime (take (PATH_MAX - 1) target @ [CHR 0x00]) dry_run s)
      else
        (case fs_stat fs lpath of
           Inl _ \<Rightarrow> Inr (False, Error (Sync_error ''failed to stat local file'') s)
         | Inr st \<Rightarrow>
             if st_size st < int SYNC_DATA_MAX then
               (case ReadFileToString fs lpath of
                  None \<Rightarrow> Inr (False, Error (Sync_error ''failed to read all'') s)
                | Some data \<Rightarrow> SendSmallFile codecs n fs rpath mode lpath rpath mtime data dry_run s)
             else SendLargeFile codecs n fs rpath mode lpath rpath mtime c dry_run s))"

definition sync_send :: "(compression \<Rightarrow> 'e encoder_ops \<times> 'e) \<Rightarrow> nat \<Rightarrow> local_fs \<Rightarrow> string \<Rightarrow> string \<Rightarrow> u32 \<Rightarrow> u32 \<Rightarrow> bool \<Rightarrow> compression \<Rightarrow> bool \<Rightarrow> sync_conn \<Rightarrow> (bool \<times> sync_conn) result" where
  "sync_send codecs n fs lpath rpath mtime mode sync c dry_run s =
     bind_r (if sync then sync_lstat rpath s else Inr (None, s)) (\<lambda>(st, s1).
       if (case st of None \<Rightarrow> False | Some st \<Rightarrow> st_mtime st = uint mtime) then Inr (True, s1\<lparr>files_skipped := Suc (files_skipped s1)\<rparr>)
       else bind_r (send_contents codecs n fs lpath rpath mtime mode c dry_run s1) (\<lambda>(ok, s2).
              if \<not> ok then Inr (False, s2) else Inr (ReadAcknowledgements sync s2)))"

section \<open>Directories\<close>

definition is_root_dir :: "string \<Rightarrow> bool" where
  "is_root_dir path \<longleftrightarrow> (\<forall>c \<in> set path. c = slash)"

text \<open>The loop over the directories above the destination; \<^const>\<open>None\<close> means that it does not end.\<close>

partial_function (option) dirs_above :: "string \<Rightarrow> string list option" where
  "dirs_above path = (if is_root_dir path then Some [] else Option.bind (dirs_above (Dirname path)) (\<lambda>ds. Some (path # ds)))"

primrec local_entries :: "local_fs \<Rightarrow> string \<Rightarrow> string \<Rightarrow> string list \<Rightarrow> copyinfo list \<Rightarrow> copyinfo list \<Rightarrow> sync_conn \<Rightarrow> (copyinfo list \<times> copyinfo list \<times> sync_conn) result" where
  "local_entries fs lpath rpath [] file_list dirlist s = Inr (file_list, dirlist, s)"
| "local_entries fs lpath rpath (name # names) file_list dirlist s =
     (if IsDotOrDotDot name then local_entries fs lpath rpath names file_list dirlist s
      else case fs_lstat fs (lpath @ name) of
             Inl _ \<Rightarrow> local_entries fs lpath rpath names file_list dirlist (Error (Sync_error ''cannot lstat'') s)
           | Inr st \<Rightarrow>
               bind_r (new_copyinfo lpath rpath name (st_mode st)) (\<lambda>ci.
                 if S_ISDIR (st_mode st) then local_entries fs lpath rpath names file_list (dirlist @ [ci]) s
                 else local_entries fs lpath rpath names
                        (file_list @ [ci\<lparr>ci_skip := \<not> should_push_file (st_mode st), ci_time := of_int (st_mtime st), ci_size := of_int (st_size st)\<rparr>]) dirlist s))"

text \<open>The results of the recursive calls are not looked at.\<close>

primrec local_dirs :: "(string \<Rightarrow> string \<Rightarrow> copyinfo list \<Rightarrow> string list \<Rightarrow> sync_conn \<Rightarrow> (bool \<times> copyinfo list \<times> string list \<times> sync_conn) result)
    \<Rightarrow> copyinfo list \<Rightarrow> copyinfo list \<Rightarrow> string list \<Rightarrow> sync_conn \<Rightarrow> (copyinfo list \<times> string list \<times> sync_conn) result" where
  "local_dirs build [] file_list directory_list s = Inr (file_list, directory_list, s)"
| "local_dirs build (ci # cis) file_list directory_list s =
     bind_r (build (ci_lpath ci) (ci_rpath ci) file_list (directory_list @ [ci_rpath ci]) s) (\<lambda>(_, file_list, directory_list, s1).
       local_dirs build cis file_list directory_list s1)"

text \<open>The first argument bounds the depth of the local directory.\<close>

primrec local_build_list :: "nat \<Rightarrow> local_fs \<Rightarrow> string \<Rightarrow> string \<Rightarrow> copyinfo list \<Rightarrow> string list \<Rightarrow> sync_conn \<Rightarrow> (bool \<times> copyinfo list \<times> string list \<times> sync_conn) result" where
  "local_build_list 0 fs lpath rpath file_list directory_list s = Inl OutOfFuel"
| "local_build_list (Suc k) fs lpath rpath file_list directory_list s =
     (case fs_list fs lpath of
        None \<Rightarrow> Inr (False, file_list, directory_list, Error (Sync_error ''cannot open'') s)
      | Some names \<Rightarrow>
          bind_r (local_entries fs lpath rpath names file_list [] s) (\<lambda>(file_list, dirlist, s1).
          bind_r (local_dirs (local_build_list k fs) dirlist file_list directory_list s1) (\<lambda>(file_list, directory_list, s2).
            Inr (True, file_list, directory_list, s2))))"

text \<open>
  \<open>copy_local_dir_remote\<close> up to \<open>sc.Features()\<close>: the constructor of the connection leaves \<open>features_\<close> a null pointer, and nothing else
  sets it, so what follows is not reached.
\<close>

definition copy_local_dir_remote :: "nat \<Rightarrow> local_fs \<Rightarrow> string \<Rightarrow> string \<Rightarrow> sync_conn \<Rightarrow> (bool \<times> sync_conn) result" where
  "copy_local_dir_remote depth fs lpath rpath s =
     bind_r (ensure_trailing_separators lpath rpath) (\<lambda>(lpath, rpath).
       case dirs_above rpath of
         None \<Rightarrow> Inl OutOfFuel
       | Some directory_list \<Rightarrow>
           bind_r (local_build_list depth fs lpath rpath [] (rev directory_list) s) (\<lambda>(ok, file_list, directory_list, s1).
             if \<not> ok then Inr (False, s1) else Inl NullPointer))"

section \<open>Pushing\<close>

definition check_push_destination :: "string list \<Rightarrow> string \<Rightarrow> sync_conn \<Rightarrow> ((bool \<times> bool) option \<times> sync_conn) result" where
  "check_push_destination srcs dst s =
     bind_r (sync_stat_fallback dst s) (\<lambda>(st, s1).
       let dst_exists = (st \<noteq> None); dst_isdir = (case st of None \<Rightarrow> False | Some st \<Rightarrow> S_ISDIR (st_mode st))
       in if \<not> dst_exists \<and> errno s1 \<noteq> ENOENT \<and> errno s1 \<noteq> ENOPROTOOPT
          then Inr (None, Error (Sync_error ''stat failed when trying to push'') s1)
          else if dst_isdir then Inr (Some (True, True), s1)
          else if length srcs > 1 then Inr (None, Error (Sync_error ''target is not a directory'') s1)
          else if dst = [] then Inl OutOfBounds
          else if last dst = slash \<and> dst_exists then Inr (None, Error (Sync_error ''failed to access: Not a directory'') s1)
          else Inr (Some (dst_exists, False), s1))"

definition push_source :: "(compression \<Rightarrow> 'e encoder_ops \<times> 'e) \<Rightarrow> nat \<Rightarrow> nat \<Rightarrow> local_fs \<Rightarrow> string \<Rightarrow> bool \<Rightarrow> bool \<Rightarrow> bool \<Rightarrow> compression \<Rightarrow> bool \<Rightarrow> string \<Rightarrow> sync_conn \<Rightarrow> (bool option \<times> sync_conn) result" where
  "push_source codecs n depth fs dst dst_exists dst_isdir sync c dry_run src s =
     (case fs_stat fs src of
        Inl _ \<Rightarrow> Inr (Some False, Error (Sync_error ''cannot stat'') s)
      | Inr st \<Rightarrow>
          if S_ISDIR (st_mode st) then
            (if dst_exists \<and> \<not> dst_isdir then Inr (None, Error (Sync_error ''target is not a directory'') s)
             else if dst_exists \<and> dst = [] then Inl (Undefined ''back() of an empty string'')
             else bind_r (copy_local_dir_remote depth fs src (if dst_exists then with_separator dst @ Basename src else dst) s)
                    (\<lambda>(ok, s1). Inr (Some ok, s1)))
          else if \<not> should_push_file (st_mode st) then Inr (Some True, s)
          else if dst_isdir \<and> dst = [] then Inl (Undefined ''back() of an empty string'')
          else bind_r (sync_send codecs n fs src (if dst_isdir then with_separator dst @ Basename src else dst) (of_int (st_mtime st)) (st_mode st) sync c dry_run s)
                 (\<lambda>(ok, s1). Inr (Some ok, s1)))"

primrec push_sources :: "(compression \<Rightarrow> 'e encoder_ops \<times> 'e) \<Rightarrow> nat \<Rightarrow> nat \<Rightarrow> local_fs \<Rightarrow> string \<Rightarrow> bool \<Rightarrow> bool \<Rightarrow> bool \<Rightarrow> compression \<Rightarrow> bool \<Rightarrow> string list \<Rightarrow> bool \<Rightarrow> sync_conn \<Rightarrow> (bool option \<times> sync_conn) result" where
  "push_sources codecs n depth fs dst dst_exists dst_isdir sync c dry_run [] success s = Inr (Some success, s)"
| "push_sources codecs n depth fs dst dst_exists dst_isdir sync c dry_run (src # srcs) success s =
     bind_r (push_source codecs n depth fs dst dst_exists dst_isdir sync c dry_run src s) (\<lambda>(r, s1). case r of
       None \<Rightarrow> Inr (None, s1)
     | Some ok \<Rightarrow> push_sources codecs n depth fs dst dst_exists dst_isdir sync c dry_run srcs (success \<and> ok) s1)"

definition do_sync_push_fd :: "(compression \<Rightarrow> 'e encoder_ops \<times> 'e) \<Rightarrow> nat \<Rightarrow> nat \<Rightarrow> local_fs \<Rightarrow> bool \<Rightarrow> string list \<Rightarrow> string list \<Rightarrow> string \<Rightarrow> bool \<Rightarrow> compression \<Rightarrow> bool \<Rightarrow> sync_conn \<Rightarrow> (bool \<times> nat \<times> sync_conn) result" where
  "do_sync_push_fd codecs n depth fs valid_fd feats srcs dst sync c dry_run env =
     (if \<not> valid_fd then Inr (False, 0, SyncConnection feats env)
      else bind_r (check_push_destination srcs dst (SyncConnection feats env)) (\<lambda>(d, s).
             bind_r (case d of
                 None \<Rightarrow> Inr (None, s)
               | Some (dst_exists, dst_isdir) \<Rightarrow>
                   bind_r (push_sources codecs n depth fs dst dst_exists dst_isdir sync c dry_run srcs True s) (\<lambda>(r, s1).
                     case r of None \<Rightarrow> Inr (None, s1)
                     | Some success \<Rightarrow> (case ReadAcknowledgements True s1 of (acked, s2) \<Rightarrow> Inr (Some (success \<and> acked), s2)))) (\<lambda>(r, s1).
               bind_r (destroy_SyncConnection s1) (\<lambda>s2.
                 Inr (r = Some True, if r = None then 0 else bytes_transferred s1, s2)))))"

section \<open>What is sent\<close>

text \<open>After a step that succeeds, exactly these bytes have been sent.\<close>

definition sends :: "string \<Rightarrow> sync_conn \<Rightarrow> sync_conn \<Rightarrow> bool" where
  "sends bs s s' \<longleftrightarrow> fd_sent s' = fd_sent s @ bs \<and> deferred_acknowledgements s' = deferred_acknowledgements s \<and> acknowledgement_buffer s' = acknowledgement_buffer s \<and> fd_in s' = fd_in s"

lemma sends_refl [simp]: "sends [] s s"
  by (simp add: sends_def)

lemma sends_trans: "sends a s s1 \<Longrightarrow> sends b s1 s2 \<Longrightarrow> sends (a @ b) s s2"
  by (simp add: sends_def)

lemma sends_bytes [simp]: "sends bs (RecordBytesTransferred n s) s' = sends bs s s'" "sends bs s (RecordBytesTransferred n s') = sends bs s s'"
  by (simp_all add: sends_def RecordBytesTransferred_def)

lemma sends_abort: "sync_should_abort s = (b, s') \<Longrightarrow> sends [] s s'"
  by (auto simp: sync_should_abort_def sends_def split: if_splits list.splits)

lemma sends_write: "conn_write bs s = Inr (True, s') \<Longrightarrow> sends bs s s'"
  using WriteFdExactly_prefix by (fastforce simp: conn_write_def sends_def split: prod.splits write_outcome.splits)

lemma sends_or_die: "WriteOrDie a b bs s = Inr (True, s') \<Longrightarrow> sends bs s s'"
  by (auto simp: WriteOrDie_def result_iff split: if_splits dest: sends_write)

lemma sends_request: "SendRequest i path s = Inr (True, s') \<Longrightarrow> sends (sync_header i (of_nat (length path)) @ path) s s'"
  by (auto simp: SendRequest_def split: if_splits dest: sends_write)

lemma finish_file_sends:
  assumes "finish_file lpath rpath mtime s = Inr (True, s')"
  shows "fd_sent s' = fd_sent s @ sync_header ID_DONE mtime \<and> deferred_acknowledgements s' = deferred_acknowledgements s @ [(lpath, rpath)] \<and>
    acknowledgement_buffer s' = acknowledgement_buffer s \<and> fd_in s' = fd_in s"
  using sends_or_die assms by (fastforce simp: finish_file_def sends_def RecordFileSent_def)

lemma open_source_SomeD: "open_source fs lpath s = (Some es, s') \<Longrightarrow> s' = s \<and> fs_open fs lpath = Some es"
  by (auto simp: open_source_def split: sum.splits option.splits)

lemma adb_read_Got: "adb_read es n = (Got bs, es') \<Longrightarrow> avail_bytes es = bs @ avail_bytes es' \<and> length bs \<le> n"
  by (cases "(es, n)" rule: adb_read.cases) (auto split: if_splits)

lemma adb_read_Closed: "adb_read es n = (ReadClosed, es') \<Longrightarrow> avail_bytes es = []"
  by (cases "(es, n)" rule: adb_read.cases) (auto split: if_splits)

lemma ReadFdToString_bytes: "ReadFdToString es = Some d \<Longrightarrow> d = avail_bytes es"
proof (induction es arbitrary: d rule: ReadFdToString.induct)
  case (1 es)
  obtain r es' where r: "adb_read es 4096 = (r, es')" by fastforce
  show ?case
  proof (cases r)
    case (Got bs)
    then obtain d' where "ReadFdToString es' = Some d'" "d = bs @ d'" using 1(2) r by (subst (asm) ReadFdToString.simps) auto
    then show ?thesis using 1(1) [OF r [symmetric] Got] adb_read_Got [of es 4096 bs es'] r Got by simp
  qed (use 1(2) r adb_read_Closed in \<open>subst (asm) ReadFdToString.simps, simp\<close>)+
qed

abbreviation blocks :: "string list \<Rightarrow> string" where
  "blocks ds \<equiv> concat (map data_message ds)"

lemma legacy_step_cases:
  assumes "legacy_step lpath rpath es s = Inr r"
  obtains (failed) s' where "r = Inl (False, s')"
  | (ended) s' where "r = Inl (True, s')" "avail_bytes es = []" "sends [] s s'"
  | (block) bs es' s' where "r = Inr (es', s')" "avail_bytes es = bs @ avail_bytes es'" "length bs \<le> SYNC_DATA_MAX" "sends (data_message bs) s s'"
proof -
  obtain b s0 where a: "sync_should_abort s = (b, s0)" by fastforce
  obtain x es' where x: "adb_read es SYNC_DATA_MAX = (x, es')" by fastforce
  note s0 = sends_abort [OF a]
  show thesis
  proof (cases "\<not> b \<and> (\<exists>bs. x = Got bs)")
    case True
    then obtain bs where bs: "x = Got bs" by blast
    then obtain ok s1 where 1: "WriteOrDie lpath rpath (data_message bs) s0 = Inr (ok, s1)" using assms a x True by (auto simp: legacy_step_def result_iff)
    show ?thesis
    proof (cases ok)
      case ok: True
      have "sends (data_message bs) s0 s1" using sends_or_die 1 ok by simp
      then have "sends (data_message bs) s s1" using sends_trans [OF s0] by simp
      then show ?thesis using block [of es' "RecordBytesTransferred (length bs) s1" bs] adb_read_Got [of es SYNC_DATA_MAX bs es'] assms a x bs 1 ok True by (simp add: legacy_step_def)
    next
      case False
      then show ?thesis using failed assms a x bs 1 True by (auto simp: legacy_step_def)
    qed
  next
    case False
    then show ?thesis using assms a x s0 failed ended adb_read_Closed [of es SYNC_DATA_MAX es'] by (cases b; cases x) (auto simp: legacy_step_def)
  qed
qed

lemma legacy_loop_sends:
  "legacy_loop lpath rpath es s = Inr (True, s') \<Longrightarrow> \<exists>ds. sends (blocks ds) s s' \<and> concat ds = avail_bytes es \<and> (\<forall>d \<in> set ds. length d \<le> SYNC_DATA_MAX)"
proof (induction "script_size es" arbitrary: es s rule: less_induct)
  case less
  then obtain r where r: "legacy_step lpath rpath es s = Inr r" by (subst (asm) (2) legacy_loop.simps) (auto split: sum.splits)
  then show ?case
  proof (cases rule: legacy_step_cases)
    case (failed s1)
    then show ?thesis using less.prems r by (subst (asm) legacy_loop.simps) simp
  next
    case (ended s1)
    then have "sends (blocks []) s s'" using less.prems r by (subst (asm) legacy_loop.simps) simp
    then show ?thesis using ended(2) by (intro exI [of _ "[]"]) simp
  next
    case (block bs es1 s1)
    then have "legacy_loop lpath rpath es1 s1 = Inr (True, s')" using less.prems r by (subst (asm) legacy_loop.simps) simp
    moreover have "script_size es1 < script_size es" using legacy_step_size r block(1) by blast
    ultimately obtain ds where ds: "sends (blocks ds) s1 s'" "concat ds = avail_bytes es1" "\<forall>d \<in> set ds. length d \<le> SYNC_DATA_MAX" using less.hyps by blast
    have "sends (blocks (bs # ds)) s s'" using sends_trans [OF block(4) ds(1)] by simp
    then show ?thesis using ds(2,3) block(2,3) by (intro exI [of _ "bs # ds"]) simp
  qed
qed

text \<open>The second version, with any codec that keeps the contract.\<close>

context encoder
begin

lemma drain_encoder_sends:
  "drain_encoder ops n lpath rpath e s = Inr (r, e', s') \<Longrightarrow> state e i out f \<Longrightarrow> r \<noteq> Drain_failed \<Longrightarrow>
     \<exists>ds. sends (blocks ds) s s' \<and> state e' i (out @ concat ds) f \<and> (\<forall>d \<in> set ds. length d \<le> SYNC_DATA_MAX) \<and>
       (if r = Drain_done then f \<and> expand (out @ concat ds) = Some i else \<not> f)"
proof (induction n arbitrary: e s out)
  case (Suc n)
  obtain x b e1 where x: "e_encode ops e = Inr (x, b, e1)" "x \<noteq> Encode_Error \<Longrightarrow> state e1 i (out @ b) f" "x = Encode_Done \<Longrightarrow> f \<and> expand (out @ b) = Some i" "x = Encode_NeedInput \<Longrightarrow> \<not> f"
    using state_encode [OF Suc.prems(2)] by blast
  have xe: "x \<noteq> Encode_Error" "length b \<le> SYNC_DATA_MAX" using Suc.prems(1,3) x(1) by (auto split: if_splits)
  obtain ok s1 where 1: "(if b \<noteq> [] then WriteOrDie lpath rpath (data_message b) s else Inr (True, s)) = Inr (ok, s1)"
    using Suc.prems(1) x(1) xe by (auto simp: result_iff)
  have ok: ok using Suc.prems(1,3) x(1) xe 1 by (auto split: if_splits)
  define d1 where "d1 = (if b = [] then [] else [b])"
  have d1: "sends (blocks d1) s s1" "concat d1 = b" "\<forall>d \<in> set d1. length d \<le> SYNC_DATA_MAX"
    using 1 ok xe(2) sends_or_die [of lpath rpath "data_message b" s s1] by (auto simp: d1_def split: if_splits)
  have run: "(if x = Encode_Done then Inr (Drain_done, e1, s1) else if x = Encode_NeedInput then Inr (Drain_needs_input, e1, s1) else drain_encoder ops n lpath rpath e1 s1) = Inr (r, e', s')"
    using Suc.prems(1) x(1) xe 1 ok by simp
  show ?case
  proof (cases "x = Encode_Done \<or> x = Encode_NeedInput")
    case True
    then show ?thesis using run x(2-4) xe(1) d1 by (intro exI [of _ d1]) (auto split: if_splits)
  next
    case False
    then have rec: "drain_encoder ops n lpath rpath e1 s1 = Inr (r, e', s')" using run by simp
    obtain ds where ds: "sends (blocks ds) s1 s'" "state e' i ((out @ b) @ concat ds) f" "\<forall>d \<in> set ds. length d \<le> SYNC_DATA_MAX"
        "if r = Drain_done then f \<and> expand ((out @ b) @ concat ds) = Some i else \<not> f"
      using Suc.IH [OF rec x(2) [OF xe(1)] Suc.prems(3)] by blast
    then show ?thesis using sends_trans [OF d1(1) ds(1)] d1(2,3) by (intro exI [of _ "d1 @ ds"]) (auto split: if_splits)
  qed
qed simp

lemma large_step_sends:
  assumes "large_step ops n lpath rpath False es e s = Inr r" "state e i out False" "SYNC_DATA_MAX \<le> max_block"
  obtains (failed) s' where "r = Inl (False, s')"
  | (ended) ds s' where "r = Inl (True, s')" "sends (blocks ds) s s'" "\<forall>d \<in> set ds. length d \<le> SYNC_DATA_MAX" "expand (out @ concat ds) = Some (i @ avail_bytes es)"
  | (block) ds bs es' e' s' where "r = Inr (False, es', e', s')" "avail_bytes es = bs @ avail_bytes es'" "sends (blocks ds) s s'" "\<forall>d \<in> set ds. length d \<le> SYNC_DATA_MAX"
      "state e' (i @ bs) (out @ concat ds) False"
proof -
  obtain b s0 where a: "sync_should_abort s = (b, s0)" by fastforce
  obtain x es' where x: "adb_read es SYNC_DATA_MAX = (x, es')" by fastforce
  note s0 = sends_abort [OF a]
  have finish: thesis
    if e1: "state e1 (i @ bs) out f" and run: "large_send ops n lpath rpath f es' e1 s1 = Inr r" and s1: "\<And>ds s'. sends ds s1 s' \<Longrightarrow> sends ds s s'"
      and bs: "avail_bytes es = bs @ (if f then [] else avail_bytes es')" for e1 bs f s1
  proof -
    obtain d e2 s2 where d: "drain_encoder ops n lpath rpath e1 s1 = Inr (d, e2, s2)" using run by (auto simp: large_send_def result_iff)
    show thesis
    proof (cases "d = Drain_failed")
      case True
      then show thesis using failed run d by (auto simp: large_send_def)
    next
      case False
      obtain ds where ds: "sends (blocks ds) s1 s2" "state e2 (i @ bs) (out @ concat ds) f" "\<forall>d \<in> set ds. length d \<le> SYNC_DATA_MAX"
          "if d = Drain_done then f \<and> expand (out @ concat ds) = Some (i @ bs) else \<not> f"
        using drain_encoder_sends [OF d e1 False] by blast
      show thesis
      proof (cases "d = Drain_done")
        case True
        then show thesis using ended [of s2 ds] run d ds s1 bs by (simp add: large_send_def)
      next
        case dn: False
        then have "d = Drain_needs_input" "\<not> f" using False ds(4) by (cases d; simp)+
        then show thesis using block [of es' e2 s2 bs ds] run d ds s1 bs by (simp add: large_send_def)
      qed
    qed
  qed
  have sent: "sends ds s s'" if "sends ds s0 s'" for ds s' using sends_trans [OF s0 that] by simp
  show thesis
  proof (cases b)
    case True
    then show thesis using failed assms(1) a by (auto simp: large_step_def)
  next
    case False
    show thesis
    proof (cases x)
      case (Got bs)
      have bs: "avail_bytes es = bs @ avail_bytes es'" "length bs \<le> max_block" using adb_read_Got [of es SYNC_DATA_MAX bs es'] x Got assms(3) by simp_all
      show thesis
      proof (rule finish [OF state_append [OF assms(2) bs(2)]])
        show "large_send ops n lpath rpath False es' (e_append ops bs e) (RecordBytesTransferred (length bs) s0) = Inr r" using assms(1) a x False Got by (simp add: large_step_def)
      qed (use bs(1) sent in simp_all)
    next
      case ReadClosed
      obtain e1 where e1: "e_finish ops e = Inr e1" "state e1 i out True" using state_finish [OF assms(2)] by blast
      have "state e1 (i @ []) out True" using e1(2) by simp
      then show thesis
      proof (rule finish)
        show "large_send ops n lpath rpath True es' e1 s0 = Inr r" using assms(1) a x False ReadClosed e1(1) by (simp add: large_step_def)
        show "avail_bytes es = [] @ (if True then [] else avail_bytes es')" using adb_read_Closed x ReadClosed by simp
      qed (rule sent)
    qed (use assms(1) a x False failed in \<open>auto simp: large_step_def\<close>)
  qed
qed

lemma large_loop_sends:
  "large_loop ops n lpath rpath False es e s = Inr (True, s') \<Longrightarrow> state e i out False \<Longrightarrow> SYNC_DATA_MAX \<le> max_block \<Longrightarrow>
     \<exists>ds. sends (blocks ds) s s' \<and> (\<forall>d \<in> set ds. length d \<le> SYNC_DATA_MAX) \<and> expand (out @ concat ds) = Some (i @ avail_bytes es)"
proof (induction "script_size es" arbitrary: es e s i out rule: less_induct)
  case less
  then obtain r where r: "large_step ops n lpath rpath False es e s = Inr r" by (subst (asm) (2) large_loop.simps) (auto split: sum.splits)
  from r less.prems(2,3) show ?case
  proof (cases rule: large_step_sends)
    case (failed s1)
    then show ?thesis using less.prems(1) r by (subst (asm) large_loop.simps) simp
  next
    case (ended ds s1)
    then show ?thesis using less.prems(1) r by (subst (asm) large_loop.simps) auto
  next
    case (block ds bs es1 e1 s1)
    have "large_loop ops n lpath rpath False es1 e1 s1 = Inr (True, s')" using less.prems(1) r block(1) by (subst (asm) large_loop.simps) simp
    moreover have "script_size es1 < script_size es" using large_step_size [of ops n lpath rpath False es e s False es1 e1 s1] r block(1) by simp
    ultimately obtain ds' where ds': "sends (blocks ds') s1 s'" "\<forall>d \<in> set ds'. length d \<le> SYNC_DATA_MAX" "expand ((out @ concat ds) @ concat ds') = Some ((i @ bs) @ avail_bytes es1)"
      using less.hyps [OF _ _ block(5) less.prems(3)] by blast
    then show ?thesis using sends_trans [OF block(3) ds'(1)] block(2,4) by (intro exI [of _ "ds @ ds'"]) auto
  qed
qed

end

text \<open>The two requests a file can start with.\<close>

definition send_v1_request :: "string \<Rightarrow> u32 \<Rightarrow> string" where
  "send_v1_request path mode = sync_header ID_SEND_V1 (of_nat (length (path_and_mode path mode))) @ path_and_mode path mode"

definition send_v2_request :: "string \<Rightarrow> u32 \<Rightarrow> string" where
  "send_v2_request path mode = sync_header ID_SEND_V2 (of_nat (length path)) @ path @ le32 ID_SEND_V2 @ le32 mode @ le32 0"

text \<open>A file has been sent: a request, the blocks, the end, and an acknowledgement to wait for.\<close>

definition file_sent :: "string \<Rightarrow> string \<Rightarrow> u32 \<Rightarrow> u32 \<Rightarrow> string list \<Rightarrow> sync_conn \<Rightarrow> sync_conn \<Rightarrow> bool" where
  "file_sent lpath rpath mode mtime ds s s' \<longleftrightarrow>
     (\<exists>req \<in> {send_v1_request rpath mode, send_v2_request rpath mode}. fd_sent s' = fd_sent s @ req @ blocks ds @ sync_header ID_DONE mtime) \<and>
     deferred_acknowledgements s' = deferred_acknowledgements s @ [(lpath, rpath)] \<and> acknowledgement_buffer s' = acknowledgement_buffer s \<and> fd_in s' = fd_in s"

lemma SendLargeFileLegacy_sends:
  assumes "SendLargeFileLegacy fs rpath mode lpath rpath mtime s = Inr (True, s')"
  shows "\<exists>es ds. fs_open fs lpath = Some es \<and> file_sent lpath rpath mode mtime ds s s' \<and> concat ds = avail_bytes es \<and> (\<forall>d \<in> set ds. length d \<le> SYNC_DATA_MAX)"
proof -
  obtain s1 es s2 s3 where 1: "SendRequest ID_SEND_V1 (path_and_mode rpath mode) s = Inr (True, s1)" "open_source fs lpath s1 = (Some es, s2)"
      "legacy_loop lpath rpath es s2 = Inr (True, s3)" "finish_file lpath rpath mtime s3 = Inr (True, s')"
    using assms by (auto simp: SendLargeFileLegacy_def result_iff split: if_splits prod.splits option.splits)
  obtain ds where ds: "sends (blocks ds) s2 s3" "concat ds = avail_bytes es" "\<forall>d \<in> set ds. length d \<le> SYNC_DATA_MAX" using legacy_loop_sends [OF 1(3)] by blast
  then have "file_sent lpath rpath mode mtime ds s s'"
    using sends_request [OF 1(1)] open_source_SomeD [OF 1(2)] finish_file_sends [OF 1(4)] by (simp add: file_sent_def sends_def send_v1_request_def)
  then show ?thesis using ds(2,3) open_source_SomeD [OF 1(2)] by blast
qed

lemma SendSend2_sends: "SendSend2 path mode Comp_none False s = Inr (True, s') \<Longrightarrow> sends (send_v2_request path mode) s s'"
  by (auto simp: SendSend2_def send_v2_request_def split: if_splits dest: sends_write)

lemma SendLargeFile_sends:
  assumes "SendLargeFile codecs n fs rpath mode lpath rpath mtime Comp_none False s = Inr (True, s')" "codecs Comp_none = (NullEncoder SYNC_DATA_MAX, new_null_codec)"
  shows "\<exists>es ds. fs_open fs lpath = Some es \<and> file_sent lpath rpath mode mtime ds s s' \<and> concat ds = avail_bytes es \<and> (\<forall>d \<in> set ds. length d \<le> SYNC_DATA_MAX)"
proof (cases "have_sendrecv_v2 s")
  case True
  have blk: "SYNC_DATA_MAX = codec_block" by (simp add: SYNC_DATA_MAX_def codec_block_def)
  obtain s1 es s2 s3 where 1: "SendSend2 rpath mode Comp_none False s = Inr (True, s1)" "open_source fs lpath s1 = (Some es, s2)"
      "large_loop (NullEncoder codec_block) n lpath rpath False es new_null_codec s2 = Inr (True, s3)" "finish_file lpath rpath mtime s3 = Inr (True, s')"
    using assms True unfolding blk by (auto simp: SendLargeFile_def ResolveCompressionType_def result_iff split: if_splits prod.splits option.splits)
  obtain ds where ds: "sends (blocks ds) s2 s3" "\<forall>d \<in> set ds. length d \<le> SYNC_DATA_MAX" "Some ([] @ concat ds) = Some ([] @ avail_bytes es)"
    using null_encoder.large_loop_sends [OF 1(3) null_encoder.state_fresh] blk by auto
  then have "file_sent lpath rpath mode mtime ds s s'"
    using SendSend2_sends [OF 1(1)] open_source_SomeD [OF 1(2)] finish_file_sends [OF 1(4)] by (simp add: file_sent_def sends_def)
  then show ?thesis using ds(2,3) open_source_SomeD [OF 1(2)] by auto
next
  case False
  then show ?thesis using SendLargeFileLegacy_sends assms(1) by (simp add: SendLargeFile_def)
qed

lemma SendSmallFile_sends:
  assumes "SendSmallFile codecs n fs rpath mode lpath rpath mtime data False s = Inr (True, s')"
  shows "file_sent lpath rpath mode mtime [data] s s'"
proof -
  obtain s1 where 1: "WriteOrDie lpath rpath (send_v1_request rpath mode @ data_message data @ sync_header ID_DONE mtime) s = Inr (True, s1)"
      "s' = RecordBytesTransferred (length data) (RecordFileSent lpath rpath s1)"
    using assms by (auto simp: SendSmallFile_def send_v1_request_def Let_def result_iff split: if_splits)
  show ?thesis using sends_or_die [OF 1(1)] 1(2) by (simp add: file_sent_def sends_def RecordBytesTransferred_def RecordFileSent_def)
qed

lemma send_contents_sends:
  assumes "send_contents codecs n fs lpath rpath mtime mode Comp_none False s = Inr (True, s')" "codecs Comp_none = (NullEncoder SYNC_DATA_MAX, new_null_codec)" "\<not> S_ISLNK mode"
  shows "\<exists>es ds. fs_open fs lpath = Some es \<and> file_sent lpath rpath mode mtime ds s s' \<and> concat ds = avail_bytes es \<and>
    ((\<forall>d \<in> set ds. length d \<le> SYNC_DATA_MAX) \<or> (\<exists>st. fs_stat fs lpath = Inr st \<and> st_size st < int SYNC_DATA_MAX \<and> SYNC_DATA_MAX < length (avail_bytes es)))"
proof -
  obtain st where st: "fs_stat fs lpath = Inr st" using assms(1,3) by (auto simp: send_contents_def split: sum.splits)
  show ?thesis
  proof (cases "st_size st < int SYNC_DATA_MAX")
    case True
    then obtain es data where d: "fs_open fs lpath = Some es" "ReadFdToString es = Some data" "SendSmallFile codecs n fs rpath mode lpath rpath mtime data False s = Inr (True, s')"
      using assms(1,3) st by (auto simp: send_contents_def ReadFileToString_def split: option.splits)
    have "data = avail_bytes es" using ReadFdToString_bytes [OF d(2)] .
    moreover have "length data \<le> SYNC_DATA_MAX \<or> SYNC_DATA_MAX < length data" by linarith
    ultimately show ?thesis using SendSmallFile_sends [OF d(3)] d(1) st True by (intro exI [of _ es] exI [of _ "[data]"]) auto
  next
    case False
    then have "SendLargeFile codecs n fs rpath mode lpath rpath mtime Comp_none False s = Inr (True, s')" using assms(1,3) st by (simp add: send_contents_def)
    from SendLargeFile_sends [OF this assms(2)] show ?thesis by blast
  qed
qed

section \<open>What the device confirms\<close>

lemma read_until_amount_appends: "read_until_amount should_block n s = (st, s') \<Longrightarrow> \<exists>x. acknowledgement_buffer s' = acknowledgement_buffer s @ x"
proof (induction should_block n s rule: read_until_amount.induct)
  case (1 should_block n s)
  let ?s = "if should_block then s else s\<lparr>poll_ready := tl (poll_ready s)\<rparr>"
  let ?n = "n - length (acknowledgement_buffer s)"
  obtain x es where x: "adb_read (fd_in s) ?n = (x, es)" by fastforce
  show ?case
  proof (cases "length (acknowledgement_buffer s) \<ge> n \<or> \<not> (should_block \<or> (poll_ready s \<noteq> [] \<and> hd (poll_ready s))) \<or> (\<forall>bs. x = Got bs \<longrightarrow> bs = [])")
    case True
    with 1(2) x show ?thesis by (subst (asm) read_until_amount.simps) (auto simp: Let_def Error_def split: if_splits read_return.splits)
  next
    case False
    then obtain bs where bs: "x = Got bs" "bs \<noteq> []" by blast
    let ?t = "?s\<lparr>fd_in := es, acknowledgement_buffer := acknowledgement_buffer s @ bs\<rparr>"
    have e: "read_until_amount should_block n s =
        (if \<not> should_block \<and> length (acknowledgement_buffer ?t) < n then (Try_later, ?t) else read_until_amount should_block n ?t)"
      using False x bs by (subst read_until_amount.simps) (simp add: Let_def)
    show ?thesis
    proof (cases "\<not> should_block \<and> length (acknowledgement_buffer ?t) < n")
      case True
      with e 1(2) have "s' = ?t" by simp
      then show ?thesis by simp
    next
      case c: False
      have u: "read_until_amount should_block n ?t = (st, s')" using e [unfolded if_not_P [OF c]] 1(2) by (rule subst)
      have "\<exists>y. acknowledgement_buffer s' = acknowledgement_buffer ?t @ y"
        by (rule 1(1) [of _ ?s x es bs ?t]) (use False x bs c u in \<open>auto split: if_splits\<close>)
      then show ?thesis by auto
    qed
  qed
qed

text \<open>A buffer with more than a header holds the beginning of a failure.\<close>

definition ack_inv :: "sync_conn \<Rightarrow> bool" where
  "ack_inv s \<longleftrightarrow> length (acknowledgement_buffer s) \<le> 8 \<or> le32_at (acknowledgement_buffer s) 0 \<noteq> ID_OKAY"

definition confirmed :: "nat \<Rightarrow> sync_conn \<Rightarrow> sync_conn \<Rightarrow> bool" where
  "confirmed k s s' \<longleftrightarrow> k \<le> length (deferred_acknowledgements s) \<and> deferred_acknowledgements s' = drop k (deferred_acknowledgements s) \<and>
     ack_stream s = concat (replicate k (sync_header ID_OKAY 0)) @ ack_stream s' \<and> fd_sent s' = fd_sent s \<and> ack_inv s'"

lemma only_reads_sent: "only_reads s s' \<Longrightarrow> fd_sent s' = fd_sent s"
  by (cases s; cases s') (simp add: only_reads_def)

lemma le32_at_append: "4 \<le> length a \<Longrightarrow> le32_at (a @ b) 0 = le32_at a 0"
  by (simp add: le32_at_def)

lemma first_header:
  assumes "read_until_amount block 8 s = (Read_success, s1)" "ack_inv s" "le32_at (acknowledgement_buffer s1) 0 = ID_OKAY" "le32_at (acknowledgement_buffer s1) 4 = 0"
  shows "acknowledgement_buffer s1 = sync_header ID_OKAY 0"
proof -
  obtain x where x: "acknowledgement_buffer s1 = acknowledgement_buffer s @ x" using read_until_amount_appends [OF assms(1)] by blast
  have l: "length (acknowledgement_buffer s1) = max 8 (length (acknowledgement_buffer s))" using read_until_amount_spec [OF assms(1)] by simp
  have "length (acknowledgement_buffer s) \<le> 8"
  proof (rule ccontr)
    assume n: "\<not> length (acknowledgement_buffer s) \<le> 8"
    then have "x = []" using l x by simp
    then show False using n assms(2,3) x by (simp add: ack_inv_def)
  qed
  then show ?thesis using l header_bytes [of "acknowledgement_buffer s1"] assms(3,4) by simp
qed

lemma ReadAcknowledgements_confirms:
  "ReadAcknowledgements read_all s = (True, s') \<Longrightarrow> ack_inv s \<Longrightarrow> (\<exists>k. confirmed k s s') \<and> (read_all \<longrightarrow> deferred_acknowledgements s' = [])"
proof (induction read_all s rule: ReadAcknowledgements.induct)
  case (1 read_all s)
  show ?case
  proof (cases "deferred_acknowledgements s")
    case Nil
    then show ?thesis using 1(2,3) by (auto simp: ReadAcknowledgements.simps confirmed_def intro: exI [of _ 0])
  next
    case (Cons d rest)
    obtain fr dst where d: "d = (fr, dst)" by fastforce
    let ?block = "read_all \<or> length (deferred_acknowledgements s) \<ge> max_deferred_acks"
    obtain st s1 where r: "read_until_amount ?block 8 s = (st, s1)" by fastforce
    note sp = read_until_amount_spec [OF r]
    have same: "deferred_acknowledgements s1 = deferred_acknowledgements s" "fd_sent s1 = fd_sent s" using sp only_reads_deferred only_reads_sent by auto
    let ?id = "le32_at (acknowledgement_buffer s1) 0" and ?len = "le32_at (acknowledgement_buffer s1) 4"
    let ?t = "s1\<lparr>acknowledgement_buffer := [], deferred_acknowledgements := rest\<rparr>"
    obtain st2 s2 where r2: "read_until_amount ?block (8 + unat ?len) s1 = (st2, s2)" by fastforce
    note sp2 = read_until_amount_spec [OF r2]
    consider (later) "st = Try_later" "s' = s1" | (okay) "st = Read_success" "?id = ID_OKAY" "?len = 0" "ReadAcknowledgements read_all ?t = (True, s')"
      | (waiting) "st = Read_success" "?id = ID_FAIL" "st2 = Try_later" "s' = s2"
      using 1(2) Cons d r r2 by (auto simp: ReadAcknowledgements.simps [of read_all s] Let_def split: read_status.splits if_splits)
    then show ?thesis
    proof cases
      case later
      then have "confirmed 0 s s'" "\<not> read_all" using sp same by (simp_all add: confirmed_def ack_inv_def)
      then show ?thesis by blast
    next
      case okay
      have b: "acknowledgement_buffer s1 = sync_header ID_OKAY 0" using first_header r okay(1-3) 1(3) by blast
      have "(\<exists>k. confirmed k ?t s') \<and> (read_all \<longrightarrow> deferred_acknowledgements s' = [])"
        by (rule 1(1) [of d rest fr dst ?block st s1 ?id ?len]) (use Cons d r okay in \<open>simp_all add: ack_inv_def\<close>)
      moreover have "confirmed (Suc k) s s'" if "confirmed k ?t s'" for k
        using that b sp okay(1) same Cons by (simp add: confirmed_def ack_stream_def)
      ultimately show ?thesis by blast
    next
      case waiting
      have "8 \<le> length (acknowledgement_buffer s1)" using sp waiting(1) by simp
      moreover obtain x where "acknowledgement_buffer s2 = acknowledgement_buffer s1 @ x" using read_until_amount_appends [OF r2] by blast
      ultimately have "ack_inv s2" using waiting(2) le32_at_append [of "acknowledgement_buffer s1" x] by (simp add: ack_inv_def sync_ids)
      then have "confirmed 0 s s'" "\<not> read_all" using sp sp2 waiting same only_reads_deferred only_reads_sent by (auto simp: confirmed_def)
      then show ?thesis by blast
    qed
  qed
qed

text \<open>The requests for a status: what they send is only appended, and what they read is gone.\<close>

definition asks :: "sync_conn \<Rightarrow> sync_conn \<Rightarrow> bool" where
  "asks s s' \<longleftrightarrow> (\<exists>pre. fd_sent s' = fd_sent s @ pre) \<and> (\<exists>c. avail_bytes (fd_in s) = c @ avail_bytes (fd_in s')) \<and>
     deferred_acknowledgements s' = deferred_acknowledgements s \<and> acknowledgement_buffer s' = acknowledgement_buffer s"

lemma asks_refl [simp]: "asks s s"
  by (simp add: asks_def)

lemma asks_trans: "asks s s1 \<Longrightarrow> asks s1 s2 \<Longrightarrow> asks s s2"
  unfolding asks_def by (metis append_assoc)

lemma asks_errno: "asks s s1 \<Longrightarrow> asks s (s1\<lparr>errno := e\<rparr>)"
  by (simp add: asks_def)

lemma asks_read:
  assumes "conn_read n s = (Some b, s')"
  shows "asks s s'"
proof -
  obtain es where "s' = s\<lparr>fd_in := es\<rparr>" using assms by (auto simp: conn_read_def split: prod.splits option.splits)
  then show ?thesis using conn_read_SomeD(1) [OF assms] by (simp add: asks_def)
qed

lemma asks_request: "SendRequest i path s = Inr (ok, s') \<Longrightarrow> asks s s'"
  by (auto simp: SendRequest_def conn_write_def Error_def asks_def split: if_splits prod.splits write_outcome.splits)

lemma asks_FinishStat: "FinishStat s = Inr (r, s') \<Longrightarrow> asks s s'"
  by (auto simp: FinishStat_def asks_errno split: if_splits prod.splits option.splits dest!: asks_read)

lemma asks_stat: "sync_stat path s = Inr (r, s') \<Longrightarrow> asks s s'" "sync_lstat path s = Inr (r, s') \<Longrightarrow> asks s s'"
  by (auto simp: sync_stat_def sync_lstat_def SendStat_def SendLstat_def result_iff asks_errno split: if_splits dest!: asks_request asks_FinishStat intro: asks_trans)

lemma asks_fallback:
  assumes "sync_stat_fallback path s = Inr (r, s')"
  shows "asks s s'"
proof -
  obtain st s1 where 1: "sync_stat path s = Inr (st, s1)" using assms by (auto simp: sync_stat_fallback_def result_iff)
  note q1 = asks_stat(1) [OF 1]
  show ?thesis
  proof (cases "st = None \<and> errno s1 = ENOTSUP")
    case False
    then show ?thesis using assms 1 q1 by (auto simp: sync_stat_fallback_def split: if_splits)
  next
    case True
    then obtain l s2 where 2: "sync_lstat path s1 = Inr (l, s2)" using assms 1 by (auto simp: sync_stat_fallback_def result_iff)
    have "asks s s2" using q1 asks_stat(2) [OF 2] asks_trans by blast
    with True assms 1 2 show ?thesis
      by (auto simp: sync_stat_fallback_def result_iff split: option.splits if_splits dest!: asks_stat(2) intro: asks_trans)
  qed
qed

lemma destroy_sent: "destroy_SyncConnection s = Inr s' \<Longrightarrow> \<exists>post. fd_sent s' = fd_sent s @ post"
  by (auto simp: destroy_SyncConnection_def SendQuit_def result_iff asks_def split: if_splits dest!: asks_request)

section \<open>Properties\<close>

lemma data_messages: "blocks ds = concat (map (\<lambda>d. msg_bytes (Data_msg d)) ds)"
  by (simp add: data_message_def [abs_def])

lemma S_ISREG_modes: "S_ISREG m \<Longrightarrow> \<not> S_ISDIR m \<and> \<not> S_ISLNK m \<and> should_push_file m"
  by (auto simp: S_ISREG_def S_ISDIR_def S_ISLNK_def S_IFREG_def S_IFDIR_def should_push_file_def)

text \<open>A push of one file that succeeds: the steps it has taken.\<close>

lemma push_one_file:
  assumes "do_sync_push_fd codecs n depth fs True feats [src] dst False Comp_none False env = Inr (True, b, s')" "fs_stat fs src = Inr st" "S_ISREG (st_mode st)"
  obtains rpath s0 s1 s2 s3 where "rpath \<in> {dst, with_separator dst @ Basename src}" "asks (SyncConnection feats env) s0"
    "send_contents codecs n fs src rpath (of_int (st_mtime st)) (st_mode st) Comp_none False s0 = Inr (True, s1)"
    "ReadAcknowledgements False s1 = (True, s2)" "ReadAcknowledgements True s2 = (True, s3)" "destroy_SyncConnection s3 = Inr s'"
proof -
  let ?s = "SyncConnection feats env"
  obtain d s0 where d: "check_push_destination [src] dst ?s = Inr (d, s0)" using assms(1) by (auto simp: do_sync_push_fd_def result_iff)
  obtain ex isdir where ed: "d = Some (ex, isdir)" using assms(1) d by (cases d) (auto simp: do_sync_push_fd_def result_iff)
  obtain st0 where st0: "sync_stat_fallback dst ?s = Inr (st0, s0)" using d ed by (auto simp: check_push_destination_def Let_def result_iff split: if_splits)
  define rpath where "rpath = (if isdir then with_separator dst @ Basename src else dst)"
  note reg = S_ISREG_modes [OF assms(3)]
  obtain r s1 where 1: "push_sources codecs n depth fs dst ex isdir False Comp_none False [src] True s0 = Inr (r, s1)" using assms(1) d ed by (auto simp: do_sync_push_fd_def result_iff)
  then obtain ok where r: "r = Some ok" using assms(1) d ed by (cases r) (auto simp: do_sync_push_fd_def result_iff)
  have send: "sync_send codecs n fs src rpath (of_int (st_mtime st)) (st_mode st) False Comp_none False s0 = Inr (ok, s1)"
    using 1 r assms(2) reg by (auto simp: push_source_def rpath_def result_iff split: if_splits)
  obtain acked s3 where 3: "ReadAcknowledgements True s1 = (acked, s3)" by fastforce
  then have ok: ok acked and des: "destroy_SyncConnection s3 = Inr s'" using assms(1) d ed 1 r by (auto simp: do_sync_push_fd_def result_iff)
  obtain s2 where "send_contents codecs n fs src rpath (of_int (st_mtime st)) (st_mode st) Comp_none False s0 = Inr (True, s2)" "ReadAcknowledgements False s2 = (True, s1)"
    using send ok(1) by (auto simp: sync_send_def result_iff split: if_splits)
  then show thesis using that [of rpath s0 s2 s1 s3] asks_fallback [OF st0] 3 ok(2) des by (simp add: rpath_def)
qed


text \<open>A file of five bytes is pushed to a device that has no such file; the acknowledgement arrives when it is waited for.\<close>

definition sample_file_stat :: file_stat where
  "sample_file_stat = \<lparr>st_dev = 0, st_ino = 0, st_mode = 0x81a4, st_nlink = 1, st_uid = 0, st_gid = 0, st_size = 5, st_atime = 0, st_mtime = 7, st_ctime = 7\<rparr>"

definition sample_fs :: local_fs where
  "sample_fs = \<lparr>fs_stat = (\<lambda>_. Inr sample_file_stat), fs_lstat = (\<lambda>_. Inr sample_file_stat), fs_link = (\<lambda>_. None), fs_open = (\<lambda>_. Some [Chunk ''hello'']), fs_list = (\<lambda>_. None)\<rparr>"

definition missing_reply :: string where
  "missing_reply = le32 ID_LSTAT_V1 @ le32 0 @ le32 0 @ le32 0"

definition sample_push_env :: sync_conn where
  "sample_push_env = plain_env [Chunk missing_reply, Chunk (sync_header ID_OKAY 0)] (replicate 3 (Took 2000))"

abbreviation null_encoders :: "compression \<Rightarrow> null_codec encoder_ops \<times> null_codec" where
  "null_encoders \<equiv> (\<lambda>_. (NullEncoder SYNC_DATA_MAX, new_null_codec))"

lemma write_whole: "b \<noteq> [] \<Longrightarrow> length b \<le> k \<Longrightarrow> WriteFdExactly (Took k # es) b = (Written, b, es)"
  by (cases b) simp_all

lemma read_whole: "length b = n \<Longrightarrow> 0 < n \<Longrightarrow> ReadFdExactly (Chunk b # es) n = (Some b, es)"
  by (subst ReadFdExactly.simps, cases "b = []") (simp_all add: ReadFdExactly.simps [of _ 0])

lemma missing_reply_simps: "length missing_reply = 16" "le32_at missing_reply 0 = ID_LSTAT_V1" "le32_at missing_reply 4 = 0" "le32_at missing_reply 8 = 0" "le32_at missing_reply 12 = 0"
  by (simp_all add: missing_reply_def le32_at_def)

lemma header_nonempty: "sync_header i k @ x \<noteq> []"
  using sync_header_simps(1) [of i k] by (metis append_is_Nil_conv list.size(3) zero_neq_numeral)

lemma sample_push_destination:
  "\<exists>s. check_push_destination [''f''] ''/d/f'' (SyncConnection [] sample_push_env) = Inr (Some (False, False), s) \<and> fd_in s = [Chunk (sync_header ID_OKAY 0)] \<and>
     fd_out s = replicate 2 (Took 2000) \<and> deferred_acknowledgements s = [] \<and> acknowledgement_buffer s = [] \<and> poll_ready s = []"
  using header_nonempty [of ID_LSTAT_V1 "6" "''/d/f''"]
  by (simp add: check_push_destination_def sync_stat_fallback_def sync_stat_def sync_lstat_def SendStat_def SendLstat_def SendRequest_def conn_write_def FinishStat_def
      conn_read_def write_whole read_whole missing_reply_simps sample_push_env_def plain_env_def SyncConnection_def CanUseFeature_def numeral_2_eq_2 numeral_3_eq_3 Let_def)

lemma sample_push_send:
  assumes "fd_out s = replicate 2 (Took 2000)" "deferred_acknowledgements s = []" "acknowledgement_buffer s = []" "poll_ready s = []" "fd_in s = [Chunk (sync_header ID_OKAY 0)]"
  shows "\<exists>s'. sync_send null_encoders n sample_fs ''f'' ''/d/f'' 7 0x81a4 False Comp_none False s = Inr (True, s') \<and> fd_out s' = [Took 2000] \<and>
    deferred_acknowledgements s' = [(''f'', ''/d/f'')] \<and> acknowledgement_buffer s' = [] \<and> fd_in s' = [Chunk (sync_header ID_OKAY 0)]"
proof -
  let ?pm = "path_and_mode ''/d/f'' 0x81a4"
  have pm: "length ?pm \<le> 1000" by (simp add: path_and_mode_def c_str_def to_dec_int_def to_base.simps)
  have rd: "ReadFdToString [Chunk ''hello''] = Some ''hello''" by (simp add: ReadFdToString.simps [of "[Chunk ''hello'']"] ReadFdToString.simps [of "[]"])
  have lnk: "\<not> S_ISLNK 0x81a4" by (simp add: S_ISLNK_def S_IFMT_def)
  obtain s1 where 1: "send_contents null_encoders n sample_fs ''f'' ''/d/f'' 7 0x81a4 Comp_none False s = Inr (True, s1)" "fd_out s1 = [Took 2000]"
      "deferred_acknowledgements s1 = [(''f'', ''/d/f'')]" "acknowledgement_buffer s1 = []" "poll_ready s1 = []" "fd_in s1 = [Chunk (sync_header ID_OKAY 0)]"
    using assms pm rd lnk header_nonempty
    by (simp add: send_contents_def SendSmallFile_def WriteOrDie_def conn_write_def write_whole sample_fs_def sample_file_stat_def ReadFileToString_def data_message_def
        RecordBytesTransferred_def RecordFileSent_def SYNC_DATA_MAX_def numeral_2_eq_2 Let_def)
  have "ReadAcknowledgements False s1 = (True, s1\<lparr>poll_ready := []\<rparr>)"
    using 1(3-5) by (simp add: ReadAcknowledgements.simps read_until_amount.simps max_deferred_acks_def Let_def)
  then show ?thesis using 1 by (simp add: sync_send_def)
qed

lemma sample_push_acks:
  assumes "deferred_acknowledgements s = [d]" "acknowledgement_buffer s = []" "fd_in s = [Chunk (sync_header ID_OKAY 0)]"
  shows "\<exists>s'. ReadAcknowledgements True s = (True, s') \<and> fd_in s' = [] \<and> fd_out s' = fd_out s"
proof -
  obtain a b where d: "d = (a, b)" by fastforce
  let ?s = "s\<lparr>fd_in := [], acknowledgement_buffer := sync_header ID_OKAY 0\<rparr>"
  have "read_until_amount True 8 s = (Read_success, ?s)"
    using assms header_nonempty [of ID_OKAY 0 "[]"] by (simp add: read_until_amount.simps [of True 8] Let_def)
  then show ?thesis using assms(1) d by (simp add: ReadAcknowledgements.simps Let_def)
qed

lemma sample_push_destroy:
  assumes "fd_out s = [Took 2000]" "fd_in s = []"
  shows "\<exists>s'. destroy_SyncConnection s = Inr s'"
  using assms header_nonempty [of ID_QUIT 0 "[]"]
  by (simp add: destroy_SyncConnection_def SendQuit_def SendRequest_def conn_write_def write_whole ReadOrderlyShutdown_def)

lemma sample_push_runs: "\<exists>b s'. do_sync_push_fd null_encoders n 0 sample_fs True [] [''f''] ''/d/f'' False Comp_none False sample_push_env = Inr (True, b, s')"
proof -
  obtain s0 where 0: "check_push_destination [''f''] ''/d/f'' (SyncConnection [] sample_push_env) = Inr (Some (False, False), s0)" "fd_in s0 = [Chunk (sync_header ID_OKAY 0)]"
      "fd_out s0 = replicate 2 (Took 2000)" "deferred_acknowledgements s0 = []" "acknowledgement_buffer s0 = []" "poll_ready s0 = []"
    using sample_push_destination by blast
  obtain s1 where 1: "sync_send null_encoders n sample_fs ''f'' ''/d/f'' 7 0x81a4 False Comp_none False s0 = Inr (True, s1)" "fd_out s1 = [Took 2000]"
      "deferred_acknowledgements s1 = [(''f'', ''/d/f'')]" "acknowledgement_buffer s1 = []" "fd_in s1 = [Chunk (sync_header ID_OKAY 0)]"
    using sample_push_send [OF 0(3-6,2)] by blast
  obtain s2 where 2: "ReadAcknowledgements True s1 = (True, s2)" "fd_in s2 = []" "fd_out s2 = [Took 2000]" using sample_push_acks [OF 1(3-5)] 1(2) by auto
  obtain s3 where 3: "destroy_SyncConnection s2 = Inr s3" using sample_push_destroy [OF 2(3,2)] by blast
  have reg: "\<not> S_ISDIR 0x81a4" "should_push_file 0x81a4" by (simp_all add: S_ISDIR_def S_IFDIR_def S_IFMT_def should_push_file_def S_ISREG_def S_IFREG_def)
  then have "push_source null_encoders n 0 sample_fs ''/d/f'' False False False Comp_none False ''f'' s0 = Inr (Some True, s1)"
    using 1(1) by (simp add: push_source_def sample_fs_def sample_file_stat_def)
  then show ?thesis using 0(1) 2(1) 3 by (simp add: do_sync_push_fd_def)
qed


section \<open>Directories cannot be pushed\<close>

text \<open>The loop over the directories above the destination ends for an absolute path, and only for such a path.\<close>

lemma dirs_above_absolute_only:
  assumes ret: "dirs_above p = Some ds"
  shows "p \<noteq> [] \<Longrightarrow> length p \<le> 2000 \<Longrightarrow> is_absolute p"
proof (rule dirs_above.raw_induct [where P = "\<lambda>p ds. p \<noteq> [] \<longrightarrow> length p \<le> 2000 \<longrightarrow> is_absolute p", OF _ ret, THEN mp, THEN mp])
  fix f p ds
  assume IH: "\<And>p ds. f p = Some ds \<Longrightarrow> p \<noteq> [] \<longrightarrow> length p \<le> 2000 \<longrightarrow> is_absolute p"
    and eq: "(if is_root_dir p then Some [] else Option.bind (f (Dirname p)) (\<lambda>ds. Some (p # ds))) = Some ds"
  show "p \<noteq> [] \<longrightarrow> length p \<le> 2000 \<longrightarrow> is_absolute p"
  proof (intro impI)
    assume p: "p \<noteq> []" "length p \<le> 2000"
    show "is_absolute p"
    proof (cases "is_root_dir p")
      case True
      then show ?thesis using p(1) by (simp add: is_root_dir_def is_absolute_def)
    next
      case False
      then obtain ds' where "f (Dirname p) = Some ds'" using eq by (auto simp: bind_eq_Some_conv)
      then have "is_absolute (Dirname p)" using IH Dirname_short [OF p] by metis
      then show ?thesis using Dirname_parts(2) [OF p(1)] Dirname_short(2) [OF p] by simp
    qed
  qed
qed

lemma dirs_above_ends: "is_absolute p \<Longrightarrow> length p \<le> 2000 \<Longrightarrow> \<exists>ds. dirs_above p = Some ds"
proof (induction "length p" arbitrary: p rule: less_induct)
  case less
  have p: "p \<noteq> []" using less.prems(1) by (simp add: is_absolute_def)
  note d = Dirname_short [OF p less.prems(2)]
  show ?case
  proof (cases "is_root_dir p")
    case False
    have abs: "is_absolute (Dirname p)" using Dirname_parts(2) [OF p] d(2) less.prems(1) by simp
    have "dirname_r p \<noteq> p" using dirname_fixed [OF p] False less.prems(1) by (auto simp: is_root_dir_def is_absolute_def)
    moreover have "dirname_r p \<noteq> ''.''" using abs d(1) by (auto simp: is_absolute_def)
    ultimately have "length (Dirname p) < length p" using dirname_shorter [OF p] d(1) by simp
    then obtain ds where "dirs_above (Dirname p) = Some ds" using less.hyps abs d by auto
    then show ?thesis using False by (subst dirs_above.simps) simp
  qed (subst dirs_above.simps, simp)
qed

lemma local_build_list_opened:
  "fs_list fs lpath = Some names \<Longrightarrow> local_build_list depth fs lpath rpath fl dl s = Inr (ok, fl', dl', s') \<Longrightarrow> ok"
  by (cases depth) (auto simp: result_iff)


definition empty_dir_fs :: local_fs where
  "empty_dir_fs = sample_fs\<lparr>fs_list := (\<lambda>_. Some [''.'', ''..''])\<rparr>"


end
