(* ===== verification/Spec2Isabelle.thy ===== *)
theory Spec2Isabelle
  imports IOVec Net_Address Shell_Protocol Socket_Properties Event_Loop Connection_Adapter Reconnect Sync_Tree Sync_Push
begin

text \<open>
  A verification of the host side of \<open>adb\<close>, the Android debug bridge: the server that multiplexes clients and devices, the
  library functions it is built from, and the client side of the file sync protocol.

  \<^bold>\<open>The program.\<close> A client connects to the server and sends a request (\<open>adb/sockets.cpp\<close>, smart sockets; \<open>adb/adb.cpp\<close>,
  \<open>adb/services.cpp\<close>). The server answers it, or connects the client to a service on a device. A device is a transport
  (\<open>adb/transport.cpp\<close>) with a connection that carries packets. For every stream between a client and a device there is a local
  socket, bound to the client's descriptor, whose peer is a remote socket, bound to the transport. Forwarding listeners
  (\<open>adb/adb_listeners.cpp\<close>) open such streams for connections to a local port. All of it runs on one thread, the looper
  (\<open>adb/fdevent\<close>); the threads of a connection and the reconnect handler hand their results to it.

  \<^bold>\<open>Ground.\<close> \<open>Prelude\<close> has the outcomes of code that may abort (\<open>fault\<close>, sequencing by \<open>bind_r\<close>) and searching in strings;
  \<open>Strings_Base\<close> the functions of \<open>system/libbase\<close> (\<open>Split\<close>, \<open>Join\<close>, \<open>Trim\<close>, number parsing) and \<open>escape_arg\<close>; \<open>Paths\<close> \<open>Basename\<close>, \<open>Dirname\<close>
  and \<open>mkdirs\<close>; \<open>Net_Address\<close> the parsing and printing of network addresses (\<open>system/libbase/parsenetaddress.cpp\<close>,
  \<open>adb/lib/src/api/device_address.cpp\<close>). A pointer that is null or stale, an index out of range, a failed \<open>CHECK\<close>, \<open>LOG(FATAL)\<close>, \<open>exit\<close>
  and an exception nobody catches are values of \<open>fault\<close>, so that a theorem that an operation gives \<open>Inr\<close> says that none of them happens.

  \<^bold>\<open>Bytes and streams.\<close> \<open>Byte_Queue\<close> is the interface of a byte queue, \<open>IOVec\<close> the \<open>Block\<close> and \<open>IOVector\<close> of \<open>adb/types.h\<close> that implements it:
  a lossless queue under every interleaving. \<open>Adb_Io\<close> models descriptors as scripts of what each system call
  returns, with the exact reads and writes and the protocol strings of \<open>adb/adb_io.cpp\<close>. \<open>Stream_Codec\<close> is the interface of a message format over such a
  stream; the protocol strings, the packets of \<open>Packet\<close> (\<open>amessage\<close>, \<open>apacket\<close>, the checksum, \<open>FdConnection\<close>) and the packets of \<open>Shell_Protocol\<close> satisfy it,
  so that conversations are read back however the bytes are cut up.

  \<^bold>\<open>The server.\<close> \<open>Transport\<close> has the transport object, its banner and features, choosing and listing devices. \<open>World\<close> is the state of the server:
  the heap of sockets, addressed by pointers that are never reused, the transports, the listeners, the looper's queue and
  the log of what was sent. \<open>Sockets\<close> has the functions of \<open>sockets.cpp\<close>; \<open>Socket_Invariant\<close>, \<open>Socket_Links\<close>, \<open>Socket_Frames\<close> and
  \<open>Socket_Flow\<close> the invariant \<open>heap_ok\<close> of the socket heap and what each function does to it; \<open>Socket_Properties\<close> what follows: closing is memory safe and
  complete, data is delivered in order, the window of delayed acknowledgements is respected. \<open>Listeners\<close> has the forwarding table; \<open>Registration\<close>
  how transports come and go; \<open>Packet_Handler\<close> \<open>handle_packet\<close> and authentication (\<open>adb/adb.cpp\<close>, \<open>adb/client/auth.cpp\<close>); \<open>Host_Service\<close> the parsing of
  requests, \<open>Smart_Socket\<close> the smart socket and the host requests. \<open>Smart_Safety\<close> and \<open>Client_Safety\<close> show that no bytes of a client
  and \<open>Packet_Handler\<close> that no packet of a device makes the server follow a bad pointer; \<open>Event_Loop\<close> composes them: every state the looper reaches is consistent.
  The exceptions the proofs found are theorems too: an authentication packet that leaves a stale pointer, and a
  hangup on a socket that outlived its device.

  \<^bold>\<open>Threads.\<close> \<open>Refinement\<close> is the interface of a state machine that implements an abstract one. \<open>Connection_Adapter\<close> has the two threads of a connection with
  \<open>Stop\<close> and the TLS handshake, interleaved at the mutex; it implements a channel, and stopping cannot
  deadlock. \<open>Reconnect\<close> has the reconnect handler; it implements a custodian of transports that gives each one back once.

  \<^bold>\<open>File sync.\<close> \<open>Sync_Protocol\<close> has the requests, file status and listings of \<open>adb/lib/src/file_sync_client.cpp\<close>, \<open>Sync_Acks\<close> the
  matching of deferred acknowledgements with files, \<open>Sync_Codec\<close> the interfaces of the codecs of \<open>adb/compression_utils.h\<close> and the copying ones. \<open>Sync_Pull\<close>
  pulls one file: it arrives exactly or not at all. \<open>Sync_Pull_Dir\<close> has \<open>remote_build_list\<close>, \<open>copy_remote_dir_local\<close> and \<open>do_sync_pull_fd\<close> and shows that
  no answer of a device leads to a path outside the destination; \<open>Sync_Tree\<close> describes a directory tree and what a device sends for it, and shows that pulling reproduces it.
  \<open>Sync_Push\<close> has \<open>sync_send\<close> and \<open>do_sync_push_fd\<close>: a push that succeeds has sent exactly the file, and the device has confirmed it; pushing a directory never returns.

  \<^bold>\<open>Surroundings.\<close> What the operating system returns is a script or an \<open>environment\<close>, and the theorems hold for all of them. The cryptographic library,
  the mDNS and USB backends and the compression libraries are not part of the sources; their results are parameters of the definitions that use them.

  \<^bold>\<open>Bounds.\<close> The looper runs its queue with the length of the queue as bound, and \<open>close_all_sockets\<close> is given one round more than there are local
  sockets; both are shown to be enough. The depth of \<open>remote_build_list\<close> is bounded by the bytes there are to read, and \<open>remote_build_list_rec\<close> shows that it satisfies the
  equation of the code for every input. The number of outputs a codec may have for one input is a parameter; one is enough for the copying codecs. The depth of a local directory that
  is pushed is a parameter, and the loop over the directories above a destination is a partial function, since it may not end. A script of writes that ends while the code still wants to
  write means that the call does not return (\<open>OutOfFuel\<close>). All other loops are structural or have a measure. The 32-bit fields of messages are words; sizes in memory are natural
  numbers, since a \<open>size_t\<close> cannot overflow before memory does.

  \<^bold>\<open>Not modelled.\<close> The command line tool and its output (\<open>adb/client/commandline.cpp\<close> and others: text for a terminal around calls that are modelled), incremental
  installation and fastdeploy (they need the device's tools and generated protocol buffers), the public C++ library interface of \<open>adb/lib\<close>
  apart from addresses and file sync (threads and callbacks of the embedding application), USB, mDNS and TLS (external libraries), the archive and logging libraries under
  \<open>system\<close> (independent of the bridge), and Windows variants.
\<close>

end
